(* ===== verification/Prelude.thy ===== *)
theory Prelude
  imports Main "HOL-Library.Word"
begin

text \<open>
  Shared types, C library helpers and list lemmas of the development.

  A C buffer \<^verbatim>\<open>char buf[N + 1] = {0}\<close> that the firmware only ever fills with
  \<^verbatim>\<open>strncpy(buf, s, sizeof(buf) - 1)\<close> is modelled by the characters before its terminator:
  a \<open>string\<close> of length at most \<open>N\<close>. Its last byte is never written, so it always is the
  terminator, and \<^verbatim>\<open>strncpy\<close> pads with NUL up to \<open>N\<close>, so nothing of an earlier, longer value
  is left. A \<^verbatim>\<open>const char*\<close> argument likewise is the list of the characters before its NUL.
\<close>

type_synonym u8 = "8 word"
type_synonym u16 = "16 word"
type_synonym u32 = "32 word"
type_synonym u64 = "64 word"

named_theorems store_defs "definitions of the array backed stores"
named_theorems inv_intros "an operation keeps the invariant of its component"

section \<open>C string functions\<close>

text \<open>\<^verbatim>\<open>strncpy(dst, src, n)\<close> into a zero initialised buffer of \<open>n + 1\<close> bytes.\<close>

definition strncpy :: "nat \<Rightarrow> string \<Rightarrow> string" where
  "strncpy n s = take n s"

text \<open>\<^verbatim>\<open>strncmp\<close>: the sign of the comparison, characters read as unsigned bytes.\<close>

fun strcmp :: "string \<Rightarrow> string \<Rightarrow> int" where
  "strcmp [] [] = 0"
| "strcmp [] (b # bs) = -1"
| "strcmp (a # as) [] = 1"
| "strcmp (a # as) (b # bs) =
     (if a = b then strcmp as bs
      else if (of_char a :: nat) < of_char b then -1 else 1)"

definition strncmp :: "string \<Rightarrow> string \<Rightarrow> nat \<Rightarrow> int" where
  "strncmp a b n = strcmp (take n a) (take n b)"

text \<open>The characters of a \<^verbatim>\<open>String\<close> that its \<^verbatim>\<open>c_str()\<close> shows: up to the first NUL.\<close>

definition c_str :: "string \<Rightarrow> string" where
  "c_str s = takeWhile (\<lambda>c. c \<noteq> CHR 0x00) s"

lemma strcmp_eq_0 [simp]: "strcmp a b = 0 \<longleftrightarrow> a = b"
  by (induction a b rule: strcmp.induct) auto

lemma strcmp_refl: "strcmp a a = 0"
  by simp

lemma strncmp_eq_0: "strncmp a b n = 0 \<longleftrightarrow> take n a = take n b"
  by (simp add: strncmp_def)

lemma length_strncpy [simp]: "length (strncpy n s) \<le> n"
  by (simp add: strncpy_def)

lemma strncpy_id [simp]: "length s \<le> n \<Longrightarrow> strncpy n s = s"
  by (simp add: strncpy_def)

lemma strncpy_Nil [simp]: "strncpy n [] = []"
  by (simp add: strncpy_def)

lemma strncpy_eq_Nil [simp]: "strncpy n s = [] \<longleftrightarrow> n = 0 \<or> s = []"
  by (simp add: strncpy_def)

lemma take_strncpy [simp]: "take n (strncpy n s) = take n s"
  by (simp add: strncpy_def)

lemma strncpy_idem [simp]: "strncpy n (strncpy n s) = strncpy n s"
  by (simp add: strncpy_def)

text \<open>\<^verbatim>\<open>strcmp(a, b) > 0\<close> is a strict linear order read backwards.\<close>

lemma strcmp_antisym: "strcmp a b > 0 \<longleftrightarrow> strcmp b a < 0"
  by (induction a b rule: strcmp.induct) auto

lemma strcmp_trans: "strcmp a b \<le> 0 \<Longrightarrow> strcmp b c \<le> 0 \<Longrightarrow> strcmp a c \<le> 0"
proof (induction a b arbitrary: c rule: strcmp.induct)
  case (2 b bs)
  then show ?case by (cases c) auto
next
  case (4 a as b bs)
  then show ?case by (cases c) (auto split: if_splits)
next
  case (1 c)
  then show ?case by simp
next
  case (3 a as)
  then show ?case by simp
qed

lemma strcmp_total: "strcmp a b \<le> 0 \<or> strcmp b a \<le> 0"
  by (induction a b rule: strcmp.induct) auto

section \<open>First index: the search loop of the array stores\<close>

text \<open>\<^verbatim>\<open>for (i = 0; i < count; i++) if (p(entries[i])) return i;\<close>\<close>

fun first_index :: "('a \<Rightarrow> bool) \<Rightarrow> 'a list \<Rightarrow> nat option" where
  "first_index p [] = None"
| "first_index p (x # xs) = (if p x then Some 0 else map_option Suc (first_index p xs))"

lemma first_index_None [simp]: "first_index p xs = None \<longleftrightarrow> (\<forall>x \<in> set xs. \<not> p x)"
  by (induction xs) auto

lemma first_index_SomeD:
  "first_index p xs = Some i \<Longrightarrow> i < length xs \<and> p (xs ! i) \<and> (\<forall>j < i. \<not> p (xs ! j))"
proof (induction xs arbitrary: i)
  case (Cons x xs)
  then show ?case
    by (auto split: if_splits simp: nth_Cons split: nat.splits)
qed simp

lemma first_index_Some_iff:
  "first_index p xs = Some i \<longleftrightarrow> i < length xs \<and> p (xs ! i) \<and> (\<forall>j < i. \<not> p (xs ! j))"
proof
  assume r: "i < length xs \<and> p (xs ! i) \<and> (\<forall>j < i. \<not> p (xs ! j))"
  then obtain k where k: "first_index p xs = Some k"
    using first_index_None [of p xs] by (cases "first_index p xs") auto
  from first_index_SomeD [OF k] r have "k = i"
    by (meson linorder_neqE_nat)
  with k show "first_index p xs = Some i" by simp
qed (rule first_index_SomeD)

section \<open>Removal by swapping the last entry in\<close>

text \<open>\<^verbatim>\<open>entries[i] = entries[count - 1]; count--;\<close>\<close>

definition swap_remove :: "nat \<Rightarrow> 'a list \<Rightarrow> 'a list" where
  "swap_remove i xs = take (length xs - 1) (xs[i := xs ! (length xs - 1)])"

lemma length_swap_remove [simp]: "length (swap_remove i xs) = length xs - 1"
  by (simp add: swap_remove_def)

lemma swap_remove_nth:
  "j < length xs - 1 \<Longrightarrow> swap_remove i xs ! j = (if j = i then last xs else xs ! j)"
  by (cases xs rule: rev_cases) (auto simp: swap_remove_def nth_list_update nth_append)

lemma set_swap_remove:
  assumes "distinct xs" and "i < length xs"
  shows "set (swap_remove i xs) = set xs - {xs ! i}"
proof -
  obtain ys y where xs: "xs = ys @ [y]"
    using assms(2) by (cases xs rule: rev_cases) auto
  show ?thesis
  proof (cases "i = length ys")
    case True
    with assms show ?thesis by (simp add: swap_remove_def xs)
  next
    case False
    with assms have i: "i < length ys" by (simp add: xs)
    then have "swap_remove i xs = ys[i := y]"
      by (simp add: swap_remove_def xs list_update_append1)
    moreover have "set (ys[i := y]) = insert y (set ys - {ys ! i})"
      using assms(1) i by (simp add: set_update_distinct xs)
    ultimately show ?thesis using assms(1) i by (auto simp: xs nth_append)
  qed
qed

lemma set_swap_remove_subset: "i < length xs \<Longrightarrow> set (swap_remove i xs) \<subseteq> set xs"
  by (auto simp: swap_remove_def dest!: in_set_takeD intro: set_update_subset_insert [THEN subsetD]
      dest: set_update_subset_insert [THEN subsetD])

lemma map_swap_remove: "xs \<noteq> [] \<Longrightarrow> i < length xs \<Longrightarrow> map f (swap_remove i xs) = swap_remove i (map f xs)"
  by (auto intro!: nth_equalityI simp: swap_remove_def nth_list_update)

lemma distinct_swap_remove:
  assumes "distinct xs" and "i < length xs"
  shows "distinct (swap_remove i xs)"
proof -
  obtain ys y where xs: "xs = ys @ [y]"
    using assms(2) by (cases xs rule: rev_cases) auto
  show ?thesis
  proof (cases "i = length ys")
    case True
    with assms show ?thesis by (simp add: swap_remove_def xs)
  next
    case False
    with assms have i: "i < length ys" by (simp add: xs)
    then have "swap_remove i xs = ys[i := y]"
      by (simp add: swap_remove_def xs list_update_append1)
    with assms(1) i show ?thesis by (simp add: distinct_list_update xs)
  qed
qed

section \<open>Words\<close>

text \<open>\<^verbatim>\<open>static_cast<uint32_t>(x)\<close> of a wider signed value.\<close>

definition to_u32 :: "int \<Rightarrow> u32" where
  "to_u32 x = word_of_int x"

lemma unat_to_u32: "0 \<le> x \<Longrightarrow> x < 2 ^ 32 \<Longrightarrow> int (unat (to_u32 x)) = x"
  by (simp add: to_u32_def unat_eq_nat_uint uint_word_of_int)

lemma unat_to_u32_le: "0 \<le> x \<Longrightarrow> int (unat (to_u32 x)) \<le> x"
  by (simp add: to_u32_def unat_eq_nat_uint uint_word_of_int zmod_le_nonneg_dividend)

lemma uint_to_u32: "0 \<le> x \<Longrightarrow> x < 2 ^ 32 \<Longrightarrow> uint (to_u32 x) = x"
  by (simp add: to_u32_def uint_word_of_int)

lemma uint_to_u32_diff: "b \<le> a \<Longrightarrow> a - b < 2 ^ 32 \<Longrightarrow> uint (to_u32 (a - b)) = a - b"
  by (rule uint_to_u32) simp_all

lemma uint_of_nat_small: "n < 2 ^ LENGTH('a) \<Longrightarrow> uint (of_nat n :: 'a :: len word) = int n"
  by (simp add: uint_nat unat_of_nat)

lemma uint_ucast_up:
  assumes "LENGTH('a) \<le> LENGTH('b)"
  shows "uint (ucast (x :: 'a :: len word) :: 'b :: len word) = uint x"
proof -
  have "uint x < 2 ^ LENGTH('a)" by (rule uint_bounded)
  also have "\<dots> \<le> (2 :: int) ^ LENGTH('b)" using assms by (simp add: power_increasing)
  finally show ?thesis by (simp add: unsigned_ucast_eq take_bit_int_eq_self_iff)
qed

lemma unat_ucast_up:
  "LENGTH('a) \<le> LENGTH('b) \<Longrightarrow> unat (ucast (x :: 'a :: len word) :: 'b :: len word) = unat x"
  using uint_ucast_up [where 'a = 'a and 'b = 'b, of x] by (simp only: unat_eq_nat_uint)

text \<open>C's division truncates towards zero.\<close>

definition c_div :: "int \<Rightarrow> int \<Rightarrow> int" where
  "c_div a b = sgn a * sgn b * (\<bar>a\<bar> div \<bar>b\<bar>)"

definition c_mod :: "int \<Rightarrow> int \<Rightarrow> int" where
  "c_mod a b = a - b * c_div a b"

lemma c_div_nonneg [simp]: "0 \<le> a \<Longrightarrow> 0 < b \<Longrightarrow> c_div a b = a div b"
  by (cases "a = 0") (simp_all add: c_div_def)

lemma c_mod_nonneg [simp]: "0 \<le> a \<Longrightarrow> 0 < b \<Longrightarrow> c_mod a b = a mod b"
  by (simp add: c_mod_def minus_mult_div_eq_mod)

lemma c_mod_bounds: "0 < b \<Longrightarrow> - b < c_mod a b \<and> c_mod a b < b"
proof -
  assume b: "0 < b"
  show ?thesis
  proof (cases "0 \<le> a")
    case True
    with b show ?thesis
      using pos_mod_bound [OF b, of a] pos_mod_sign [OF b, of a] by simp
  next
    case False
    with b have "c_mod a b = - ((- a) mod b)"
      by (simp add: c_mod_def c_div_def minus_mult_div_eq_mod [symmetric])
    with b show ?thesis
      using pos_mod_bound [OF b, of "- a"] pos_mod_sign [OF b, of "- a"] by simp
  qed
qed

end
