(* ===== verification/Bounded_Index.thy ===== *)
theory Bounded_Index
  imports Prelude
begin

text \<open>
  The interface the fixed-capacity stores share (\<open>JobIndex\<close>, \<open>TaskIndex\<close>, \<open>WifiStore\<close>): an
  array of at most \<open>cap\<close> entries, looked up by the first \<open>klen\<close> characters of a key, with an
  insert that overwrites an entry of the same key and refuses a new key when the array is full.
  The abstract specification is a finite map with a bound on its size; the locale
  \<open>bounded_index\<close> states the laws of one operation and proves, once for all stores, that every
  sequence of operations refines the bounded map, results included.
\<close>

section \<open>The abstract specification: a map with a bounded domain\<close>

datatype 'e index_op = Upsert 'e | Remove string | Clear

fun spec_op :: "nat \<Rightarrow> nat \<Rightarrow> ('e \<Rightarrow> string) \<Rightarrow> 'e index_op \<Rightarrow> (string \<rightharpoonup> 'e) \<Rightarrow> bool \<times> (string \<rightharpoonup> 'e)" where
  "spec_op klen cap key (Upsert e) m =
     (let k = take klen (key e)
      in if m k \<noteq> None \<or> card (dom m) < cap then (True, m(k \<mapsto> e)) else (False, m))"
| "spec_op klen cap key (Remove k) m = (m (take klen k) \<noteq> None, m(take klen k := None))"
| "spec_op klen cap key Clear m = (True, Map.empty)"

fun spec_run :: "nat \<Rightarrow> nat \<Rightarrow> ('e \<Rightarrow> string) \<Rightarrow> 'e index_op list \<Rightarrow> (string \<rightharpoonup> 'e) \<Rightarrow>
    bool list \<times> (string \<rightharpoonup> 'e)" where
  "spec_run klen cap key [] m = ([], m)"
| "spec_run klen cap key (p # ps) m =
     (let (r, m') = spec_op klen cap key p m; (rs, m'') = spec_run klen cap key ps m'
      in (r # rs, m''))"

text \<open>The same operations run on a concrete store, given by its own functions.\<close>

fun index_step :: "('e list \<Rightarrow> 'e \<Rightarrow> bool \<times> 'e list) \<Rightarrow> ('e list \<Rightarrow> string \<Rightarrow> bool \<times> 'e list) \<Rightarrow>
    'e index_op \<Rightarrow> 'e list \<Rightarrow> bool \<times> 'e list" where
  "index_step ups rem (Upsert e) s = ups s e"
| "index_step ups rem (Remove k) s = rem s k"
| "index_step ups rem Clear s = (True, [])"

fun index_run :: "('e list \<Rightarrow> 'e \<Rightarrow> bool \<times> 'e list) \<Rightarrow> ('e list \<Rightarrow> string \<Rightarrow> bool \<times> 'e list) \<Rightarrow>
    'e index_op list \<Rightarrow> 'e list \<Rightarrow> bool list \<times> 'e list" where
  "index_run ups rem [] s = ([], s)"
| "index_run ups rem (p # ps) s =
     (let (r, s') = index_step ups rem p s; (rs, s'') = index_run ups rem ps s'
      in (r # rs, s''))"

text \<open>The map an index stands for.\<close>

definition index_abs :: "nat \<Rightarrow> ('e list \<Rightarrow> string \<Rightarrow> 'e option) \<Rightarrow> 'e list \<Rightarrow> string \<rightharpoonup> 'e" where
  "index_abs klen fnd s = (\<lambda>k. if length k \<le> klen then fnd s k else None)"

section \<open>The interface\<close>

locale bounded_index =
  fixes klen cap :: nat
    and key :: "'e \<Rightarrow> string"
    and fnd :: "'e list \<Rightarrow> string \<Rightarrow> 'e option"
    and ups :: "'e list \<Rightarrow> 'e \<Rightarrow> bool \<times> 'e list"
    and rem :: "'e list \<Rightarrow> string \<Rightarrow> bool \<times> 'e list"
    and wf :: "'e \<Rightarrow> bool"
    and inv :: "'e list \<Rightarrow> bool"
  assumes inv_empty: "inv []"
    and fnd_empty: "fnd [] k = None"
    and fnd_take: "fnd s (take klen k) = fnd s k"
    and inv_length: "inv s \<Longrightarrow> length s \<le> cap"
    and inv_card: "inv s \<Longrightarrow> card {k. length k \<le> klen \<and> fnd s k \<noteq> None} = length s"
    and ups_ok: "inv s \<Longrightarrow> wf e \<Longrightarrow> fst (ups s e) \<longleftrightarrow> fnd s (key e) \<noteq> None \<or> length s < cap"
    and ups_fail: "inv s \<Longrightarrow> wf e \<Longrightarrow> \<not> fst (ups s e) \<Longrightarrow> snd (ups s e) = s"
    and ups_inv: "inv s \<Longrightarrow> wf e \<Longrightarrow> inv (snd (ups s e))"
    and ups_fnd: "inv s \<Longrightarrow> wf e \<Longrightarrow> fst (ups s e) \<Longrightarrow>
      fnd (snd (ups s e)) k = (if take klen k = take klen (key e) then Some e else fnd s k)"
    and rem_ok: "inv s \<Longrightarrow> fst (rem s k) \<longleftrightarrow> fnd s k \<noteq> None"
    and rem_inv: "inv s \<Longrightarrow> inv (snd (rem s k))"
    and rem_fnd: "inv s \<Longrightarrow>
      fnd (snd (rem s k)) k' = (if take klen k' = take klen k then None else fnd s k')"
begin

fun wf_op :: "'e index_op \<Rightarrow> bool" where
  "wf_op (Upsert e) = wf e"
| "wf_op _ = True"

lemma op_inv: "inv s \<Longrightarrow> wf_op p \<Longrightarrow> inv (snd (index_step ups rem p s))"
  by (cases p) (simp_all add: ups_inv rem_inv inv_empty)

lemma card_abs: "inv s \<Longrightarrow> card (dom (index_abs klen fnd s)) = length s"
proof -
  have "dom (index_abs klen fnd s) = {k. length k \<le> klen \<and> fnd s k \<noteq> None}"
    by (auto simp: index_abs_def dom_def split: if_splits)
  then show "inv s \<Longrightarrow> ?thesis" using inv_card [of s] by simp
qed

lemma abs_take [simp]: "index_abs klen fnd s (take klen k) = fnd s k"
  by (simp add: index_abs_def fnd_take)

lemma op_refines:
  assumes "inv s" and "wf_op p"
  shows "map_prod id (index_abs klen fnd) (index_step ups rem p s) =
    spec_op klen cap key p (index_abs klen fnd s)"
proof (cases p)
  case (Upsert e)
  with assms have wf: "wf e" by simp
  have "index_abs klen fnd (snd (ups s e)) =
      (if fst (ups s e) then (index_abs klen fnd s)(take klen (key e) \<mapsto> e) else index_abs klen fnd s)"
    using ups_fnd [OF assms(1) wf] ups_fail [OF assms(1) wf]
    by (auto simp: index_abs_def fun_eq_iff)
  then show ?thesis
    using ups_ok [OF assms(1) wf] card_abs [OF assms(1)]
    by (cases "ups s e") (auto simp: Upsert Let_def)
next
  case (Remove k)
  have "index_abs klen fnd (snd (rem s k)) = (index_abs klen fnd s)(take klen k := None)"
    using rem_fnd [OF assms(1)] by (auto simp: index_abs_def fun_eq_iff)
  then show ?thesis
    using rem_ok [OF assms(1), of k] by (cases "rem s k") (simp add: Remove)
next
  case Clear
  then show ?thesis by (simp add: index_abs_def fnd_empty fun_eq_iff)
qed

lemma run_refines:
  "inv s \<Longrightarrow> \<forall>p \<in> set ps. wf_op p \<Longrightarrow>
   map_prod id (index_abs klen fnd) (index_run ups rem ps s) =
     spec_run klen cap key ps (index_abs klen fnd s) \<and> inv (snd (index_run ups rem ps s))"
proof (induction ps arbitrary: s)
  case Nil
  then show ?case by simp
next
  case (Cons p ps)
  obtain r s' where st: "index_step ups rem p s = (r, s')" by force
  obtain rs s'' where run: "index_run ups rem ps s' = (rs, s'')" by force
  from Cons.prems have "inv s'" using op_inv [of s p] by (simp add: st)
  with Cons have IH: "(rs, index_abs klen fnd s'') = spec_run klen cap key ps (index_abs klen fnd s')"
    and inv'': "inv s''"
    by (force simp: run)+
  from Cons.prems have "(r, index_abs klen fnd s') = spec_op klen cap key p (index_abs klen fnd s)"
    using op_refines [of s p] by (simp add: st)
  with IH inv'' show ?case
    by (simp add: st run split: prod.splits) (metis prod.inject)
qed

lemma run_from_empty:
  assumes "\<forall>p \<in> set ps. wf_op p"
  shows "map_prod id (index_abs klen fnd) (index_run ups rem ps []) = spec_run klen cap key ps Map.empty"
    and "length (snd (index_run ups rem ps [])) \<le> cap"
proof -
  have "index_abs klen fnd [] = Map.empty"
    by (simp add: index_abs_def fnd_empty fun_eq_iff)
  then show "map_prod id (index_abs klen fnd) (index_run ups rem ps []) = spec_run klen cap key ps Map.empty"
    using run_refines [OF inv_empty assms] by simp
  show "length (snd (index_run ups rem ps [])) \<le> cap"
    using run_refines [OF inv_empty assms] by (blast intro: inv_length)
qed

lemma ups_then_fnd: "inv s \<Longrightarrow> wf e \<Longrightarrow> fst (ups s e) \<Longrightarrow> fnd (snd (ups s e)) (key e) = Some e"
  by (simp add: ups_fnd)

lemma ups_other: "inv s \<Longrightarrow> wf e \<Longrightarrow> take klen k \<noteq> take klen (key e) \<Longrightarrow> fnd (snd (ups s e)) k = fnd s k"
  by (cases "fst (ups s e)") (simp_all add: ups_fnd ups_fail)

end

section \<open>The array implementation\<close>

text \<open>
  The loops the three classes have in common, over the live prefix of the array. Each class's
  own functions are shown equal to these in its theory.
\<close>

definition ix_pos :: "nat \<Rightarrow> ('e \<Rightarrow> string) \<Rightarrow> 'e list \<Rightarrow> string \<Rightarrow> nat option" where
  "ix_pos klen key s k = first_index (\<lambda>e. strncmp (key e) k klen = 0) s"

definition ix_find :: "nat \<Rightarrow> ('e \<Rightarrow> string) \<Rightarrow> 'e list \<Rightarrow> string \<Rightarrow> 'e option" where
  "ix_find klen key s k = map_option (\<lambda>i. s ! i) (ix_pos klen key s k)"

definition ix_upsert :: "nat \<Rightarrow> nat \<Rightarrow> ('e \<Rightarrow> string) \<Rightarrow> 'e list \<Rightarrow> 'e \<Rightarrow> bool \<times> 'e list" where
  "ix_upsert klen cap key s e =
     (case ix_pos klen key s (key e) of
        Some i \<Rightarrow> (True, s[i := e])
      | None \<Rightarrow> if cap \<le> length s then (False, s) else (True, s @ [e]))"

definition ix_remove :: "nat \<Rightarrow> ('e \<Rightarrow> string) \<Rightarrow> 'e list \<Rightarrow> string \<Rightarrow> bool \<times> 'e list" where
  "ix_remove klen key s k =
     (case ix_pos klen key s k of Some i \<Rightarrow> (True, swap_remove i s) | None \<Rightarrow> (False, s))"

definition ix_keys :: "nat \<Rightarrow> ('e \<Rightarrow> string) \<Rightarrow> 'e list \<Rightarrow> string list" where
  "ix_keys klen key s = map (\<lambda>e. take klen (key e)) s"

definition ix_inv :: "nat \<Rightarrow> nat \<Rightarrow> ('e \<Rightarrow> string) \<Rightarrow> 'e list \<Rightarrow> bool" where
  "ix_inv klen cap key s \<longleftrightarrow> length s \<le> cap \<and> distinct (ix_keys klen key s)"

lemma ix_keys_simps [simp]:
  "length (ix_keys klen key s) = length s"
  "i < length s \<Longrightarrow> ix_keys klen key s ! i = take klen (key (s ! i))"
  "ix_keys klen key (s @ [e]) = ix_keys klen key s @ [take klen (key e)]"
  "ix_keys klen key (s[i := e]) = (ix_keys klen key s)[i := take klen (key e)]"
  by (simp_all add: ix_keys_def map_update)

lemma ix_pos_Some:
  assumes "distinct (ix_keys klen key s)"
  shows "ix_pos klen key s k = Some i \<longleftrightarrow> i < length s \<and> take klen (key (s ! i)) = take klen k"
proof -
  have "i < length s \<Longrightarrow> take klen (key (s ! i)) = take klen k \<Longrightarrow> j < i \<Longrightarrow>
      take klen (key (s ! j)) \<noteq> take klen k" for j
    using assms nth_eq_iff_index_eq [of "ix_keys klen key s" i j] by auto
  then show ?thesis by (auto simp: ix_pos_def first_index_Some_iff strncmp_eq_0)
qed

lemma in_ix_keys: "n \<in> set (ix_keys klen key s) \<longleftrightarrow> (\<exists>x \<in> set s. take klen (key x) = n)"
  by (auto simp: ix_keys_def)

lemma ix_pos_None: "ix_pos klen key s k = None \<longleftrightarrow> take klen k \<notin> set (ix_keys klen key s)"
  by (simp add: ix_pos_def in_ix_keys strncmp_eq_0)

lemma ix_find_Some:
  assumes "distinct (ix_keys klen key s)"
  shows "ix_find klen key s k = Some e \<longleftrightarrow> e \<in> set s \<and> take klen (key e) = take klen k"
  using ix_pos_Some [OF assms] by (fastforce simp: ix_find_def in_set_conv_nth)

lemma ix_find_None: "ix_find klen key s k = None \<longleftrightarrow> take klen k \<notin> set (ix_keys klen key s)"
  by (simp add: ix_find_def ix_pos_None)

lemma ix_find_take: "ix_find klen key s (take klen k) = ix_find klen key s k"
  by (simp add: ix_find_def ix_pos_def strncmp_def)

lemma option_eqI: "(\<And>v. a = Some v \<longleftrightarrow> b = Some v) \<Longrightarrow> a = b"
  by (cases a; cases b) auto

lemma set_update_keys:
  assumes "distinct (map f s)" and "i < length s"
  shows "set (s[i := e]) = insert e (set s - {s ! i})"
  using set_update_distinct [of s i e] assms by (simp add: distinct_map)

lemma ix_upsert_find:
  assumes d: "distinct (ix_keys klen key s)" and ok: "fst (ix_upsert klen cap key s e)"
  shows "distinct (ix_keys klen key (snd (ix_upsert klen cap key s e)))"
    and "ix_find klen key (snd (ix_upsert klen cap key s e)) k =
      (if take klen k = take klen (key e) then Some e else ix_find klen key s k)"
proof -
  have both: "distinct (ix_keys klen key (snd (ix_upsert klen cap key s e))) \<and>
      (\<forall>x. x \<in> set (snd (ix_upsert klen cap key s e)) \<longleftrightarrow>
        x = e \<or> x \<in> set s \<and> take klen (key x) \<noteq> take klen (key e))"
  proof (cases "ix_pos klen key s (key e)")
    case None
    then have n: "take klen (key e) \<notin> set (ix_keys klen key s)" by (simp add: ix_pos_None)
    moreover from ok None have "\<not> cap \<le> length s" by (auto simp: ix_upsert_def split: if_splits)
    ultimately show ?thesis using d by (auto simp: ix_upsert_def None in_ix_keys)
  next
    case (Some i)
    then have i: "i < length s" "take klen (key (s ! i)) = take klen (key e)"
      by (simp_all add: ix_pos_Some [OF d])
    have upd: "set (s[i := e]) = insert e (set s - {s ! i})"
      using d i(1) by (intro set_update_keys) (simp_all add: ix_keys_def)
    have same: "(ix_keys klen key s)[i := take klen (key e)] = ix_keys klen key s"
      using i by (metis ix_keys_simps(2) list_update_id)
    have "x \<in> set s \<and> take klen (key x) = take klen (key e) \<longleftrightarrow> x = s ! i" for x
      using ix_find_Some [OF d, of "key e" x] Some i by (auto simp: ix_find_def)
    with upd same d Some show ?thesis by (auto simp: ix_upsert_def)
  qed
  then show d': "distinct (ix_keys klen key (snd (ix_upsert klen cap key s e)))" by simp
  have "ix_find klen key (snd (ix_upsert klen cap key s e)) k = Some x \<longleftrightarrow>
      (if take klen k = take klen (key e) then Some e else ix_find klen key s k) = Some x" for x
  proof -
    from both have "x \<in> set (snd (ix_upsert klen cap key s e)) \<longleftrightarrow>
        x = e \<or> x \<in> set s \<and> take klen (key x) \<noteq> take klen (key e)" by blast
    then show ?thesis unfolding ix_find_Some [OF d']
      by (cases "take klen k = take klen (key e)") (auto simp: ix_find_Some [OF d])
  qed
  then show "ix_find klen key (snd (ix_upsert klen cap key s e)) k =
      (if take klen k = take klen (key e) then Some e else ix_find klen key s k)"
    by (rule option_eqI)
qed

lemma ix_remove_find:
  assumes d: "distinct (ix_keys klen key s)"
  shows "distinct (ix_keys klen key (snd (ix_remove klen key s k)))"
    and "ix_find klen key (snd (ix_remove klen key s k)) k' =
      (if take klen k' = take klen k then None else ix_find klen key s k')"
proof -
  have both: "distinct (ix_keys klen key (snd (ix_remove klen key s k))) \<and>
      (\<forall>x. x \<in> set (snd (ix_remove klen key s k)) \<longleftrightarrow> x \<in> set s \<and> take klen (key x) \<noteq> take klen k)"
  proof (cases "ix_pos klen key s k")
    case None
    then have "take klen k \<notin> set (ix_keys klen key s)" by (simp add: ix_pos_None)
    with d show ?thesis by (auto simp: ix_remove_def None in_ix_keys)
  next
    case (Some i)
    then have i: "i < length s" "take klen (key (s ! i)) = take klen k"
      by (simp_all add: ix_pos_Some [OF d])
    have ds: "distinct s" using d by (simp add: ix_keys_def distinct_map)
    have "s \<noteq> []" using i by auto
    then have "ix_keys klen key (swap_remove i s) = swap_remove i (ix_keys klen key s)"
      unfolding ix_keys_def using i(1) by (rule map_swap_remove)
    then have "distinct (ix_keys klen key (swap_remove i s))"
      using d i(1) by (simp add: distinct_swap_remove)
    moreover have "x \<in> set s \<and> take klen (key x) = take klen k \<longleftrightarrow> x = s ! i" for x
      using ix_find_Some [OF d, of k x] Some i by (auto simp: ix_find_def)
    ultimately show ?thesis
      using set_swap_remove [OF ds i(1)] Some by (auto simp: ix_remove_def)
  qed
  then show d': "distinct (ix_keys klen key (snd (ix_remove klen key s k)))" by simp
  have "ix_find klen key (snd (ix_remove klen key s k)) k' = Some x \<longleftrightarrow>
      (if take klen k' = take klen k then None else ix_find klen key s k') = Some x" for x
  proof -
    from both have "x \<in> set (snd (ix_remove klen key s k)) \<longleftrightarrow>
        x \<in> set s \<and> take klen (key x) \<noteq> take klen k" by blast
    then show ?thesis unfolding ix_find_Some [OF d']
      by (cases "take klen k' = take klen k") (auto simp: ix_find_Some [OF d])
  qed
  then show "ix_find klen key (snd (ix_remove klen key s k)) k' =
      (if take klen k' = take klen k then None else ix_find klen key s k')"
    by (rule option_eqI)
qed

lemma ix_card:
  assumes "distinct (ix_keys klen key s)"
  shows "card {k. length k \<le> klen \<and> ix_find klen key s k \<noteq> None} = length s"
proof -
  have "{k. length k \<le> klen \<and> ix_find klen key s k \<noteq> None} = set (ix_keys klen key s)"
    by (auto simp: ix_find_None ix_keys_def)
  then show ?thesis using assms by (metis distinct_card ix_keys_simps(1))
qed

lemma ix_upsert_fst:
  "fst (ix_upsert klen cap key s e) \<longleftrightarrow> ix_find klen key s (key e) \<noteq> None \<or> length s < cap"
  by (auto simp: ix_upsert_def ix_find_def split: option.splits)

lemma ix_upsert_fail: "\<not> fst (ix_upsert klen cap key s e) \<Longrightarrow> snd (ix_upsert klen cap key s e) = s"
  by (auto simp: ix_upsert_def split: option.splits if_splits)

lemma ix_upsert_inv:
  assumes "ix_inv klen cap key s"
  shows "ix_inv klen cap key (snd (ix_upsert klen cap key s e))"
proof (cases "fst (ix_upsert klen cap key s e)")
  case True
  moreover have "length (snd (ix_upsert klen cap key s e)) \<le> cap"
    using assms by (auto simp: ix_inv_def ix_upsert_def split: option.splits)
  ultimately show ?thesis
    using assms ix_upsert_find(1) by (auto simp: ix_inv_def)
qed (simp add: ix_upsert_fail assms)

lemma ix_remove_inv:
  "ix_inv klen cap key s \<Longrightarrow> ix_inv klen cap key (snd (ix_remove klen key s k))"
  using ix_remove_find(1) [of klen key s k]
  by (auto simp: ix_inv_def ix_remove_def split: option.splits)

text \<open>Every store built from these loops meets the interface.\<close>

lemma ix_bounded_index:
  "bounded_index klen cap key (ix_find klen key) (ix_upsert klen cap key) (ix_remove klen key)
     (\<lambda>_. True) (ix_inv klen cap key)"
proof (unfold_locales, goal_cases)
  case (5 s)
  then show ?case unfolding ix_inv_def by (blast intro: ix_card)
next
  case (8 s e)
  then show ?case by (simp add: ix_upsert_inv)
next
  case (9 s e k)
  then show ?case by (simp add: ix_upsert_find(2) ix_inv_def)
next
  case (10 s k)
  then show ?case by (auto simp: ix_remove_def ix_find_def split: option.splits)
next
  case (11 s k)
  then show ?case by (simp add: ix_remove_inv)
next
  case (12 s k k')
  then show ?case by (simp add: ix_remove_find(2) ix_inv_def)
qed (simp_all add: ix_inv_def ix_find_take ix_upsert_fst ix_upsert_fail,
     simp_all add: ix_keys_def ix_find_def ix_pos_def)

text \<open>Appending a fresh entry, and changing an entry in place without touching its key.\<close>

lemma ix_upsert_new:
  assumes "ix_inv klen cap key (acc @ [e])"
  shows "ix_upsert klen cap key acc e = (True, acc @ [e])"
  using assms by (auto simp: ix_inv_def ix_upsert_def ix_pos_None [THEN iffD2])

lemma ix_keys_update:
  assumes "key e = key (s ! i)"
  shows "ix_keys klen key (s[i := e]) = ix_keys klen key s"
  using assms by (metis ix_keys_simps(2,4) list_update_beyond list_update_id not_le_imp_less)

lemma ix_inv_update:
  "ix_inv klen cap key s \<Longrightarrow> key e = key (s ! i) \<Longrightarrow> ix_inv klen cap key (s[i := e])"
  unfolding ix_inv_def by (simp only: ix_keys_update length_list_update simp_thms)

end
