(* ===== verification/Platform.thy ===== *)
theory Platform
  imports Prelude
begin

text \<open>
  The interfaces the firmware calls but does not implement: the SD card (\<open>SDCardManager\<close> of the
  FreeInk SDK, a git submodule) and ArduinoJson. Both are parameters of every definition that
  uses them, here packed into a record of functions; their documented behaviour is the
  predicate \<open>sd_laws\<close> and \<open>json_laws\<close>, a named hypothesis of the theorems that rely on it. The
  Arduino \<open>String\<close> holding a file's text is the type variable \<open>'c\<close>, the state of the card
  is \<open>'s\<close> and a JSON variant is \<open>'v\<close>.
\<close>

section \<open>The SD card\<close>

record ('s, 'c) sd_card =
  sd_exists :: "'s \<Rightarrow> string \<Rightarrow> bool"
  sd_read :: "'s \<Rightarrow> string \<Rightarrow> 'c"
  sd_write :: "'s \<Rightarrow> string \<Rightarrow> 'c \<Rightarrow> bool \<times> 's"
  sd_remove :: "'s \<Rightarrow> string \<Rightarrow> bool \<times> 's"
  sd_rename :: "'s \<Rightarrow> string \<Rightarrow> string \<Rightarrow> bool \<times> 's"
  sd_mkdir :: "'s \<Rightarrow> string \<Rightarrow> 's"
  sd_files :: "'s \<Rightarrow> string \<rightharpoonup> 'c"

text \<open>
  \<open>sd_files\<close> is the view the laws are stated in (which file holds what). A failed write may
  have left anything under the path it wrote; every other failed operation changes nothing.
\<close>

definition sd_laws :: "('s, 'c) sd_card \<Rightarrow> bool" where
  "sd_laws sd \<longleftrightarrow>
     (\<forall>s p. sd_exists sd s p = (sd_files sd s p \<noteq> None)) \<and>
     (\<forall>s p c. sd_files sd s p = Some c \<longrightarrow> sd_read sd s p = c) \<and>
     (\<forall>s p c s'. sd_write sd s p c = (True, s') \<longrightarrow> sd_files sd s' = (sd_files sd s)(p \<mapsto> c)) \<and>
     (\<forall>s p c s' q. sd_write sd s p c = (False, s') \<and> q \<noteq> p \<longrightarrow>
        sd_files sd s' q = sd_files sd s q) \<and>
     (\<forall>s p s'. sd_remove sd s p = (True, s') \<longrightarrow> sd_files sd s' = (sd_files sd s)(p := None)) \<and>
     (\<forall>s p s'. sd_remove sd s p = (False, s') \<longrightarrow> sd_files sd s' = sd_files sd s) \<and>
     (\<forall>s p q s'. sd_rename sd s p q = (True, s') \<longrightarrow>
        sd_files sd s' = (sd_files sd s)(p := None, q := sd_files sd s p)) \<and>
     (\<forall>s p q s'. sd_rename sd s p q = (False, s') \<longrightarrow> sd_files sd s' = sd_files sd s) \<and>
     (\<forall>s p. sd_files sd (sd_mkdir sd s p) = sd_files sd s)"

lemma sd_existsD:
  "sd_laws sd \<Longrightarrow> sd_exists sd s p = (sd_files sd s p \<noteq> None)"
  by (simp add: sd_laws_def)

lemma sd_readD:
  "sd_laws sd \<Longrightarrow> sd_files sd s p = Some c \<Longrightarrow> sd_read sd s p = c"
  by (simp add: sd_laws_def)

lemma sd_write_okD:
  "sd_laws sd \<Longrightarrow> sd_write sd s p c = (True, s') \<Longrightarrow> sd_files sd s' = (sd_files sd s)(p \<mapsto> c)"
  by (simp add: sd_laws_def)

lemma sd_write_failD:
  "sd_laws sd \<Longrightarrow> sd_write sd s p c = (False, s') \<Longrightarrow> q \<noteq> p \<Longrightarrow> sd_files sd s' q = sd_files sd s q"
  by (simp add: sd_laws_def)

lemma sd_remove_okD:
  "sd_laws sd \<Longrightarrow> sd_remove sd s p = (True, s') \<Longrightarrow> sd_files sd s' = (sd_files sd s)(p := None)"
  by (simp add: sd_laws_def)

lemma sd_remove_failD:
  "sd_laws sd \<Longrightarrow> sd_remove sd s p = (False, s') \<Longrightarrow> sd_files sd s' = sd_files sd s"
  by (simp add: sd_laws_def)

lemma sd_rename_okD:
  "sd_laws sd \<Longrightarrow> sd_rename sd s p q = (True, s') \<Longrightarrow> sd_files sd s' = (sd_files sd s)(p := None, q := sd_files sd s p)"
  by (simp add: sd_laws_def)

lemma sd_rename_failD:
  "sd_laws sd \<Longrightarrow> sd_rename sd s p q = (False, s') \<Longrightarrow> sd_files sd s' = sd_files sd s"
  by (simp add: sd_laws_def)

lemma sd_mkdirD:
  "sd_laws sd \<Longrightarrow> sd_files sd (sd_mkdir sd s p) = sd_files sd s"
  by (simp add: sd_laws_def)

text \<open>The same card where the state has another component, which no card operation touches.\<close>

definition sd_with :: "('s, 'c) sd_card \<Rightarrow> ('s \<times> 'x, 'c) sd_card" where
  "sd_with sd = \<lparr>
     sd_exists = (\<lambda>(s, _) p. sd_exists sd s p),
     sd_read = (\<lambda>(s, _) p. sd_read sd s p),
     sd_write = (\<lambda>(s, x) p c. let (b, s') = sd_write sd s p c in (b, s', x)),
     sd_remove = (\<lambda>(s, x) p. let (b, s') = sd_remove sd s p in (b, s', x)),
     sd_rename = (\<lambda>(s, x) p q. let (b, s') = sd_rename sd s p q in (b, s', x)),
     sd_mkdir = (\<lambda>(s, x) p. (sd_mkdir sd s p, x)),
     sd_files = (\<lambda>(s, _). sd_files sd s)\<rparr>"

lemma sd_with_simps [simp]:
  "snd (snd (sd_write (sd_with sd) sx p c)) = snd sx"
  "snd (snd (sd_remove (sd_with sd) sx p)) = snd sx"
  "snd (snd (sd_rename (sd_with sd) sx p q)) = snd sx"
  "snd (sd_mkdir (sd_with sd) sx p) = snd sx"
  by (simp_all add: sd_with_def split: prod.splits)

lemma sd_with_eqD:
  "sd_write (sd_with sd) sx p c = (b, sx') \<Longrightarrow> snd sx' = snd sx"
  "sd_remove (sd_with sd) sx p = (b, sx') \<Longrightarrow> snd sx' = snd sx"
  "sd_rename (sd_with sd) sx p q = (b, sx') \<Longrightarrow> snd sx' = snd sx"
  using sd_with_simps(1) [of sd sx p c] sd_with_simps(2) [of sd sx p] sd_with_simps(3) [of sd sx p q] by simp_all

lemma sd_with_laws: "sd_laws sd \<Longrightarrow> sd_laws (sd_with sd)"
  by (auto simp: sd_laws_def sd_with_def split: prod.splits)

section \<open>ArduinoJson\<close>

text \<open>What the firmware builds before it serialises a document.\<close>

datatype json_out =
    JStr string
  | JInt int
  | JBool bool
  | JArr "json_out list"
  | JObj "(string \<times> json_out) list"

record ('c, 'v) json_lib =
  j_serialize :: "json_out \<Rightarrow> 'c"
  j_deserialize :: "'c \<Rightarrow> 'v option"
  j_isEmpty :: "'c \<Rightarrow> bool"
  j_get :: "'v \<Rightarrow> string \<Rightarrow> 'v"
  j_array :: "'v \<Rightarrow> 'v list"
  j_str :: "'v \<Rightarrow> string option"
  j_int :: "'v \<Rightarrow> int option"
  j_bool :: "'v \<Rightarrow> bool option"
  j_val :: "json_out \<Rightarrow> 'v"

text \<open>
  \<open>j_str\<close>, \<open>j_int\<close> and \<open>j_bool\<close> are \<^verbatim>\<open>is<T>()\<close> and \<^verbatim>\<open>as<T>()\<close> in one: the value if the variant
  holds a \<open>T\<close>. The documented \<^verbatim>\<open>variant | def\<close> takes its \<open>T\<close> from the default: in
  \<^verbatim>\<open>doc["k"] | 0\<close> the default is an \<open>int\<close>, 32 bits on the ESP32-C3, and a number
  outside that range is not an \<open>int\<close>, so the default is taken.
\<close>

definition json_or_str :: "('c, 'v) json_lib \<Rightarrow> 'v \<Rightarrow> string \<Rightarrow> string \<Rightarrow> string" where
  "json_or_str J v k d = (case j_str J (j_get J v k) of Some s \<Rightarrow> s | None \<Rightarrow> d)"

definition json_or_int :: "('c, 'v) json_lib \<Rightarrow> 'v \<Rightarrow> string \<Rightarrow> int \<Rightarrow> int" where
  "json_or_int J v k d = (case j_int J (j_get J v k) of Some n \<Rightarrow> n | None \<Rightarrow> d)"

definition json_or_bool :: "('c, 'v) json_lib \<Rightarrow> 'v \<Rightarrow> string \<Rightarrow> bool \<Rightarrow> bool" where
  "json_or_bool J v k d = (case j_bool J (j_get J v k) of Some b \<Rightarrow> b | None \<Rightarrow> d)"

definition int_fits :: "int \<Rightarrow> bool" where
  "int_fits n \<longleftrightarrow> - (2 ^ 31) \<le> n \<and> n < 2 ^ 31"

definition json_laws :: "('c, 'v) json_lib \<Rightarrow> bool" where
  "json_laws J \<longleftrightarrow>
     (\<forall>d. \<not> j_isEmpty J (j_serialize J d)) \<and>
     (\<forall>d. j_deserialize J (j_serialize J d) = Some (j_val J d)) \<and>
     (\<forall>kvs k d. map_of kvs k = Some d \<longrightarrow> j_get J (j_val J (JObj kvs)) k = j_val J d) \<and>
     (\<forall>ds. j_array J (j_val J (JArr ds)) = map (j_val J) ds) \<and>
     (\<forall>s. j_str J (j_val J (JStr s)) = Some s) \<and>
     (\<forall>n. j_int J (j_val J (JInt n)) = (if int_fits n then Some n else None)) \<and>
     (\<forall>b. j_bool J (j_val J (JBool b)) = Some b)"

lemma j_notEmptyD:
  "json_laws J \<Longrightarrow> \<not> j_isEmpty J (j_serialize J d)"
  by (simp add: json_laws_def)

lemma j_roundtripD:
  "json_laws J \<Longrightarrow> j_deserialize J (j_serialize J d) = Some (j_val J d)"
  by (simp add: json_laws_def)

lemma j_getD:
  "json_laws J \<Longrightarrow> map_of kvs k = Some d \<Longrightarrow> j_get J (j_val J (JObj kvs)) k = j_val J d"
  by (simp add: json_laws_def)

lemma j_arrayD:
  "json_laws J \<Longrightarrow> j_array J (j_val J (JArr ds)) = map (j_val J) ds"
  by (simp add: json_laws_def)

lemma j_strD:
  "json_laws J \<Longrightarrow> j_str J (j_val J (JStr s)) = Some s"
  by (simp add: json_laws_def)

lemma j_intD:
  "json_laws J \<Longrightarrow> j_int J (j_val J (JInt n)) = (if int_fits n then Some n else None)"
  by (simp add: json_laws_def)

lemma j_boolD:
  "json_laws J \<Longrightarrow> j_bool J (j_val J (JBool b)) = Some b"
  by (simp add: json_laws_def)

lemma json_or_strD:
  "json_laws J \<Longrightarrow> map_of kvs k = Some (JStr s) \<Longrightarrow> json_or_str J (j_val J (JObj kvs)) k d = s"
  by (simp add: json_or_str_def j_getD j_strD)

lemma json_or_intD:
  "json_laws J \<Longrightarrow> map_of kvs k = Some (JInt n) \<Longrightarrow>
     json_or_int J (j_val J (JObj kvs)) k d = (if int_fits n then n else d)"
  by (simp add: json_or_int_def j_getD j_intD)

lemma json_or_boolD:
  "json_laws J \<Longrightarrow> map_of kvs k = Some (JBool b) \<Longrightarrow> json_or_bool J (j_val J (JObj kvs)) k d = b"
  by (simp add: json_or_bool_def j_getD j_boolD)

lemmas json_read_back = json_or_strD json_or_intD json_or_boolD

section \<open>Concrete instances for the witnesses\<close>

text \<open>
  A card that never fails, and a JSON library whose text is the document itself. They only
  show that the hypotheses above can hold together; nothing is proved from them but the
  witnesses.
\<close>

definition mem_card :: "(string \<rightharpoonup> 'c, 'c) sd_card" where
  "mem_card = \<lparr>
     sd_exists = (\<lambda>s p. s p \<noteq> None),
     sd_read = (\<lambda>s p. the (s p)),
     sd_write = (\<lambda>s p c. (True, s(p \<mapsto> c))),
     sd_remove = (\<lambda>s p. (True, s(p := None))),
     sd_rename = (\<lambda>s p q. (True, s(p := None, q := s p))),
     sd_mkdir = (\<lambda>s p. s),
     sd_files = (\<lambda>s. s)\<rparr>"

lemma mem_card_laws: "sd_laws mem_card"
  by (simp add: sd_laws_def mem_card_def)

definition plain_get :: "json_out \<Rightarrow> string \<Rightarrow> json_out" where
  "plain_get v k = (case v of JObj kvs \<Rightarrow> (case map_of kvs k of Some d \<Rightarrow> d | None \<Rightarrow> JArr []) | _ \<Rightarrow> JArr [])"

definition plain_json :: "(json_out, json_out) json_lib" where
  "plain_json = \<lparr>
     j_serialize = (\<lambda>d. d),
     j_deserialize = Some,
     j_isEmpty = (\<lambda>_. False),
     j_get = plain_get,
     j_array = (\<lambda>v. case v of JArr ds \<Rightarrow> ds | _ \<Rightarrow> []),
     j_str = (\<lambda>v. case v of JStr s \<Rightarrow> Some s | _ \<Rightarrow> None),
     j_int = (\<lambda>v. case v of JInt n \<Rightarrow> if int_fits n then Some n else None | _ \<Rightarrow> None),
     j_bool = (\<lambda>v. case v of JBool b \<Rightarrow> Some b | _ \<Rightarrow> None),
     j_val = (\<lambda>d. d)\<rparr>"

lemma plain_json_laws: "json_laws plain_json"
  by (simp add: json_laws_def plain_json_def plain_get_def)

end
