(* ===== verification/Atomic_File.thy ===== *)
theory Atomic_File
  imports Platform
begin

text \<open>
  \<open>store::writeFileAtomic\<close> (src/firmware/src/store/AtomicJsonFile.cpp), the durable write every
  SD backed store uses, and its behaviour under a power loss. The function itself is
  \<open>writeFileAtomic\<close>; \<open>aw_step\<close> is the same code one SD card call at a time, so that a power
  loss between two calls is a reachable state of the step relation.
\<close>

section \<open>The function\<close>

definition tmp_path :: "string \<Rightarrow> string" where
  "tmp_path path = path @ ''.tmp''"

definition writeFileAtomic :: "('s, 'c) sd_card \<Rightarrow> 's \<Rightarrow> string \<Rightarrow> 'c \<Rightarrow> bool \<times> 's" where
  "writeFileAtomic sd s path content =
     (let (w_ok, s1) = sd_write sd s (tmp_path path) content
      in if \<not> w_ok then (False, s1)
         else let (gone, s2) = (if sd_exists sd s1 path then sd_remove sd s1 path else (True, s1))
           in if \<not> gone then (False, snd (sd_remove sd s2 (tmp_path path)))
              else let (r_ok, s3) = sd_rename sd s2 (tmp_path path) path
                in if \<not> r_ok then (False, s3) else (True, s3))"

lemma tmp_path_neq [simp]: "tmp_path path \<noteq> path" "path \<noteq> tmp_path path"
  by (simp_all add: tmp_path_def)

lemma writeFileAtomic_ok:
  assumes laws: "sd_laws sd" and ok: "writeFileAtomic sd s path c = (True, s')"
  shows "sd_files sd s' = (sd_files sd s)(tmp_path path := None, path \<mapsto> c)"
proof -
  obtain s1 where w: "sd_write sd s (tmp_path path) c = (True, s1)"
    using ok by (cases "sd_write sd s (tmp_path path) c") (auto simp: writeFileAtomic_def split: if_splits)
  obtain s2 where r: "(if sd_exists sd s1 path then sd_remove sd s1 path else (True, s1)) = (True, s2)"
    and m: "sd_rename sd s2 (tmp_path path) path = (True, s')"
    using ok by (auto simp: writeFileAtomic_def w Let_def split: prod.splits if_splits)
  have f1: "sd_files sd s1 = (sd_files sd s)(tmp_path path \<mapsto> c)"
    by (rule sd_write_okD [OF laws w])
  have f2: "sd_files sd s2 = (sd_files sd s1)(path := None)"
    using r by (auto simp: sd_existsD [OF laws] sd_remove_okD [OF laws] split: if_splits)
  show ?thesis
    using sd_rename_okD [OF laws m] by (auto simp: f1 f2 fun_eq_iff)
qed

text \<open>Whatever happens, no file but the target and its temporary is touched.\<close>

lemma writeFileAtomic_frame:
  assumes laws: "sd_laws sd" and q: "q \<noteq> path" "q \<noteq> tmp_path path"
  shows "sd_files sd (snd (writeFileAtomic sd s path c)) q = sd_files sd s q"
proof -
  have w: "sd_files sd (snd (sd_write sd s p c)) q = sd_files sd s q" if "q \<noteq> p" for s p c
    using that sd_write_okD [OF laws, of s p c] sd_write_failD [OF laws, of s p c]
    by (cases "sd_write sd s p c"; cases "fst (sd_write sd s p c)") auto
  have r: "sd_files sd (snd (sd_remove sd s p)) q = sd_files sd s q" if "q \<noteq> p" for s p
    using that sd_remove_okD [OF laws, of s p] sd_remove_failD [OF laws, of s p]
    by (cases "sd_remove sd s p"; cases "fst (sd_remove sd s p)") auto
  have m: "sd_files sd (snd (sd_rename sd s p p')) q = sd_files sd s q" if "q \<noteq> p" "q \<noteq> p'" for s p p'
    using that sd_rename_okD [OF laws, of s p p'] sd_rename_failD [OF laws, of s p p']
    by (cases "sd_rename sd s p p'"; cases "fst (sd_rename sd s p p')") auto
  show ?thesis
    using q w [of "tmp_path path" s c] r m
    by (auto simp: writeFileAtomic_def Let_def split: prod.splits if_splits) (metis snd_conv)+
qed

section \<open>The same code, one SD card call at a time\<close>

datatype aw_pc = WriteTmp | CheckOld | RemoveOld | CleanTmp | RenameTmp | Finished bool

inductive aw_step :: "('s, 'c) sd_card \<Rightarrow> string \<Rightarrow> 'c \<Rightarrow> aw_pc \<times> 's \<Rightarrow> aw_pc \<times> 's \<Rightarrow> bool"
  for sd :: "('s, 'c) sd_card" and path :: string and c :: 'c where
  write_ok: "sd_write sd s (tmp_path path) c = (True, s') \<Longrightarrow>
    aw_step sd path c (WriteTmp, s) (CheckOld, s')"
| write_fail: "sd_write sd s (tmp_path path) c = (False, s') \<Longrightarrow>
    aw_step sd path c (WriteTmp, s) (Finished False, s')"
| old_there: "sd_exists sd s path \<Longrightarrow> aw_step sd path c (CheckOld, s) (RemoveOld, s)"
| old_absent: "\<not> sd_exists sd s path \<Longrightarrow> aw_step sd path c (CheckOld, s) (RenameTmp, s)"
| remove_ok: "sd_remove sd s path = (True, s') \<Longrightarrow>
    aw_step sd path c (RemoveOld, s) (RenameTmp, s')"
| remove_fail: "sd_remove sd s path = (False, s') \<Longrightarrow>
    aw_step sd path c (RemoveOld, s) (CleanTmp, s')"
| clean: "sd_remove sd s (tmp_path path) = (b, s') \<Longrightarrow>
    aw_step sd path c (CleanTmp, s) (Finished False, s')"
| rename: "sd_rename sd s (tmp_path path) path = (b, s') \<Longrightarrow>
    aw_step sd path c (RenameTmp, s) (Finished b, s')"

inductive_cases aw_from_write: "aw_step sd path c (WriteTmp, s) t"
inductive_cases aw_from_check: "aw_step sd path c (CheckOld, s) t"
inductive_cases aw_from_remove: "aw_step sd path c (RemoveOld, s) t"
inductive_cases aw_from_clean: "aw_step sd path c (CleanTmp, s) t"
inductive_cases aw_from_rename: "aw_step sd path c (RenameTmp, s) t"
inductive_cases aw_from_finished: "aw_step sd path c (Finished b, s) t"

lemmas aw_cases = aw_from_write aw_from_check aw_from_remove aw_from_clean aw_from_rename aw_from_finished

text \<open>Running to the end gives exactly what the function returns.\<close>

lemma aw_refines:
  "(aw_step sd path c)\<^sup>*\<^sup>* (WriteTmp, s) (Finished (fst (writeFileAtomic sd s path c)),
     snd (writeFileAtomic sd s path c))"
proof -
  let ?R = "(aw_step sd path c)\<^sup>*\<^sup>*"
  obtain w s1 where w: "sd_write sd s (tmp_path path) c = (w, s1)" by force
  obtain g s2 where g: "(if sd_exists sd s1 path then sd_remove sd s1 path else (True, s1)) = (g, s2)" by force
  obtain r s3 where r: "sd_rename sd s2 (tmp_path path) path = (r, s3)" by force
  have ren: "?R (RenameTmp, s2) (Finished r, s3)"
    using r by (auto intro: aw_step.rename)
  have chk: "?R (CheckOld, s1) (if g then Finished r else Finished False,
      if g then s3 else snd (sd_remove sd s2 (tmp_path path)))"
  proof (cases "sd_exists sd s1 path")
    case True
    then have "aw_step sd path c (CheckOld, s1) (RemoveOld, s1)" by (rule aw_step.old_there)
    moreover have "?R (RemoveOld, s1) (if g then Finished r else Finished False,
      if g then s3 else snd (sd_remove sd s2 (tmp_path path)))"
    proof (cases g)
      case gT: True
      with g True have "aw_step sd path c (RemoveOld, s1) (RenameTmp, s2)" by (auto intro: aw_step.remove_ok)
      with ren gT show ?thesis by (auto intro: converse_rtranclp_into_rtranclp)
    next
      case gF: False
      with g True have "aw_step sd path c (RemoveOld, s1) (CleanTmp, s2)" by (auto intro: aw_step.remove_fail)
      moreover have "aw_step sd path c (CleanTmp, s2) (Finished False, snd (sd_remove sd s2 (tmp_path path)))"
        by (rule aw_step.clean) (rule prod.collapse [symmetric])
      ultimately show ?thesis using gF by (auto intro: converse_rtranclp_into_rtranclp)
    qed
    ultimately show ?thesis by (rule converse_rtranclp_into_rtranclp)
  next
    case False
    with g have "g" "s2 = s1" by auto
    moreover have "aw_step sd path c (CheckOld, s1) (RenameTmp, s1)"
      using False by (rule aw_step.old_absent)
    ultimately show ?thesis using ren by (auto intro: converse_rtranclp_into_rtranclp)
  qed
  show ?thesis
  proof (cases w)
    case True
    have first: "aw_step sd path c (WriteTmp, s) (CheckOld, s1)"
      using w True by (auto intro: aw_step.write_ok)
    have "writeFileAtomic sd s path c =
        (if g then (r, s3) else (False, snd (sd_remove sd s2 (tmp_path path))))"
      using w True g r by (auto simp: writeFileAtomic_def Let_def split: prod.splits if_splits)
    then show ?thesis
      using converse_rtranclp_into_rtranclp [OF first chk] by (cases g) auto
  next
    case False
    with w have "writeFileAtomic sd s path c = (False, s1)" by (simp add: writeFileAtomic_def)
    then show ?thesis using w False by (auto intro: aw_step.write_fail)
  qed
qed

text \<open>
  The invariant between two calls: the target holds its old content, the new content, or is
  missing; and it is only missing, when it was there before, once the complete new content
  is in the temporary file.
\<close>

definition aw_inv :: "('s, 'c) sd_card \<Rightarrow> string \<Rightarrow> 'c \<Rightarrow> 'c option \<Rightarrow> aw_pc \<times> 's \<Rightarrow> bool" where
  "aw_inv sd path c old st \<longleftrightarrow>
     (let f = sd_files sd (snd st) in
      case fst st of
        WriteTmp \<Rightarrow> f path = old
      | CheckOld \<Rightarrow> f path = old \<and> f (tmp_path path) = Some c
      | RemoveOld \<Rightarrow> f path = old \<and> f (tmp_path path) = Some c
      | CleanTmp \<Rightarrow> f path = old
      | RenameTmp \<Rightarrow> f path = None \<and> f (tmp_path path) = Some c
      | Finished b \<Rightarrow> (if b then f path = Some c
                     else f path = old \<or> f path = None \<and> f (tmp_path path) = Some c))"

lemma aw_step_inv:
  assumes laws: "sd_laws sd" and step: "aw_step sd path c x y" and "aw_inv sd path c old x"
  shows "aw_inv sd path c old y"
  using step assms(3)
proof (cases rule: aw_step.cases)
  case (write_ok s s')
  then show ?thesis using assms(3) sd_write_okD [OF laws write_ok(3)] by (simp add: aw_inv_def Let_def)
next
  case (write_fail s s')
  then show ?thesis using assms(3) sd_write_failD [OF laws write_fail(3), of path] by (simp add: aw_inv_def Let_def)
next
  case (old_absent s)
  then show ?thesis using assms(3) sd_existsD [OF laws, of s path] by (simp add: aw_inv_def Let_def)
next
  case (remove_ok s s')
  then show ?thesis using assms(3) sd_remove_okD [OF laws remove_ok(3)] by (simp add: aw_inv_def Let_def)
next
  case (remove_fail s s')
  then show ?thesis using assms(3) sd_remove_failD [OF laws remove_fail(3)] by (simp add: aw_inv_def Let_def)
next
  case (clean s b s')
  then show ?thesis
    using assms(3) sd_remove_okD [OF laws, of s "tmp_path path" s'] sd_remove_failD [OF laws, of s "tmp_path path" s']
    by (cases b) (simp_all add: aw_inv_def Let_def)
next
  case (rename s b s')
  then show ?thesis
    using assms(3) sd_rename_okD [OF laws, of s "tmp_path path" path s']
      sd_rename_failD [OF laws, of s "tmp_path path" path s']
    by (cases b) (simp_all add: aw_inv_def Let_def)
qed (simp add: aw_inv_def Let_def)

lemma aw_reach_inv:
  assumes "sd_laws sd" and "(aw_step sd path c)\<^sup>*\<^sup>* (WriteTmp, s) x"
  shows "aw_inv sd path c (sd_files sd s path) x"
  using assms(2)
proof (induction rule: rtranclp_induct)
  case base
  show ?case by (simp add: aw_inv_def Let_def)
next
  case (step y z)
  then show ?case by (blast intro: aw_step_inv [OF assms(1)])
qed

lemma aw_never_torn:
  assumes "sd_laws sd" and "(aw_step sd path c)\<^sup>*\<^sup>* (WriteTmp, s) (pc, s')"
  shows "sd_files sd s' path \<in> {sd_files sd s path, Some c} \<or>
    sd_files sd s' path = None \<and> sd_files sd s' (tmp_path path) = Some c"
  using aw_reach_inv [OF assms] by (auto simp: aw_inv_def Let_def split: aw_pc.splits if_splits)

lemma writeFileAtomic_result:
  assumes "sd_laws sd"
  shows "aw_inv sd path c (sd_files sd s path)
    (Finished (fst (writeFileAtomic sd s path c)), snd (writeFileAtomic sd s path c))"
  by (rule aw_reach_inv [OF assms aw_refines])

section \<open>Properties\<close>

text \<open>C3: At every instant of an atomic write (so also where a power loss stops it) the target file
  holds its complete old content or the complete new one, or it is absent while the complete new
  content lies in the temporary file; the full run of the calls is what \<open>writeFileAtomic\<close> computes.\<close>

theorem writeFileAtomic_power_loss:
  assumes "sd_laws sd" and "(aw_step sd path c)\<^sup>*\<^sup>* (WriteTmp, s) (pc, s')"
  shows "(sd_files sd s' path = sd_files sd s path \<or> sd_files sd s' path = Some c \<or>
      sd_files sd s' path = None \<and> sd_files sd s' (tmp_path path) = Some c) \<and>
    (aw_step sd path c)\<^sup>*\<^sup>* (WriteTmp, s) (Finished (fst (writeFileAtomic sd s path c)),
       snd (writeFileAtomic sd s path c))"
  using aw_never_torn [OF assms] aw_refines [of sd path c s] by blast

lemma writeFileAtomic_power_loss_witness:
  "let s = [''/a'' \<mapsto> (1::nat)]; s1 = s(''/a.tmp'' \<mapsto> 2); s2 = s1(''/a'' := None) in
   s2 ''/a'' = s ''/a'' \<or> s2 ''/a'' = Some 2 \<or> s2 ''/a'' = None \<and> s2 (tmp_path ''/a'') = Some 2"
proof -
  let ?s = "[''/a'' \<mapsto> (1::nat)]"
  let ?s1 = "?s(tmp_path ''/a'' \<mapsto> 2)"
  have "aw_step mem_card ''/a'' 2 (WriteTmp, ?s) (CheckOld, ?s1)"
    by (rule aw_step.write_ok) (simp add: mem_card_def)
  moreover have "aw_step mem_card ''/a'' 2 (CheckOld, ?s1) (RemoveOld, ?s1)"
    by (rule aw_step.old_there) (simp add: mem_card_def)
  moreover have "aw_step mem_card ''/a'' 2 (RemoveOld, ?s1) (RenameTmp, ?s1(''/a'' := None))"
    by (rule aw_step.remove_ok) (simp add: mem_card_def)
  ultimately have "(aw_step mem_card ''/a'' 2)\<^sup>*\<^sup>* (WriteTmp, ?s) (RenameTmp, ?s1(''/a'' := None))"
    by (meson rtranclp.rtrancl_into_rtrancl rtranclp.rtrancl_refl)
  from writeFileAtomic_power_loss [OF mem_card_laws this] show ?thesis
    by (simp add: Let_def mem_card_def tmp_path_def)
qed

text \<open>A reported success means the target has the new content and the temporary is gone; a reported
  failure leaves the old content, or nothing there and the new content in the temporary; no other
  file changes either way.\<close>

theorem writeFileAtomic_outcome:
  assumes "sd_laws sd" and "writeFileAtomic sd s path c = (ok, s')"
  shows "(ok \<longrightarrow> sd_files sd s' = (sd_files sd s)(tmp_path path := None, path \<mapsto> c)) \<and>
    (\<not> ok \<longrightarrow> sd_files sd s' path = sd_files sd s path \<or>
       sd_files sd s' path = None \<and> sd_files sd s' (tmp_path path) = Some c) \<and>
    (\<forall>q. q \<noteq> path \<and> q \<noteq> tmp_path path \<longrightarrow> sd_files sd s' q = sd_files sd s q)"
  using writeFileAtomic_ok [OF assms(1), of s path c s'] writeFileAtomic_result [OF assms(1), of path c s]
    writeFileAtomic_frame [OF assms(1), of _ path s c] assms(2)
  by (auto simp: aw_inv_def Let_def split: if_splits)

lemma writeFileAtomic_outcome_witness:
  "snd (writeFileAtomic mem_card [''/a'' \<mapsto> (1::nat)] ''/a'' 2) = [''/a'' \<mapsto> 2]"
proof -
  obtain ok s' where r: "writeFileAtomic mem_card [''/a'' \<mapsto> (1::nat)] ''/a'' 2 = (ok, s')" by force
  have ok by (use r in \<open>simp add: writeFileAtomic_def mem_card_def Let_def split: if_splits\<close>)
  with writeFileAtomic_outcome [OF mem_card_laws r] r show ?thesis
    by (simp add: mem_card_def tmp_path_def fun_eq_iff)
qed

end
