(* ===== verification/Job_Store.thy ===== *)
theory Job_Store
  imports Bounded_Index Atomic_File
begin

text \<open>
  The print-inbox job index: src/firmware/src/store/JobStore.h (the fixed-capacity array and its
  operations), src/firmware/src/store/IdTypes.h and src/firmware/src/store/JobStore.cpp (load
  and save as JSON). A \<open>JobIndex\<close> is the live prefix \<^verbatim>\<open>entries_[0 .. count_ - 1]\<close> of its
  array: slots past \<^verbatim>\<open>count_\<close> are never read before \<^verbatim>\<open>entries_[count_++] = entry\<close> assigns the
  whole struct. \<^verbatim>\<open>find\<close> returns a pointer into the array, here the index it points at.
\<close>

section \<open>Data\<close>

definition kJobIdLen :: nat where "kJobIdLen = 32"
definition kApprovalIdLen :: nat where "kApprovalIdLen = 32"
definition kTaskIdLen :: nat where "kTaskIdLen = 32"
definition kMaxInboxJobs :: nat where "kMaxInboxJobs = 64"
definition kTitleLen :: nat where "kTitleLen = 64"
definition kPathLen :: nat where "kPathLen = 48"
definition kSha256Len :: nat where "kSha256Len = 64"

text \<open>
  \<open>enum class JobStatus : uint8_t\<close>: an object of it can hold any byte, and \<open>loadJobIndex\<close> casts
  an unchecked byte into it; \<open>OtherStatus\<close> is such a value (never 0 to 3).
\<close>

datatype JobStatus = Downloaded | ApprovedPrint | ApprovedKeep | ApprovedDelete | OtherStatus u8

definition status_of_u8 :: "u8 \<Rightarrow> JobStatus" where
  "status_of_u8 b =
     (if b = 0 then Downloaded else if b = 1 then ApprovedPrint
      else if b = 2 then ApprovedKeep else if b = 3 then ApprovedDelete else OtherStatus b)"

fun u8_of_status :: "JobStatus \<Rightarrow> u8" where
  "u8_of_status Downloaded = 0"
| "u8_of_status ApprovedPrint = 1"
| "u8_of_status ApprovedKeep = 2"
| "u8_of_status ApprovedDelete = 3"
| "u8_of_status (OtherStatus b) = b"

record JobEntry =
  jobId :: string
  title :: string
  xtcPath :: string
  xtcBytes :: u32
  xtcSha256 :: string
  pageCount :: u16
  createdAt :: u32
  status :: JobStatus
  landscapeXtcPath :: string
  landscapeXtcBytes :: u32
  landscapeXtcSha256 :: string
  landscapePageCount :: u16
  originalPending :: bool
  originalPath :: string
  originalMime :: string
  originalBytes :: u32

definition JobEntry_init :: JobEntry where
  "JobEntry_init = \<lparr>jobId = [], title = [], xtcPath = [], xtcBytes = 0, xtcSha256 = [],
     pageCount = 0, createdAt = 0, status = Downloaded, landscapeXtcPath = [],
     landscapeXtcBytes = 0, landscapeXtcSha256 = [], landscapePageCount = 0,
     originalPending = False, originalPath = [], originalMime = [], originalBytes = 0\<rparr>"

type_synonym JobIndex = "JobEntry list"

section \<open>Operations\<close>

definition jobIdEquals :: "JobEntry \<Rightarrow> string \<Rightarrow> bool" where
  "jobIdEquals e other \<longleftrightarrow> strncmp (jobId e) other kJobIdLen = 0"

definition JobIndex_count :: "JobIndex \<Rightarrow> nat" where
  "JobIndex_count s = length s"

definition JobIndex_full :: "JobIndex \<Rightarrow> bool" where
  "JobIndex_full s \<longleftrightarrow> JobIndex_count s \<ge> kMaxInboxJobs"

definition JobIndex_find :: "JobIndex \<Rightarrow> string \<Rightarrow> nat option" where
  "JobIndex_find s jid = first_index (\<lambda>e. jobIdEquals e jid) s"

definition JobIndex_entry :: "JobIndex \<Rightarrow> string \<Rightarrow> JobEntry option" where
  "JobIndex_entry s jid = map_option (\<lambda>i. s ! i) (JobIndex_find s jid)"

definition JobIndex_upsert :: "JobIndex \<Rightarrow> JobEntry \<Rightarrow> bool \<times> JobIndex" where
  "JobIndex_upsert s entry =
     (case JobIndex_find s (jobId entry) of
        Some existing \<Rightarrow> (True, s[existing := entry])
      | None \<Rightarrow> if JobIndex_full s then (False, s) else (True, s @ [entry]))"

definition JobIndex_remove :: "JobIndex \<Rightarrow> string \<Rightarrow> bool \<times> JobIndex" where
  "JobIndex_remove s jid =
     (case first_index (\<lambda>e. jobIdEquals e jid) s of
        Some i \<Rightarrow> (True, swap_remove i s)
      | None \<Rightarrow> (False, s))"

definition JobIndex_setStatus :: "JobIndex \<Rightarrow> string \<Rightarrow> JobStatus \<Rightarrow> bool \<times> JobIndex" where
  "JobIndex_setStatus s jid st =
     (case JobIndex_find s jid of
        Some e \<Rightarrow> (True, s[e := (s ! e)\<lparr>status := st\<rparr>])
      | None \<Rightarrow> (False, s))"

definition JobIndex_clear :: "JobIndex \<Rightarrow> JobIndex" where
  "JobIndex_clear s = []"

section \<open>SD persistence\<close>

definition kJobIndexPath :: string where
  "kJobIndexPath = ''/inbox/index.json''"

definition job_of_json :: "('c, 'v) json_lib \<Rightarrow> 'v \<Rightarrow> JobEntry" where
  "job_of_json J j = \<lparr>
     jobId = strncpy kJobIdLen (json_or_str J j ''job_id'' []),
     title = strncpy kTitleLen (json_or_str J j ''title'' []),
     xtcPath = strncpy kPathLen (json_or_str J j ''xtc_path'' []),
     xtcBytes = word_of_int (json_or_int J j ''xtc_bytes'' 0),
     xtcSha256 = strncpy kSha256Len (json_or_str J j ''xtc_sha256'' []),
     pageCount = word_of_int (json_or_int J j ''page_count'' 0),
     createdAt = word_of_int (json_or_int J j ''created_at'' 0),
     status = status_of_u8 (word_of_int (json_or_int J j ''status'' 0)),
     landscapeXtcPath = strncpy kPathLen (json_or_str J j ''landscape_xtc_path'' []),
     landscapeXtcBytes = word_of_int (json_or_int J j ''landscape_xtc_bytes'' 0),
     landscapeXtcSha256 = strncpy kSha256Len (json_or_str J j ''landscape_xtc_sha256'' []),
     landscapePageCount = word_of_int (json_or_int J j ''landscape_page_count'' 0),
     originalPending = json_or_bool J j ''original_pending'' False,
     originalPath = strncpy kPathLen (json_or_str J j ''original_path'' []),
     originalMime = strncpy 23 (json_or_str J j ''original_mime'' []),
     originalBytes = word_of_int (json_or_int J j ''original_bytes'' 0)\<rparr>"

definition json_of_job :: "JobEntry \<Rightarrow> json_out" where
  "json_of_job e = JObj [
     (''job_id'', JStr (jobId e)),
     (''title'', JStr (title e)),
     (''xtc_path'', JStr (xtcPath e)),
     (''xtc_bytes'', JInt (uint (xtcBytes e))),
     (''xtc_sha256'', JStr (xtcSha256 e)),
     (''page_count'', JInt (uint (pageCount e))),
     (''created_at'', JInt (uint (createdAt e))),
     (''status'', JInt (uint (u8_of_status (status e)))),
     (''landscape_xtc_path'', JStr (landscapeXtcPath e)),
     (''landscape_xtc_bytes'', JInt (uint (landscapeXtcBytes e))),
     (''landscape_xtc_sha256'', JStr (landscapeXtcSha256 e)),
     (''landscape_page_count'', JInt (uint (landscapePageCount e))),
     (''original_pending'', JBool (originalPending e)),
     (''original_path'', JStr (originalPath e)),
     (''original_mime'', JStr (originalMime e)),
     (''original_bytes'', JInt (uint (originalBytes e)))]"

fun load_jobs :: "('c, 'v) json_lib \<Rightarrow> 'v list \<Rightarrow> JobIndex \<Rightarrow> JobIndex" where
  "load_jobs J [] index = index"
| "load_jobs J (j # js) index =
     (let e = job_of_json J j
      in if jobId e = [] then load_jobs J js index
         else load_jobs J js (snd (JobIndex_upsert index e)))"

definition loadJobIndex :: "('s, 'c) sd_card \<Rightarrow> ('c, 'v) json_lib \<Rightarrow> 's \<Rightarrow> bool \<times> JobIndex" where
  "loadJobIndex sd J s =
     (if \<not> sd_exists sd s kJobIndexPath then (False, [])
      else let raw = sd_read sd s kJobIndexPath
        in if j_isEmpty J raw then (False, [])
           else case j_deserialize J raw of
             None \<Rightarrow> (False, [])
           | Some doc \<Rightarrow> (True, load_jobs J (j_array J (j_get J doc ''jobs'')) []))"

definition jobs_doc :: "JobIndex \<Rightarrow> json_out" where
  "jobs_doc index = JObj [(''jobs'', JArr (map json_of_job index))]"

definition saveJobIndex :: "('s, 'c) sd_card \<Rightarrow> ('c, 'v) json_lib \<Rightarrow> 's \<Rightarrow> JobIndex \<Rightarrow> bool \<times> 's" where
  "saveJobIndex sd J s index =
     (let out = j_serialize J (jobs_doc index)
      in writeFileAtomic sd (sd_mkdir sd s ''/inbox'') kJobIndexPath out)"

section \<open>The index refines a bounded map\<close>

definition JobIndex_inv :: "JobIndex \<Rightarrow> bool" where
  "JobIndex_inv = ix_inv kJobIdLen kMaxInboxJobs jobId"

lemma JobIndex_find_ix: "JobIndex_find = ix_pos kJobIdLen jobId"
  by (simp add: fun_eq_iff JobIndex_find_def ix_pos_def jobIdEquals_def)

lemma JobIndex_entry_ix: "JobIndex_entry = ix_find kJobIdLen jobId"
  by (simp add: fun_eq_iff JobIndex_entry_def ix_find_def JobIndex_find_ix)

lemma JobIndex_upsert_ix: "JobIndex_upsert = ix_upsert kJobIdLen kMaxInboxJobs jobId"
  by (simp add: fun_eq_iff JobIndex_upsert_def ix_upsert_def JobIndex_find_ix JobIndex_full_def
      JobIndex_count_def)

lemma JobIndex_remove_ix: "JobIndex_remove = ix_remove kJobIdLen jobId"
  by (simp add: fun_eq_iff JobIndex_remove_def ix_remove_def JobIndex_find_ix [symmetric]
      JobIndex_find_def)

interpretation jobs: bounded_index kJobIdLen kMaxInboxJobs jobId
  JobIndex_entry JobIndex_upsert JobIndex_remove "\<lambda>_. True" JobIndex_inv
  unfolding JobIndex_entry_ix JobIndex_upsert_ix JobIndex_remove_ix JobIndex_inv_def
  by (rule ix_bounded_index)

lemma jobs_wf_op [simp]: "jobs.wf_op p"
  by (cases p) simp_all

lemma JobIndex_inv_Nil [simp]: "JobIndex_inv []"
  by (rule jobs.inv_empty)

lemma JobIndex_inv_upsert [inv_intros]: "JobIndex_inv s \<Longrightarrow> JobIndex_inv (snd (JobIndex_upsert s e))"
  by (rule jobs.ups_inv) simp_all

lemma JobIndex_distinct: "JobIndex_inv s \<Longrightarrow> distinct (ix_keys kJobIdLen jobId s)"
  by (simp add: JobIndex_inv_def ix_inv_def)

lemma JobIndex_find_SomeD:
  "JobIndex_find s jid = Some i \<Longrightarrow> i < length s \<and> take kJobIdLen (jobId (s ! i)) = take kJobIdLen jid"
  by (auto simp: JobIndex_find_def jobIdEquals_def strncmp_eq_0 dest: first_index_SomeD)

lemma JobIndex_find_entry:
  "JobIndex_find s jid = Some i \<Longrightarrow> JobIndex_entry s jid = Some (s ! i)"
  by (simp add: JobIndex_entry_def)

text \<open>Changing fields of an entry in place, keeping its id, changes no key and no position.\<close>

lemma JobIndex_inv_update [inv_intros]:
  "JobIndex_inv s \<Longrightarrow> jobId e = jobId (s ! i) \<Longrightarrow> JobIndex_inv (s[i := e])"
  unfolding JobIndex_inv_def by (rule ix_inv_update)

lemma JobIndex_find_update:
  "jobId e = jobId (s ! i) \<Longrightarrow> JobIndex_find (s[i := e]) jid = JobIndex_find s jid"
proof -
  assume e: "jobId e = jobId (s ! i)"
  then have eq: "jobIdEquals (s[i := e] ! j) jid = jobIdEquals (s ! j) jid" for j
    by (cases "i < length s") (auto simp: jobIdEquals_def nth_list_update list_update_beyond)
  have "JobIndex_find (s[i := e]) jid = Some j \<longleftrightarrow> JobIndex_find s jid = Some j" for j
    unfolding JobIndex_find_def first_index_Some_iff by (simp only: eq length_list_update)
  then show ?thesis by (rule option_eqI)
qed

lemma JobIndex_inv_setStatus [inv_intros]:
  "JobIndex_inv s \<Longrightarrow> JobIndex_inv (snd (JobIndex_setStatus s jid st))"
  by (auto simp: JobIndex_setStatus_def split: option.splits intro: JobIndex_inv_update)

lemma JobIndex_setStatus_entry:
  assumes inv: "JobIndex_inv s"
  shows "JobIndex_entry (snd (JobIndex_setStatus s jid st)) k =
    (if take kJobIdLen k = take kJobIdLen jid then map_option (\<lambda>e. e\<lparr>status := st\<rparr>) (JobIndex_entry s k)
     else JobIndex_entry s k)"
proof (cases "JobIndex_find s jid")
  case None
  then have "JobIndex_entry s k = None" if "take kJobIdLen k = take kJobIdLen jid"
    using that by (simp add: JobIndex_entry_def JobIndex_find_ix ix_pos_None)
  with None show ?thesis by (auto simp: JobIndex_setStatus_def)
next
  case (Some i)
  note i = JobIndex_find_SomeD [OF Some]
  have f: "JobIndex_find (s[i := (s ! i)\<lparr>status := st\<rparr>]) k = JobIndex_find s k"
    by (rule JobIndex_find_update) simp
  have "JobIndex_find s k = Some j \<Longrightarrow> j = i \<longleftrightarrow> take kJobIdLen k = take kJobIdLen jid" for j
    using ix_pos_Some [OF JobIndex_distinct [OF inv]] Some i
    by (metis JobIndex_find_ix option.inject)
  with i Some f show ?thesis
    by (cases "JobIndex_find s k") (auto simp: JobIndex_setStatus_def JobIndex_entry_def)
qed

section \<open>Save then load\<close>

definition JobEntry_buffers :: "JobEntry \<Rightarrow> bool" where
  "JobEntry_buffers e \<longleftrightarrow>
     length (jobId e) \<le> kJobIdLen \<and> length (title e) \<le> kTitleLen \<and>
     length (xtcPath e) \<le> kPathLen \<and> length (xtcSha256 e) \<le> kSha256Len \<and>
     length (landscapeXtcPath e) \<le> kPathLen \<and> length (landscapeXtcSha256 e) \<le> kSha256Len \<and>
     length (originalPath e) \<le> kPathLen \<and> length (originalMime e) \<le> 23"

text \<open>Numbers above \<open>2 ^ 31\<close> are not an \<^verbatim>\<open>int\<close> of ArduinoJson on this target, see \<open>json_laws\<close>.\<close>

definition JobEntry_numbers :: "JobEntry \<Rightarrow> bool" where
  "JobEntry_numbers e \<longleftrightarrow>
     uint (xtcBytes e) < 2 ^ 31 \<and> uint (createdAt e) < 2 ^ 31 \<and>
     uint (landscapeXtcBytes e) < 2 ^ 31 \<and> uint (originalBytes e) < 2 ^ 31"

fun status_ok :: "JobStatus \<Rightarrow> bool" where
  "status_ok (OtherStatus b) = (3 < b)"
| "status_ok _ = True"

definition JobEntry_ok :: "JobEntry \<Rightarrow> bool" where
  "JobEntry_ok e \<longleftrightarrow> jobId e \<noteq> [] \<and> JobEntry_buffers e \<and> JobEntry_numbers e \<and> status_ok (status e)"

lemma int_fits_small: "0 \<le> n \<Longrightarrow> n < 2 ^ 31 \<Longrightarrow> int_fits n"
  by (simp add: int_fits_def)

lemma int_fits_u16 [simp]: "int_fits (uint (w :: u16))"
  by (rule int_fits_small) (use uint_bounded [of w] in simp_all)

lemma int_fits_u8 [simp]: "int_fits (uint (w :: u8))"
  by (rule int_fits_small) (use uint_bounded [of w] in simp_all)

lemma int_fits_u32: "int_fits (uint (w :: u32)) \<longleftrightarrow> uint w < 2 ^ 31"
  by (simp add: int_fits_def order_trans [OF _ uint_ge_0])

lemma status_roundtrip:
  "status_ok st \<Longrightarrow> status_of_u8 (u8_of_status st) = st"
  by (cases st) (auto simp: status_of_u8_def)

text \<open>
  What is read back of any entry at all: \<^verbatim>\<open>j["created_at"] | 0\<close> reads an \<^verbatim>\<open>int\<close>, so a number from \<open>2 ^ 31\<close> on,
  saved as the 32-bit unsigned number it is, comes back as 0; strings are cut to their buffers, which those
  of a C struct already fit. An entry without an id is skipped.
\<close>

definition int_readable :: "u32 \<Rightarrow> u32" where
  "int_readable w = (if uint w < 2 ^ 31 then w else 0)"

definition JobEntry_readable :: "JobEntry \<Rightarrow> JobEntry" where
  "JobEntry_readable e = \<lparr>
     jobId = strncpy kJobIdLen (jobId e), title = strncpy kTitleLen (title e),
     xtcPath = strncpy kPathLen (xtcPath e), xtcBytes = int_readable (xtcBytes e),
     xtcSha256 = strncpy kSha256Len (xtcSha256 e), pageCount = pageCount e,
     createdAt = int_readable (createdAt e), status = status_of_u8 (u8_of_status (status e)),
     landscapeXtcPath = strncpy kPathLen (landscapeXtcPath e), landscapeXtcBytes = int_readable (landscapeXtcBytes e),
     landscapeXtcSha256 = strncpy kSha256Len (landscapeXtcSha256 e), landscapePageCount = landscapePageCount e,
     originalPending = originalPending e, originalPath = strncpy kPathLen (originalPath e),
     originalMime = strncpy 23 (originalMime e), originalBytes = int_readable (originalBytes e)\<rparr>"

definition jobs_readable :: "JobIndex \<Rightarrow> JobIndex" where
  "jobs_readable idx = map JobEntry_readable (filter (\<lambda>e. jobId e \<noteq> []) idx)"

lemma job_json_roundtrip:
  assumes J: "json_laws J"
  shows "job_of_json J (j_val J (json_of_job e)) = JobEntry_readable e"
  by (simp add: job_of_json_def json_of_job_def json_read_back [OF J] int_fits_u32 JobEntry_readable_def int_readable_def)

lemma JobEntry_readable_ok: "JobEntry_ok e \<Longrightarrow> JobEntry_readable e = e"
  by (cases e) (simp add: JobEntry_readable_def int_readable_def JobEntry_ok_def JobEntry_buffers_def JobEntry_numbers_def
      status_roundtrip)

lemma jobs_readable_ok: "list_all JobEntry_ok idx \<Longrightarrow> jobs_readable idx = idx"
  by (induction idx) (simp_all add: jobs_readable_def JobEntry_readable_ok, simp add: JobEntry_ok_def)

lemma jobs_readable_inv: "JobIndex_inv idx \<Longrightarrow> JobIndex_inv (jobs_readable idx)"
  by (auto simp: JobIndex_inv_def ix_inv_def ix_keys_def jobs_readable_def JobEntry_readable_def comp_def
      intro: distinct_map_filter order_trans [OF length_filter_le])

lemma JobIndex_upsert_new:
  assumes "JobIndex_inv (acc @ [e])"
  shows "JobIndex_upsert acc e = (True, acc @ [e])"
  using assms by (simp add: JobIndex_inv_def JobIndex_upsert_ix ix_upsert_new)

lemma load_jobs_append:
  assumes "json_laws J"
  shows "JobIndex_inv (acc @ jobs_readable idx) \<Longrightarrow>
    load_jobs J (map (j_val J \<circ> json_of_job) idx) acc = acc @ jobs_readable idx"
proof (induction idx arbitrary: acc)
  case Nil
  then show ?case by (simp add: jobs_readable_def)
next
  case (Cons e idx)
  have id: "jobId (JobEntry_readable e) = [] \<longleftrightarrow> jobId e = []" by (simp add: JobEntry_readable_def kJobIdLen_def)
  show ?case
  proof (cases "jobId e = []")
    case True
    with Cons id show ?thesis by (simp add: job_json_roundtrip [OF assms] jobs_readable_def)
  next
    case False
    then have r: "jobs_readable (e # idx) = JobEntry_readable e # jobs_readable idx" by (simp add: jobs_readable_def)
    have "JobIndex_inv (acc @ [JobEntry_readable e])"
      using Cons.prems by (auto simp: r JobIndex_inv_def ix_inv_def ix_keys_def)
    with Cons.IH [of "acc @ [JobEntry_readable e]"] Cons.prems False id show ?thesis
      by (simp add: r job_json_roundtrip [OF assms] JobIndex_upsert_new)
  qed
qed

lemma loadJobIndex_of_file:
  assumes sd: "sd_laws sd" and J: "json_laws J"
    and content: "sd_files sd s kJobIndexPath = Some (j_serialize J (jobs_doc idx))" and inv: "JobIndex_inv idx"
  shows "loadJobIndex sd J s = (True, jobs_readable idx)"
  using load_jobs_append [OF J, of "[]" idx] jobs_readable_inv [OF inv]
  by (simp add: loadJobIndex_def sd_existsD [OF sd] content sd_readD [OF sd content] j_notEmptyD [OF J]
      j_roundtripD [OF J] jobs_doc_def j_getD [OF J] j_arrayD [OF J])

lemma saveJobIndex_ok_file:
  assumes sd: "sd_laws sd" and save: "saveJobIndex sd J s idx = (True, s')"
  shows "sd_files sd s' kJobIndexPath = Some (j_serialize J (jobs_doc idx))"
  using writeFileAtomic_ok [OF sd save [unfolded saveJobIndex_def Let_def]] by simp

lemma save_load_jobs:
  assumes "sd_laws sd" and "json_laws J" and "JobIndex_inv idx"
    and "saveJobIndex sd J s idx = (True, s')"
  shows "loadJobIndex sd J s' = (True, jobs_readable idx)"
  by (rule loadJobIndex_of_file [OF assms(1,2) saveJobIndex_ok_file [OF assms(1,4)] assms(3)])

text \<open>Whatever the file holds, what is loaded keeps the invariant and the buffer sizes.\<close>

lemma job_of_json_buffers: "JobEntry_buffers (job_of_json J j)"
  by (simp add: JobEntry_buffers_def job_of_json_def)

lemma list_all_upsert:
  "list_all P s \<Longrightarrow> P e \<Longrightarrow> list_all P (snd (JobIndex_upsert s e))"
  by (auto simp: JobIndex_upsert_def list_all_iff split: option.splits
      dest: set_update_subset_insert [THEN subsetD])

lemma load_jobs_inv:
  "JobIndex_inv index \<Longrightarrow> list_all JobEntry_buffers index \<Longrightarrow>
   JobIndex_inv (load_jobs J js index) \<and> list_all JobEntry_buffers (load_jobs J js index)"
  by (induction J js index rule: load_jobs.induct)
    (simp_all add: Let_def JobIndex_inv_upsert list_all_upsert job_of_json_buffers)

lemma loadJobIndex_inv: "JobIndex_inv (snd (loadJobIndex sd J s))"
  using load_jobs_inv [of "[]"] by (auto simp: loadJobIndex_def Let_def split: option.splits)

section \<open>Properties\<close>

definition ex_job :: JobEntry where
  "ex_job = JobEntry_init\<lparr>jobId := ''a1'', title := ''Memo'', xtcBytes := 96022, pageCount := 2\<rparr>"

lemma ex_job_ok: "JobIndex_inv [ex_job]" "list_all JobEntry_ok [ex_job]"
  by (simp_all add: JobIndex_inv_def ix_inv_def ix_keys_def ex_job_def JobEntry_init_def JobEntry_ok_def
      JobEntry_buffers_def JobEntry_numbers_def kMaxInboxJobs_def kJobIdLen_def kTitleLen_def)

text \<open>C15: The 64-entry job array, driven by any sequence of insert-or-overwrite, remove and clear from
  empty, returns the same results and holds the same contents as a finite map from job ids to
  entries that refuses a new id once it has 64; removal by swapping and in-place overwriting are
  never observable.\<close>

theorem JobIndex_refines_map:
  "map_prod id (index_abs kJobIdLen JobIndex_entry) (index_run JobIndex_upsert JobIndex_remove ops []) =
     spec_run kJobIdLen kMaxInboxJobs jobId ops Map.empty \<and>
   length (snd (index_run JobIndex_upsert JobIndex_remove ops [])) \<le> kMaxInboxJobs"
  using jobs.run_from_empty [of ops] by simp

text \<open>A job index that was saved successfully is read back entry for entry, in order, provided its
  strings fit their buffers, its ids are distinct and non-empty, and its 32-bit numbers fit
  an \<open>int\<close>.\<close>

theorem JobIndex_save_load:
  assumes "sd_laws sd" and "json_laws J" and "JobIndex_inv idx" and "list_all JobEntry_ok idx"
    and "saveJobIndex sd J s idx = (True, s')"
  shows "loadJobIndex sd J s' = (True, idx)"
  using save_load_jobs [OF assms(1-3,5)] jobs_readable_ok [OF assms(4)] by simp

lemma JobIndex_save_load_witness:
  "loadJobIndex mem_card plain_json (snd (saveJobIndex mem_card plain_json Map.empty [ex_job])) = (True, [ex_job])"
proof -
  obtain ok s' where r: "saveJobIndex mem_card plain_json Map.empty [ex_job] = (ok, s')" by force
  have ok using r by (simp add: saveJobIndex_def writeFileAtomic_def mem_card_def Let_def split: if_splits)
  with JobIndex_save_load [OF mem_card_laws plain_json_laws ex_job_ok, of Map.empty s'] r
  show ?thesis by simp
qed

text \<open>Whatever bytes the index file holds, and whatever the JSON library makes of them, loading
  returns, with at most 64 jobs, no two with the same id, and every string within its buffer.\<close>

theorem loadJobIndex_safe:
  "JobIndex_inv (snd (loadJobIndex sd J s)) \<and> list_all JobEntry_buffers (snd (loadJobIndex sd J s))"
  using load_jobs_inv [of "[]"] by (auto simp: loadJobIndex_def Let_def split: option.splits)

text \<open>A power loss at any point of saving the job index leaves a card from which the next boot loads
  the old index, the new one, or an empty one, never a mixture.\<close>

theorem saveJobIndex_power_loss:
  assumes "sd_laws sd" and "json_laws J" and "JobIndex_inv idx" and "list_all JobEntry_ok idx"
    and "(aw_step sd kJobIndexPath (j_serialize J (jobs_doc idx)))\<^sup>*\<^sup>* (WriteTmp, sd_mkdir sd s ''/inbox'') (pc, s')"
  shows "loadJobIndex sd J s' = loadJobIndex sd J s \<or> loadJobIndex sd J s' = (True, idx) \<or>
    loadJobIndex sd J s' = (False, [])"
proof -
  note laws = sd_existsD [OF assms(1)] sd_mkdirD [OF assms(1)]
  consider (old) "sd_files sd s' kJobIndexPath = sd_files sd s kJobIndexPath"
    | (new) "sd_files sd s' kJobIndexPath = Some (j_serialize J (jobs_doc idx))"
    | (gone) "sd_files sd s' kJobIndexPath = None"
    using aw_never_torn [OF assms(1,5)] by (auto simp: laws)
  then show ?thesis
  proof cases
    case old
    then have "loadJobIndex sd J s' = loadJobIndex sd J s"
      by (cases "sd_files sd s kJobIndexPath") (simp_all add: loadJobIndex_def laws sd_readD [OF assms(1)])
    then show ?thesis by blast
  next
    case new
    then show ?thesis using loadJobIndex_of_file [OF assms(1,2) new assms(3)] jobs_readable_ok [OF assms(4)] by simp
  next
    case gone
    then show ?thesis by (simp add: loadJobIndex_def laws)
  qed
qed

lemma saveJobIndex_power_loss_witness:
  "loadJobIndex mem_card plain_json (Map.empty(tmp_path kJobIndexPath \<mapsto> jobs_doc [ex_job])) = (False, [])"
proof -
  let ?c = "j_serialize plain_json (jobs_doc [ex_job])"
  let ?s = "sd_mkdir mem_card Map.empty ''/inbox''"
  have "aw_step mem_card kJobIndexPath ?c (WriteTmp, ?s) (CheckOld, Map.empty(tmp_path kJobIndexPath \<mapsto> ?c))"
    by (rule aw_step.write_ok) (simp add: mem_card_def)
  then have "(aw_step mem_card kJobIndexPath ?c)\<^sup>*\<^sup>* (WriteTmp, ?s) (CheckOld, Map.empty(tmp_path kJobIndexPath \<mapsto> ?c))"
    by blast
  from saveJobIndex_power_loss [OF mem_card_laws plain_json_laws ex_job_ok this]
  show ?thesis by (auto simp: loadJobIndex_def mem_card_def plain_json_def)
qed

end
