(* ===== verification/Config_Stores.thy ===== *)
theory Config_Stores
  imports Job_Store
begin

text \<open>
  The settings files under /system: src/firmware/src/config/AppSettings.h and .cpp (on-device
  preferences), CalendarCache.h and .cpp (the next event), CalendarConfig.h and .cpp (feed list)
  and DeviceConfig.h and .cpp (pairing data). Each singleton is the value its \<^verbatim>\<open>data_\<close> holds;
  \<^verbatim>\<open>load()\<close> and \<^verbatim>\<open>save()\<close> are functions of the card. The fields \<^verbatim>\<open>title\<close>, \<^verbatim>\<open>start\<close>, \<^verbatim>\<open>end\<close> and
  \<^verbatim>\<open>allDay\<close> of \<^verbatim>\<open>NextEventInfo\<close> are \<open>evTitle\<close>, \<open>evStart\<close>, \<open>evEnd\<close> and \<open>evAllDay\<close>; times are
  64-bit \<^verbatim>\<open>time_t\<close>, here \<open>int\<close>.
\<close>

text \<open>The common part of every loader: the parsed document, unless missing, empty or malformed.\<close>

definition load_doc :: "('s, 'c) sd_card \<Rightarrow> ('c, 'v) json_lib \<Rightarrow> 's \<Rightarrow> string \<Rightarrow> 'v option" where
  "load_doc sd J s path =
     (if \<not> sd_exists sd s path then None
      else let raw = sd_read sd s path
        in if j_isEmpty J raw then None else j_deserialize J raw)"

lemma load_doc_saved:
  assumes "sd_laws sd" and "json_laws J" and "writeFileAtomic sd s path (j_serialize J d) = (True, s')"
  shows "load_doc sd J s' path = Some (j_val J d)"
proof -
  have f: "sd_files sd s' path = Some (j_serialize J d)"
    using writeFileAtomic_ok [OF assms(1,3)] by simp
  show ?thesis
    by (simp add: load_doc_def sd_existsD [OF assms(1)] f sd_readD [OF assms(1) f] j_notEmptyD [OF assms(2)]
        j_roundtripD [OF assms(2)])
qed

section \<open>App settings\<close>

record AppSettingsData =
  defaultLandscapeView :: bool
  calendarWakeBeforeStart :: bool
  calendarWakeLeadMinutes :: u16
  calendarWakeAtEnd :: bool
  plannerHorizontalView :: bool
  pomodoroWorkMinutes :: u16
  pomodoroBreakMinutes :: u16
  pomodoroLongBreakMinutes :: u16
  pomodoroSessionsBeforeLongBreak :: u16
  pomodoroCheckpointMinutes :: u16
  hotspotNatBridgeEnabled :: bool

definition kAppSettingsPath :: string where "kAppSettingsPath = ''/system/app_settings.json''"

definition AppSettingsData_init :: AppSettingsData where
  "AppSettingsData_init = \<lparr>defaultLandscapeView = False, calendarWakeBeforeStart = False,
     calendarWakeLeadMinutes = 10, calendarWakeAtEnd = False, plannerHorizontalView = False,
     pomodoroWorkMinutes = 25, pomodoroBreakMinutes = 5, pomodoroLongBreakMinutes = 15,
     pomodoroSessionsBeforeLongBreak = 4, pomodoroCheckpointMinutes = 5, hotspotNatBridgeEnabled = False\<rparr>"

definition AppSettings_of_json :: "('c, 'v) json_lib \<Rightarrow> 'v \<Rightarrow> AppSettingsData" where
  "AppSettings_of_json J doc = \<lparr>
     defaultLandscapeView = json_or_bool J doc ''default_landscape_view'' False,
     calendarWakeBeforeStart = json_or_bool J doc ''calendar_wake_before_start'' False,
     calendarWakeLeadMinutes = word_of_int (json_or_int J doc ''calendar_wake_lead_minutes'' 10),
     calendarWakeAtEnd = json_or_bool J doc ''calendar_wake_at_end'' False,
     plannerHorizontalView = json_or_bool J doc ''planner_horizontal_view'' False,
     pomodoroWorkMinutes = word_of_int (json_or_int J doc ''pomodoro_work_minutes'' 25),
     pomodoroBreakMinutes = word_of_int (json_or_int J doc ''pomodoro_break_minutes'' 5),
     pomodoroLongBreakMinutes = word_of_int (json_or_int J doc ''pomodoro_long_break_minutes'' 15),
     pomodoroSessionsBeforeLongBreak =
       word_of_int (json_or_int J doc ''pomodoro_sessions_before_long_break'' 4),
     pomodoroCheckpointMinutes = word_of_int (json_or_int J doc ''pomodoro_checkpoint_minutes'' 5),
     hotspotNatBridgeEnabled = json_or_bool J doc ''hotspot_nat_bridge_enabled'' False\<rparr>"

definition AppSettings_load :: "('s, 'c) sd_card \<Rightarrow> ('c, 'v) json_lib \<Rightarrow> 's \<Rightarrow> AppSettingsData" where
  "AppSettings_load sd J s =
     (case load_doc sd J s kAppSettingsPath of
        None \<Rightarrow> AppSettingsData_init
      | Some doc \<Rightarrow> AppSettings_of_json J doc)"

definition AppSettings_doc :: "AppSettingsData \<Rightarrow> json_out" where
  "AppSettings_doc d = JObj [
     (''default_landscape_view'', JBool (defaultLandscapeView d)),
     (''calendar_wake_before_start'', JBool (calendarWakeBeforeStart d)),
     (''calendar_wake_lead_minutes'', JInt (uint (calendarWakeLeadMinutes d))),
     (''calendar_wake_at_end'', JBool (calendarWakeAtEnd d)),
     (''planner_horizontal_view'', JBool (plannerHorizontalView d)),
     (''pomodoro_work_minutes'', JInt (uint (pomodoroWorkMinutes d))),
     (''pomodoro_break_minutes'', JInt (uint (pomodoroBreakMinutes d))),
     (''pomodoro_long_break_minutes'', JInt (uint (pomodoroLongBreakMinutes d))),
     (''pomodoro_sessions_before_long_break'', JInt (uint (pomodoroSessionsBeforeLongBreak d))),
     (''pomodoro_checkpoint_minutes'', JInt (uint (pomodoroCheckpointMinutes d))),
     (''hotspot_nat_bridge_enabled'', JBool (hotspotNatBridgeEnabled d))]"

definition AppSettings_save :: "('s, 'c) sd_card \<Rightarrow> ('c, 'v) json_lib \<Rightarrow> 's \<Rightarrow> AppSettingsData \<Rightarrow> bool \<times> 's" where
  "AppSettings_save sd J s d = writeFileAtomic sd s kAppSettingsPath (j_serialize J (AppSettings_doc d))"

lemma AppSettings_roundtrip:
  assumes J: "json_laws J"
  shows "AppSettings_of_json J (j_val J (AppSettings_doc d)) = d"
  by (cases d) (simp add: AppSettings_of_json_def AppSettings_doc_def json_read_back [OF J])

section \<open>The cached next event\<close>

definition kCalendarCachePath :: string where "kCalendarCachePath = ''/system/calendar_cache.json''"
definition kCalendarEventTitleLen :: nat where "kCalendarEventTitleLen = 80"

record NextEventInfo =
  hasEvent :: bool
  evTitle :: string
  evStart :: int
  evEnd :: int
  evAllDay :: bool
  lastSyncedAt :: int
  alertedForStart :: int
  alertedForEnd :: int

definition NextEventInfo_init :: NextEventInfo where
  "NextEventInfo_init = \<lparr>hasEvent = False, evTitle = [], evStart = 0, evEnd = 0, evAllDay = False,
     lastSyncedAt = 0, alertedForStart = 0, alertedForEnd = 0\<rparr>"

definition NextEvent_of_json :: "('c, 'v) json_lib \<Rightarrow> 'v \<Rightarrow> NextEventInfo" where
  "NextEvent_of_json J doc =
     (if \<not> json_or_bool J doc ''has_event'' False then NextEventInfo_init
      else \<lparr>hasEvent = True,
        evTitle = strncpy kCalendarEventTitleLen (json_or_str J doc ''title'' []),
        evStart = json_or_int J doc ''start'' 0,
        evEnd = json_or_int J doc ''end'' 0,
        evAllDay = json_or_bool J doc ''all_day'' False,
        lastSyncedAt = json_or_int J doc ''last_synced_at'' 0,
        alertedForStart = json_or_int J doc ''alerted_for_start'' 0,
        alertedForEnd = json_or_int J doc ''alerted_for_end'' 0\<rparr>)"

definition CalendarCache_load :: "('s, 'c) sd_card \<Rightarrow> ('c, 'v) json_lib \<Rightarrow> 's \<Rightarrow> NextEventInfo" where
  "CalendarCache_load sd J s =
     (case load_doc sd J s kCalendarCachePath of
        None \<Rightarrow> NextEventInfo_init
      | Some doc \<Rightarrow> NextEvent_of_json J doc)"

definition CalendarCache_doc :: "NextEventInfo \<Rightarrow> json_out" where
  "CalendarCache_doc d = JObj [
     (''has_event'', JBool (hasEvent d)),
     (''title'', JStr (evTitle d)),
     (''start'', JInt (evStart d)),
     (''end'', JInt (evEnd d)),
     (''all_day'', JBool (evAllDay d)),
     (''last_synced_at'', JInt (lastSyncedAt d)),
     (''alerted_for_start'', JInt (alertedForStart d)),
     (''alerted_for_end'', JInt (alertedForEnd d))]"

definition CalendarCache_save :: "('s, 'c) sd_card \<Rightarrow> ('c, 'v) json_lib \<Rightarrow> 's \<Rightarrow> NextEventInfo \<Rightarrow> bool \<times> 's" where
  "CalendarCache_save sd J s d = writeFileAtomic sd s kCalendarCachePath (j_serialize J (CalendarCache_doc d))"

text \<open>What survives: an \<^verbatim>\<open>int64_t\<close> is written, an \<^verbatim>\<open>int\<close> is read.\<close>

definition int_back :: "int \<Rightarrow> int" where
  "int_back t = (if int_fits t then t else 0)"

lemma CalendarCache_roundtrip:
  assumes J: "json_laws J" and "length (evTitle d) \<le> kCalendarEventTitleLen"
  shows "NextEvent_of_json J (j_val J (CalendarCache_doc d)) =
    (if hasEvent d then d\<lparr>evStart := int_back (evStart d), evEnd := int_back (evEnd d),
       lastSyncedAt := int_back (lastSyncedAt d), alertedForStart := int_back (alertedForStart d),
       alertedForEnd := int_back (alertedForEnd d)\<rparr>
     else NextEventInfo_init)"
  using assms(2)
  by (cases d) (simp add: NextEvent_of_json_def CalendarCache_doc_def json_or_boolD [OF J] json_or_strD [OF J]
      json_or_intD [OF J] int_back_def)

section \<open>The feed list\<close>

definition kMaxCalendars :: nat where "kMaxCalendars = 4"
definition kMaxCalendarUrlLen :: nat where "kMaxCalendarUrlLen = 220"
definition kMaxCalendarLabelLen :: nat where "kMaxCalendarLabelLen = 32"
definition kCalendarConfigPath :: string where "kCalendarConfigPath = ''/system/calendars.json''"

record CalendarFeed =
  feedUrl :: string
  feedLabel :: string

fun load_feeds :: "('c, 'v) json_lib \<Rightarrow> 'v list \<Rightarrow> CalendarFeed list \<Rightarrow> CalendarFeed list" where
  "load_feeds J [] feeds = feeds"
| "load_feeds J (cal # cals) feeds =
     (if length feeds \<ge> kMaxCalendars then feeds
      else let url = json_or_str J cal ''url'' []
        in if url = [] then load_feeds J cals feeds
           else load_feeds J cals (feeds @ [\<lparr>feedUrl = strncpy kMaxCalendarUrlLen url,
                  feedLabel = strncpy kMaxCalendarLabelLen (json_or_str J cal ''label'' [])\<rparr>]))"

definition CalendarConfig_load :: "('s, 'c) sd_card \<Rightarrow> ('c, 'v) json_lib \<Rightarrow> 's \<Rightarrow> CalendarFeed list" where
  "CalendarConfig_load sd J s =
     (case load_doc sd J s kCalendarConfigPath of
        None \<Rightarrow> []
      | Some doc \<Rightarrow> load_feeds J (j_array J (j_get J doc ''calendars'')) [])"

definition json_of_feed :: "CalendarFeed \<Rightarrow> json_out" where
  "json_of_feed f = JObj [(''url'', JStr (feedUrl f)), (''label'', JStr (feedLabel f))]"

definition CalendarConfig_doc :: "CalendarFeed list \<Rightarrow> json_out" where
  "CalendarConfig_doc feeds = JObj [(''calendars'', JArr (map json_of_feed feeds))]"

definition CalendarConfig_save :: "('s, 'c) sd_card \<Rightarrow> ('c, 'v) json_lib \<Rightarrow> 's \<Rightarrow> CalendarFeed list \<Rightarrow> bool \<times> 's" where
  "CalendarConfig_save sd J s feeds = writeFileAtomic sd s kCalendarConfigPath (j_serialize J (CalendarConfig_doc feeds))"

text \<open>\<^verbatim>\<open>replaceAll\<close>: the loop copies while there is room.\<close>

fun replace_loop :: "CalendarFeed list \<Rightarrow> CalendarFeed list \<Rightarrow> CalendarFeed list" where
  "replace_loop [] acc = acc"
| "replace_loop (f # fs) acc = (if length acc < kMaxCalendars then replace_loop fs (acc @ [f]) else acc)"

definition CalendarConfig_replaceAll :: "CalendarFeed list \<Rightarrow> CalendarFeed list" where
  "CalendarConfig_replaceAll feeds = replace_loop feeds []"

lemma replace_loop_take: "length acc \<le> kMaxCalendars \<Longrightarrow> replace_loop fs acc = take kMaxCalendars (acc @ fs)"
  by (induction fs acc rule: replace_loop.induct) auto

lemma CalendarConfig_replaceAll_take: "CalendarConfig_replaceAll feeds = take kMaxCalendars feeds"
  by (simp add: CalendarConfig_replaceAll_def replace_loop_take)

definition feed_ok :: "CalendarFeed \<Rightarrow> bool" where
  "feed_ok f \<longleftrightarrow> feedUrl f \<noteq> [] \<and> length (feedUrl f) \<le> kMaxCalendarUrlLen \<and> length (feedLabel f) \<le> kMaxCalendarLabelLen"

lemma load_feeds_append:
  assumes J: "json_laws J"
  shows "length (acc @ feeds) \<le> kMaxCalendars \<Longrightarrow> list_all feed_ok feeds \<Longrightarrow>
    load_feeds J (map (j_val J \<circ> json_of_feed) feeds) acc = acc @ feeds"
proof (induction feeds arbitrary: acc)
  case (Cons f feeds)
  then show ?case
    by (simp add: json_of_feed_def json_or_strD [OF J] feed_ok_def Let_def)
qed simp

lemma load_feeds_bound: "length feeds \<le> kMaxCalendars \<Longrightarrow> length (load_feeds J cals feeds) \<le> kMaxCalendars"
  by (induction J cals feeds rule: load_feeds.induct) (auto simp: Let_def)

section \<open>Pairing data\<close>

definition kMaxUrlLen :: nat where "kMaxUrlLen = 128"
definition kMaxTokenLen :: nat where "kMaxTokenLen = 80"
definition kMaxIdLen :: nat where "kMaxIdLen = 40"
definition kMaxNameLen :: nat where "kMaxNameLen = 64"
definition kDeviceConfigPath :: string where "kDeviceConfigPath = ''/system/device.json''"
definition kCaCertPath :: string where "kCaCertPath = ''/system/pi_ca.pem''"

record DeviceConfigData =
  loaded :: bool
  deviceId :: string
  deviceToken :: string
  deviceName :: string
  piBaseUrl :: string
  hasRelay :: bool
  relayBaseUrl :: string
  relayAccountId :: string
  relayAccountToken :: string
  hasAdminConsole :: bool
  piAdminBaseUrl :: string

definition DeviceConfigData_init :: DeviceConfigData where
  "DeviceConfigData_init = \<lparr>loaded = False, deviceId = [], deviceToken = [], deviceName = [],
     piBaseUrl = [], hasRelay = False, relayBaseUrl = [], relayAccountId = [], relayAccountToken = [],
     hasAdminConsole = False, piAdminBaseUrl = []\<rparr>"

definition copyField :: "('c, 'v) json_lib \<Rightarrow> nat \<Rightarrow> 'v \<Rightarrow> string \<Rightarrow> string" where
  "copyField J dstSize root k = strncpy (dstSize - 1) (json_or_str J root k [])"

definition is_str :: "('c, 'v) json_lib \<Rightarrow> 'v \<Rightarrow> string \<Rightarrow> bool" where
  "is_str J root k \<longleftrightarrow> j_str J (j_get J root k) \<noteq> None"

definition DeviceConfig_load :: "('s, 'c) sd_card \<Rightarrow> ('c, 'v) json_lib \<Rightarrow> 's \<Rightarrow> bool \<times> DeviceConfigData" where
  "DeviceConfig_load sd J s =
     (case load_doc sd J s kDeviceConfigPath of
        None \<Rightarrow> (False, DeviceConfigData_init)
      | Some root \<Rightarrow>
          if \<not> is_str J root ''device_id'' \<or> \<not> is_str J root ''device_token'' \<or> \<not> is_str J root ''pi_base_url''
          then (False, DeviceConfigData_init)
          else
            let d = DeviceConfigData_init\<lparr>
                  deviceId := copyField J kMaxIdLen root ''device_id'',
                  deviceToken := copyField J kMaxTokenLen root ''device_token'',
                  piBaseUrl := copyField J kMaxUrlLen root ''pi_base_url'',
                  deviceName := copyField J kMaxNameLen root ''device_name''\<rparr>;
                d = (if is_str J root ''relay_base_url'' \<and> is_str J root ''relay_account_id'' \<and>
                       is_str J root ''relay_account_token''
                     then d\<lparr>hasRelay := True,
                       relayBaseUrl := copyField J kMaxUrlLen root ''relay_base_url'',
                       relayAccountId := copyField J kMaxIdLen root ''relay_account_id'',
                       relayAccountToken := copyField J kMaxTokenLen root ''relay_account_token''\<rparr>
                     else d);
                d = (if is_str J root ''pi_admin_base_url''
                     then d\<lparr>hasAdminConsole := True,
                       piAdminBaseUrl := copyField J kMaxUrlLen root ''pi_admin_base_url''\<rparr>
                     else d)
            in (True, d\<lparr>loaded := True\<rparr>))"

section \<open>Properties\<close>

text \<open>Every preference survives a save and the load of the next boot, whatever its value.\<close>

theorem AppSettings_save_load:
  assumes "sd_laws sd" and "json_laws J" and "AppSettings_save sd J s d = (True, s')"
  shows "AppSettings_load sd J s' = d"
  using load_doc_saved [OF assms(1,2) assms(3) [unfolded AppSettings_save_def]]
  by (simp add: AppSettings_load_def AppSettings_roundtrip [OF assms(2)])

lemma AppSettings_save_load_witness:
  "let d = AppSettingsData_init\<lparr>calendarWakeLeadMinutes := 45\<rparr> in
   AppSettings_load mem_card plain_json (snd (AppSettings_save mem_card plain_json Map.empty d)) = d"
proof -
  let ?d = "AppSettingsData_init\<lparr>calendarWakeLeadMinutes := 45\<rparr>"
  obtain ok s' where r: "AppSettings_save mem_card plain_json Map.empty ?d = (ok, s')" by force
  then have ok by (simp add: AppSettings_save_def writeFileAtomic_def mem_card_def Let_def split: if_splits)
  with AppSettings_save_load [OF mem_card_laws plain_json_laws, of Map.empty ?d s'] r
  show ?thesis by (simp add: Let_def)
qed

text \<open>A feed list pulled from the Pi, installed wholesale and saved, is what the next boot loads, cut to
  the first four feeds.\<close>

theorem CalendarConfig_replace_save_load:
  assumes "sd_laws sd" and "json_laws J" and "list_all feed_ok feeds"
    and "CalendarConfig_save sd J s (CalendarConfig_replaceAll feeds) = (True, s')"
  shows "CalendarConfig_load sd J s' = take 4 feeds"
proof -
  have ok: "list_all feed_ok (take kMaxCalendars feeds)"
    using assms(3) by (auto simp: list_all_iff dest: in_set_takeD)
  have len: "length ([] @ take kMaxCalendars feeds) \<le> kMaxCalendars" by simp
  have "load_doc sd J s' kCalendarConfigPath = Some (j_val J (CalendarConfig_doc (take kMaxCalendars feeds)))"
    using load_doc_saved [OF assms(1,2) assms(4) [unfolded CalendarConfig_save_def]]
    by (simp add: CalendarConfig_replaceAll_take)
  then show ?thesis
    using load_feeds_append [OF assms(2) len ok]
    by (simp add: CalendarConfig_load_def CalendarConfig_doc_def j_getD [OF assms(2)] j_arrayD [OF assms(2)]
        kMaxCalendars_def)
qed

lemma CalendarConfig_replace_save_load_witness:
  "let f = (\<lambda>n. \<lparr>feedUrl = ''https://x/'' @ [n], feedLabel = ''Work''\<rparr>); fs = map f ''abcde'' in
   CalendarConfig_load mem_card plain_json
     (snd (CalendarConfig_save mem_card plain_json Map.empty (CalendarConfig_replaceAll fs))) = take 4 fs"
proof -
  let ?fs = "map (\<lambda>n. \<lparr>feedUrl = ''https://x/'' @ [n], feedLabel = ''Work''\<rparr>) ''abcde''"
  obtain ok s' where r: "CalendarConfig_save mem_card plain_json Map.empty (CalendarConfig_replaceAll ?fs) = (ok, s')"
    by force
  then have ok by (simp add: CalendarConfig_save_def writeFileAtomic_def mem_card_def Let_def split: if_splits)
  moreover have "list_all feed_ok ?fs" by (simp add: feed_ok_def kMaxCalendarUrlLen_def kMaxCalendarLabelLen_def)
  ultimately show ?thesis
    using CalendarConfig_replace_save_load [OF mem_card_laws plain_json_laws, of ?fs Map.empty s'] r
    by (simp only: Let_def snd_conv)
qed

text \<open>Loading the pairing file reports success exactly when the data is marked loaded; a device that
  is not loaded carries no data at all, relay credentials are either all taken or all empty, and
  every field fits its buffer with its terminator.\<close>

theorem DeviceConfig_load_consistent:
  "let (ok, d) = DeviceConfig_load sd J s in
     (ok = loaded d) \<and> (if ok then True else d = DeviceConfigData_init) \<and>
     (if hasRelay d then loaded d else relayBaseUrl d = [] \<and> relayAccountId d = [] \<and> relayAccountToken d = []) \<and>
     (if hasAdminConsole d then loaded d else piAdminBaseUrl d = []) \<and>
     length (deviceId d) < kMaxIdLen \<and> length (deviceToken d) < kMaxTokenLen \<and>
     length (deviceName d) < kMaxNameLen \<and> length (piBaseUrl d) < kMaxUrlLen \<and>
     length (relayBaseUrl d) < kMaxUrlLen \<and> length (relayAccountId d) < kMaxIdLen \<and>
     length (relayAccountToken d) < kMaxTokenLen \<and> length (piAdminBaseUrl d) < kMaxUrlLen"
proof -
  have c: "0 < n \<Longrightarrow> length (copyField J n root k) < n" for n root k
    using length_strncpy [of "n - 1" "json_or_str J root k []"] unfolding copyField_def by linarith
  have n: "0 < kMaxIdLen" "0 < kMaxTokenLen" "0 < kMaxNameLen" "0 < kMaxUrlLen"
    by (simp_all add: kMaxIdLen_def kMaxTokenLen_def kMaxNameLen_def kMaxUrlLen_def)
  show ?thesis
    by (cases "load_doc sd J s kDeviceConfigPath")
      (simp_all add: DeviceConfig_load_def DeviceConfigData_init_def Let_def c n)
qed

end
