(* ===== verification/Wifi_Store.thy ===== *)
theory Wifi_Store
  imports Config_Stores
begin

unbundle bit_operations_syntax

text \<open>
  The saved Wi-Fi networks: src/firmware/src/config/WifiStore.h and WifiStore.cpp. The base64
  codec is mbedTLS and the MAC address the radio's: both are parameters. A password is XORed
  with the MAC, then encoded.
\<close>

section \<open>Data and operations\<close>

definition kMaxWifiNetworks :: nat where "kMaxWifiNetworks = 8"
definition kMaxSsidLen :: nat where "kMaxSsidLen = 32"
definition kMaxWifiPasswordLen :: nat where "kMaxWifiPasswordLen = 64"
definition kWifiStorePath :: string where "kWifiStorePath = ''/system/wifi.json''"

record WifiCredential =
  ssid :: string
  password :: string

record WifiStoreData =
  creds :: "WifiCredential list"
  lastSsid :: string

definition ssid_pos :: "WifiCredential list \<Rightarrow> string \<Rightarrow> nat option" where
  "ssid_pos cs s = first_index (\<lambda>c. strncmp (ssid c) s kMaxSsidLen = 0) cs"

definition wifi_addOrUpdate :: "WifiCredential list \<Rightarrow> string \<Rightarrow> string \<Rightarrow> bool \<times> WifiCredential list" where
  "wifi_addOrUpdate cs s pw =
     (case ssid_pos cs s of
        Some i \<Rightarrow> (True, cs[i := (cs ! i)\<lparr>password := strncpy kMaxWifiPasswordLen pw\<rparr>])
      | None \<Rightarrow>
          if length cs \<ge> kMaxWifiNetworks then (False, cs)
          else (True, cs @ [\<lparr>ssid = strncpy kMaxSsidLen s, password = strncpy kMaxWifiPasswordLen pw\<rparr>]))"

definition wifi_remove :: "WifiCredential list \<Rightarrow> string \<Rightarrow> bool \<times> WifiCredential list" where
  "wifi_remove cs s =
     (case ssid_pos cs s of Some i \<Rightarrow> (True, swap_remove i cs) | None \<Rightarrow> (False, cs))"

definition wifi_find :: "WifiCredential list \<Rightarrow> string \<Rightarrow> WifiCredential option" where
  "wifi_find cs s = map_option (\<lambda>i. cs ! i) (ssid_pos cs s)"

definition setLastConnectedSsid :: "WifiStoreData \<Rightarrow> string \<Rightarrow> WifiStoreData" where
  "setLastConnectedSsid w s = w\<lparr>lastSsid := strncpy kMaxSsidLen s\<rparr>"

section \<open>Password obfuscation\<close>

definition byte_of :: "char \<Rightarrow> u8" where
  "byte_of c = word_of_nat (of_char c)"

definition char_of_byte :: "u8 \<Rightarrow> char" where
  "char_of_byte b = char_of (unat b)"

definition xorWithMac :: "u8 list \<Rightarrow> u8 list \<Rightarrow> u8 list" where
  "xorWithMac mac data = map (\<lambda>i. data ! i XOR mac ! (i mod 6)) [0..<length data]"

text \<open>
  \<open>b64_encode\<close> is the text mbedTLS writes, whose queried size is one more than its length;
  \<open>b64_decode cap\<close> fails on a malformed text or one that decodes to more than \<open>cap\<close> bytes.
\<close>

record b64_lib =
  b64_encode :: "u8 list \<Rightarrow> string"
  b64_decode :: "nat \<Rightarrow> string \<Rightarrow> u8 list option"

definition b64_laws :: "b64_lib \<Rightarrow> bool" where
  "b64_laws B \<longleftrightarrow>
     (\<forall>bs. length (b64_encode B bs) = 4 * ((length bs + 2) div 3)) \<and>
     (\<forall>bs cap. length bs \<le> cap \<longrightarrow> b64_decode B cap (b64_encode B bs) = Some bs)"

text \<open>
  The result \<open>None\<close> is the copy of a password longer than the 64-byte buffer, which C leaves
  undefined.
\<close>

definition obfuscateAndEncode :: "b64_lib \<Rightarrow> u8 list \<Rightarrow> string \<Rightarrow> string option" where
  "obfuscateAndEncode B mac plaintext =
     (let len = length plaintext
      in if len = 0 then Some []
         else if len > kMaxWifiPasswordLen then None
         else let buf = xorWithMac mac (map byte_of plaintext);
                  outLen = length (b64_encode B buf) + 1
              in if outLen \<ge> 128 then Some [] else Some (b64_encode B buf))"

definition decodeAndDeobfuscate :: "b64_lib \<Rightarrow> u8 list \<Rightarrow> string \<Rightarrow> nat \<Rightarrow> string option" where
  "decodeAndDeobfuscate B mac encoded outPlainSize =
     (if length encoded = 0 then Some []
      else case b64_decode B kMaxWifiPasswordLen encoded of
        None \<Rightarrow> None
      | Some buf \<Rightarrow>
          if length buf \<ge> outPlainSize then None
          else Some (c_str (map char_of_byte (xorWithMac mac buf))))"

section \<open>SD persistence\<close>

fun load_networks :: "('c, 'v) json_lib \<Rightarrow> b64_lib \<Rightarrow> u8 list \<Rightarrow> 'v list \<Rightarrow> WifiCredential list \<Rightarrow> WifiCredential list" where
  "load_networks J B mac [] cs = cs"
| "load_networks J B mac (net # nets) cs =
     (if length cs \<ge> kMaxWifiNetworks then cs
      else let s = json_or_str J net ''ssid'' []; encodedPassword = json_or_str J net ''password'' []
        in if s = [] then load_networks J B mac nets cs
           else
             let pw = (case decodeAndDeobfuscate B mac encodedPassword (kMaxWifiPasswordLen + 1) of
                         Some p \<Rightarrow> p | None \<Rightarrow> [])
             in load_networks J B mac nets (cs @ [\<lparr>ssid = strncpy kMaxSsidLen s, password = pw\<rparr>]))"

definition WifiStore_load :: "('s, 'c) sd_card \<Rightarrow> ('c, 'v) json_lib \<Rightarrow> b64_lib \<Rightarrow> u8 list \<Rightarrow> 's \<Rightarrow> bool \<times> WifiStoreData" where
  "WifiStore_load sd J B mac s =
     (case load_doc sd J s kWifiStorePath of
        None \<Rightarrow> (False, \<lparr>creds = [], lastSsid = []\<rparr>)
      | Some doc \<Rightarrow> (True,
          \<lparr>creds = load_networks J B mac (j_array J (j_get J doc ''networks'')) [],
           lastSsid = strncpy kMaxSsidLen (json_or_str J doc ''last_connected_ssid'' [])\<rparr>))"

fun json_of_creds :: "b64_lib \<Rightarrow> u8 list \<Rightarrow> WifiCredential list \<Rightarrow> json_out list option" where
  "json_of_creds B mac [] = Some []"
| "json_of_creds B mac (c # cs) =
     (case obfuscateAndEncode B mac (password c) of
        None \<Rightarrow> None
      | Some pw \<Rightarrow> (case json_of_creds B mac cs of
          None \<Rightarrow> None
        | Some js \<Rightarrow> Some (JObj [(''ssid'', JStr (ssid c)), (''password'', JStr pw)] # js)))"

definition WifiStore_save :: "('s, 'c) sd_card \<Rightarrow> ('c, 'v) json_lib \<Rightarrow> b64_lib \<Rightarrow> u8 list \<Rightarrow> 's \<Rightarrow> WifiStoreData \<Rightarrow>
    (bool \<times> 's) option" where
  "WifiStore_save sd J B mac s w =
     (case json_of_creds B mac (creds w) of
        None \<Rightarrow> None
      | Some js \<Rightarrow> Some (writeFileAtomic sd s kWifiStorePath
          (j_serialize J (JObj [(''last_connected_ssid'', JStr (lastSsid w)), (''networks'', JArr js)]))))"

section \<open>The store refines a bounded map\<close>

definition cred_ok :: "WifiCredential \<Rightarrow> bool" where
  "cred_ok c \<longleftrightarrow> length (ssid c) \<le> kMaxSsidLen \<and> length (password c) \<le> kMaxWifiPasswordLen"

definition wifi_inv :: "WifiCredential list \<Rightarrow> bool" where
  "wifi_inv cs \<longleftrightarrow> ix_inv kMaxSsidLen kMaxWifiNetworks ssid cs \<and> list_all cred_ok cs"

definition wifi_upsert :: "WifiCredential list \<Rightarrow> WifiCredential \<Rightarrow> bool \<times> WifiCredential list" where
  "wifi_upsert cs c = wifi_addOrUpdate cs (ssid c) (password c)"

lemma ssid_pos_ix: "ssid_pos = ix_pos kMaxSsidLen ssid"
  by (simp add: fun_eq_iff ssid_pos_def ix_pos_def)

lemma wifi_find_ix: "wifi_find = ix_find kMaxSsidLen ssid"
  by (simp add: fun_eq_iff wifi_find_def ix_find_def ssid_pos_ix)

lemma wifi_remove_ix: "wifi_remove = ix_remove kMaxSsidLen ssid"
  by (simp add: fun_eq_iff wifi_remove_def ix_remove_def ssid_pos_ix)

lemma wifi_upsert_ix:
  assumes "wifi_inv cs" and "cred_ok c"
  shows "wifi_upsert cs c = ix_upsert kMaxSsidLen kMaxWifiNetworks ssid cs c"
proof (cases "ssid_pos cs (ssid c)")
  case None
  then show ?thesis
    using assms(2) by (auto simp: wifi_upsert_def wifi_addOrUpdate_def ix_upsert_def ssid_pos_ix cred_ok_def)
next
  case (Some i)
  have d: "distinct (ix_keys kMaxSsidLen ssid cs)" using assms(1) by (simp add: wifi_inv_def ix_inv_def)
  from Some have i: "i < length cs" "take kMaxSsidLen (ssid (cs ! i)) = take kMaxSsidLen (ssid c)"
    by (simp_all add: ssid_pos_ix ix_pos_Some [OF d])
  moreover have "length (ssid (cs ! i)) \<le> kMaxSsidLen"
    using assms(1) i(1) by (simp add: wifi_inv_def list_all_length cred_ok_def)
  ultimately have "ssid (cs ! i) = ssid c" using assms(2) by (simp add: cred_ok_def)
  then have "(cs ! i)\<lparr>password := password c\<rparr> = c" by (cases c; cases "cs ! i") simp
  then show ?thesis
    using Some assms(2)
    by (simp add: wifi_upsert_def wifi_addOrUpdate_def ix_upsert_def ssid_pos_ix cred_ok_def)
qed

lemma list_all_update: "list_all P xs \<Longrightarrow> P x \<Longrightarrow> list_all P (xs[i := x])"
  by (auto simp: list_all_iff dest: set_update_subset_insert [THEN subsetD])

lemma ix_upsert_all:
  "list_all P s \<Longrightarrow> P e \<Longrightarrow> list_all P (snd (ix_upsert klen cap key s e))"
  by (auto simp: ix_upsert_def list_all_update split: option.splits)

lemma swap_remove_all: "i < length s \<Longrightarrow> list_all P s \<Longrightarrow> list_all P (swap_remove i s)"
  using set_swap_remove_subset [of i s] by (auto simp: list_all_iff)

lemma ix_remove_all: "list_all P s \<Longrightarrow> list_all P (snd (ix_remove klen key s k))"
  by (auto simp: ix_remove_def ix_pos_def intro: swap_remove_all dest: first_index_SomeD split: option.splits)

interpretation wifi: bounded_index kMaxSsidLen kMaxWifiNetworks ssid
  wifi_find wifi_upsert wifi_remove cred_ok wifi_inv
proof -
  let ?K = kMaxSsidLen and ?C = kMaxWifiNetworks
  have ixi: "wifi_inv s \<Longrightarrow> ix_inv ?K ?C ssid s" for s by (simp add: wifi_inv_def)
  note ix = ix_bounded_index [of ?K ?C ssid]
  show "bounded_index ?K ?C ssid wifi_find wifi_upsert wifi_remove cred_ok wifi_inv"
  proof (unfold_locales, goal_cases)
    case 1
    then show ?case using bounded_index.inv_empty [OF ix] by (simp add: wifi_inv_def)
  next
    case (2 k)
    then show ?case using bounded_index.fnd_empty [OF ix] by (simp add: wifi_find_ix)
  next
    case (3 s k)
    then show ?case using bounded_index.fnd_take [OF ix] by (simp add: wifi_find_ix)
  next
    case (4 s)
    then show ?case using bounded_index.inv_length [OF ix ixi] by simp
  next
    case (5 s)
    then show ?case using bounded_index.inv_card [OF ix ixi] by (simp add: wifi_find_ix)
  next
    case (6 s e)
    then show ?case using bounded_index.ups_ok [OF ix ixi, of s e] by (simp add: wifi_find_ix wifi_upsert_ix)
  next
    case (7 s e)
    then show ?case using bounded_index.ups_fail [OF ix ixi, of s e] by (simp add: wifi_upsert_ix)
  next
    case (8 s e)
    then show ?case using bounded_index.ups_inv [OF ix ixi, of s e]
      by (simp add: wifi_upsert_ix) (simp add: wifi_inv_def ix_upsert_all)
  next
    case (9 s e k)
    then show ?case using bounded_index.ups_fnd [OF ix ixi, of s e k] by (simp add: wifi_find_ix wifi_upsert_ix)
  next
    case (10 s k)
    then show ?case using bounded_index.rem_ok [OF ix ixi, of s k] by (simp add: wifi_find_ix wifi_remove_ix)
  next
    case (11 s k)
    then show ?case using bounded_index.rem_inv [OF ix ixi, of s k]
      by (simp add: wifi_remove_ix) (simp add: wifi_inv_def ix_remove_all)
  next
    case (12 s k k')
    then show ?case using bounded_index.rem_fnd [OF ix ixi, of s k k'] by (simp add: wifi_find_ix wifi_remove_ix)
  qed
qed

section \<open>Passwords survive the disk\<close>

lemma char_byte [simp]: "char_of_byte (byte_of c) = c"
proof -
  have "of_char c < (256 :: nat)" by simp
  then show ?thesis by (simp add: char_of_byte_def byte_of_def unat_of_nat)
qed

lemma length_xorWithMac [simp]: "length (xorWithMac mac data) = length data"
  by (simp add: xorWithMac_def)

lemma xorWithMac_twice: "xorWithMac mac (xorWithMac mac data) = data"
  by (rule nth_equalityI) (simp_all add: xorWithMac_def xor.assoc)

lemma obfuscate_roundtrip:
  assumes B: "b64_laws B" and len: "length pw \<le> kMaxWifiPasswordLen" and nul: "CHR 0x00 \<notin> set pw"
  shows "\<exists>t. obfuscateAndEncode B mac pw = Some t \<and>
    decodeAndDeobfuscate B mac t (kMaxWifiPasswordLen + 1) = Some pw"
proof (cases "pw = []")
  case True
  then show ?thesis by (simp add: obfuscateAndEncode_def decodeAndDeobfuscate_def)
next
  case False
  let ?buf = "xorWithMac mac (map byte_of pw)"
  have n: "length (b64_encode B ?buf) = 4 * ((length pw + 2) div 3)"
    using B by (simp add: b64_laws_def)
  have small: "length (b64_encode B ?buf) + 1 < 128"
    using len by (simp add: n kMaxWifiPasswordLen_def)
  have "0 < (length pw + 2) div 3" using False by (cases pw) simp_all
  then have ne: "length (b64_encode B ?buf) \<noteq> 0" unfolding n by simp
  have "c_str pw = pw" using nul by (auto simp: c_str_def takeWhile_eq_all_conv)
  then have plain: "c_str (map char_of_byte (map byte_of pw)) = pw" by (simp add: comp_def)
  have "b64_decode B kMaxWifiPasswordLen (b64_encode B ?buf) = Some ?buf"
    using B len by (simp add: b64_laws_def)
  then have "decodeAndDeobfuscate B mac (b64_encode B ?buf) (kMaxWifiPasswordLen + 1) = Some pw"
    using ne len by (simp only: decodeAndDeobfuscate_def if_False option.case xorWithMac_twice plain)
      simp
  then show ?thesis using False small len by (simp add: obfuscateAndEncode_def Let_def)
qed

definition cred_saveable :: "WifiCredential \<Rightarrow> bool" where
  "cred_saveable c \<longleftrightarrow> cred_ok c \<and> ssid c \<noteq> [] \<and> CHR 0x00 \<notin> set (password c)"

lemma json_of_creds_load:
  assumes J: "json_laws J" and B: "b64_laws B"
  shows "list_all cred_saveable cs \<Longrightarrow> length (acc @ cs) \<le> kMaxWifiNetworks \<Longrightarrow>
    \<exists>js. json_of_creds B mac cs = Some js \<and> load_networks J B mac (map (j_val J) js) acc = acc @ cs"
proof (induction cs arbitrary: acc)
  case (Cons c cs)
  then have c: "cred_saveable c" and len: "length acc < kMaxWifiNetworks" by simp_all
  from c obfuscate_roundtrip [OF B, of "password c" mac] obtain t where
    t: "obfuscateAndEncode B mac (password c) = Some t"
      "decodeAndDeobfuscate B mac t (kMaxWifiPasswordLen + 1) = Some (password c)"
    by (auto simp: cred_saveable_def cred_ok_def)
  from Cons.IH [of "acc @ [c]"] Cons.prems obtain js where
    js: "json_of_creds B mac cs = Some js" "load_networks J B mac (map (j_val J) js) (acc @ [c]) = acc @ c # cs"
    by auto
  have "\<lparr>ssid = strncpy kMaxSsidLen (ssid c), password = password c\<rparr> = c"
    using c by (cases c) (simp add: cred_saveable_def cred_ok_def)
  with c len t js show ?case
    by (simp add: Let_def json_or_strD [OF J] cred_saveable_def)
qed simp

lemma save_load_wifi:
  assumes sd: "sd_laws sd" and J: "json_laws J" and B: "b64_laws B"
    and inv: "length (creds w) \<le> kMaxWifiNetworks" "list_all cred_saveable (creds w)" "length (lastSsid w) \<le> kMaxSsidLen"
  shows "\<exists>r. WifiStore_save sd J B mac s w = Some r \<and>
    (if fst r then WifiStore_load sd J B mac (snd r) = (True, w) else True)"
proof -
  from json_of_creds_load [OF J B inv(2), of "[]" mac] inv(1) obtain js where
    js: "json_of_creds B mac (creds w) = Some js" "load_networks J B mac (map (j_val J) js) [] = creds w" by auto
  let ?d = "JObj [(''last_connected_ssid'', JStr (lastSsid w)), (''networks'', JArr js)]"
  have "WifiStore_load sd J B mac s' = (True, w)"
    if "writeFileAtomic sd s kWifiStorePath (j_serialize J ?d) = (True, s')" for s'
    using load_doc_saved [OF sd J that] js(2) inv(3)
    by (simp add: WifiStore_load_def j_getD [OF J] j_arrayD [OF J] json_or_strD [OF J])
  then show ?thesis
    by (cases "writeFileAtomic sd s kWifiStorePath (j_serialize J ?d)") (auto simp: WifiStore_save_def js(1))
qed

section \<open>A base64 stand-in for the witnesses\<close>

text \<open>It has the lengths of base64 and can be decoded; nothing else is claimed of it.\<close>

definition plain_b64 :: b64_lib where
  "plain_b64 = \<lparr>
     b64_encode = (\<lambda>bs. if bs = [] then [] else
       map char_of_byte bs @ replicate (4 * ((length bs + 2) div 3) - length bs - 1) CHR ''A'' @
         [if length bs mod 3 = 1 then CHR ''1'' else if length bs mod 3 = 2 then CHR ''2'' else CHR ''3'']),
     b64_decode = (\<lambda>cap t. if t = [] then Some [] else
       Some (map byte_of (take (3 * (length t div 4) -
         (if last t = CHR ''1'' then 2 else if last t = CHR ''2'' then 1 else 0)) t)))\<rparr>"

lemma byte_char [simp]: "byte_of (char_of_byte b) = b"
proof -
  have "unat b < 2 ^ LENGTH(8)" by (rule unsigned_less)
  then have "unat b < 256" by simp
  then show ?thesis by (simp add: byte_of_def char_of_byte_def)
qed

lemma third_arith:
  assumes "0 < (n :: nat)"
  shows "n < 4 * ((n + 2) div 3)"
    and "3 * ((n + 2) div 3) - (if n mod 3 = 1 then 2 else if n mod 3 = 2 then 1 else 0) = n"
  using assms by presburger+

lemma plain_b64_laws: "b64_laws plain_b64"
proof -
  have enc: "length (b64_encode plain_b64 bs) = 4 * ((length bs + 2) div 3)" for bs
    using third_arith(1) [of "length bs"] by (cases "bs = []") (simp_all add: plain_b64_def)
  have "b64_decode plain_b64 cap (b64_encode plain_b64 bs) = Some bs" for cap bs
  proof (cases "bs = []")
    case False
    let ?t = "b64_encode plain_b64 bs"
    have ne: "?t \<noteq> []" using False by (simp add: plain_b64_def)
    have l: "last ?t = (if length bs mod 3 = 1 then CHR ''1'' else if length bs mod 3 = 2 then CHR ''2'' else CHR ''3'')"
      using False by (simp add: plain_b64_def)
    have n: "3 * (length ?t div 4) - (if last ?t = CHR ''1'' then 2 else if last ?t = CHR ''2'' then 1 else 0) = length bs"
      using third_arith(2) [of "length bs"] False by (simp add: enc l split: if_splits)
    have "b64_decode plain_b64 cap ?t = Some (map byte_of (take (length bs) ?t))"
      using ne n by (simp add: plain_b64_def [THEN arg_cong [of _ _ b64_decode]])
    also have "take (length bs) ?t = map char_of_byte bs" using False by (simp add: plain_b64_def)
    finally show ?thesis by (simp add: comp_def)
  qed (simp add: plain_b64_def)
  with enc show ?thesis by (simp add: b64_laws_def)
qed

section \<open>Properties\<close>

text \<open>Driven by any sequence of insert-or-update, remove and clear with names and passwords that fit,
  the eight-slot credential array returns the results and holds the contents of a finite map
  from network names to credentials that refuses a ninth name.\<close>

theorem WifiStore_refines_map:
  assumes "list_all (\<lambda>p. case p of Upsert c \<Rightarrow> cred_ok c | _ \<Rightarrow> True) ops"
  shows "map_prod id (index_abs kMaxSsidLen wifi_find) (index_run wifi_upsert wifi_remove ops []) =
     spec_run kMaxSsidLen kMaxWifiNetworks ssid ops Map.empty \<and>
   length (snd (index_run wifi_upsert wifi_remove ops [])) \<le> kMaxWifiNetworks"
proof -
  have "\<forall>p \<in> set ops. wifi.wf_op p"
    using assms by (auto simp: list_all_iff split: index_op.splits) (metis wifi.wf_op.simps index_op.exhaust)
  from wifi.run_from_empty [OF this] show ?thesis by simp
qed

lemma WifiStore_refines_map_witness:
  "fst (index_run wifi_upsert wifi_remove [Upsert \<lparr>ssid = ''home'', password = ''pw''\<rparr>, Remove ''home'', Remove ''home''] [])
     = [True, True, False]"
proof -
  let ?ops = "[Upsert \<lparr>ssid = ''home'', password = ''pw''\<rparr>, Remove ''home'', Remove ''home'']"
  have "list_all (\<lambda>p. case p of Upsert c \<Rightarrow> cred_ok c | _ \<Rightarrow> True) ?ops"
    by (simp add: cred_ok_def kMaxSsidLen_def kMaxWifiPasswordLen_def)
  from WifiStore_refines_map [OF this, THEN conjunct1, THEN arg_cong [of _ _ fst]]
  show ?thesis by (simp add: kMaxSsidLen_def kMaxWifiNetworks_def)
qed

text \<open>Every saved network is read back with its password, through the XOR with the device's MAC and
  base64; saving never overruns the 64-byte password buffer.\<close>

theorem WifiStore_save_load:
  assumes "sd_laws sd" and "json_laws J" and "b64_laws B"
    and "length (creds w) \<le> kMaxWifiNetworks" and "list_all cred_saveable (creds w)" and "length (lastSsid w) \<le> kMaxSsidLen"
  shows "\<exists>ok s'. WifiStore_save sd J B mac s w = Some (ok, s') \<and>
    (ok \<longrightarrow> WifiStore_load sd J B mac s' = (True, w))"
  using save_load_wifi [OF assms, of mac s] by (auto split: if_splits)

lemma WifiStore_save_load_witness:
  "let w = \<lparr>creds = [\<lparr>ssid = ''home'', password = ''pw12345''\<rparr>], lastSsid = ''home''\<rparr>; mac = [1, 2, 3, 4, 5, 6] in
   \<exists>s'. WifiStore_save mem_card plain_json plain_b64 mac Map.empty w = Some (True, s') \<and>
     WifiStore_load mem_card plain_json plain_b64 mac s' = (True, w)"
proof -
  let ?w = "\<lparr>creds = [\<lparr>ssid = ''home'', password = ''pw12345''\<rparr>], lastSsid = ''home''\<rparr>"
  let ?mac = "[1, 2, 3, 4, 5, 6] :: u8 list"
  have "length (creds ?w) \<le> kMaxWifiNetworks" "list_all cred_saveable (creds ?w)" "length (lastSsid ?w) \<le> kMaxSsidLen"
    by (simp_all add: kMaxWifiNetworks_def cred_saveable_def cred_ok_def kMaxSsidLen_def kMaxWifiPasswordLen_def)
  from WifiStore_save_load [OF mem_card_laws plain_json_laws plain_b64_laws this, of ?mac Map.empty]
  obtain ok s' where r: "WifiStore_save mem_card plain_json plain_b64 ?mac Map.empty ?w = Some (ok, s')"
    "ok \<longrightarrow> WifiStore_load mem_card plain_json plain_b64 ?mac s' = (True, ?w)" by blast
  have ok
    using r(1) by (auto simp: WifiStore_save_def writeFileAtomic_def mem_card_def Let_def split: option.splits if_splits)
  with r show ?thesis by (auto simp: Let_def)
qed

end
