(* ===== verification/Wifi_Radio.thy ===== *)
theory Wifi_Radio
  imports Wifi_Store
begin

text \<open>
  The radio: src/firmware/src/net/WifiManager.h, WifiManager.cpp, NatBridge.h and NatBridge.cpp.
  The Arduino \<open>WiFi\<close> object and lwIP's NAPT switch are the parameter \<open>wifi_radio\<close>, acting on the
  world \<open>'w\<close> that also holds the card. \<open>r_status w i\<close> and \<open>r_millis w i\<close> are what turn \<open>i\<close> of the wait
  for an association finds, \<open>r_start\<close> the \<^verbatim>\<open>millis()\<close> before the first turn.
\<close>

section \<open>The interface\<close>

datatype wifi_mode = WIFI_OFF | WIFI_STA | WIFI_AP | WIFI_AP_STA

record 'w wifi_radio =
  r_mode :: "wifi_mode \<Rightarrow> 'w \<Rightarrow> 'w"
  r_disconnect :: "bool \<Rightarrow> bool \<Rightarrow> 'w \<Rightarrow> 'w"
  r_scan :: "'w \<Rightarrow> int \<times> 'w"
  r_SSID :: "'w \<Rightarrow> nat \<Rightarrow> string"
  r_RSSI :: "'w \<Rightarrow> nat \<Rightarrow> int"
  r_scanDelete :: "'w \<Rightarrow> 'w"
  r_begin :: "string \<Rightarrow> string \<Rightarrow> 'w \<Rightarrow> 'w"
  r_start :: "'w \<Rightarrow> u32"
  r_status :: "'w \<Rightarrow> nat \<Rightarrow> bool"
  r_millis :: "'w \<Rightarrow> nat \<Rightarrow> u32"
  r_joined :: "'w \<Rightarrow> string"
  r_localIP :: "'w \<Rightarrow> u32"
  r_ipText :: "'w \<Rightarrow> string"
  r_apText :: "'w \<Rightarrow> string"
  r_signal :: "'w \<Rightarrow> int"
  r_mac :: "'w \<Rightarrow> u8 list"
  r_softAP :: "string \<Rightarrow> string \<Rightarrow> 'w \<Rightarrow> bool \<times> 'w"
  r_softAPdisconnect :: "bool \<Rightarrow> 'w \<Rightarrow> 'w"
  r_napt :: "u32 \<Rightarrow> bool \<Rightarrow> 'w \<Rightarrow> 'w"

section \<open>WifiManager\<close>

text \<open>The scan loop: the saved network with the strongest signal so far, and that signal.\<close>

fun best_loop :: "WifiCredential list \<Rightarrow> (string \<times> int) list \<Rightarrow> WifiCredential option \<Rightarrow> int \<Rightarrow> WifiCredential option" where
  "best_loop cs [] best bestRssi = best"
| "best_loop cs ((name, rssi) # nets) best bestRssi =
     (case wifi_find cs (c_str name) of
        None \<Rightarrow> best_loop cs nets best bestRssi
      | Some cred \<Rightarrow>
          if rssi > bestRssi then best_loop cs nets (Some cred) rssi
          else best_loop cs nets best bestRssi)"

text \<open>The wait; \<open>None\<close> is the loop that never ends.\<close>

partial_function (option) wait_connected :: "(nat \<Rightarrow> bool) \<Rightarrow> (nat \<Rightarrow> u32) \<Rightarrow> u32 \<Rightarrow> u32 \<Rightarrow> nat \<Rightarrow> bool option" where
  "wait_connected st now t0 timeoutMs i =
     (if st i then Some True
      else if now i - t0 > timeoutMs then Some False
      else wait_connected st now t0 timeoutMs (Suc i))"

definition disconnectKeepingAp :: "'w wifi_radio \<Rightarrow> 'w \<Rightarrow> 'w" where
  "disconnectKeepingAp R w = r_mode R WIFI_AP (r_disconnect R False False w)"

text \<open>
  The result is whether the device joined, the credential store and the world; \<open>None\<close> is a wait without
  end, or saving a password longer than its buffer.
\<close>

definition join_network :: "'w wifi_radio \<Rightarrow> ('w, 'c) sd_card \<Rightarrow> ('c, 'v) json_lib \<Rightarrow> b64_lib \<Rightarrow> u8 list \<Rightarrow>
    wifi_mode \<Rightarrow> u32 \<Rightarrow> WifiCredential \<Rightarrow> WifiStoreData \<times> 'w \<Rightarrow> (bool \<times> WifiStoreData \<times> 'w) option" where
  "join_network R sd J B mac mode timeoutMs cred sw =
     (case sw of (store, w) \<Rightarrow>
      let w = r_begin R (ssid cred) (password cred) w
      in case wait_connected (r_status R w) (r_millis R w) (r_start R w) timeoutMs 0 of
        None \<Rightarrow> None
      | Some joined \<Rightarrow>
          if \<not> joined then
            Some (False, store, if mode = WIFI_AP_STA then disconnectKeepingAp R w else r_disconnect R True False w)
          else
            let store = setLastConnectedSsid store (ssid cred)
            in case WifiStore_save sd J B mac w store of
              None \<Rightarrow> None
            | Some (saved, w) \<Rightarrow> Some (True, store, w))"

definition connectWithMode :: "'w wifi_radio \<Rightarrow> ('w, 'c) sd_card \<Rightarrow> ('c, 'v) json_lib \<Rightarrow> b64_lib \<Rightarrow> u8 list \<Rightarrow>
    wifi_mode \<Rightarrow> u32 \<Rightarrow> WifiStoreData \<times> 'w \<Rightarrow> (bool \<times> WifiStoreData \<times> 'w) option" where
  "connectWithMode R sd J B mac mode timeoutMs sw =
     (case sw of (store, w) \<Rightarrow>
      if length (creds store) = 0 then Some (False, store, w) else
      let w = r_mode R mode w;
          w = r_disconnect R False False w;
          (found, w) = r_scan R w
      in if found \<le> 0 then Some (False, store, w) else
      let best = best_loop (creds store) (map (\<lambda>i. (r_SSID R w i, r_RSSI R w i)) [0..<nat found]) None (- (2 ^ 31));
          w = r_scanDelete R w
      in case best of
        None \<Rightarrow> Some (False, store, w)
      | Some cred \<Rightarrow> join_network R sd J B mac mode timeoutMs cred (store, w))"

definition WifiManager_connect :: "'w wifi_radio \<Rightarrow> ('w, 'c) sd_card \<Rightarrow> ('c, 'v) json_lib \<Rightarrow> b64_lib \<Rightarrow> u8 list \<Rightarrow>
    u32 \<Rightarrow> WifiStoreData \<times> 'w \<Rightarrow> (bool \<times> WifiStoreData \<times> 'w) option" where
  "WifiManager_connect R sd J B mac timeoutMs sw = connectWithMode R sd J B mac WIFI_STA timeoutMs sw"

definition connectKeepingAp :: "'w wifi_radio \<Rightarrow> ('w, 'c) sd_card \<Rightarrow> ('c, 'v) json_lib \<Rightarrow> b64_lib \<Rightarrow> u8 list \<Rightarrow>
    u32 \<Rightarrow> WifiStoreData \<times> 'w \<Rightarrow> (bool \<times> WifiStoreData \<times> 'w) option" where
  "connectKeepingAp R sd J B mac timeoutMs sw = connectWithMode R sd J B mac WIFI_AP_STA timeoutMs sw"

definition WifiManager_disconnect :: "'w wifi_radio \<Rightarrow> 'w \<Rightarrow> 'w" where
  "WifiManager_disconnect R w = r_mode R WIFI_OFF (r_disconnect R True True w)"

definition startAccessPoint :: "'w wifi_radio \<Rightarrow> string \<Rightarrow> string \<Rightarrow> 'w \<Rightarrow> bool \<times> 'w" where
  "startAccessPoint R name pw w = r_softAP R name pw (r_mode R WIFI_AP w)"

definition stopAccessPoint :: "'w wifi_radio \<Rightarrow> 'w \<Rightarrow> 'w" where
  "stopAccessPoint R w = r_mode R WIFI_OFF (r_softAPdisconnect R True w)"

section \<open>NatBridge\<close>

record NatBridge =
  natEnabled :: bool
  bridgedStaIp :: u32

definition NatBridge_init :: NatBridge where
  "NatBridge_init = \<lparr>natEnabled = False, bridgedStaIp = 0\<rparr>"

definition kNatTimeoutMs :: u32 where "kNatTimeoutMs = 15000"

definition NatBridge_disable :: "'w wifi_radio \<Rightarrow> NatBridge \<times> 'w \<Rightarrow> NatBridge \<times> 'w" where
  "NatBridge_disable R nw =
     (case nw of (nb, w) \<Rightarrow>
      if \<not> natEnabled nb then (nb, w)
      else let w = r_napt R (bridgedStaIp nb) False w
           in (nb\<lparr>bridgedStaIp := 0, natEnabled := False\<rparr>, disconnectKeepingAp R w))"

definition NatBridge_enable :: "'w wifi_radio \<Rightarrow> ('w, 'c) sd_card \<Rightarrow> ('c, 'v) json_lib \<Rightarrow> b64_lib \<Rightarrow> u8 list \<Rightarrow>
    u32 \<Rightarrow> NatBridge \<times> WifiStoreData \<times> 'w \<Rightarrow> (bool \<times> NatBridge \<times> WifiStoreData \<times> 'w) option" where
  "NatBridge_enable R sd J B mac timeoutMs nsw =
     (case nsw of (nb, store, w) \<Rightarrow>
      let (nb, w) = (if natEnabled nb then NatBridge_disable R (nb, w) else (nb, w))
      in case connectKeepingAp R sd J B mac timeoutMs (store, w) of
        None \<Rightarrow> None
      | Some (joined, store, w) \<Rightarrow>
          if \<not> joined then Some (False, nb, store, w)
          else let ip = r_localIP R w
               in Some (True, nb\<lparr>bridgedStaIp := ip, natEnabled := True\<rparr>, store, r_napt R ip True w))"

section \<open>The choice of the network\<close>

lemma best_loop_None:
  "best_loop cs nets best b = None \<longleftrightarrow>
     best = None \<and> (\<forall>(name, rssi) \<in> set nets. wifi_find cs (c_str name) \<noteq> None \<longrightarrow> rssi \<le> b)"
  by (induction cs nets best b rule: best_loop.induct) (auto split: option.splits)

definition no_stronger :: "WifiCredential list \<Rightarrow> (string \<times> int) list \<Rightarrow> int \<Rightarrow> bool" where
  "no_stronger cs nets r \<longleftrightarrow> (\<forall>(name, rssi) \<in> set nets. wifi_find cs (c_str name) \<noteq> None \<longrightarrow> rssi \<le> r)"

lemma no_stronger_Cons:
  "no_stronger cs ((name, rssi) # nets) r \<longleftrightarrow> (wifi_find cs (c_str name) \<noteq> None \<longrightarrow> rssi \<le> r) \<and> no_stronger cs nets r"
  by (simp add: no_stronger_def)

lemma no_stronger_mono: "no_stronger cs nets r \<Longrightarrow> r \<le> r' \<Longrightarrow> no_stronger cs nets r'"
  by (fastforce simp: no_stronger_def)

definition picked :: "WifiCredential list \<Rightarrow> (string \<times> int) list \<Rightarrow> int \<Rightarrow> WifiCredential \<Rightarrow> bool" where
  "picked cs nets b c \<longleftrightarrow>
     (\<exists>(name, rssi) \<in> set nets. wifi_find cs (c_str name) = Some c \<and> b < rssi \<and> no_stronger cs nets rssi)"

lemma picked_skip:
  assumes "picked cs nets b c" and "wifi_find cs (c_str name) \<noteq> None \<Longrightarrow> rssi \<le> b"
  shows "picked cs ((name, rssi) # nets) b c"
proof -
  obtain n r where nr: "(n, r) \<in> set nets" "wifi_find cs (c_str n) = Some c" "b < r" "no_stronger cs nets r"
    using assms(1) by (auto simp: picked_def)
  then have "no_stronger cs ((name, rssi) # nets) r"
    using assms(2) by (auto simp: no_stronger_Cons)
  with nr show ?thesis by (auto simp: picked_def)
qed

lemma picked_raise:
  assumes "picked cs nets rssi c" and "b < rssi"
  shows "picked cs ((name, rssi) # nets) b c"
proof -
  obtain n r where nr: "(n, r) \<in> set nets" "wifi_find cs (c_str n) = Some c" "rssi < r" "no_stronger cs nets r"
    using assms(1) by (auto simp: picked_def)
  then have "no_stronger cs ((name, rssi) # nets) r" "b < r"
    using assms(2) by (auto simp: no_stronger_Cons)
  with nr show ?thesis by (auto simp: picked_def)
qed

lemma best_loop_picked:
  "best_loop cs nets best b = Some c \<Longrightarrow> best = Some c \<and> no_stronger cs nets b \<or> picked cs nets b c"
proof (induction cs nets best b rule: best_loop.induct)
  case (1 cs best b)
  then show ?case by (simp add: no_stronger_def)
next
  case (2 cs name rssi nets best b)
  show ?case
  proof (cases "wifi_find cs (c_str name)")
    case None
    with "2.prems" have "best_loop cs nets best b = Some c" by simp
    from "2.IH"(1) [OF None this] show ?thesis
      by (auto simp: None no_stronger_Cons intro: picked_skip)
  next
    case (Some cred)
    show ?thesis
    proof (cases "b < rssi")
      case True
      with "2.prems" Some have "best_loop cs nets (Some cred) rssi = Some c" by simp
      from "2.IH"(2) [OF Some True this]
      have "cred = c \<and> no_stronger cs nets rssi \<or> picked cs nets rssi c" by simp
      then show ?thesis
      proof
        assume "cred = c \<and> no_stronger cs nets rssi"
        with True Some have "picked cs ((name, rssi) # nets) b c"
          by (auto simp: picked_def no_stronger_Cons)
        then show ?thesis ..
      next
        assume "picked cs nets rssi c"
        from picked_raise [OF this True] have "picked cs ((name, rssi) # nets) b c" .
        then show ?thesis ..
      qed
    next
      case False
      with "2.prems" Some have "best_loop cs nets best b = Some c" by simp
      from "2.IH"(3) [OF Some False this] False show ?thesis
        by (auto simp: no_stronger_Cons intro: picked_skip)
    qed
  qed
qed

lemma wait_connected_ends:
  assumes "st n \<or> now n - t0 > timeoutMs" and "i \<le> n"
  shows "wait_connected st now t0 timeoutMs i \<noteq> None"
  using assms(2)
proof (induction "n - i" arbitrary: i)
  case 0
  with assms show ?case by (subst wait_connected.simps) auto
next
  case (Suc k)
  then show ?case by (subst wait_connected.simps) auto
qed

text \<open>\<^verbatim>\<open>millis()\<close> grows with every turn's delay, so some turn sees the time-out.\<close>

definition clock_passes :: "'w wifi_radio \<Rightarrow> u32 \<Rightarrow> bool" where
  "clock_passes R timeoutMs \<longleftrightarrow> (\<forall>w. \<exists>n. timeoutMs < r_millis R w n - r_start R w)"

lemma save_creds_Some:
  "\<forall>c \<in> set cs. length (password c) \<le> kMaxWifiPasswordLen \<Longrightarrow> json_of_creds B mac cs \<noteq> None"
  by (induction cs) (auto simp: obfuscateAndEncode_def Let_def split: option.splits)

lemma WifiStore_save_Some:
  assumes "\<forall>c \<in> set (creds store). cred_ok c"
  shows "WifiStore_save sd J B mac w store \<noteq> None"
  using assms save_creds_Some [of "creds store" B mac]
  by (auto simp: WifiStore_save_def cred_ok_def split: option.splits)

lemma setLastConnectedSsid_creds [simp]: "creds (setLastConnectedSsid s n) = creds s"
  by (simp add: setLastConnectedSsid_def)

lemma setLastConnectedSsid_last [simp]: "lastSsid (setLastConnectedSsid s n) = strncpy kMaxSsidLen n"
  by (simp add: setLastConnectedSsid_def)

definition scanned :: "'w wifi_radio \<Rightarrow> wifi_mode \<Rightarrow> 'w \<Rightarrow> int \<times> 'w" where
  "scanned R mode w = r_scan R (r_disconnect R False False (r_mode R mode w))"

definition visible :: "'w wifi_radio \<Rightarrow> int \<times> 'w \<Rightarrow> (string \<times> int) list" where
  "visible R fw = map (\<lambda>i. (r_SSID R (snd fw) i, r_RSSI R (snd fw) i)) [0..<nat (fst fw)]"

lemma join_network_Some:
  assumes ok: "\<forall>c \<in> set (creds store). cred_ok c" and clock: "clock_passes R timeoutMs"
  shows "join_network R sd J B mac mode timeoutMs cred (store, w) \<noteq> None"
proof -
  let ?w = "r_begin R (ssid cred) (password cred) w"
  obtain n where "timeoutMs < r_millis R ?w n - r_start R ?w"
    using clock by (auto simp: clock_passes_def)
  then have "wait_connected (r_status R ?w) (r_millis R ?w) (r_start R ?w) timeoutMs 0 \<noteq> None"
    by (intro wait_connected_ends [of _ n]) simp_all
  moreover have "WifiStore_save sd J B mac ?w (setLastConnectedSsid store (ssid cred)) \<noteq> None"
    using ok by (intro WifiStore_save_Some) simp
  ultimately show ?thesis by (auto simp: join_network_def Let_def)
qed

lemma connect_Some:
  assumes "\<forall>c \<in> set (creds store). cred_ok c" and "clock_passes R timeoutMs"
  shows "connectWithMode R sd J B mac mode timeoutMs (store, w) \<noteq> None"
  using join_network_Some [OF assms] by (auto simp: connectWithMode_def Let_def split_def split: option.split)

lemma join_network_joined:
  assumes "join_network R sd J B mac mode timeoutMs cred (store, w) = Some (True, store', w')"
  shows "store' = setLastConnectedSsid store (ssid cred)"
  using assms by (auto simp: join_network_def Let_def split: option.splits if_splits)

lemma join_network_failed:
  assumes "join_network R sd J B mac mode timeoutMs cred (store, w) = Some (False, store', w')"
  shows "store' = store"
  using assms by (auto simp: join_network_def Let_def split: option.splits if_splits)

lemma connect_joined:
  assumes "connectWithMode R sd J B mac mode timeoutMs (store, w) = Some (True, store', w')"
  shows "\<exists>c. best_loop (creds store) (visible R (scanned R mode w)) None (- (2 ^ 31)) = Some c \<and>
    store' = setLastConnectedSsid store (ssid c)"
  using assms
  by (auto simp: connectWithMode_def scanned_def visible_def Let_def split_def
      split: if_splits option.splits dest: join_network_joined)

lemma connect_creds:
  assumes "connectWithMode R sd J B mac mode timeoutMs (store, w) = Some (joined, store', w')"
  shows "creds store' = creds store"
  using assms
  by (cases joined)
    (auto simp: connectWithMode_def Let_def split_def split: if_splits option.splits
      dest: join_network_joined join_network_failed)

section \<open>Address translation\<close>

text \<open>
  \<open>napt w\<close> is the set of addresses NAPT is on for; only \<^verbatim>\<open>ip_napt_enable\<close> changes it.
\<close>

definition napt_laws :: "'w wifi_radio \<Rightarrow> ('w, 'c) sd_card \<Rightarrow> ('w \<Rightarrow> u32 set) \<Rightarrow> bool" where
  "napt_laws R sd napt \<longleftrightarrow>
     (\<forall>ip w. napt (r_napt R ip True w) = insert ip (napt w)) \<and>
     (\<forall>ip w. napt (r_napt R ip False w) = napt w - {ip}) \<and>
     (\<forall>m w. napt (r_mode R m w) = napt w) \<and>
     (\<forall>a b w. napt (r_disconnect R a b w) = napt w) \<and>
     (\<forall>w. napt (snd (r_scan R w)) = napt w) \<and>
     (\<forall>w. napt (r_scanDelete R w) = napt w) \<and>
     (\<forall>a b w. napt (r_begin R a b w) = napt w) \<and>
     (\<forall>a b w. napt (snd (r_softAP R a b w)) = napt w) \<and>
     (\<forall>b w. napt (r_softAPdisconnect R b w) = napt w) \<and>
     (\<forall>p c w. napt (snd (sd_write sd w p c)) = napt w) \<and>
     (\<forall>p w. napt (snd (sd_remove sd w p)) = napt w) \<and>
     (\<forall>p w. napt (sd_mkdir sd w p) = napt w) \<and>
     (\<forall>p q w. napt (snd (sd_rename sd w p q)) = napt w)"

definition nat_inv :: "('w \<Rightarrow> u32 set) \<Rightarrow> NatBridge \<times> 'w \<Rightarrow> bool" where
  "nat_inv napt nw \<longleftrightarrow> napt (snd nw) = (if natEnabled (fst nw) then {bridgedStaIp (fst nw)} else {})"

lemma napt_writeFileAtomic:
  assumes "napt_laws R sd napt" and w: "writeFileAtomic sd w p c = (b, w')"
  shows "napt w' = napt w"
proof -
  have "napt (snd (writeFileAtomic sd w p c)) = napt w"
    using assms(1) by (simp add: writeFileAtomic_def napt_laws_def Let_def split_def)
  with w show ?thesis by simp
qed

lemma napt_join_network:
  assumes L: "napt_laws R sd napt"
    and j: "join_network R sd J B mac mode timeoutMs cred (store, w) = Some (joined, store', w')"
  shows "napt w' = napt w"
proof -
  have save: "WifiStore_save sd J B mac w1 s1 = Some (b, w2) \<Longrightarrow> napt w2 = napt w1" for w1 s1 b w2
    by (auto simp: WifiStore_save_def dest: napt_writeFileAtomic [OF L] split: option.splits)
  show ?thesis
    using j L by (auto simp: join_network_def Let_def napt_laws_def disconnectKeepingAp_def
        split: option.splits if_splits dest!: save)
qed

lemma napt_connect:
  assumes L: "napt_laws R sd napt"
    and "connectWithMode R sd J B mac mode timeoutMs (store, w) = Some (joined, store', w')"
  shows "napt w' = napt w"
  using assms
  by (auto simp: connectWithMode_def Let_def split_def napt_laws_def
      dest!: napt_join_network [OF L] split: if_splits option.splits)

lemma NatBridge_disable_inv:
  assumes "napt_laws R sd napt" and "nat_inv napt nw"
  shows "nat_inv napt (NatBridge_disable R nw) \<and> \<not> natEnabled (fst (NatBridge_disable R nw))"
  using assms by (auto simp: nat_inv_def NatBridge_disable_def napt_laws_def disconnectKeepingAp_def split: prod.splits)

lemma NatBridge_enable_inv:
  assumes L: "napt_laws R sd napt" and inv: "nat_inv napt (nb, w)"
    and e: "NatBridge_enable R sd J B mac timeoutMs (nb, store, w) = Some (up, nb', store', w')"
  shows "nat_inv napt (nb', w') \<and> natEnabled nb' = up"
proof -
  define nw where "nw = (if natEnabled nb then NatBridge_disable R (nb, w) else (nb, w))"
  obtain nb1 w1 where nw: "nw = (nb1, w1)" by (cases nw)
  have off: "nat_inv napt (nb1, w1)" "\<not> natEnabled nb1"
    using NatBridge_disable_inv [OF L inv] inv nw by (auto simp: nw_def split: if_splits)
  obtain joined s2 w2 where c: "connectKeepingAp R sd J B mac timeoutMs (store, w1) = Some (joined, s2, w2)"
    using e nw by (auto simp: NatBridge_enable_def nw_def [symmetric] split: option.splits)
  have n2: "napt w2 = {}"
    using napt_connect [OF L c [unfolded connectKeepingAp_def]] off by (simp add: nat_inv_def)
  have on: "napt (r_napt R ip True w2) = {ip}" for ip
    using L n2 by (simp add: napt_laws_def)
  show ?thesis
    using e nw c off n2 on
    by (cases joined) (auto simp: NatBridge_enable_def nw_def [symmetric] nat_inv_def Let_def)
qed

section \<open>A radio for the witnesses\<close>

text \<open>It sees the given networks and joins in the third turn; the world is a card and the NAPT set.\<close>

definition toy_radio :: "(string \<times> int) list \<Rightarrow> ('s \<times> u32 set) wifi_radio" where
  "toy_radio nets = \<lparr>
     r_mode = (\<lambda>m w. w), r_disconnect = (\<lambda>a b w. w), r_scan = (\<lambda>w. (int (length nets), w)),
     r_SSID = (\<lambda>w i. fst (nets ! i)), r_RSSI = (\<lambda>w i. snd (nets ! i)), r_scanDelete = (\<lambda>w. w),
     r_begin = (\<lambda>a b w. w), r_start = (\<lambda>w. 0), r_status = (\<lambda>w i. i = 2), r_millis = (\<lambda>w i. word_of_nat (100 * i)),
     r_joined = (\<lambda>w. ''Home''), r_localIP = (\<lambda>w. 7), r_ipText = (\<lambda>w. ''192.168.1.7''),
     r_apText = (\<lambda>w. ''192.168.4.1''), r_signal = (\<lambda>w. - 60), r_mac = (\<lambda>w. [1, 2, 3, 4, 0xAB, 6]),
     r_softAP = (\<lambda>a b w. (True, w)), r_softAPdisconnect = (\<lambda>b w. w),
     r_napt = (\<lambda>ip on (s, ips). (s, if on then insert ip ips else ips - {ip}))\<rparr>"

definition toy_store :: WifiStoreData where
  "toy_store = \<lparr>creds = [\<lparr>ssid = ''Work'', password = []\<rparr>, \<lparr>ssid = ''Home'', password = []\<rparr>], lastSsid = []\<rparr>"

definition toy_world :: "(string \<rightharpoonup> json_out) \<times> u32 set" where
  "toy_world = (Map.empty, {})"

definition toy_nets :: "(string \<times> int) list" where
  "toy_nets = [(''Cafe'', - 20), (''Work'', - 80), (''Home'', - 60)]"

lemma toy_napt_laws: "napt_laws (toy_radio nets) (sd_with mem_card) snd"
  by (simp add: napt_laws_def toy_radio_def split: prod.splits)

lemma toy_clock: "clock_passes (toy_radio nets) 1000"
proof -
  have "(1000 :: u32) < word_of_nat (100 * 11)" by simp
  then have "\<exists>n. (1000 :: u32) < word_of_nat (100 * n)" by (rule exI)
  then show ?thesis by (simp add: clock_passes_def toy_radio_def)
qed

lemma toy_connect:
  "connectWithMode (toy_radio toy_nets) (sd_with mem_card) plain_json plain_b64 [0, 0, 0, 0, 0, 0] mode 1000 (toy_store, toy_world) =
     Some (True, toy_store\<lparr>lastSsid := ''Home''\<rparr>,
       [kWifiStorePath \<mapsto> JObj [(''last_connected_ssid'', JStr ''Home''),
          (''networks'', JArr [JObj [(''ssid'', JStr ''Work''), (''password'', JStr [])],
             JObj [(''ssid'', JStr ''Home''), (''password'', JStr [])]])]], {})"
proof -
  have find: "wifi_find (creds toy_store) (c_str ''Cafe'') = None"
    "wifi_find (creds toy_store) (c_str ''Work'') = Some \<lparr>ssid = ''Work'', password = []\<rparr>"
    "wifi_find (creds toy_store) (c_str ''Home'') = Some \<lparr>ssid = ''Home'', password = []\<rparr>"
    by code_simp+
  have up: "[0..<3] = [0, 1, 2 :: nat]" by (simp add: upt_rec)
  have best: "best_loop (creds toy_store) (map (\<lambda>i. (fst (toy_nets ! i), snd (toy_nets ! i))) [0..<3]) None (- (2 ^ 31)) =
      Some \<lparr>ssid = ''Home'', password = []\<rparr>"
    by (simp add: up toy_nets_def find)
  have wait: "wait_connected (\<lambda>i. i = 2) (\<lambda>i. word_of_nat (100 * i)) 0 1000 0 = Some True"
    by (simp add: wait_connected.simps)
  have n: "length toy_nets = 3" "creds toy_store \<noteq> []" by (simp_all add: toy_nets_def toy_store_def)
  show ?thesis
    using best wait
    by (simp add: connectWithMode_def n toy_radio_def join_network_def WifiStore_save_def writeFileAtomic_def Let_def
        toy_store_def obfuscateAndEncode_def toy_world_def setLastConnectedSsid_def kMaxSsidLen_def sd_with_def mem_card_def
        plain_json_def kWifiStorePath_def tmp_path_def fun_eq_iff)
qed

section \<open>Properties\<close>

text \<open>When the device joins a network, it is a saved one that the scan showed, and no saved network
  in the scan had a stronger signal; it is remembered as the last one and the saved credentials stay.\<close>

theorem connect_picks_strongest:
  assumes "connectWithMode R sd J B mac mode timeoutMs (store, w) = Some (True, store', w')"
  shows "\<exists>c name rssi. (name, rssi) \<in> set (visible R (scanned R mode w)) \<and> wifi_find (creds store) (c_str name) = Some c \<and>
    (\<forall>(name', rssi') \<in> set (visible R (scanned R mode w)). wifi_find (creds store) (c_str name') \<noteq> None \<longrightarrow> rssi' \<le> rssi) \<and>
    join_network R sd J B mac mode timeoutMs c (store, r_scanDelete R (snd (scanned R mode w))) = Some (True, store', w') \<and>
    lastSsid store' = strncpy kMaxSsidLen (ssid c) \<and> creds store' = creds store"
proof -
  obtain c where c: "best_loop (creds store) (visible R (scanned R mode w)) None (- (2 ^ 31)) = Some c"
      "join_network R sd J B mac mode timeoutMs c (store, r_scanDelete R (snd (scanned R mode w))) = Some (True, store', w')"
    using assms
    by (auto simp: connectWithMode_def scanned_def visible_def Let_def split_def split: if_splits option.splits)
  from best_loop_picked [OF c(1)] obtain name rssi where
    "(name, rssi) \<in> set (visible R (scanned R mode w))" "wifi_find (creds store) (c_str name) = Some c"
    "no_stronger (creds store) (visible R (scanned R mode w)) rssi"
    by (auto simp: picked_def)
  moreover have "store' = setLastConnectedSsid store (ssid c)"
    using c(2) by (rule join_network_joined)
  ultimately show ?thesis using c(2) by (fastforce simp: no_stronger_def)
qed

lemma connect_picks_strongest_witness:
  "\<exists>store' w'. connectWithMode (toy_radio toy_nets) (sd_with mem_card) plain_json plain_b64 [0, 0, 0, 0, 0, 0] WIFI_STA 1000
     (toy_store, toy_world) = Some (True, store', w') \<and> lastSsid store' = ''Home'' \<and> creds store' = creds toy_store"
proof -
  note c = toy_connect [of WIFI_STA]
  have "creds (toy_store\<lparr>lastSsid := ''Home''\<rparr>) = creds toy_store"
    using connect_picks_strongest [OF c] by blast
  with c show ?thesis by simp
qed

text \<open>Connecting returns: the wait for the association ends once the clock passes the time-out, and
  the saved passwords fit the buffer they are encoded from.\<close>

theorem connect_returns:
  assumes "\<forall>c \<in> set (creds store). cred_ok c" and "clock_passes R timeoutMs"
  shows "\<exists>joined store' w'. connectWithMode R sd J B mac mode timeoutMs (store, w) = Some (joined, store', w') \<and>
    creds store' = creds store"
proof -
  obtain joined store' w' where c: "connectWithMode R sd J B mac mode timeoutMs (store, w) = Some (joined, store', w')"
    using connect_Some [OF assms, of sd J B mac mode w] by auto
  with connect_creds [OF c] show ?thesis by blast
qed

lemma connect_returns_witness:
  "\<exists>joined store' w'. connectWithMode (toy_radio toy_nets) (sd_with mem_card) plain_json plain_b64 [0, 0, 0, 0, 0, 0] WIFI_STA 1000
     (toy_store, toy_world) = Some (joined, store', w') \<and> creds store' = creds toy_store"
  by (rule connect_returns [OF _ toy_clock])
    (simp add: toy_store_def cred_ok_def kMaxSsidLen_def kMaxWifiPasswordLen_def)

text \<open>Address translation is on exactly for the address the bridge records: enabling twice leaves
  one address, disabling none, and a failed attempt to bridge leaves none.\<close>

theorem nat_bridge_invariant:
  assumes "napt_laws R sd napt" and "nat_inv napt (nb, w)"
  shows "nat_inv napt (NatBridge_disable R (nb, w)) \<and> \<not> natEnabled (fst (NatBridge_disable R (nb, w))) \<and>
    (\<forall>up nb' store' w'. NatBridge_enable R sd J B mac timeoutMs (nb, store, w) = Some (up, nb', store', w') \<longrightarrow>
       nat_inv napt (nb', w') \<and> natEnabled nb' = up)"
  using NatBridge_disable_inv [OF assms] NatBridge_enable_inv [OF assms] by blast

lemma nat_bridge_invariant_witness:
  "\<exists>nb store' w'. NatBridge_enable (toy_radio toy_nets) (sd_with mem_card) plain_json plain_b64 [0, 0, 0, 0, 0, 0] 1000
     (NatBridge_init, toy_store, toy_world) = Some (True, nb, store', w') \<and> snd w' = {bridgedStaIp nb}"
proof -
  have i: "nat_inv snd (NatBridge_init, toy_world)"
    by (simp add: nat_inv_def NatBridge_init_def toy_world_def)
  obtain nb store' w' where e: "NatBridge_enable (toy_radio toy_nets) (sd_with mem_card) plain_json plain_b64 [0, 0, 0, 0, 0, 0] 1000
     (NatBridge_init, toy_store, toy_world) = Some (True, nb, store', w')"
    using toy_connect [of WIFI_AP_STA] by (simp add: NatBridge_enable_def connectKeepingAp_def NatBridge_init_def Let_def)
  have "nat_inv snd (nb, w') \<and> natEnabled nb"
    using nat_bridge_invariant [OF toy_napt_laws i] e by blast
  with e show ?thesis by (auto simp: nat_inv_def)
qed

end
