(* ===== verification/Planner_Store.thy ===== *)
theory Planner_Store
  imports Job_Store
begin

text \<open>
  The planner task index: src/firmware/src/store/PlannerStore.h (categories, entries and the
  fixed-capacity index) and src/firmware/src/store/PlannerStore.cpp (load and save). The fields
  \<^verbatim>\<open>id\<close>, \<^verbatim>\<open>title\<close> and \<^verbatim>\<open>done\<close> of \<^verbatim>\<open>TaskEntry\<close> are \<open>taskId\<close>, \<open>taskTitle\<close> and \<open>taskDone\<close>.
\<close>

section \<open>Data\<close>

definition kMaxPlannerTasks :: nat where "kMaxPlannerTasks = 64"
definition kTaskTitleLen :: nat where "kTaskTitleLen = 64"
definition kTaskTimeLen :: nat where "kTaskTimeLen = 5"

datatype Category = Work | Break | Chore | Health | Social | School | Personal | Other

fun categoryName :: "Category \<Rightarrow> string" where
  "categoryName Work = ''Work''"
| "categoryName Break = ''Break''"
| "categoryName Chore = ''Chore''"
| "categoryName Health = ''Health''"
| "categoryName Social = ''Social''"
| "categoryName School = ''School''"
| "categoryName Personal = ''Personal''"
| "categoryName Other = ''Other''"

definition parseCategoryName :: "string \<Rightarrow> Category option" where
  "parseCategoryName s =
     (if strcmp s ''Work'' = 0 then Some Work
      else if strcmp s ''Break'' = 0 then Some Break
      else if strcmp s ''Chore'' = 0 then Some Chore
      else if strcmp s ''Health'' = 0 then Some Health
      else if strcmp s ''Social'' = 0 then Some Social
      else if strcmp s ''School'' = 0 then Some School
      else if strcmp s ''Personal'' = 0 then Some Personal
      else if strcmp s ''Other'' = 0 then Some Other
      else None)"

record TaskEntry =
  taskId :: string
  taskTitle :: string
  category :: Category
  startTime :: string
  endTime :: string
  taskDone :: bool

type_synonym TaskIndex = "TaskEntry list"

section \<open>Operations\<close>

definition taskIdEquals :: "TaskEntry \<Rightarrow> string \<Rightarrow> bool" where
  "taskIdEquals e other \<longleftrightarrow> strncmp (taskId e) other kTaskIdLen = 0"

definition TaskIndex_full :: "TaskIndex \<Rightarrow> bool" where
  "TaskIndex_full s \<longleftrightarrow> length s \<ge> kMaxPlannerTasks"

definition TaskIndex_find :: "TaskIndex \<Rightarrow> string \<Rightarrow> nat option" where
  "TaskIndex_find s tid = first_index (\<lambda>e. taskIdEquals e tid) s"

definition TaskIndex_entry :: "TaskIndex \<Rightarrow> string \<Rightarrow> TaskEntry option" where
  "TaskIndex_entry s tid = map_option (\<lambda>i. s ! i) (TaskIndex_find s tid)"

definition TaskIndex_upsert :: "TaskIndex \<Rightarrow> TaskEntry \<Rightarrow> bool \<times> TaskIndex" where
  "TaskIndex_upsert s entry =
     (case TaskIndex_find s (taskId entry) of
        Some existing \<Rightarrow> (True, s[existing := entry])
      | None \<Rightarrow> if TaskIndex_full s then (False, s) else (True, s @ [entry]))"

definition TaskIndex_remove :: "TaskIndex \<Rightarrow> string \<Rightarrow> bool \<times> TaskIndex" where
  "TaskIndex_remove s tid =
     (case first_index (\<lambda>e. taskIdEquals e tid) s of
        Some i \<Rightarrow> (True, swap_remove i s)
      | None \<Rightarrow> (False, s))"

definition TaskIndex_setDone :: "TaskIndex \<Rightarrow> string \<Rightarrow> bool \<Rightarrow> bool \<times> TaskIndex" where
  "TaskIndex_setDone s tid d =
     (case TaskIndex_find s tid of
        Some e \<Rightarrow> (True, s[e := (s ! e)\<lparr>taskDone := d\<rparr>])
      | None \<Rightarrow> (False, s))"

section \<open>SD persistence\<close>

definition kPlannerIndexPath :: string where
  "kPlannerIndexPath = ''/planner/index.json''"

definition task_of_json :: "('c, 'v) json_lib \<Rightarrow> 'v \<Rightarrow> TaskEntry" where
  "task_of_json J t = \<lparr>
     taskId = strncpy kTaskIdLen (json_or_str J t ''id'' []),
     taskTitle = strncpy kTaskTitleLen (json_or_str J t ''title'' []),
     category = (case parseCategoryName (json_or_str J t ''category'' ''Other'') of
         Some c \<Rightarrow> c | None \<Rightarrow> Other),
     startTime = strncpy kTaskTimeLen (json_or_str J t ''start_time'' []),
     endTime = strncpy kTaskTimeLen (json_or_str J t ''end_time'' []),
     taskDone = json_or_bool J t ''done'' False\<rparr>"

definition json_of_task :: "TaskEntry \<Rightarrow> json_out" where
  "json_of_task e = JObj [
     (''id'', JStr (taskId e)),
     (''title'', JStr (taskTitle e)),
     (''category'', JStr (categoryName (category e))),
     (''start_time'', JStr (startTime e)),
     (''end_time'', JStr (endTime e)),
     (''done'', JBool (taskDone e))]"

fun load_tasks :: "('c, 'v) json_lib \<Rightarrow> 'v list \<Rightarrow> TaskIndex \<Rightarrow> TaskIndex" where
  "load_tasks J [] index = index"
| "load_tasks J (t # ts) index =
     (let e = task_of_json J t
      in if taskId e = [] then load_tasks J ts index
         else load_tasks J ts (snd (TaskIndex_upsert index e)))"

definition loadPlannerIndex :: "('s, 'c) sd_card \<Rightarrow> ('c, 'v) json_lib \<Rightarrow> 's \<Rightarrow> bool \<times> TaskIndex" where
  "loadPlannerIndex sd J s =
     (if \<not> sd_exists sd s kPlannerIndexPath then (False, [])
      else let raw = sd_read sd s kPlannerIndexPath
        in if j_isEmpty J raw then (False, [])
           else case j_deserialize J raw of
             None \<Rightarrow> (False, [])
           | Some doc \<Rightarrow> (True, load_tasks J (j_array J (j_get J doc ''tasks'')) []))"

definition planner_doc :: "TaskIndex \<Rightarrow> json_out" where
  "planner_doc index = JObj [(''tasks'', JArr (map json_of_task index))]"

definition savePlannerIndex :: "('s, 'c) sd_card \<Rightarrow> ('c, 'v) json_lib \<Rightarrow> 's \<Rightarrow> TaskIndex \<Rightarrow> bool \<times> 's" where
  "savePlannerIndex sd J s index =
     (let out = j_serialize J (planner_doc index)
      in writeFileAtomic sd (sd_mkdir sd s ''/planner'') kPlannerIndexPath out)"

section \<open>The index refines a bounded map\<close>

definition TaskIndex_inv :: "TaskIndex \<Rightarrow> bool" where
  "TaskIndex_inv = ix_inv kTaskIdLen kMaxPlannerTasks taskId"

lemma TaskIndex_find_ix: "TaskIndex_find = ix_pos kTaskIdLen taskId"
  by (simp add: fun_eq_iff TaskIndex_find_def ix_pos_def taskIdEquals_def)

lemma TaskIndex_entry_ix: "TaskIndex_entry = ix_find kTaskIdLen taskId"
  by (simp add: fun_eq_iff TaskIndex_entry_def ix_find_def TaskIndex_find_ix)

lemma TaskIndex_upsert_ix: "TaskIndex_upsert = ix_upsert kTaskIdLen kMaxPlannerTasks taskId"
  by (simp add: fun_eq_iff TaskIndex_upsert_def ix_upsert_def TaskIndex_find_ix TaskIndex_full_def)

lemma TaskIndex_remove_ix: "TaskIndex_remove = ix_remove kTaskIdLen taskId"
  by (simp add: fun_eq_iff TaskIndex_remove_def ix_remove_def TaskIndex_find_ix [symmetric]
      TaskIndex_find_def)

interpretation tasks: bounded_index kTaskIdLen kMaxPlannerTasks taskId
  TaskIndex_entry TaskIndex_upsert TaskIndex_remove "\<lambda>_. True" TaskIndex_inv
  unfolding TaskIndex_entry_ix TaskIndex_upsert_ix TaskIndex_remove_ix TaskIndex_inv_def
  by (rule ix_bounded_index)

lemma tasks_wf_op [simp]: "tasks.wf_op p"
  by (cases p) simp_all

lemma TaskIndex_inv_upsert [inv_intros]: "TaskIndex_inv s \<Longrightarrow> TaskIndex_inv (snd (TaskIndex_upsert s e))"
  by (rule tasks.ups_inv) simp_all

lemma TaskIndex_inv_setDone [inv_intros]: "TaskIndex_inv s \<Longrightarrow> TaskIndex_inv (snd (TaskIndex_setDone s tid d))"
  by (auto simp: TaskIndex_setDone_def TaskIndex_inv_def intro!: ix_inv_update split: option.splits)

section \<open>Categories and save then load\<close>

lemma categoryName_parse: "parseCategoryName s = Some c \<longleftrightarrow> s = categoryName c"
  by (cases c) (auto simp: parseCategoryName_def)

definition TaskEntry_ok :: "TaskEntry \<Rightarrow> bool" where
  "TaskEntry_ok e \<longleftrightarrow> taskId e \<noteq> [] \<and> length (taskId e) \<le> kTaskIdLen \<and> length (taskTitle e) \<le> kTaskTitleLen \<and>
     length (startTime e) \<le> kTaskTimeLen \<and> length (endTime e) \<le> kTaskTimeLen"

lemma task_json_roundtrip:
  assumes J: "json_laws J" and ok: "TaskEntry_ok e"
  shows "task_of_json J (j_val J (json_of_task e)) = e"
proof -
  have "parseCategoryName (categoryName c) = Some c" for c
    by (simp add: categoryName_parse)
  then show ?thesis
    using ok by (cases e) (simp add: task_of_json_def json_of_task_def json_read_back [OF J] TaskEntry_ok_def)
qed

lemma load_tasks_append:
  assumes J: "json_laws J"
  shows "TaskIndex_inv (acc @ idx) \<Longrightarrow> list_all TaskEntry_ok idx \<Longrightarrow>
    load_tasks J (map (j_val J \<circ> json_of_task) idx) acc = acc @ idx"
proof (induction idx arbitrary: acc)
  case (Cons e idx)
  have "TaskIndex_inv (acc @ [e])"
    using Cons.prems(1) by (auto simp: TaskIndex_inv_def ix_inv_def ix_keys_def)
  with Cons show ?case
    using task_json_roundtrip [OF J, of e]
    by (simp add: TaskEntry_ok_def TaskIndex_upsert_ix TaskIndex_inv_def ix_upsert_new)
qed simp

lemma save_load_tasks:
  assumes sd: "sd_laws sd" and J: "json_laws J" and "TaskIndex_inv idx" and "list_all TaskEntry_ok idx"
    and save: "savePlannerIndex sd J s idx = (True, s')"
  shows "loadPlannerIndex sd J s' = (True, idx)"
proof -
  have f: "sd_files sd s' kPlannerIndexPath = Some (j_serialize J (planner_doc idx))"
    using writeFileAtomic_ok [OF sd save [unfolded savePlannerIndex_def Let_def]] by simp
  show ?thesis
    using load_tasks_append [OF J, of "[]" idx] assms(3,4)
    by (simp add: loadPlannerIndex_def sd_existsD [OF sd] f sd_readD [OF sd f] j_notEmptyD [OF J]
        j_roundtripD [OF J] planner_doc_def j_getD [OF J] j_arrayD [OF J])
qed

text \<open>Whatever the file holds, what is loaded keeps the invariant, has an id and fits its buffers.\<close>

lemma task_of_json_ok: "taskId (task_of_json J t) \<noteq> [] \<Longrightarrow> TaskEntry_ok (task_of_json J t)"
  by (simp add: TaskEntry_ok_def task_of_json_def)

lemma list_all_task_upsert: "list_all P s \<Longrightarrow> P e \<Longrightarrow> list_all P (snd (TaskIndex_upsert s e))"
  by (auto simp: TaskIndex_upsert_def list_all_iff split: option.splits dest: set_update_subset_insert [THEN subsetD])

lemma load_tasks_inv:
  "TaskIndex_inv index \<Longrightarrow> list_all TaskEntry_ok index \<Longrightarrow>
   TaskIndex_inv (load_tasks J ts index) \<and> list_all TaskEntry_ok (load_tasks J ts index)"
  by (induction J ts index rule: load_tasks.induct)
    (simp_all add: Let_def TaskIndex_inv_upsert list_all_task_upsert task_of_json_ok)

lemma loadPlannerIndex_inv:
  "TaskIndex_inv (snd (loadPlannerIndex sd J s))" "list_all TaskEntry_ok (snd (loadPlannerIndex sd J s))"
  using load_tasks_inv [of "[]"] tasks.inv_empty by (auto simp: loadPlannerIndex_def Let_def split: option.splits)

section \<open>Properties\<close>

text \<open>The 64-entry planner array, driven by any sequence of insert-or-overwrite, remove and clear from
  empty, returns the results and holds the contents of a finite map from task ids to tasks that
  refuses a new id once it has 64.\<close>

theorem TaskIndex_refines_map:
  "map_prod id (index_abs kTaskIdLen TaskIndex_entry) (index_run TaskIndex_upsert TaskIndex_remove ops []) =
     spec_run kTaskIdLen kMaxPlannerTasks taskId ops Map.empty \<and>
   length (snd (index_run TaskIndex_upsert TaskIndex_remove ops [])) \<le> kMaxPlannerTasks"
  using tasks.run_from_empty [of ops] by simp

text \<open>A planner index that was saved successfully is read back task for task, categories through their
  wire names included, provided its ids are distinct and non-empty and its strings fit.\<close>

theorem planner_save_load:
  assumes "sd_laws sd" and "json_laws J" and "TaskIndex_inv idx" and "list_all TaskEntry_ok idx"
    and "savePlannerIndex sd J s idx = (True, s')"
  shows "loadPlannerIndex sd J s' = (True, idx)"
  using assms by (rule save_load_tasks)

lemma planner_save_load_witness:
  "let t = \<lparr>taskId = ''7'', taskTitle = ''Gym'', category = Health, startTime = ''07:30'', endTime = [], taskDone = False\<rparr> in
   loadPlannerIndex mem_card plain_json (snd (savePlannerIndex mem_card plain_json Map.empty [t])) = (True, [t])"
proof -
  let ?t = "\<lparr>taskId = ''7'', taskTitle = ''Gym'', category = Health, startTime = ''07:30'', endTime = [], taskDone = False\<rparr>"
  obtain ok s' where r: "savePlannerIndex mem_card plain_json Map.empty [?t] = (ok, s')" by force
  then have ok by (simp add: savePlannerIndex_def writeFileAtomic_def mem_card_def Let_def split: if_splits)
  moreover have "TaskIndex_inv [?t]" "list_all TaskEntry_ok [?t]"
    by (simp_all add: TaskIndex_inv_def ix_inv_def ix_keys_def kMaxPlannerTasks_def TaskEntry_ok_def
        kTaskIdLen_def kTaskTitleLen_def kTaskTimeLen_def)
  ultimately show ?thesis
    using planner_save_load [OF mem_card_laws plain_json_laws, of "[?t]" Map.empty s'] r by simp
qed

end
