(* ===== verification/Timeline.thy ===== *)
theory Timeline
  imports Planner_Store Config_Stores "HOL-Library.Char_ord" "HOL-Library.List_Lexorder" "HOL-Library.Multiset"
begin

text \<open>
  The timeline screen's list: src/firmware/src/ui/TimelineMerge.h (the planner's tasks and the next
  calendar event, merged by start time) and the table of src/firmware/src/ui/CategoryStyle.h and
  CategoryStyle.cpp. The output array is the caller's, with stale slots past the count.
\<close>

section \<open>Category styles\<close>

datatype DitherPattern = Solid | Dense | Sparse

record CategoryVisual =
  iconSlug :: string
  dither :: DitherPattern

definition kStyles :: "CategoryVisual list" where
  "kStyles = [
     \<lparr>iconSlug = ''briefcase'', dither = Solid\<rparr>,
     \<lparr>iconSlug = ''coffee'', dither = Sparse\<rparr>,
     \<lparr>iconSlug = ''spray-can'', dither = Dense\<rparr>,
     \<lparr>iconSlug = ''heart-pulse'', dither = Solid\<rparr>,
     \<lparr>iconSlug = ''users'', dither = Dense\<rparr>,
     \<lparr>iconSlug = ''graduation-cap'', dither = Sparse\<rparr>,
     \<lparr>iconSlug = ''user'', dither = Dense\<rparr>,
     \<lparr>iconSlug = ''circle-ellipsis'', dither = Sparse\<rparr>]"

text \<open>\<open>styleFor\<close> on the byte that a \<open>Category\<close> object holds.\<close>

definition styleFor :: "u8 \<Rightarrow> CategoryVisual" where
  "styleFor b = (let idx = (if b \<ge> 8 then 7 else b) in kStyles ! unat idx)"

section \<open>Items\<close>

definition kMaxTimelineItems :: nat where "kMaxTimelineItems = kMaxPlannerTasks + 1"
definition kTimelineLabelLen :: nat where "kTimelineLabelLen = 96"

record TimelineItem =
  tlLabel :: string
  tlCategory :: Category
  isCalendarEvent :: bool
  tlDone :: bool

text \<open>\<^verbatim>\<open>gmtime_r\<close> and \<^verbatim>\<open>strftime\<close> with \<^verbatim>\<open>%H:%M\<close>.\<close>

definition two_digits :: "int \<Rightarrow> string" where
  "two_digits n = [char_of (48 + nat (n div 10)), char_of (48 + nat (n mod 10))]"

definition formatUtcHm :: "int \<Rightarrow> string" where
  "formatUtcHm t = two_digits (t mod 86400 div 3600) @ '':'' @ two_digits (t mod 3600 div 60)"

text \<open>\<^verbatim>\<open>snprintf\<close> into the label buffer keeps one byte for the terminator.\<close>

definition snprintf_label :: "string \<Rightarrow> string" where
  "snprintf_label s = take (kTimelineLabelLen - 1) s"

definition item_of_task :: "TaskEntry \<Rightarrow> TimelineItem" where
  "item_of_task t = \<lparr>tlLabel = snprintf_label (startTime t @ ''-'' @ endTime t @ '' '' @ taskTitle t),
     tlCategory = category t, isCalendarEvent = False, tlDone = taskDone t\<rparr>"

definition item_of_event :: "NextEventInfo \<Rightarrow> TimelineItem" where
  "item_of_event ev = \<lparr>tlLabel = snprintf_label (formatUtcHm (evStart ev) @ '' Cal: '' @ evTitle ev),
     tlCategory = Other, isCalendarEvent = True, tlDone = False\<rparr>"

section \<open>The merge\<close>

fun shift_loop :: "TimelineItem \<Rightarrow> nat \<Rightarrow> TimelineItem list \<Rightarrow> nat \<times> TimelineItem list" where
  "shift_loop item 0 out = (0, out)"
| "shift_loop item (Suc pos) out =
     (if strncmp (tlLabel (out ! pos)) (tlLabel item) 5 > 0
      then shift_loop item pos (out[Suc pos := out ! pos])
      else (Suc pos, out))"

definition insertSorted :: "nat \<Rightarrow> TimelineItem \<Rightarrow> nat \<times> TimelineItem list \<Rightarrow> nat \<times> TimelineItem list" where
  "insertSorted maxItems item st =
     (case st of (n, out) \<Rightarrow>
      if n \<ge> maxItems then (n, out)
      else let (pos, out) = shift_loop item n out in (n + 1, out[pos := item]))"

fun task_loop :: "nat \<Rightarrow> TaskEntry list \<Rightarrow> nat \<times> TimelineItem list \<Rightarrow> nat \<times> TimelineItem list" where
  "task_loop maxItems [] st = st"
| "task_loop maxItems (t # ts) st =
     (if fst st < maxItems then task_loop maxItems ts (insertSorted maxItems (item_of_task t) st) else st)"

definition buildTimelineItems :: "TaskIndex \<Rightarrow> NextEventInfo option \<Rightarrow> TimelineItem list \<Rightarrow> nat \<Rightarrow>
    nat \<times> TimelineItem list" where
  "buildTimelineItems tasks nextEvent out maxItems =
     (let st = task_loop maxItems tasks (0, out)
      in case nextEvent of
        None \<Rightarrow> st
      | Some ev \<Rightarrow>
          if hasEvent ev \<and> fst st < maxItems then insertSorted maxItems (item_of_event ev) st else st)"

section \<open>The loop inserts behind every smaller or equal key\<close>

definition tl_key :: "TimelineItem \<Rightarrow> string" where
  "tl_key item = take 5 (tlLabel item)"

lemma strcmp_pos_less: "strcmp a b > 0 \<longleftrightarrow> b < a"
proof (induction a b rule: strcmp.induct)
  case (4 a as b bs)
  have "\<not> (of_char a :: nat) < of_char b \<longleftrightarrow> b < a" if "a \<noteq> b"
    using that linorder_less_linear [of a b] by (auto simp: less_char_def)
  with 4 show ?case by auto
qed auto

lemma strncmp_key: "strncmp (tlLabel x) (tlLabel y) 5 > 0 \<longleftrightarrow> tl_key y < tl_key x"
  by (simp add: strncmp_def strcmp_pos_less tl_key_def)

text \<open>The reference: insertion into a list, scanning from its end.\<close>

fun insert_back :: "TimelineItem \<Rightarrow> TimelineItem list \<Rightarrow> TimelineItem list" where
  "insert_back x [] = [x]"
| "insert_back x (y # ys) = (if \<exists>z \<in> set (y # ys). tl_key z \<le> tl_key x then y # insert_back x ys else x # y # ys)"

lemma insert_back_snoc:
  "insert_back x (ys @ [y]) = (if tl_key x < tl_key y then insert_back x ys @ [y] else ys @ [y, x])"
  by (induction ys) auto

lemma shift_loop_insert:
  "pos < length out \<Longrightarrow> shift_loop item pos out = (p, out') \<Longrightarrow>
   p \<le> pos \<and> length out' = length out \<and> drop (Suc pos) out' = drop (Suc pos) out \<and>
   take (Suc pos) (out'[p := item]) = insert_back item (take pos out)"
proof (induction item pos out rule: shift_loop.induct)
  case (1 item out)
  then show ?case by (cases out) auto
next
  case (2 item pos out)
  have t: "take (Suc pos) out = take pos out @ [out ! pos]" using "2.prems"(1) by (simp add: take_Suc_conv_app_nth)
  show ?case
  proof (cases "strncmp (tlLabel (out ! pos)) (tlLabel item) 5 > 0")
    case False
    with "2.prems" have "p = Suc pos" "out' = out" by auto
    with "2.prems"(1) False t show ?thesis
      by (simp add: insert_back_snoc strncmp_key take_Suc_conv_app_nth)
  next
    case True
    let ?o = "out[Suc pos := out ! pos]"
    have ih: "p \<le> pos \<and> length out' = length ?o \<and> drop (Suc pos) out' = drop (Suc pos) ?o \<and>
        take (Suc pos) (out'[p := item]) = insert_back item (take pos ?o)"
      using "2.IH" [OF True] "2.prems" True by simp
    have d: "drop (Suc (Suc pos)) out' = drop (Suc (Suc pos)) out"
      using ih by (metis drop_Suc drop_update_cancel lessI tl_drop)
    have n: "out' ! Suc pos = out ! pos"
      using ih "2.prems"(1) by (metis Cons_nth_drop_Suc length_list_update list.inject nth_list_update_eq)
    have "take (Suc (Suc pos)) (out'[p := item]) = take (Suc pos) (out'[p := item]) @ [out ! pos]"
      using ih "2.prems"(1) n by (subst take_Suc_conv_app_nth) auto
    with ih d True show ?thesis by (simp add: t insert_back_snoc strncmp_key)
  qed
qed

text \<open>The array after a number of insertions: its live prefix is the reference list.\<close>

definition holds :: "nat \<Rightarrow> TimelineItem list \<Rightarrow> nat \<times> TimelineItem list \<Rightarrow> bool" where
  "holds maxItems xs st \<longleftrightarrow> fst st = length xs \<and> length xs \<le> maxItems \<and> maxItems \<le> length (snd st) \<and>
     take (fst st) (snd st) = xs"

lemma insertSorted_holds:
  assumes "holds maxItems xs st"
  shows "holds maxItems (if length xs < maxItems then insert_back item xs else xs) (insertSorted maxItems item st)"
proof (cases "length xs < maxItems")
  case False
  with assms show ?thesis by (cases st) (simp add: holds_def insertSorted_def)
next
  case True
  obtain n out where st: "st = (n, out)" by (rule prod.exhaust)
  obtain p out' where l: "shift_loop item n out = (p, out')" by (rule prod.exhaust)
  have n: "n = length xs" "n < length out" "take n out = xs" using assms True by (auto simp: holds_def st)
  from shift_loop_insert [OF n(2) l] n have "p \<le> n" "length out' = length out"
    "take (Suc n) (out'[p := item]) = insert_back item xs" by auto
  moreover have "length (insert_back item xs) = Suc (length xs)" by (induction xs) auto
  ultimately show ?thesis using assms True n l by (simp add: holds_def insertSorted_def st)
qed

lemma insert_back_fold:
  "fold insert_back (xs @ [x]) [] = insert_back x (fold insert_back xs [])" by simp

lemma length_insert_back [simp]: "length (insert_back x xs) = Suc (length xs)"
  by (induction xs) auto

lemma length_fold_insert: "length (fold insert_back xs ys) = length xs + length ys"
  by (induction xs arbitrary: ys) auto

lemma task_loop_holds:
  "holds maxItems ys st \<Longrightarrow>
   holds maxItems (fold insert_back (take (maxItems - length ys) (map item_of_task ts)) ys) (task_loop maxItems ts st)"
proof (induction ts arbitrary: ys st)
  case (Cons t ts)
  show ?case
  proof (cases "fst st < maxItems")
    case False
    with Cons.prems have "length ys = maxItems" by (simp add: holds_def)
    with False Cons.prems show ?thesis by simp
  next
    case True
    then have l: "length ys < maxItems" using Cons.prems by (simp add: holds_def)
    then have "holds maxItems (insert_back (item_of_task t) ys) (insertSorted maxItems (item_of_task t) st)"
      using insertSorted_holds [OF Cons.prems, of "item_of_task t"] by simp
    from Cons.IH [OF this] True l show ?thesis by (simp add: take_Cons' Suc_diff_Suc)
  qed
qed simp

section \<open>Inserting one by one is a stable sort\<close>

lemma mset_insert_back: "mset (insert_back x xs) = add_mset x (mset xs)"
  by (induction xs) auto

lemma set_insert_back: "set (insert_back x xs) = insert x (set xs)"
  using mset_insert_back [of x xs] by (metis set_mset_add_mset_insert set_mset_mset)

lemma sorted_insert_back: "sorted (map tl_key xs) \<Longrightarrow> sorted (map tl_key (insert_back x xs))"
  by (induction xs) (auto simp: set_insert_back)

lemma filter_insert_back:
  "sorted (map tl_key xs) \<Longrightarrow>
   filter (\<lambda>y. k = tl_key y) (insert_back x xs) = filter (\<lambda>y. k = tl_key y) xs @ (if k = tl_key x then [x] else [])"
proof (induction xs)
  case (Cons y ys)
  show ?case
  proof (cases "\<exists>z \<in> set (y # ys). tl_key z \<le> tl_key x")
    case True
    have "filter (\<lambda>y. k = tl_key y) (insert_back x ys) = filter (\<lambda>y. k = tl_key y) ys @ (if k = tl_key x then [x] else [])"
      using Cons by simp
    with True show ?thesis by auto
  next
    case False
    then have "filter (\<lambda>y. k = tl_key y) (y # ys) = []" if "k = tl_key x" using that by (auto simp: filter_empty_conv)
    with False show ?thesis by auto
  qed
qed simp

lemma fold_insert_back_props:
  "mset (fold insert_back xs []) = mset xs \<and> sorted (map tl_key (fold insert_back xs [])) \<and>
   filter (\<lambda>y. k = tl_key y) (fold insert_back xs []) = filter (\<lambda>y. k = tl_key y) xs"
  by (induction xs rule: rev_induct) (simp_all add: mset_insert_back sorted_insert_back filter_insert_back)

lemma fold_insert_back_sort: "fold insert_back xs [] = sort_key tl_key xs"
  using fold_insert_back_props [of xs]
  by (intro properties_for_sort_key [symmetric]) (simp_all add: fold_insert_back_props)

definition timeline_input :: "TaskIndex \<Rightarrow> NextEventInfo option \<Rightarrow> TimelineItem list" where
  "timeline_input tasks nextEvent = map item_of_task tasks @
     (case nextEvent of Some ev \<Rightarrow> if hasEvent ev then [item_of_event ev] else [] | None \<Rightarrow> [])"

lemma buildTimelineItems_sorted:
  assumes "maxItems \<le> length out"
  shows "holds maxItems (sort_key tl_key (take maxItems (timeline_input tasks nextEvent)))
    (buildTimelineItems tasks nextEvent out maxItems)"
proof -
  let ?st = "task_loop maxItems tasks (0, out)" and ?ts = "take maxItems (map item_of_task tasks)"
  have "holds maxItems [] (0, out)" using assms by (simp add: holds_def)
  from task_loop_holds [OF this, of tasks] have h: "holds maxItems (fold insert_back ?ts []) ?st" by simp
  then have n: "fst ?st = length ?ts" by (simp add: holds_def length_fold_insert)
  show ?thesis
  proof (cases "\<exists>ev. nextEvent = Some ev \<and> hasEvent ev \<and> length ?ts < maxItems")
    case False
    then have "take maxItems (timeline_input tasks nextEvent) = ?ts"
      by (auto simp: timeline_input_def split: option.splits)
    moreover have "buildTimelineItems tasks nextEvent out maxItems = ?st"
      using False n by (auto simp: buildTimelineItems_def Let_def split: option.splits)
    ultimately show ?thesis using h by (simp add: fold_insert_back_sort)
  next
    case True
    then obtain ev where ev: "nextEvent = Some ev" "hasEvent ev" and l: "length ?ts < maxItems" by blast
    then have lt: "length tasks < maxItems" by simp
    then have "take maxItems (timeline_input tasks nextEvent) = ?ts @ [item_of_event ev]"
      using ev by (simp add: timeline_input_def)
    moreover have "buildTimelineItems tasks nextEvent out maxItems = insertSorted maxItems (item_of_event ev) ?st"
      using ev lt n by (simp add: buildTimelineItems_def Let_def)
    moreover have "holds maxItems (insert_back (item_of_event ev) (fold insert_back ?ts [])) (insertSorted maxItems (item_of_event ev) ?st)"
      using insertSorted_holds [OF h, of "item_of_event ev"] lt by (simp add: length_fold_insert)
    ultimately show ?thesis by (simp add: fold_insert_back_sort [symmetric])
  qed
qed

section \<open>Properties\<close>

text \<open>C40: The timeline is a stable sort: the array's first entries, as many as are reported, are the tasks in
  their stored order followed by the calendar event, at most as many as fit, stably sorted by the
  first five characters of their labels. Within the screen's capacity nothing is left out.\<close>

theorem timeline_is_stable_sort:
  assumes "maxItems \<le> length out" and "buildTimelineItems tasks nextEvent out maxItems = (n, out')"
  shows "take n out' = sort_key (\<lambda>i. take 5 (tlLabel i)) (take maxItems (timeline_input tasks nextEvent)) \<and>
    n = min maxItems (length (timeline_input tasks nextEvent)) \<and>
    (length tasks \<le> kMaxPlannerTasks \<and> maxItems = kMaxTimelineItems \<longrightarrow> n = length (timeline_input tasks nextEvent))"
proof -
  have k: "sort_key (\<lambda>i. take 5 (tlLabel i)) = sort_key tl_key" by (simp add: tl_key_def [abs_def])
  have "length (timeline_input tasks nextEvent) \<le> length tasks + 1"
    by (auto simp: timeline_input_def split: option.splits)
  with buildTimelineItems_sorted [OF assms(1), of tasks nextEvent] assms(2) show ?thesis
    by (auto simp: holds_def k kMaxTimelineItems_def)
qed

lemma timeline_is_stable_sort_witness:
  "let t = (\<lambda>s e n. \<lparr>taskId = n, taskTitle = n, category = Work, startTime = s, endTime = e, taskDone = False\<rparr>);
       ts = [t ''14:00'' ''15:00'' ''a'', t ''09:30'' ''10:00'' ''b''];
       blank = \<lparr>tlLabel = [], tlCategory = Other, isCalendarEvent = False, tlDone = False\<rparr>
   in map (\<lambda>i. take 5 (tlLabel i)) (take 2 (snd (buildTimelineItems ts None (replicate 2 blank) 2))) = [''09:30'', ''14:00'']"
proof -
  let ?t = "\<lambda>s e n. \<lparr>taskId = n, taskTitle = n, category = Work, startTime = s, endTime = e, taskDone = False\<rparr>"
  let ?ts = "[?t ''14:00'' ''15:00'' ''a'', ?t ''09:30'' ''10:00'' ''b'']"
  let ?out = "replicate 2 \<lparr>tlLabel = [], tlCategory = Other, isCalendarEvent = False, tlDone = False\<rparr>"
  obtain n out' where r: "buildTimelineItems ?ts None ?out 2 = (n, out')" by (rule prod.exhaust)
  have tl: "take n out' = sort_key (\<lambda>i. take 5 (tlLabel i)) (timeline_input ?ts None) \<and> n = 2"
    using timeline_is_stable_sort [OF _ r] by (auto simp: timeline_input_def simp del: sort_key_simps)
  have "map (\<lambda>i. take 5 (tlLabel i)) (timeline_input ?ts None) = [''14:00'', ''09:30'']"
    by (simp add: timeline_input_def item_of_task_def snprintf_label_def kTimelineLabelLen_def)
  moreover have "\<not> ''14:00'' \<le> ''09:30''" by (simp add: less_eq_char_def)
  ultimately have "map (\<lambda>i. take 5 (tlLabel i)) (take n out') = [''09:30'', ''14:00'']"
    using tl by (auto simp: timeline_input_def)
  with r tl show ?thesis by (simp add: Let_def)
qed

end
