(* ===== verification/Xtc_Format.thy ===== *)
theory Xtc_Format
  imports Prelude Complex_Main
begin

unbundle bit_operations_syntax

text \<open>
  The XTC/XTG page format: src/firmware/src/xtc/XtcFormat.h (little-endian fields and the three
  headers), and the two WASM modules of the web UI, src/tools/xtc-wasm/xtc_decoder.cpp and
  src/tools/xtc-wasm/xtc_encoder.cpp. A buffer is the list of its bytes. A read past its end is
  not a value: \<open>read_bytes\<close> is then \<open>None\<close>, and the decoder's result is \<open>OutOfBounds\<close>. Offsets are
  the \<^verbatim>\<open>uint64_t\<close> of the code and wrap as it does.
\<close>

section \<open>Little-endian fields\<close>

definition kMagicXtg :: u32 where "kMagicXtg = 0x00475458"
definition kMagicXth :: u32 where "kMagicXth = 0x00485458"
definition kMagicXtc :: u32 where "kMagicXtc = 0x00435458"
definition kMagicXtch :: u32 where "kMagicXtch = 0x48435458"
definition kXtgHeaderSize :: nat where "kXtgHeaderSize = 22"
definition kXtcHeaderSize :: nat where "kXtcHeaderSize = 56"
definition kIndexEntrySize :: nat where "kIndexEntrySize = 16"
definition kMetadataSize :: nat where "kMetadataSize = 256"

definition readLE16 :: "u8 list \<Rightarrow> u16" where
  "readLE16 p = ucast (p ! 0) OR push_bit 8 (ucast (p ! 1))"

definition readLE32 :: "u8 list \<Rightarrow> u32" where
  "readLE32 p = ucast (p ! 0) OR push_bit 8 (ucast (p ! 1)) OR push_bit 16 (ucast (p ! 2)) OR
     push_bit 24 (ucast (p ! 3))"

definition readLE64 :: "u8 list \<Rightarrow> u64" where
  "readLE64 p = (let lo = ucast (readLE32 p); hi = ucast (readLE32 (drop 4 p)) in lo OR push_bit 32 hi)"

definition writeLE16 :: "u16 \<Rightarrow> u8 list" where
  "writeLE16 v = [ucast v, ucast (drop_bit 8 v)]"

definition writeLE32 :: "u32 \<Rightarrow> u8 list" where
  "writeLE32 v = [ucast v, ucast (drop_bit 8 v), ucast (drop_bit 16 v), ucast (drop_bit 24 v)]"

definition writeLE64 :: "u64 \<Rightarrow> u8 list" where
  "writeLE64 v = writeLE32 (ucast v) @ writeLE32 (ucast (drop_bit 32 v))"

section \<open>Headers\<close>

record XtcHeader =
  mark :: u32
  version :: u16
  xtcPageCount :: u16
  readDirection :: u8
  hasMetadata :: u8
  hasThumbnails :: u8
  hasChapters :: u8
  currentPage :: u32
  metadataOffset :: u64
  indexOffset :: u64
  dataOffset :: u64
  thumbOffset :: u64
  chapterOffset :: u64

record XtcPageIndexEntry =
  offset :: u64
  pageSize :: u32
  pageWidth :: u16
  pageHeight :: u16

record XtgHeader =
  xtgMark :: u32
  width :: u16
  height :: u16
  colorMode :: u8
  compression :: u8
  dataSize :: u32

definition isMonochrome :: "XtgHeader \<Rightarrow> bool" where
  "isMonochrome x \<longleftrightarrow> xtgMark x = kMagicXtg"

text \<open>The parsers' argument points at enough bytes: they are only called on such.\<close>

definition parseXtcHeader :: "u8 list \<Rightarrow> XtcHeader option" where
  "parseXtcHeader buf =
     (if readLE32 buf \<noteq> kMagicXtc \<and> readLE32 buf \<noteq> kMagicXtch then None
      else Some \<lparr>mark = readLE32 buf, version = readLE16 (drop 4 buf), xtcPageCount = readLE16 (drop 6 buf),
        readDirection = buf ! 8, hasMetadata = buf ! 9, hasThumbnails = buf ! 10, hasChapters = buf ! 11,
        currentPage = readLE32 (drop 12 buf), metadataOffset = readLE64 (drop 16 buf),
        indexOffset = readLE64 (drop 24 buf), dataOffset = readLE64 (drop 32 buf),
        thumbOffset = readLE64 (drop 40 buf), chapterOffset = readLE64 (drop 48 buf)\<rparr>)"

definition parseIndexEntry :: "u8 list \<Rightarrow> XtcPageIndexEntry" where
  "parseIndexEntry buf = \<lparr>offset = readLE64 buf, pageSize = readLE32 (drop 8 buf),
     pageWidth = readLE16 (drop 12 buf), pageHeight = readLE16 (drop 14 buf)\<rparr>"

definition parseXtgHeader :: "u8 list \<Rightarrow> XtgHeader option" where
  "parseXtgHeader buf =
     (if readLE32 buf \<noteq> kMagicXtg \<and> readLE32 buf \<noteq> kMagicXth then None
      else Some \<lparr>xtgMark = readLE32 buf, width = readLE16 (drop 4 buf), height = readLE16 (drop 6 buf),
        colorMode = buf ! 8, compression = buf ! 9, dataSize = readLE32 (drop 10 buf)\<rparr>)"

text \<open>\<^verbatim>\<open>(width + 7) / 8\<close> is computed in \<^verbatim>\<open>int\<close>, then converted.\<close>

definition rowBytesOf :: "u16 \<Rightarrow> u32" where
  "rowBytesOf w = word_of_int ((uint w + 7) div 8)"

definition expectedXtgDataSize :: "u16 \<Rightarrow> u16 \<Rightarrow> u32" where
  "expectedXtgDataSize w h = rowBytesOf w * ucast h"

section \<open>The decoder\<close>

definition read_bytes :: "u8 list \<Rightarrow> u64 \<Rightarrow> nat \<Rightarrow> u8 list option" where
  "read_bytes buf off n = (if unat off + n \<le> length buf then Some (take n (drop (unat off) buf)) else None)"

definition pixel_at :: "u8 list \<Rightarrow> nat \<Rightarrow> nat \<Rightarrow> nat \<Rightarrow> u8" where
  "pixel_at packed rowBytes y x =
     (let byte = packed ! (y * rowBytes + x div 8);
          bit = drop_bit (7 - x mod 8) byte AND 1
      in if bit \<noteq> 0 then 255 else 0)"

definition unpack_pixels :: "u8 list \<Rightarrow> nat \<Rightarrow> nat \<Rightarrow> nat \<Rightarrow> u8 list" where
  "unpack_pixels packed rowBytes w h = concat (map (\<lambda>y. map (pixel_at packed rowBytes y) [0..<w]) [0..<h])"

datatype decode_result = Decoded u16 u16 "u8 list" | DecodeNull | OutOfBounds

text \<open>\<open>len\<close> is a \<^verbatim>\<open>uint32_t\<close>, the buffer has that many bytes; \<open>malloc_ok\<close> tells if an allocation succeeds.\<close>

definition xtc_decode_page :: "(nat \<Rightarrow> bool) \<Rightarrow> u8 list \<Rightarrow> u16 \<Rightarrow> decode_result" where
  "xtc_decode_page malloc_ok xtcBytes pageIndex =
     (let len = (of_nat (length xtcBytes) :: u64) in
      if length xtcBytes < kXtcHeaderSize then DecodeNull else
      case parseXtcHeader xtcBytes of None \<Rightarrow> DecodeNull | Some header \<Rightarrow>
      if pageIndex \<ge> xtcPageCount header then DecodeNull else
      let entryOffset = indexOffset header + ucast pageIndex * of_nat kIndexEntrySize in
      if entryOffset + of_nat kIndexEntrySize > len then DecodeNull else
      case read_bytes xtcBytes entryOffset kIndexEntrySize of None \<Rightarrow> OutOfBounds | Some eb \<Rightarrow>
      let entry = parseIndexEntry eb in
      if offset entry + of_nat kXtgHeaderSize > len then DecodeNull else
      case read_bytes xtcBytes (offset entry) kXtgHeaderSize of None \<Rightarrow> OutOfBounds | Some xb \<Rightarrow>
      case parseXtgHeader xb of None \<Rightarrow> DecodeNull | Some xtg \<Rightarrow>
      if \<not> isMonochrome xtg then DecodeNull else
      if dataSize xtg \<noteq> expectedXtgDataSize (width xtg) (height xtg) then DecodeNull else
      let dataOff = offset entry + of_nat kXtgHeaderSize in
      if dataOff + ucast (dataSize xtg) > len then DecodeNull else
      if width xtg = 0 \<or> height xtg = 0 then DecodeNull else
      if \<not> malloc_ok (unat (width xtg) * unat (height xtg)) then DecodeNull else
      case read_bytes xtcBytes dataOff (unat (dataSize xtg)) of None \<Rightarrow> OutOfBounds | Some packed \<Rightarrow>
      Decoded (width xtg) (height xtg)
        (unpack_pixels packed (unat (rowBytesOf (width xtg))) (unat (width xtg)) (unat (height xtg))))"

definition xtc_page_count :: "u8 list \<Rightarrow> u16" where
  "xtc_page_count xtcBytes =
     (if length xtcBytes < kXtcHeaderSize then 0
      else case parseXtcHeader xtcBytes of None \<Rightarrow> 0 | Some header \<Rightarrow> xtcPageCount header)"

section \<open>The encoder\<close>

text \<open>A write of some bytes at an offset of a buffer.\<close>

definition put :: "nat \<Rightarrow> u8 list \<Rightarrow> u8 list \<Rightarrow> u8 list" where
  "put off bs buf = take off buf @ bs @ drop (off + length bs) buf"

definition char_byte :: "char \<Rightarrow> u8" where
  "char_byte c = word_of_nat (of_char c)"

definition packFixedString :: "nat \<Rightarrow> string \<Rightarrow> u8 list" where
  "packFixedString sz value =
     (let len = length value; len = (if len > sz - 1 then sz - 1 else len)
      in map char_byte (take len value) @ replicate (sz - len) 0)"

definition encode_header :: "u64 \<Rightarrow> u64 \<Rightarrow> u64 \<Rightarrow> u8 list" where
  "encode_header metaOff idxOff dataOff =
     (put 0x30 (writeLE64 0) \<circ> put 0x28 (writeLE64 0) \<circ> put 0x20 (writeLE64 dataOff) \<circ>
      put 0x18 (writeLE64 idxOff) \<circ> put 0x10 (writeLE64 metaOff) \<circ> put 0x0C (writeLE32 0) \<circ>
      put 0x0B [0] \<circ> put 0x0A [0] \<circ> put 0x09 [1] \<circ> put 0x08 [0] \<circ>
      put 0x06 (writeLE16 1) \<circ> put 0x04 (writeLE16 0x0100) \<circ> put 0 (writeLE32 kMagicXtc))
     (replicate kXtcHeaderSize 0)"

definition encode_metadata :: "string \<Rightarrow> u32 \<Rightarrow> u8 list" where
  "encode_metadata titl createTime =
     (put 0xF6 (writeLE16 0) \<circ> put 0xF4 (writeLE16 0xFFFF) \<circ> put 0xF0 (writeLE32 createTime) \<circ>
      put 0xE0 (packFixedString 16 ''en-US'') \<circ> put 0xC0 (packFixedString 32 ''focusink'') \<circ>
      put 0x80 (packFixedString 64 []) \<circ> put 0 (packFixedString 128 titl))
     (replicate kMetadataSize 0)"

definition encode_index :: "u64 \<Rightarrow> u32 \<Rightarrow> u16 \<Rightarrow> u16 \<Rightarrow> u8 list" where
  "encode_index dataOff xtgTotalSize w h =
     (put 0x0E (writeLE16 h) \<circ> put 0x0C (writeLE16 w) \<circ> put 0x08 (writeLE32 xtgTotalSize) \<circ>
      put 0 (writeLE64 dataOff)) (replicate kIndexEntrySize 0)"

definition encode_xtg_header :: "u16 \<Rightarrow> u16 \<Rightarrow> u32 \<Rightarrow> u8 list" where
  "encode_xtg_header w h xtgDataSize =
     (put 0x0A (writeLE32 xtgDataSize) \<circ> put 0x09 [0] \<circ> put 0x08 [0] \<circ> put 0x06 (writeLE16 h) \<circ>
      put 0x04 (writeLE16 w) \<circ> put 0 (writeLE32 kMagicXtg)) (replicate kXtgHeaderSize 0)"

text \<open>The \<^verbatim>\<open>float\<close> operations the dithering uses.\<close>

record 'f float_ops =
  f_of_u8 :: "u8 \<Rightarrow> 'f"
  f_add :: "'f \<Rightarrow> 'f \<Rightarrow> 'f"
  f_sub :: "'f \<Rightarrow> 'f \<Rightarrow> 'f"
  f_mul :: "'f \<Rightarrow> 'f \<Rightarrow> 'f"
  f_ge :: "'f \<Rightarrow> 'f \<Rightarrow> bool"
  f_0 :: 'f
  f_128 :: 'f
  f_255 :: 'f
  f_7_16 :: 'f
  f_3_16 :: 'f
  f_5_16 :: 'f
  f_1_16 :: 'f

text \<open>One pixel: the row with its carried error, the error for the next row, the packed row.\<close>

definition dither_pixel :: "'f float_ops \<Rightarrow> nat \<Rightarrow> bool \<Rightarrow> nat \<Rightarrow> 'f list \<times> 'f list \<times> u8 list \<Rightarrow>
    'f list \<times> 'f list \<times> u8 list" where
  "dither_pixel F w has_next x st =
     (case st of (row, nextErr, dst) \<Rightarrow>
      let src = row ! x;
          white = f_ge F src (f_128 F);
          dst = (if white then dst[x div 8 := dst ! (x div 8) OR drop_bit (x mod 8) 0x80] else dst);
          err = f_sub F src (if white then f_255 F else f_0 F);
          row = (if x + 1 < w then row[x + 1 := f_add F (row ! (x + 1)) (f_mul F err (f_7_16 F))] else row);
          nextErr =
            (if has_next then
               let n = (if x > 0 then nextErr[x - 1 := f_add F (nextErr ! (x - 1)) (f_mul F err (f_3_16 F))] else nextErr);
                   n = n[x := f_add F (n ! x) (f_mul F err (f_5_16 F))]
               in (if x + 1 < w then n[x + 1 := f_add F (n ! (x + 1)) (f_mul F err (f_1_16 F))] else n)
             else nextErr)
      in (row, nextErr, dst))"

definition dither_row :: "'f float_ops \<Rightarrow> nat \<Rightarrow> nat \<Rightarrow> bool \<Rightarrow> u8 list \<Rightarrow> 'f list \<Rightarrow> u8 list \<times> 'f list" where
  "dither_row F w rowBytes has_next srcRow carryErr =
     (let row = map (\<lambda>x. f_add F (f_of_u8 F (srcRow ! x)) (carryErr ! x)) [0..<w];
          nextErr = replicate w (f_0 F);
          (row, nextErr, dst) = fold (dither_pixel F w has_next) [0..<w] (row, nextErr, replicate rowBytes 0)
      in (dst, nextErr))"

fun dither_rows :: "'f float_ops \<Rightarrow> nat \<Rightarrow> nat \<Rightarrow> u8 list list \<Rightarrow> 'f list \<Rightarrow> u8 list list" where
  "dither_rows F w rowBytes [] carryErr = []"
| "dither_rows F w rowBytes (srcRow # rows) carryErr =
     (let (dst, nextErr) = dither_row F w rowBytes (rows \<noteq> []) srcRow carryErr
      in dst # dither_rows F w rowBytes rows nextErr)"

definition image_rows :: "u8 list \<Rightarrow> nat \<Rightarrow> nat \<Rightarrow> u8 list list" where
  "image_rows px w h = map (\<lambda>y. take w (drop (y * w) px)) [0..<h]"

definition xtc_encode_single_page :: "'f float_ops \<Rightarrow> (nat \<Rightarrow> bool) \<Rightarrow> u8 list \<Rightarrow> u16 \<Rightarrow> u16 \<Rightarrow> string \<Rightarrow> u32 \<Rightarrow> u8 list option" where
  "xtc_encode_single_page F malloc_ok grayscalePixels w h titl createTime =
     (if w = 0 \<or> h = 0 then None
      else
        let rowBytes = word_of_int ((uint w + 7) div 8) :: u32;
            xtgDataSize = rowBytes * ucast h;
            xtgTotalSize = of_nat kXtgHeaderSize + xtgDataSize;
            metaOff = of_nat kXtcHeaderSize;
            idxOff = metaOff + of_nat kMetadataSize;
            dataOff = idxOff + of_nat kIndexEntrySize;
            totalSize = dataOff + ucast xtgTotalSize
        in if \<not> malloc_ok (unat (totalSize :: u64)) then None
           else Some (encode_header metaOff idxOff dataOff @ encode_metadata titl createTime @
             encode_index dataOff xtgTotalSize w h @ encode_xtg_header w h xtgDataSize @
             concat (dither_rows F (unat w) (unat rowBytes) (image_rows grayscalePixels (unat w) (unat h))
               (replicate (unat w) (f_0 F)))))"

section \<open>Field round trips\<close>

lemma readLE16_write: "readLE16 (writeLE16 v @ r) = v"
  unfolding readLE16_def writeLE16_def
  by (rule bit_word_eqI) (auto simp: bit_simps)

lemma readLE32_write: "readLE32 (writeLE32 v @ r) = v"
proof (rule bit_word_eqI)
  fix n assume "n < LENGTH(32)"
  then consider "n < 8" | "8 \<le> n" "n < 16" | "16 \<le> n" "n < 24" | "24 \<le> n" "n < 32" by fastforce
  then show "bit (readLE32 (writeLE32 v @ r)) n = bit v n"
    by cases (auto simp: readLE32_def writeLE32_def bit_simps)
qed

lemma length_writeLE [simp]: "length (writeLE16 a) = 2" "length (writeLE32 b) = 4" "length (writeLE64 c) = 8"
  by (simp_all add: writeLE16_def writeLE32_def writeLE64_def)

lemma readLE64_write: "readLE64 (writeLE64 v @ r) = v"
proof (rule bit_word_eqI)
  fix n assume n: "n < LENGTH(64)"
  have lo: "readLE32 (writeLE64 v @ r) = ucast v"
    unfolding writeLE64_def append_assoc by (rule readLE32_write)
  have hi: "readLE32 (drop 4 (writeLE64 v @ r)) = ucast (drop_bit 32 v)"
    unfolding writeLE64_def append_assoc using readLE32_write by simp
  show "bit (readLE64 (writeLE64 v @ r)) n = bit v n"
    unfolding readLE64_def lo hi using n by (auto simp: bit_simps Let_def)
qed

lemma readLE_write [simp]:
  "readLE16 (writeLE16 v16) = v16" "readLE32 (writeLE32 v32) = v32" "readLE64 (writeLE64 v64) = v64"
  using readLE16_write [of v16 "[]"] readLE32_write [of v32 "[]"] readLE64_write [of v64 "[]"] by simp_all

section \<open>Reading back what was written\<close>

lemma length_put [simp]: "off + length bs \<le> length buf \<Longrightarrow> length (put off bs buf) = length buf"
  by (simp add: put_def)

lemma drop_put_same: "off \<le> length buf \<Longrightarrow> drop off (put off bs buf) = bs @ drop (off + length bs) buf"
  by (simp add: put_def)

lemma drop_put_after:
  "off + length bs \<le> k \<Longrightarrow> off + length bs \<le> length buf \<Longrightarrow> drop k (put off bs buf) = drop k buf"
  by (simp add: put_def)

lemma take_put_before: "k \<le> off \<Longrightarrow> off \<le> length buf \<Longrightarrow> take k (put off bs buf) = take k buf"
  by (simp add: put_def)

text \<open>A field is the bytes it occupies; a write elsewhere leaves it alone.\<close>

definition field :: "nat \<Rightarrow> nat \<Rightarrow> u8 list \<Rightarrow> u8 list" where
  "field off n buf = take n (drop off buf)"

lemma field_put_same: "off + n \<le> length buf \<Longrightarrow> length bs = n \<Longrightarrow> field off n (put off bs buf) = bs"
  by (simp add: field_def put_def)

lemma field_put_other:
  assumes "off + n \<le> o' \<or> o' + length bs \<le> off" and "o' + length bs \<le> length buf"
  shows "field off n (put o' bs buf) = field off n buf"
  using assms(1)
proof
  assume a: "off + n \<le> o'"
  have "take n (drop off (put o' bs buf)) = drop off (take (off + n) (put o' bs buf))"
    by (simp add: drop_take)
  also have "\<dots> = drop off (take (off + n) buf)"
    using a assms(2) by (simp add: take_put_before)
  finally show ?thesis by (simp add: field_def drop_take)
next
  assume "o' + length bs \<le> off"
  with assms(2) show ?thesis by (simp add: field_def drop_put_after)
qed

lemma read_field:
  "readLE16 (drop k buf) = readLE16 (field k 2 buf)"
  "readLE32 (drop k buf) = readLE32 (field k 4 buf)"
  "readLE64 (drop k buf) = readLE64 (field k 8 buf)"
  by (simp_all add: field_def readLE16_def readLE32_def readLE64_def drop_take)

lemma read_field0:
  "readLE32 buf = readLE32 (field 0 4 buf)" "readLE64 buf = readLE64 (field 0 8 buf)"
  using read_field(2,3) [of 0 buf] by simp_all

lemma field_append: "k + n \<le> length b \<Longrightarrow> field k n (b @ r) = field k n b"
  by (simp add: field_def)

lemma nth_field: "k < length buf \<Longrightarrow> buf ! k = hd (field k 1 buf)"
  by (simp add: field_def hd_drop_conv_nth take_Suc hd_take)

lemmas field_simps_put = field_put_same field_put_other

lemma encode_header_fields:
  "length (encode_header m i d) = 56"
  "field 0 4 (encode_header m i d) = writeLE32 kMagicXtc"
  "field 4 2 (encode_header m i d) = writeLE16 0x0100" "field 6 2 (encode_header m i d) = writeLE16 1"
  "field 8 1 (encode_header m i d) = [0]" "field 9 1 (encode_header m i d) = [1]"
  "field 10 1 (encode_header m i d) = [0]" "field 11 1 (encode_header m i d) = [0]"
  "field 12 4 (encode_header m i d) = writeLE32 0"
  "field 16 8 (encode_header m i d) = writeLE64 m" "field 24 8 (encode_header m i d) = writeLE64 i"
  "field 32 8 (encode_header m i d) = writeLE64 d" "field 40 8 (encode_header m i d) = writeLE64 0"
  "field 48 8 (encode_header m i d) = writeLE64 0"
  by (simp_all add: encode_header_def kXtcHeaderSize_def field_simps_put)

lemma encode_header_parse:
  "parseXtcHeader (encode_header m i d @ r) = Some \<lparr>mark = kMagicXtc, version = 0x0100, xtcPageCount = 1,
     readDirection = 0, hasMetadata = 1, hasThumbnails = 0, hasChapters = 0, currentPage = 0,
     metadataOffset = m, indexOffset = i, dataOffset = d, thumbOffset = 0, chapterOffset = 0\<rparr>"
proof -
  let ?b = "encode_header m i d"
  note f = field_append [of _ _ ?b r, unfolded encode_header_fields(1)]
  have n: "(?b @ r) ! k = hd (field k 1 ?b)" if "k < 56" for k
    using that nth_field [of k ?b] encode_header_fields(1) [of m i d] by (simp add: nth_append)
  show ?thesis
    unfolding parseXtcHeader_def read_field0(1) [of "?b @ r"] read_field [of _ "?b @ r"]
    by (simp add: f n encode_header_fields [unfolded One_nat_def])
qed

lemma encode_index_fields:
  "length (encode_index d sz w h) = 16"
  "field 0 8 (encode_index d sz w h) = writeLE64 d" "field 8 4 (encode_index d sz w h) = writeLE32 sz"
  "field 12 2 (encode_index d sz w h) = writeLE16 w" "field 14 2 (encode_index d sz w h) = writeLE16 h"
  by (simp_all add: encode_index_def kIndexEntrySize_def field_simps_put)

lemma encode_index_parse:
  "parseIndexEntry (encode_index d sz w h) = \<lparr>offset = d, pageSize = sz, pageWidth = w, pageHeight = h\<rparr>"
  unfolding parseIndexEntry_def read_field0(2) [of "encode_index d sz w h"] read_field [of _ "encode_index d sz w h"]
  by (simp add: encode_index_fields)

lemma encode_xtg_header_fields:
  "length (encode_xtg_header w h ds) = 22"
  "field 0 4 (encode_xtg_header w h ds) = writeLE32 kMagicXtg"
  "field 4 2 (encode_xtg_header w h ds) = writeLE16 w" "field 6 2 (encode_xtg_header w h ds) = writeLE16 h"
  "field 8 1 (encode_xtg_header w h ds) = [0]" "field 9 1 (encode_xtg_header w h ds) = [0]"
  "field 10 4 (encode_xtg_header w h ds) = writeLE32 ds"
  by (simp_all add: encode_xtg_header_def kXtgHeaderSize_def field_simps_put)

lemma encode_xtg_header_parse:
  "parseXtgHeader (encode_xtg_header w h ds) =
     Some \<lparr>xtgMark = kMagicXtg, width = w, height = h, colorMode = 0, compression = 0, dataSize = ds\<rparr>"
  unfolding parseXtgHeader_def read_field0(1) [of "encode_xtg_header w h ds"] read_field [of _ "encode_xtg_header w h ds"]
  by (simp add: encode_xtg_header_fields [unfolded One_nat_def] nth_field)

lemma length_packFixedString: "0 < n \<Longrightarrow> length (packFixedString n s) = n"
  by (simp add: packFixedString_def Let_def)

lemma encode_metadata_fields:
  "length (encode_metadata t c) = 256"
  "field 0 128 (encode_metadata t c) = packFixedString 128 t"
  "field 0x80 64 (encode_metadata t c) = packFixedString 64 []"
  by (simp_all add: encode_metadata_def kMetadataSize_def length_packFixedString field_simps_put)

section \<open>Sizes never overflow\<close>

lemma rowBytes_bounds: "0 \<le> (uint (w :: u16) + 7) div 8" "(uint (w :: u16) + 7) div 8 \<le> 8192"
proof -
  have "0 \<le> uint w" "uint w < 65536" using uint_bounded [of w] by simp_all
  then show "0 \<le> (uint w + 7) div 8" "(uint w + 7) div 8 \<le> 8192" by linarith+
qed

lemma uint_rowBytesOf: "uint (rowBytesOf w) = (uint w + 7) div 8"
  unfolding rowBytesOf_def uint_word_of_int using rowBytes_bounds [of w] by (intro mod_pos_pos_trivial) simp_all

lemma uint_expected: "uint (expectedXtgDataSize w h) = (uint w + 7) div 8 * uint h"
proof -
  note w = rowBytes_bounds [of w]
  have h: "0 \<le> uint h" "uint h \<le> 65535" using uint_bounded [of h] by simp_all
  have u: "uint (ucast h :: u32) = uint h" by (rule uint_ucast_up) simp
  have "(uint w + 7) div 8 * uint h \<le> 8192 * 65535" using w h by (intro mult_mono) simp_all
  moreover have "0 \<le> (uint w + 7) div 8 * uint h" using w h by simp
  ultimately have "((uint w + 7) div 8 * uint h) mod 2 ^ 32 = (uint w + 7) div 8 * uint h"
    by (intro mod_pos_pos_trivial) simp_all
  then show ?thesis by (simp add: expectedXtgDataSize_def uint_word_ariths uint_rowBytesOf u)
qed

lemma unat_expected: "unat (expectedXtgDataSize w h) = (unat w + 7) div 8 * unat h"
proof -
  have "int (unat (expectedXtgDataSize w h)) = int ((unat w + 7) div 8 * unat h)"
    by (simp add: uint_expected zdiv_int)
  then show ?thesis by linarith
qed

lemma unat_rowBytesOf: "unat (rowBytesOf w) = (unat w + 7) div 8"
proof -
  have "int (unat (rowBytesOf w)) = int ((unat w + 7) div 8)" by (simp add: uint_rowBytesOf zdiv_int)
  then show ?thesis by linarith
qed

section \<open>The decoder's reads\<close>

text \<open>The offsets of the file, where they do not come near \<open>2 ^ 64\<close>.\<close>

definition offsets_sane :: "u8 list \<Rightarrow> u16 \<Rightarrow> bool" where
  "offsets_sane buf p \<longleftrightarrow>
     (case parseXtcHeader buf of None \<Rightarrow> True | Some h \<Rightarrow>
        uint (indexOffset h) < 2 ^ 63 \<and>
        (case read_bytes buf (indexOffset h + ucast p * 16) 16 of None \<Rightarrow> True
         | Some eb \<Rightarrow> uint (offset (parseIndexEntry eb)) < 2 ^ 63))"

lemma uint_add_small: "uint (a :: u64) + uint b < 2 ^ 64 \<Longrightarrow> uint (a + b) = uint a + uint b"
  by (simp add: uint_word_ariths)

lemma read_bytes_in:
  assumes "\<not> (off + n' > (of_nat (length buf) :: u64))" and "uint off + uint n' < 2 ^ 64"
    and "length buf < 2 ^ 32" and "n = unat n'"
  shows "read_bytes buf off n = Some (take n (drop (unat off) buf))"
proof -
  have "uint (of_nat (length buf) :: u64) = int (length buf)"
    using assms(3) by (intro uint_of_nat_small) simp
  with assms(1,2) have "uint off + uint n' \<le> int (length buf)"
    by (simp add: word_less_def uint_add_small)
  then have "unat off + n \<le> length buf" using assms(4) unfolding uint_nat by linarith
  then show ?thesis by (simp add: read_bytes_def)
qed

lemma u16_as_u64: "uint (ucast (p :: u16) * 16 :: u64) = uint p * 16"
proof -
  have p: "uint p * 16 < 2 ^ 64" using uint_bounded [of p] by simp
  have u: "uint (ucast p :: u64) = uint p" by (rule uint_ucast_up) simp
  have "uint (ucast p * 16 :: u64) = (uint (ucast p :: u64) * 16) mod 2 ^ 64"
    by (simp add: uint_word_ariths)
  also have "\<dots> = uint p * 16" unfolding u using p by (intro mod_pos_pos_trivial) simp_all
  finally show ?thesis .
qed

lemma u32_as_u64: "uint (ucast (p :: u32) :: u64) = uint p"
  by (rule uint_ucast_up) simp

lemma entry_read:
  assumes "uint idx < 2 ^ 63" and "length buf < 2 ^ 32"
    and "\<not> idx + ucast (p :: u16) * 16 + 16 > (of_nat (length buf) :: u64)"
  shows "read_bytes buf (idx + ucast p * 16) 16 = Some (take 16 (drop (unat (idx + ucast p * 16)) buf))"
proof (rule read_bytes_in [OF assms(3)])
  have p: "uint p < 65536" using uint_bounded [of p] by simp
  have "uint (idx + ucast p * 16) = uint idx + uint p * 16"
    using assms(1) p by (subst uint_add_small) (simp_all add: u16_as_u64)
  then show "uint (idx + ucast p * 16) + uint (16 :: u64) < 2 ^ 64" using assms(1) p by simp
qed (use assms(2) in simp_all)

lemma page_read:
  assumes "uint off < 2 ^ 63" and "length buf < 2 ^ 32"
    and "\<not> off + 22 > (of_nat (length buf) :: u64)"
  shows "read_bytes buf off 22 = Some (take 22 (drop (unat off) buf))"
  by (rule read_bytes_in [OF assms(3)]) (use assms in simp_all)

lemma data_read:
  assumes "uint off < 2 ^ 63" and "length buf < 2 ^ 32"
    and "\<not> off + 22 + ucast (n :: u32) > (of_nat (length buf) :: u64)"
  shows "read_bytes buf (off + 22) (unat n) = Some (take (unat n) (drop (unat (off + 22)) buf))"
proof (rule read_bytes_in [OF assms(3)])
  have "uint (off + 22) = uint off + 22" using assms(1) by (subst uint_add_small) simp_all
  then show "uint (off + 22) + uint (ucast n :: u64) < 2 ^ 64"
    using assms(1) uint_bounded [of n] by (simp add: u32_as_u64)
  show "unat n = unat (ucast n :: u64)" using u32_as_u64 [of n] by (simp only: unat_eq_nat_uint)
qed (use assms(2) in simp_all)

lemma xtc_decode_in_bounds:
  assumes len: "length buf < 2 ^ 32" and sane: "offsets_sane buf p"
  shows "xtc_decode_page malloc_ok buf p \<noteq> OutOfBounds"
proof -
  have s: "(of_nat kIndexEntrySize :: u64) = 16" "(of_nat kXtgHeaderSize :: u64) = 22" "kIndexEntrySize = 16" "kXtgHeaderSize = 22"
    by (simp_all add: kIndexEntrySize_def kXtgHeaderSize_def)
  show ?thesis
  proof (cases "parseXtcHeader buf")
    case None
    then show ?thesis by (simp add: xtc_decode_page_def Let_def)
  next
    case (Some h)
    with sane have idx: "uint (indexOffset h) < 2 ^ 63" by (simp add: offsets_sane_def)
    show ?thesis
    proof (cases "indexOffset h + ucast p * 16 + 16 > (of_nat (length buf) :: u64)")
      case True
      then show ?thesis by (simp add: xtc_decode_page_def Let_def Some s)
    next
      case False
      note eb = entry_read [OF idx len False]
      define e where "e = parseIndexEntry (take 16 (drop (unat (indexOffset h + ucast p * 16)) buf))"
      have off: "uint (offset e) < 2 ^ 63"
        using sane by (simp add: offsets_sane_def Some eb e_def)
      show ?thesis
        using page_read [OF off len] data_read [OF off len]
        by (auto simp: xtc_decode_page_def Let_def Some s eb e_def [symmetric] split: option.splits)
    qed
  qed
qed

section \<open>Decoding what was encoded\<close>

lemma concat_nth_uniform:
  "\<forall>r \<in> set rs. length r = n \<Longrightarrow> y < length rs \<Longrightarrow> j < n \<Longrightarrow> concat rs ! (y * n + j) = rs ! y ! j"
proof (induction rs arbitrary: y)
  case (Cons r rs)
  then show ?case by (cases y) (simp_all add: nth_append add.assoc)
qed simp

lemma length_concat_uniform: "\<forall>r \<in> set rs. length r = n \<Longrightarrow> length (concat rs) = length rs * n"
  by (induction rs) simp_all

lemma concat_image_rows: "concat (image_rows px w h) = take (h * w) px"
  unfolding image_rows_def
proof (induction h)
  case (Suc h)
  have "take (Suc h * w) px = take (h * w) px @ take w (drop (h * w) px)"
    using take_add [of "h * w" w px] by (simp only: mult_Suc add.commute)
  with Suc show ?case by simp
qed simp

lemma image_rows_length: "length (image_rows px w h) = h"
  by (simp add: image_rows_def)

lemma pixel_at_bit:
  "pixel_at packed rb y x = (if bit (packed ! (y * rb + x div 8)) (7 - x mod 8) then 255 else 0)"
proof -
  have "drop_bit n b AND 1 \<noteq> 0 \<longleftrightarrow> bit b n" for n and b :: u8
    by (simp add: and_one_eq bit_iff_odd_drop_bit odd_iff_mod_2_eq_one)
  then show ?thesis by (simp add: pixel_at_def Let_def)
qed

definition encoded :: "string \<Rightarrow> u32 \<Rightarrow> u32 \<Rightarrow> u16 \<Rightarrow> u16 \<Rightarrow> u8 list \<Rightarrow> u8 list" where
  "encoded titl createTime sz w h packed =
     encode_header 56 312 328 @ encode_metadata titl createTime @ encode_index 328 sz w h @
     encode_xtg_header w h (expectedXtgDataSize w h) @ packed"

lemma length_encoded: "length (encoded t c sz w h packed) = 350 + length packed"
  by (simp add: encoded_def encode_header_fields encode_metadata_fields encode_index_fields encode_xtg_header_fields)

lemma decode_encoded:
  assumes wh: "w \<noteq> 0" "h \<noteq> 0" and len: "length packed = unat (expectedXtgDataSize w h)"
    and ok: "malloc_ok (unat w * unat h)"
  shows "xtc_decode_page malloc_ok (encoded t c sz w h packed) 0 =
    Decoded w h (unpack_pixels packed (unat (rowBytesOf w)) (unat w) (unat h))"
proof -
  let ?b = "encoded t c sz w h packed"
  let ?n = "unat (expectedXtgDataSize w h)"
  note lens = encode_header_fields(1) encode_metadata_fields(1) encode_index_fields(1) encode_xtg_header_fields(1)
  have n: "?n < 2 ^ 32" using unsigned_less [of "expectedXtgDataSize w h", where 'a = nat] by simp
  have L: "length ?b = 350 + ?n" by (simp add: length_encoded len)
  have uL: "uint (of_nat (length ?b) :: u64) = 350 + int ?n"
    using n by (subst uint_of_nat_small) (simp_all add: L)
  have parse: "parseXtcHeader ?b = Some \<lparr>mark = kMagicXtc, version = 0x0100, xtcPageCount = 1,
     readDirection = 0, hasMetadata = 1, hasThumbnails = 0, hasChapters = 0, currentPage = 0,
     metadataOffset = 56, indexOffset = 312, dataOffset = 328, thumbOffset = 0, chapterOffset = 0\<rparr>"
    unfolding encoded_def by (rule encode_header_parse)
  have r1: "read_bytes ?b 312 16 = Some (encode_index 328 sz w h)"
    using L by (simp add: read_bytes_def) (simp add: encoded_def lens)
  have r2: "read_bytes ?b 328 22 = Some (encode_xtg_header w h (expectedXtgDataSize w h))"
    using L by (simp add: read_bytes_def) (simp add: encoded_def lens)
  have r3: "read_bytes ?b 350 ?n = Some packed"
    using L by (simp add: read_bytes_def) (simp add: encoded_def lens len)
  have ud: "uint (ucast (expectedXtgDataSize w h) :: u64) = int ?n"
    unfolding u32_as_u64 by (rule uint_nat)
  have g1: "\<not> (328 > (of_nat (length ?b) :: u64))" "\<not> (350 > (of_nat (length ?b) :: u64))"
    by (simp_all add: word_less_def uL not_less add_nonneg_nonneg del: of_nat_add)
  have "uint (350 + ucast (expectedXtgDataSize w h) :: u64) = 350 + int ?n"
    using uint_bounded [of "expectedXtgDataSize w h"] by (subst uint_add_small) (simp_all add: ud)
  then have g2: "\<not> (350 + ucast (expectedXtgDataSize w h) > (of_nat (length ?b) :: u64))"
    by (simp add: word_less_def uL del: of_nat_add)
  have "\<not> length ?b < kXtcHeaderSize" by (simp add: L kXtcHeaderSize_def)
  then show ?thesis
    using wh ok
    by (simp add: xtc_decode_page_def Let_def parse kIndexEntrySize_def kXtgHeaderSize_def r1 r2 r3 g1 g2
        encode_index_parse encode_xtg_header_parse isMonochrome_def del: of_nat_add)
qed

section \<open>Dithering\<close>

lemma dither_pixel_length:
  "length (snd (snd (dither_pixel F w nx x st))) = length (snd (snd st))"
  by (simp add: dither_pixel_def Let_def split_def)

lemma dither_fold_length:
  "length (snd (snd (fold (dither_pixel F w nx) xs st))) = length (snd (snd st))"
  by (induction xs arbitrary: st) (simp_all add: dither_pixel_length)

lemma dither_row_length: "length (fst (dither_row F w rb nx src carry)) = rb"
  using dither_fold_length [of F w nx "[0..<w]"] by (simp add: dither_row_def Let_def split_def)

lemma dither_rows_shape:
  "length (dither_rows F w rb rows carry) = length rows \<and> (\<forall>r \<in> set (dither_rows F w rb rows carry). length r = rb)"
  by (induction rows arbitrary: carry) (auto simp: Let_def split_def dither_row_length)

lemma encode_is_encoded:
  assumes "xtc_encode_single_page F malloc_ok px w h titl c = Some buf"
  shows "w \<noteq> 0 \<and> h \<noteq> 0 \<and> buf = encoded titl c (22 + expectedXtgDataSize w h) w h
     (concat (dither_rows F (unat w) (unat (rowBytesOf w)) (image_rows px (unat w) (unat h)) (replicate (unat w) (f_0 F))))"
  using assms
  by (auto simp: xtc_encode_single_page_def Let_def encoded_def kXtcHeaderSize_def kMetadataSize_def
      kIndexEntrySize_def kXtgHeaderSize_def rowBytesOf_def [symmetric] expectedXtgDataSize_def split: if_splits)

lemma length_packed_rows:
  "length (concat (dither_rows F (unat w) (unat (rowBytesOf w)) (image_rows px (unat w) (unat h)) carry)) =
     unat (expectedXtgDataSize w h)"
  using dither_rows_shape [of F "unat w" "unat (rowBytesOf w)" "image_rows px (unat w) (unat h)" carry]
  by (subst length_concat_uniform) (auto simp: image_rows_length unat_expected unat_rowBytesOf)

text \<open>
  On an image of black and white only, no error ever arises: the facts of IEEE arithmetic this
  needs of the operations.
\<close>

definition float_bw_laws :: "'f float_ops \<Rightarrow> bool" where
  "float_bw_laws F \<longleftrightarrow>
     (\<forall>b. f_add F (f_of_u8 F b) (f_0 F) = f_of_u8 F b) \<and> f_add F (f_0 F) (f_0 F) = f_0 F \<and>
     f_ge F (f_of_u8 F 255) (f_128 F) \<and> \<not> f_ge F (f_of_u8 F 0) (f_128 F) \<and>
     f_sub F (f_of_u8 F 255) (f_255 F) = f_0 F \<and> f_sub F (f_of_u8 F 0) (f_0 F) = f_0 F \<and>
     f_mul F (f_0 F) (f_7_16 F) = f_0 F \<and> f_mul F (f_0 F) (f_3_16 F) = f_0 F \<and>
     f_mul F (f_0 F) (f_5_16 F) = f_0 F \<and> f_mul F (f_0 F) (f_1_16 F) = f_0 F"

lemma update_same: "xs ! i = v \<Longrightarrow> xs[i := v] = xs"
  by auto

lemma dither_pixel_bw:
  assumes F: "float_bw_laws F" and x: "x < w" and b: "src ! x = 0 \<or> src ! x = 255"
  shows "dither_pixel F w nx x (map (\<lambda>i. f_of_u8 F (src ! i)) [0..<w], replicate w (f_0 F), dst) =
    (map (\<lambda>i. f_of_u8 F (src ! i)) [0..<w], replicate w (f_0 F),
     if src ! x = 255 then dst[x div 8 := dst ! (x div 8) OR drop_bit (x mod 8) 0x80] else dst)"
proof -
  let ?row = "map (\<lambda>i. f_of_u8 F (src ! i)) [0..<w]"
  have row: "x + 1 < w \<Longrightarrow> ?row[x + 1 := f_add F (?row ! (x + 1)) (f_0 F)] = ?row"
    using F by (intro update_same) (simp add: float_bw_laws_def)
  have rep: "i < w \<Longrightarrow> (replicate w (f_0 F))[i := f_add F (replicate w (f_0 F) ! i) (f_0 F)] = replicate w (f_0 F)" for i
    using F by (intro update_same) (simp add: float_bw_laws_def)
  have pos: "x - 1 < w" using x by simp
  from b show ?thesis
  proof
    assume "src ! x = 255"
    with F x show ?thesis
      using row rep [OF x] rep [OF pos] rep [of "x + 1"]
      by (auto simp: dither_pixel_def Let_def float_bw_laws_def)
  next
    assume "src ! x = 0"
    with F x show ?thesis
      using row rep [OF x] rep [OF pos] rep [of "x + 1"]
      by (auto simp: dither_pixel_def Let_def float_bw_laws_def)
  qed
qed

definition set_bits :: "u8 list \<Rightarrow> nat \<Rightarrow> nat \<Rightarrow> u8 list" where
  "set_bits src k rb = fold (\<lambda>x dst. if src ! x = 255 then dst[x div 8 := dst ! (x div 8) OR drop_bit (x mod 8) 0x80] else dst)
     [0..<k] (replicate rb 0)"

lemma length_set_bits [simp]: "length (set_bits src k rb) = rb"
  by (induction k) (simp_all add: set_bits_def)

lemma bit_mask_byte: "m < 8 \<Longrightarrow> i < 8 \<Longrightarrow> bit (drop_bit m (0x80 :: u8)) i \<longleftrightarrow> i + m = 7"
proof -
  assume mi: "m < 8" "i < 8"
  have b: "n < 8 \<Longrightarrow> bit (0x80 :: u8) n \<longleftrightarrow> n = 7" for n :: nat
  proof -
    assume "n < 8"
    then consider "n = 0" | "n = 1" | "n = 2" | "n = 3" | "n = 4" | "n = 5" | "n = 6" | "n = 7" by linarith
    then show ?thesis by cases simp_all
  qed
  have "bit (drop_bit m (0x80 :: u8)) i \<longleftrightarrow> bit (0x80 :: u8) (m + i)" by (simp add: bit_drop_bit_eq)
  also have "\<dots> \<longleftrightarrow> i + m = 7"
  proof (cases "m + i < 8")
    case False
    then have "\<not> bit (0x80 :: u8) (m + i)" using bit_imp_le_length [of "0x80 :: u8" "m + i"] by auto
    with False show ?thesis by simp
  qed (simp only: b add.commute)
  finally show ?thesis .
qed

lemma set_bits_bit:
  assumes "k \<le> 8 * rb" and "x < 8 * rb"
  shows "bit (set_bits src k rb ! (x div 8)) (7 - x mod 8) \<longleftrightarrow> x < k \<and> src ! x = 255"
  using assms(1)
proof (induction k)
  case 0
  have "x div 8 < rb" using assms(2) by (simp add: less_mult_imp_div_less mult.commute)
  then show ?case by (simp add: set_bits_def)
next
  case (Suc k)
  then have k: "k div 8 < rb" by (simp add: less_mult_imp_div_less mult.commute)
  have step: "set_bits src (Suc k) rb = (if src ! k = 255 then (set_bits src k rb)[k div 8 := set_bits src k rb ! (k div 8) OR drop_bit (k mod 8) 0x80]
      else set_bits src k rb)"
    by (simp add: set_bits_def)
  have same: "7 - x mod 8 + k mod 8 = 7 \<longleftrightarrow> x = k" if "k div 8 = x div 8"
  proof -
    have "x mod 8 < 8" by simp
    then have "7 - x mod 8 + k mod 8 = 7 \<longleftrightarrow> x mod 8 = k mod 8" by arith
    also have "\<dots> \<longleftrightarrow> x = k" using that by (metis div_mult_mod_eq)
    finally show ?thesis .
  qed
  show ?case
  proof (cases "src ! k = 255 \<and> k div 8 = x div 8")
    case True
    then have "bit (set_bits src (Suc k) rb ! (x div 8)) (7 - x mod 8) \<longleftrightarrow>
        bit (set_bits src k rb ! (x div 8)) (7 - x mod 8) \<or> x = k"
      using k same bit_mask_byte [of "k mod 8" "7 - x mod 8"] by (simp add: step bit_or_iff)
    with Suc True show ?thesis by auto
  next
    case False
    then have "set_bits src (Suc k) rb ! (x div 8) = set_bits src k rb ! (x div 8)"
      by (auto simp: step)
    with Suc False show ?thesis by (auto simp: less_Suc_eq)
  qed
qed

lemma dither_row_bw:
  assumes F: "float_bw_laws F" and b: "\<forall>x < w. src ! x = 0 \<or> src ! x = 255"
  shows "dither_row F w rb nx src (replicate w (f_0 F)) = (set_bits src w rb, replicate w (f_0 F))"
proof -
  let ?row = "map (\<lambda>i. f_of_u8 F (src ! i)) [0..<w]"
  have "k \<le> w \<Longrightarrow> fold (dither_pixel F w nx) [0..<k] (?row, replicate w (f_0 F), replicate rb 0) =
      (?row, replicate w (f_0 F), set_bits src k rb)" for k
  proof (induction k)
    case 0
    then show ?case by (simp add: set_bits_def)
  next
    case (Suc k)
    then show ?case using b by (simp add: dither_pixel_bw [OF F]) (simp add: set_bits_def)
  qed
  then have "fold (dither_pixel F w nx) [0..<w] (?row, replicate w (f_0 F), replicate rb 0) =
      (?row, replicate w (f_0 F), set_bits src w rb)" by simp
  moreover have "map (\<lambda>x. f_add F (f_of_u8 F (src ! x)) (replicate w (f_0 F) ! x)) [0..<w] = ?row"
    using F by (auto simp: float_bw_laws_def)
  ultimately show ?thesis by (simp only: dither_row_def Let_def split_def prod.sel)
qed

lemma dither_rows_bw:
  assumes F: "float_bw_laws F" 
  shows "\<forall>src \<in> set rows. \<forall>x < w. src ! x = 0 \<or> src ! x = 255 \<Longrightarrow>
    dither_rows F w rb rows (replicate w (f_0 F)) = map (\<lambda>src. set_bits src w rb) rows"
  by (induction rows) (simp_all add: dither_row_bw [OF F])

lemma unpack_bw:
  assumes rows: "length px = w * h" and bw: "set px \<subseteq> {0, 255}" and rb: "w \<le> 8 * rb"
  shows "unpack_pixels (concat (map (\<lambda>src. set_bits src w rb) (image_rows px w h))) rb w h = px"
proof -
  let ?rows = "map (\<lambda>src. set_bits src w rb) (image_rows px w h)"
  have row: "map (pixel_at (concat ?rows) rb y) [0..<w] = take w (drop (y * w) px)" if y: "y < h" for y
  proof (rule nth_equalityI)
    have fit: "y * w + w \<le> length px" using y rows by (metis Suc_leI mult.commute mult_Suc_right add.commute mult_le_mono2)
    then show "length (map (pixel_at (concat ?rows) rb y) [0..<w]) = length (take w (drop (y * w) px))" by simp
    fix x assume "x < length (map (pixel_at (concat ?rows) rb y) [0..<w])"
    then have x: "x < w" by simp
    then have xb: "x div 8 < rb" using rb by (simp add: less_mult_imp_div_less mult.commute)
    have "concat ?rows ! (y * rb + x div 8) = set_bits (take w (drop (y * w) px)) w rb ! (x div 8)"
      using y xb by (subst concat_nth_uniform) (auto simp: image_rows_length image_rows_def)
    moreover have "px ! (y * w + x) \<in> {0, 255}" using bw fit x by (intro subsetD [OF bw] nth_mem) simp
    ultimately show "map (pixel_at (concat ?rows) rb y) [0..<w] ! x = take w (drop (y * w) px) ! x"
      using x rb fit by (auto simp: pixel_at_bit set_bits_bit)
  qed
  have "unpack_pixels (concat ?rows) rb w h = concat (image_rows px w h)"
    unfolding unpack_pixels_def image_rows_def [of px w h, symmetric]
    using row by (metis (no_types, lifting) atLeastLessThan_iff atLeast_upt image_rows_def map_eq_conv lessThan_iff)
  then show ?thesis by (simp add: concat_image_rows rows mult.commute)
qed

lemma encode_some:
  "w \<noteq> 0 \<Longrightarrow> h \<noteq> 0 \<Longrightarrow> \<exists>buf. xtc_encode_single_page F (\<lambda>_. True) px w h titl c = Some buf"
  by (simp add: xtc_encode_single_page_def Let_def)

lemma page_count_encoded: "xtc_page_count (encoded t c sz w h packed) = 1"
proof -
  have "\<not> length (encoded t c sz w h packed) < kXtcHeaderSize" by (simp add: length_encoded kXtcHeaderSize_def)
  then show ?thesis by (simp add: xtc_page_count_def encoded_def encode_header_parse)
qed

lemma unpack_values: "set (unpack_pixels packed rb w h) \<subseteq> {0, 255} \<and> length (unpack_pixels packed rb w h) = w * h"
proof -
  have "\<forall>r \<in> set (map (\<lambda>y. map (pixel_at packed rb y) [0..<w]) [0..<h]). length r = w" by auto
  from length_concat_uniform [OF this] show ?thesis by (auto simp: unpack_pixels_def pixel_at_def Let_def)
qed

lemma unat_rowBytes_cover: "unat w \<le> 8 * unat (rowBytesOf w)"
  unfolding unat_rowBytesOf by linarith

section \<open>Properties\<close>

definition rat_floats :: "rat float_ops" where
  "rat_floats = \<lparr>f_of_u8 = of_nat \<circ> unat, f_add = (+), f_sub = (-), f_mul = (*), f_ge = (\<ge>), f_0 = 0, f_128 = 128,
     f_255 = 255, f_7_16 = 7 / 16, f_3_16 = 3 / 16, f_5_16 = 5 / 16, f_1_16 = 1 / 16\<rparr>"

lemma rat_floats_laws: "float_bw_laws rat_floats"
  by (simp add: float_bw_laws_def rat_floats_def)

text \<open>C27: A black and white image, encoded into an XTC file and decoded again, comes back pixel for pixel:
  dithering, bit packing, every header field and offset of the two modules agree.\<close>

theorem xtc_encode_decode_bw:
  assumes "float_bw_laws F" and "w \<noteq> 0" and "h \<noteq> 0" and "length px = unat w * unat h" and "set px \<subseteq> {0, 255}"
  shows "\<exists>buf. xtc_encode_single_page F (\<lambda>_. True) px w h titl createTime = Some buf \<and>
    xtc_decode_page (\<lambda>_. True) buf 0 = Decoded w h px \<and> xtc_page_count buf = 1"
proof -
  obtain buf where b: "xtc_encode_single_page F (\<lambda>_. True) px w h titl createTime = Some buf"
    using encode_some [OF assms(2,3)] by blast
  let ?rb = "unat (rowBytesOf w)"
  let ?packed = "concat (dither_rows F (unat w) ?rb (image_rows px (unat w) (unat h)) (replicate (unat w) (f_0 F)))"
  have buf: "buf = encoded titl createTime (22 + expectedXtgDataSize w h) w h ?packed"
    using encode_is_encoded [OF b] by simp
  have "\<forall>src \<in> set (image_rows px (unat w) (unat h)). \<forall>x < unat w. src ! x = 0 \<or> src ! x = 255"
  proof (intro ballI allI impI)
    fix src x assume src: "src \<in> set (image_rows px (unat w) (unat h))" and x: "x < unat w"
    then obtain y where y: "y < unat h" "src = take (unat w) (drop (y * unat w) px)" by (auto simp: image_rows_def)
    have "Suc y * unat w \<le> unat h * unat w" using y(1) by (intro mult_le_mono1) simp
    then have "y * unat w + x < length px" using x assms(4) by (simp add: mult.commute)
    then have "px ! (y * unat w + x) \<in> {0, 255}" using assms(5) nth_mem by blast
    with x y(2) \<open>y * unat w + x < length px\<close> show "src ! x = 0 \<or> src ! x = 255" by simp
  qed
  from dither_rows_bw [OF assms(1) this, of ?rb]
  have "unpack_pixels ?packed ?rb (unat w) (unat h) = px"
    using unpack_bw [OF assms(4,5) unat_rowBytes_cover] by simp
  with decode_encoded [OF assms(2,3) length_packed_rows [of F w px h "replicate (unat w) (f_0 F)"], of "\<lambda>_. True"] b
  show ?thesis by (auto simp: buf page_count_encoded)
qed

lemma xtc_encode_decode_bw_witness:
  "\<exists>buf. xtc_encode_single_page rat_floats (\<lambda>_. True) [0, 255, 255, 0, 0, 255] 3 2 ''Memo'' 1700000000 = Some buf \<and>
    xtc_decode_page (\<lambda>_. True) buf 0 = Decoded 3 2 [0, 255, 255, 0, 0, 255] \<and> xtc_page_count buf = 1"
  by (rule xtc_encode_decode_bw [OF rat_floats_laws]) simp_all

text \<open>Any non-empty image is encoded into a file that the decoder accepts as one page of the same size,
  every pixel black or white, whatever the float arithmetic does.\<close>

theorem xtc_encode_decode_shape:
  assumes "xtc_encode_single_page F malloc_ok px w h titl createTime = Some buf"
  shows "\<exists>px'. xtc_decode_page (\<lambda>_. True) buf 0 = Decoded w h px' \<and> length px' = unat w * unat h \<and>
    set px' \<subseteq> {0, 255} \<and> xtc_page_count buf = 1 \<and> length buf = 350 + (unat w + 7) div 8 * unat h"
proof -
  from encode_is_encoded [OF assms] have e: "w \<noteq> 0" "h \<noteq> 0" "buf = encoded titl createTime (22 + expectedXtgDataSize w h) w h
     (concat (dither_rows F (unat w) (unat (rowBytesOf w)) (image_rows px (unat w) (unat h)) (replicate (unat w) (f_0 F))))"
    by simp_all
  show ?thesis
    using decode_encoded [OF e(1,2) length_packed_rows [of F w px h "replicate (unat w) (f_0 F)"], of "\<lambda>_. True"] unpack_values
    by (simp add: e(3) page_count_encoded length_encoded length_packed_rows unat_expected)
qed

lemma xtc_encode_decode_shape_witness:
  "case xtc_encode_single_page rat_floats (\<lambda>_. True) [9, 200] 2 1 ''x'' 0 of
     None \<Rightarrow> False | Some buf \<Rightarrow> xtc_page_count buf = 1 \<and> length buf = 351"
proof -
  obtain buf where b: "xtc_encode_single_page rat_floats (\<lambda>_. True) [9, 200] 2 1 ''x'' 0 = Some buf"
    using encode_some [of 2 1 rat_floats "[9, 200]" "''x''" 0] by auto
  from xtc_encode_decode_shape [OF b] b show ?thesis by auto
qed

text \<open>Decoding never reads outside the file's bytes, provided the file's two stored offsets do not come
  within \<open>2 ^ 63\<close> of wrapping the 64-bit sums of the bounds checks.\<close>

theorem xtc_decode_safe:
  assumes "length buf < 2 ^ 32" and "offsets_sane buf p"
  shows "xtc_decode_page malloc_ok buf p \<noteq> OutOfBounds"
  using assms by (rule xtc_decode_in_bounds)

lemma xtc_decode_safe_witness:
  "xtc_decode_page (\<lambda>_. True) (encode_header 56 312 328) 0 \<noteq> OutOfBounds"
proof (rule xtc_decode_safe)
  have "parseXtcHeader (encode_header 56 312 328) = parseXtcHeader (encode_header 56 312 328 @ [])" by simp
  then show "offsets_sane (encode_header 56 312 328) 0"
    unfolding offsets_sane_def by (simp only: encode_header_parse) (simp add: read_bytes_def encode_header_fields)
qed (simp add: encode_header_fields)

text \<open>Without that proviso the check is defeated: a 56-byte file whose index offset is \<open>2 ^ 64 - 16\<close> passes
  the bounds check, whose sum wraps to 0, and the index entry is read from outside the file.\<close>

theorem xtc_decode_offset_wraps:
  "xtc_decode_page malloc_ok (encode_header 56 0xFFFFFFFFFFFFFFF0 328) 0 = OutOfBounds"
proof -
  have "parseXtcHeader (encode_header 56 0xFFFFFFFFFFFFFFF0 328) = parseXtcHeader (encode_header 56 0xFFFFFFFFFFFFFFF0 328 @ [])"
    by simp
  then show ?thesis
    unfolding xtc_decode_page_def
    by (simp only: encode_header_parse)
      (simp add: encode_header_fields kXtcHeaderSize_def kIndexEntrySize_def read_bytes_def Let_def)
qed

end
