(* ===== verification/Xtc_Reader.thy ===== *)
theory Xtc_Reader
  imports Xtc_Format
begin

text \<open>
  The on-device page renderer: src/firmware/src/xtc/XtcReader.h and XtcReader.cpp. The file is
  SdFat's \<^verbatim>\<open>FsFile\<close> (a library of the SDK), a parameter: whether a seek succeeds, and what a
  read stores and returns. The framebuffer is the list of its bytes; a write outside of it makes
  the result \<open>None\<close>. A read that fails may have stored a part of what was asked for.
\<close>

section \<open>Data\<close>

datatype RenderResult = RenderOk | BadPageIndex | IoError | UnsupportedFormat | SizeMismatch

record 'f file_ops =
  f_open :: "string \<Rightarrow> 'f option"
  f_seek :: "'f \<Rightarrow> u64 \<Rightarrow> bool"
  f_read :: "'f \<Rightarrow> u64 \<Rightarrow> nat \<Rightarrow> int \<times> u8 list"

text \<open>A read stores at most what was asked for, and all of it when it says so.\<close>

definition file_laws :: "'f file_ops \<Rightarrow> bool" where
  "file_laws F \<longleftrightarrow> (\<forall>f off n. length (snd (f_read F f off n)) \<le> n \<and>
     (fst (f_read F f off n) = int n \<longrightarrow> length (snd (f_read F f off n)) = n))"

definition XtcHeader_init :: XtcHeader where
  "XtcHeader_init = \<lparr>mark = 0, version = 0, xtcPageCount = 0, readDirection = 0, hasMetadata = 0,
     hasThumbnails = 0, hasChapters = 0, currentPage = 0, metadataOffset = 0, indexOffset = 0,
     dataOffset = 0, thumbOffset = 0, chapterOffset = 0\<rparr>"

record 'f XtcReader =
  rdFile :: "'f option"
  rdOpen :: bool
  rdHeader :: XtcHeader
  rdTitle :: string
  rdAuthor :: string

definition kBulkChunkBytes :: nat where "kBulkChunkBytes = 2048"
definition kMaxRowBytes :: nat where "kMaxRowBytes = 128"

section \<open>Reading\<close>

definition readAt :: "'f file_ops \<Rightarrow> 'f \<Rightarrow> u64 \<Rightarrow> nat \<Rightarrow> bool \<times> u8 list" where
  "readAt F f off n =
     (if \<not> f_seek F f off then (False, [])
      else let (got, bs) = f_read F f off n in (got \<ge> 0 \<and> nat got = n, bs))"

definition readFixedStringHelper :: "u8 list \<Rightarrow> nat \<Rightarrow> string" where
  "readFixedStringHelper buf maxLen = map (\<lambda>b. char_of (unat b)) (takeWhile (\<lambda>b. b \<noteq> 0) (take maxLen buf))"

definition XtcReader_close :: "'f XtcReader \<Rightarrow> 'f XtcReader" where
  "XtcReader_close r = r\<lparr>rdOpen := False, rdHeader := XtcHeader_init, rdTitle := [], rdAuthor := []\<rparr>"

definition XtcReader_open :: "'f file_ops \<Rightarrow> 'f XtcReader \<Rightarrow> string \<Rightarrow> bool \<times> 'f XtcReader" where
  "XtcReader_open F r path =
     (let r = XtcReader_close r in
      case f_open F path of
        None \<Rightarrow> (False, r\<lparr>rdFile := None\<rparr>)
      | Some f \<Rightarrow>
          let r = r\<lparr>rdFile := Some f\<rparr>; (ok, headerBuf) = readAt F f 0 kXtcHeaderSize in
          if \<not> ok then (False, r)
          else case parseXtcHeader headerBuf of
            None \<Rightarrow> (False, r\<lparr>rdHeader := XtcHeader_init\<lparr>mark := readLE32 headerBuf\<rparr>\<rparr>)
          | Some h \<Rightarrow>
              let r = r\<lparr>rdHeader := h\<rparr>;
                  r = (if hasMetadata h \<noteq> 0 then
                         let (ok, metaBuf) = readAt F f (metadataOffset h) kMetadataSize in
                         if ok then r\<lparr>rdTitle := strncpy 128 (readFixedStringHelper metaBuf 128),
                           rdAuthor := strncpy 64 (readFixedStringHelper (drop 0x80 metaBuf) 64)\<rparr>
                         else r
                       else r)
              in (True, r\<lparr>rdOpen := True\<rparr>))"

definition getPageInfo :: "'f file_ops \<Rightarrow> 'f XtcReader \<Rightarrow> u16 \<Rightarrow> XtcPageIndexEntry option" where
  "getPageInfo F r pageIndex =
     (case rdFile r of
        None \<Rightarrow> None
      | Some f \<Rightarrow>
          if \<not> rdOpen r \<or> pageIndex \<ge> xtcPageCount (rdHeader r) then None
          else let (ok, buf) = readAt F f (indexOffset (rdHeader r) + ucast pageIndex * of_nat kIndexEntrySize) kIndexEntrySize
               in if ok then Some (parseIndexEntry buf) else None)"

section \<open>Rendering\<close>

definition fb_put :: "u8 list \<Rightarrow> nat \<Rightarrow> u8 list \<Rightarrow> u8 list option" where
  "fb_put fb off bs = (if off + length bs \<le> length fb then Some (put off bs fb) else None)"

function bulk_loop :: "'f file_ops \<Rightarrow> 'f \<Rightarrow> nat \<Rightarrow> nat \<Rightarrow> u64 \<Rightarrow> u8 list \<Rightarrow> (RenderResult \<times> u8 list) option" where
  "bulk_loop F f remaining dst readOffset fb =
     (if remaining > 0 then
        let chunk = (if remaining < kBulkChunkBytes then remaining else kBulkChunkBytes);
            (ok, bs) = readAt F f readOffset chunk
        in case fb_put fb dst bs of
             None \<Rightarrow> None
           | Some fb' \<Rightarrow>
               if \<not> ok then Some (IoError, fb')
               else bulk_loop F f (remaining - chunk) (dst + chunk) (readOffset + of_nat chunk) fb'
      else Some (RenderOk, fb))"
  by pat_completeness auto
termination
  by (relation "measure (\<lambda>(F, f, remaining, dst, off, fb). remaining)") (auto simp: kBulkChunkBytes_def)

declare bulk_loop.simps [simp del]

text \<open>One source row at a byte offset: bytes that fall outside the panel row are skipped.\<close>

fun copy_row :: "u8 list \<Rightarrow> nat \<Rightarrow> int \<Rightarrow> nat \<Rightarrow> nat list \<Rightarrow> u8 list \<Rightarrow> u8 list option" where
  "copy_row rowBuf dstRow byteOffset panelRowBytes [] fb = Some fb"
| "copy_row rowBuf dstRow byteOffset panelRowBytes (srcByte # rest) fb =
     (let dstByte = int srcByte + byteOffset in
      if dstByte < 0 \<or> dstByte \<ge> int panelRowBytes then copy_row rowBuf dstRow byteOffset panelRowBytes rest fb
      else case fb_put fb (dstRow + nat dstByte) [rowBuf ! srcByte] of
        None \<Rightarrow> None
      | Some fb' \<Rightarrow> copy_row rowBuf dstRow byteOffset panelRowBytes rest fb')"

fun rows_loop :: "'f file_ops \<Rightarrow> 'f \<Rightarrow> u64 \<Rightarrow> nat \<Rightarrow> nat \<Rightarrow> int \<Rightarrow> int \<Rightarrow> int \<Rightarrow> nat list \<Rightarrow> u8 list \<Rightarrow>
    (RenderResult \<times> u8 list) option" where
  "rows_loop F f dataOff srcRowBytes panelRowBytes panelHeight yOffset xOffsetPixels [] fb = Some (RenderOk, fb)"
| "rows_loop F f dataOff srcRowBytes panelRowBytes panelHeight yOffset xOffsetPixels (srcY # rest) fb =
     (let dstY = yOffset + int srcY in
      if dstY < 0 \<or> dstY \<ge> panelHeight
      then rows_loop F f dataOff srcRowBytes panelRowBytes panelHeight yOffset xOffsetPixels rest fb
      else
        let (ok, rowBuf) = readAt F f (dataOff + of_nat srcY * of_nat srcRowBytes) srcRowBytes in
        if \<not> ok then Some (IoError, fb)
        else
          let dstRow = nat dstY * panelRowBytes;
              copied = (if xOffsetPixels = 0
                        then fb_put fb dstRow (take (if srcRowBytes < panelRowBytes then srcRowBytes else panelRowBytes) rowBuf)
                        else copy_row rowBuf dstRow (c_div xOffsetPixels 8) panelRowBytes [0..<srcRowBytes] fb)
          in case copied of
               None \<Rightarrow> None
             | Some fb' \<Rightarrow>
                 rows_loop F f dataOff srcRowBytes panelRowBytes panelHeight yOffset xOffsetPixels rest fb')"

definition renderPageToFramebuffer :: "'f file_ops \<Rightarrow> 'f XtcReader \<Rightarrow> u16 \<Rightarrow> u8 list \<Rightarrow> nat \<Rightarrow> u16 \<Rightarrow> u16 \<Rightarrow>
    (RenderResult \<times> u8 list) option" where
  "renderPageToFramebuffer F r pageIndex fb framebufferSize panelWidth panelHeight =
     (case rdFile r of None \<Rightarrow> Some (IoError, fb) | Some f \<Rightarrow>
      if \<not> rdOpen r then Some (IoError, fb) else
      case getPageInfo F r pageIndex of None \<Rightarrow> Some (BadPageIndex, fb) | Some entry \<Rightarrow>
      let (ok, xtgHeaderBuf) = readAt F f (offset entry) kXtgHeaderSize in
      if \<not> ok then Some (IoError, fb) else
      case parseXtgHeader xtgHeaderBuf of None \<Rightarrow> Some (IoError, fb) | Some xtg \<Rightarrow>
      if \<not> isMonochrome xtg then Some (UnsupportedFormat, fb) else
      if dataSize xtg \<noteq> expectedXtgDataSize (width xtg) (height xtg) then Some (SizeMismatch, fb) else
      let dataOff = offset entry + of_nat kXtgHeaderSize;
          panelRowBytes = unat (rowBytesOf panelWidth);
          required = panelRowBytes * unat panelHeight
      in if framebufferSize < required then Some (SizeMismatch, fb) else
      if width xtg = panelWidth \<and> height xtg = panelHeight then
        bulk_loop F f (unat (dataSize xtg)) 0 dataOff fb
      else
        let srcRowBytes = unat (rowBytesOf (width xtg)) in
        if srcRowBytes > kMaxRowBytes then Some (UnsupportedFormat, fb) else
        case fb_put fb 0 (replicate required 0xFF) of None \<Rightarrow> None | Some fb' \<Rightarrow>
        rows_loop F f dataOff srcRowBytes panelRowBytes (uint panelHeight)
          (c_div (uint panelHeight - uint (height xtg)) 2) (c_div (uint panelWidth - uint (width xtg)) 2)
          [0..<unat (height xtg)] fb')"

section \<open>No write leaves the framebuffer\<close>

definition kept_in :: "nat \<Rightarrow> u8 list \<Rightarrow> (RenderResult \<times> u8 list) option \<Rightarrow> bool" where
  "kept_in required fb res \<longleftrightarrow> (case res of None \<Rightarrow> False
     | Some (_, fb') \<Rightarrow> length fb' = length fb \<and> drop required fb' = drop required fb)"

lemma fb_put_kept:
  assumes "off + length bs \<le> required" and "required \<le> length fb"
  shows "\<exists>fb'. fb_put fb off bs = Some fb' \<and> length fb' = length fb \<and> drop required fb' = drop required fb"
  using assms by (simp add: fb_put_def drop_put_after)

lemma readAt_length:
  assumes "file_laws F"
  shows "length (snd (readAt F f off n)) \<le> n" "fst (readAt F f off n) \<Longrightarrow> length (snd (readAt F f off n)) = n"
proof -
  have l: "length (snd (f_read F f off n)) \<le> n" "fst (f_read F f off n) = int n \<Longrightarrow> length (snd (f_read F f off n)) = n"
    using assms by (simp_all add: file_laws_def)
  show "length (snd (readAt F f off n)) \<le> n" using l(1) by (simp add: readAt_def Let_def split_def)
  show "length (snd (readAt F f off n)) = n" if ok: "fst (readAt F f off n)"
  proof -
    from ok have "f_seek F f off" "0 \<le> fst (f_read F f off n)" "nat (fst (f_read F f off n)) = n"
      by (auto simp: readAt_def Let_def split_def split: if_splits)
    then show ?thesis using l(2) by (auto simp: readAt_def Let_def split_def)
  qed
qed

lemma bulk_loop_kept_in:
  "file_laws F \<Longrightarrow> dst + remaining \<le> required \<Longrightarrow> required \<le> length fb \<Longrightarrow> kept_in required fb (bulk_loop F f remaining dst off fb)"
proof (induction F f remaining dst off fb rule: bulk_loop.induct)
  case (1 F f remaining dst off fb)
  note F = "1.prems"(1)
  show ?case
  proof (cases "remaining > 0")
    case False
    then show ?thesis by (simp add: bulk_loop.simps kept_in_def)
  next
    case True
    let ?chunk = "if remaining < kBulkChunkBytes then remaining else kBulkChunkBytes"
    obtain ok bs where r: "readAt F f off ?chunk = (ok, bs)" by force
    have c: "?chunk \<le> remaining" by simp
    have "length bs \<le> ?chunk" using readAt_length(1) [OF F, of f off ?chunk] r by simp
    then have "dst + length bs \<le> required" using "1.prems"(2) c by linarith
    from fb_put_kept [OF this "1.prems"(3)] obtain fb' where
      fb': "fb_put fb dst bs = Some fb'" "length fb' = length fb" "drop required fb' = drop required fb" by blast
    show ?thesis
    proof (cases ok)
      case False
      then show ?thesis using True r fb' by (simp add: bulk_loop.simps [of F f remaining] kept_in_def Let_def)
    next
      case ok: True
      have "kept_in required fb' (bulk_loop F f (remaining - ?chunk) (dst + ?chunk) (off + of_nat ?chunk) fb')"
        using "1.IH" [OF True refl r [symmetric] refl fb'(1)] ok F "1.prems"(2,3) c fb'(2) by simp
      moreover have "bulk_loop F f remaining dst off fb =
          bulk_loop F f (remaining - ?chunk) (dst + ?chunk) (off + of_nat ?chunk) fb'"
        using True ok by (simp only: bulk_loop.simps [of F f remaining] Let_def r fb'(1) prod.case option.case if_True simp_thms if_False)
      ultimately show ?thesis using fb'(2,3) by (simp only: kept_in_def)
    qed
  qed
qed

lemma copy_row_kept_in:
  assumes "set xs \<subseteq> {0..<length rowBuf}" and "dstRow + panelRowBytes \<le> required"
  shows "required \<le> length fb \<Longrightarrow>
    \<exists>fb'. copy_row rowBuf dstRow byteOffset panelRowBytes xs fb = Some fb' \<and> length fb' = length fb \<and>
      drop required fb' = drop required fb"
  using assms(1)
proof (induction xs arbitrary: fb)
  case (Cons x xs)
  let ?d = "int x + byteOffset"
  show ?case
  proof (cases "?d < 0 \<or> ?d \<ge> int panelRowBytes")
    case True
    then show ?thesis using Cons by (simp add: Let_def)
  next
    case False
    then have "nat ?d < panelRowBytes" by linarith
    then have "dstRow + nat ?d + length [rowBuf ! x] \<le> required" using assms(2) by simp
    from fb_put_kept [OF this Cons.prems(1)] obtain fb' where
      fb': "fb_put fb (dstRow + nat ?d) [rowBuf ! x] = Some fb'" "length fb' = length fb" "drop required fb' = drop required fb"
      by blast
    with Cons.IH [of fb'] Cons.prems False show ?thesis by (auto simp: Let_def)
  qed
qed simp

lemma rows_loop_kept_in:
  assumes F: "file_laws F" and req: "required = panelRowBytes * ph"
  shows "required \<le> length fb \<Longrightarrow>
    kept_in required fb (rows_loop F f dataOff srcRowBytes panelRowBytes (int ph) yOffset xOff ys fb)"
proof (induction ys arbitrary: fb)
  case Nil
  then show ?case by (simp add: kept_in_def)
next
  case (Cons y ys)
  let ?d = "yOffset + int y"
  show ?case
  proof (cases "?d < 0 \<or> ?d \<ge> int ph")
    case True
    then show ?thesis using Cons by (simp add: Let_def)
  next
    case False
    obtain ok rowBuf where r: "readAt F f (dataOff + of_nat y * of_nat srcRowBytes) srcRowBytes = (ok, rowBuf)" by force
    have "nat ?d + 1 \<le> ph" using False by linarith
    then have "(nat ?d + 1) * panelRowBytes \<le> ph * panelRowBytes" by (rule mult_le_mono1)
    then have row: "nat ?d * panelRowBytes + panelRowBytes \<le> required" by (simp add: req mult.commute add.commute)
    show ?thesis
    proof (cases ok)
      case okF: False
      then show ?thesis using False r by (simp add: kept_in_def Let_def)
    next
      case okT: True
      have len: "length rowBuf = srcRowBytes" using readAt_length(2) [OF F] r okT by (metis fst_conv snd_conv)
      have "\<exists>fb'. (if xOff = 0
          then fb_put fb (nat ?d * panelRowBytes) (take (if srcRowBytes < panelRowBytes then srcRowBytes else panelRowBytes) rowBuf)
          else copy_row rowBuf (nat ?d * panelRowBytes) (c_div xOff 8) panelRowBytes [0..<srcRowBytes] fb) = Some fb' \<and>
          length fb' = length fb \<and> drop required fb' = drop required fb"
      proof (cases "xOff = 0")
        case True
        have "nat ?d * panelRowBytes + length (take (if srcRowBytes < panelRowBytes then srcRowBytes else panelRowBytes) rowBuf) \<le> required"
          using row by auto
        from fb_put_kept [OF this Cons.prems] True show ?thesis by simp
      next
        case xo: False
        have "set [0..<srcRowBytes] \<subseteq> {0..<length rowBuf}" by (simp add: len)
        from copy_row_kept_in [OF this row Cons.prems] xo show ?thesis by simp
      qed
      then obtain fb' where fb': "(if xOff = 0
          then fb_put fb (nat ?d * panelRowBytes) (take (if srcRowBytes < panelRowBytes then srcRowBytes else panelRowBytes) rowBuf)
          else copy_row rowBuf (nat ?d * panelRowBytes) (c_div xOff 8) panelRowBytes [0..<srcRowBytes] fb) = Some fb'"
        "length fb' = length fb" "drop required fb' = drop required fb" by blast
      have "kept_in required fb' (rows_loop F f dataOff srcRowBytes panelRowBytes (int ph) yOffset xOff ys fb')"
        using Cons.IH [of fb'] Cons.prems fb'(2) by simp
      then show ?thesis
        using False r okT fb' by (simp only: rows_loop.simps Let_def if_False prod.case option.case simp_thms kept_in_def)
    qed
  qed
qed

lemma render_kept_in:
  assumes F: "file_laws F" and fb: "framebufferSize \<le> length fb"
  shows "kept_in (unat (rowBytesOf pw) * unat ph) fb (renderPageToFramebuffer F r p fb framebufferSize pw ph)
    \<or> length fb < unat (rowBytesOf pw) * unat ph \<and> (\<exists>res. renderPageToFramebuffer F r p fb framebufferSize pw ph = Some (res, fb))"
proof (cases "framebufferSize < unat (rowBytesOf pw) * unat ph")
  case True
  then have "\<exists>res. renderPageToFramebuffer F r p fb framebufferSize pw ph = Some (res, fb)"
    by (auto simp: renderPageToFramebuffer_def Let_def split: option.splits prod.splits)
  then show ?thesis by (auto simp: kept_in_def)
next
  case False
  let ?req = "unat (rowBytesOf pw) * unat ph"
  from False fb have req: "?req \<le> length fb" by simp
  have same: "kept_in ?req fb (Some (res, fb))" for res by (simp add: kept_in_def)
  have bulk: "kept_in ?req fb (bulk_loop F f (unat (expectedXtgDataSize pw ph)) 0 off fb)" for f off
    using req by (intro bulk_loop_kept_in [OF F]) (simp_all add: unat_expected unat_rowBytesOf)
  have fill: "0 + length (replicate ?req (0xFF :: u8)) \<le> ?req" by simp
  obtain fb1 where fb1: "fb_put fb 0 (replicate ?req 0xFF) = Some fb1" "length fb1 = length fb" "drop ?req fb1 = drop ?req fb"
    using fb_put_kept [OF fill req] by blast
  have rows: "kept_in ?req fb (rows_loop F f dataOff n (unat (rowBytesOf pw)) (uint ph) yo xo ys fb1)" for f dataOff n yo xo ys
  proof -
    from req fb1(2) have "?req \<le> length fb1" by simp
    from rows_loop_kept_in [OF F refl this, of f dataOff n yo xo ys]
    show ?thesis unfolding kept_in_def uint_nat fb1(2,3) .
  qed
  note defs = renderPageToFramebuffer_def Let_def
  have "kept_in ?req fb (renderPageToFramebuffer F r p fb framebufferSize pw ph)"
  proof (cases "rdFile r")
    case None
    then show ?thesis by (simp add: defs same)
  next
    case f: (Some f)
    show ?thesis
    proof (cases "rdOpen r")
      case False
      then show ?thesis by (simp add: defs f same)
    next
      case op: True
      show ?thesis
      proof (cases "getPageInfo F r p")
        case None
        then show ?thesis by (simp add: defs f op same)
      next
        case e: (Some entry)
        obtain ok hb where h: "readAt F f (offset entry) kXtgHeaderSize = (ok, hb)" by force
        show ?thesis
        proof (cases "\<not> ok \<or> parseXtgHeader hb = None")
          case True
          then show ?thesis by (auto simp: defs f op e h same)
        next
          case False
          then obtain x where x: "ok" "parseXtgHeader hb = Some x" by auto
          show ?thesis
          proof (cases "\<not> isMonochrome x \<or> dataSize x \<noteq> expectedXtgDataSize (width x) (height x)")
            case True
            then show ?thesis by (auto simp: defs f op e h x same)
          next
            case mono: False
            then show ?thesis
              using \<open>\<not> framebufferSize < ?req\<close>
              by (simp add: defs f op e h x same bulk fb1(1) rows)
          qed
        qed
      qed
    qed
  qed
  then show ?thesis ..
qed

section \<open>A file with known content\<close>

text \<open>Within the file a seek succeeds and a read gives what is there; nothing is said of offsets past its end.\<close>

definition file_content :: "'f file_ops \<Rightarrow> 'f \<Rightarrow> u8 list \<Rightarrow> bool" where
  "file_content F f c \<longleftrightarrow> (\<forall>off n. unat off \<le> length c \<longrightarrow> f_seek F f off \<and>
     f_read F f off n = (int (length (take n (drop (unat off) c))), take n (drop (unat off) c)))"

lemma readAt_content:
  assumes "file_content F f c" and "unat off + n \<le> length c"
  shows "readAt F f off n = (True, take n (drop (unat off) c))"
proof -
  have "length (take n (drop (unat off) c)) = n" "unat off \<le> length c" using assms(2) by simp_all
  then show ?thesis using assms(1) by (simp add: readAt_def file_content_def)
qed

lemma put_append_drop:
  "length a = d \<Longrightarrow> d + length bs \<le> length fb \<Longrightarrow> put d bs (a @ drop d fb) = (a @ bs) @ drop (d + length bs) fb"
  by (simp add: put_def add.commute)

lemma bulk_loop_content:
  "file_content F f c \<Longrightarrow> length c < 2 ^ 32 \<Longrightarrow> unat off + remaining \<le> length c \<Longrightarrow> length wr = dst \<Longrightarrow>
   dst + remaining \<le> length fb0 \<Longrightarrow> fb = wr @ drop dst fb0 \<Longrightarrow>
   bulk_loop F f remaining dst off fb =
     Some (RenderOk, wr @ take remaining (drop (unat off) c) @ drop (dst + remaining) fb0)"
proof (induction F f remaining dst off fb arbitrary: wr rule: bulk_loop.induct)
  case (1 F f remaining dst off fb)
  note cont = "1.prems"(1) and clen = "1.prems"(2) and inc = "1.prems"(3) and dl = "1.prems"(4)
    and fit = "1.prems"(5) and fbeq = "1.prems"(6)
  show ?case
  proof (cases "remaining > 0")
    case False
    then show ?thesis using fbeq by (simp add: bulk_loop.simps)
  next
    case True
    let ?chunk = "if remaining < kBulkChunkBytes then remaining else kBulkChunkBytes"
    define k where "k = ?chunk"
    define bs where "bs = take k (drop (unat off) c)"
    have k: "k \<le> remaining" "0 < k" using True by (simp_all add: k_def kBulkChunkBytes_def)
    have r: "readAt F f off ?chunk = (True, bs)"
      using readAt_content [OF cont, of off k] inc k by (simp add: bs_def k_def)
    have lbs: "length bs = k" using inc k by (simp add: bs_def)
    have "dst + length bs \<le> length fb" using fbeq dl fit lbs k by simp
    then have p: "fb_put fb dst bs = Some (wr @ bs @ drop (dst + k) fb0)"
      using put_append_drop [OF dl, of bs fb0] fbeq fit lbs k by (simp add: fb_put_def)
    have uo: "unat (off + of_nat k) = unat off + k"
    proof -
      have kk: "unat (of_nat k :: u64) = k" using inc k clen by (simp add: unat_of_nat)
      have "unat off + k < 2 ^ 64" using inc k clen by simp
      then show ?thesis using kk by (subst unat_plus_if') simp
    qed
    have IH: "bulk_loop F f (remaining - ?chunk) (dst + ?chunk) (off + of_nat ?chunk) (wr @ bs @ drop (dst + k) fb0) =
        Some (RenderOk, (wr @ bs) @ take (remaining - k) (drop (unat (off + of_nat k)) c) @ drop (dst + k + (remaining - k)) fb0)"
      unfolding k_def [symmetric]
      by (rule "1.IH" [OF True refl r [symmetric] refl p, of "wr @ bs", unfolded k_def [symmetric]])
        (use cont clen inc fit k uo dl lbs in simp_all)
    have step: "bulk_loop F f remaining dst off fb =
        bulk_loop F f (remaining - ?chunk) (dst + ?chunk) (off + of_nat ?chunk) (wr @ bs @ drop (dst + k) fb0)"
      using True by (simp only: bulk_loop.simps [of F f remaining] Let_def r p prod.case option.case if_True simp_thms if_False)
    have "take remaining (drop (unat off) c) = bs @ take (remaining - k) (drop (unat off + k) c)"
      using k(1) take_add [of k "remaining - k" "drop (unat off) c"] by (simp add: bs_def add.commute)
    then show ?thesis using k(1) by (simp add: step IH uo)
  qed
qed

lemma char_byte_zero: "char_byte ch = 0 \<longleftrightarrow> ch = CHR 0x00"
proof
  assume "char_byte ch = 0"
  then have "unat (char_byte ch) = 0" by simp
  moreover have "unat (char_byte ch) = of_char ch"
  proof -
    have "of_char ch < (256 :: nat)" by simp
    then show ?thesis by (simp add: char_byte_def unat_of_nat)
  qed
  ultimately have "(of_char ch :: nat) = 0" by simp
  then have "(of_char ch :: nat) = of_char (CHR 0x00)" by simp
  then show "ch = CHR 0x00" by (simp only: of_char_eq_iff)
qed (simp add: char_byte_def)

lemma char_byte_back: "char_of (unat (char_byte ch)) = ch"
proof -
  have "of_char ch < (256 :: nat)" by simp
  then show ?thesis by (simp add: char_byte_def unat_of_nat)
qed

lemma read_packed_string:
  assumes "CHR 0x00 \<notin> set t" and "length t < n"
  shows "readFixedStringHelper (packFixedString n t) n = t"
proof -
  have "takeWhile (\<lambda>b. b \<noteq> 0) (map char_byte t @ replicate (n - length t) 0) = map char_byte t"
  proof -
    have "takeWhile (\<lambda>b. b \<noteq> 0) (replicate (n - length t) (0 :: u8)) = []" using assms(2) by (cases "n - length t") simp_all
    moreover have "\<forall>b \<in> set (map char_byte t). b \<noteq> 0" using assms(1) by (auto simp: char_byte_zero)
    ultimately show ?thesis by (subst takeWhile_append2) auto
  qed
  then show ?thesis
    using assms(2) by (auto simp: readFixedStringHelper_def packFixedString_def Let_def char_byte_back comp_def)
qed

lemma packFixedString_take: "0 < n \<Longrightarrow> packFixedString n t = packFixedString n (take (n - 1) t)"
  by (auto simp: packFixedString_def Let_def)

lemma unpack_append:
  assumes "length packed = rb * h" and "w \<le> 8 * rb"
  shows "unpack_pixels (packed @ rest) rb w h = unpack_pixels packed rb w h"
proof -
  have "pixel_at (packed @ rest) rb y x = pixel_at packed rb y x" if "y < h" "x < w" for y x
  proof -
    have "x div 8 < rb" using that(2) assms(2) by (simp add: less_mult_imp_div_less mult.commute)
    moreover have "Suc y * rb \<le> h * rb" using that(1) by (intro mult_le_mono1) simp
    ultimately have "y * rb + x div 8 < length packed" using assms(1) by (simp add: mult.commute)
    then show ?thesis by (simp add: pixel_at_def nth_append)
  qed
  then show ?thesis by (auto simp: unpack_pixels_def intro!: arg_cong [of _ _ concat])
qed

section \<open>Properties\<close>

definition plain_file :: "(string \<rightharpoonup> u8 list) \<Rightarrow> u8 list file_ops" where
  "plain_file fs = \<lparr>f_open = fs, f_seek = (\<lambda>f off. True),
     f_read = (\<lambda>f off n. let bs = take n (drop (unat off) f) in (int (length bs), bs))\<rparr>"

lemma plain_file_laws: "file_laws (plain_file fs)" "file_content (plain_file fs) c c"
  by (simp_all add: file_laws_def file_content_def plain_file_def Let_def)

text \<open>C29: Whatever the file holds and however its reads fail, rendering a page writes only inside the
  framebuffer, indeed only inside the panel's part of it, and never changes its size.\<close>

theorem renderPage_memory_safe:
  assumes "file_laws F" and "framebufferSize \<le> length fb"
  shows "\<exists>res fb'. renderPageToFramebuffer F r p fb framebufferSize pw ph = Some (res, fb') \<and>
    length fb' = length fb \<and> drop ((unat pw + 7) div 8 * unat ph) fb' = drop ((unat pw + 7) div 8 * unat ph) fb"
  using render_kept_in [OF assms, of pw ph r p]
  by (auto simp: kept_in_def unat_rowBytesOf split: option.splits)

lemma renderPage_memory_safe_witness:
  "\<exists>res fb'. renderPageToFramebuffer (plain_file Map.empty) \<lparr>rdFile = Some [], rdOpen = True, rdHeader = XtcHeader_init,
     rdTitle = [], rdAuthor = []\<rparr> 0 (replicate 200 0) 200 16 100 = Some (res, fb') \<and> length fb' = 200"
proof -
  let ?r = "\<lparr>rdFile = Some [], rdOpen = True, rdHeader = XtcHeader_init, rdTitle = [], rdAuthor = []\<rparr> :: u8 list XtcReader"
  have "200 \<le> length (replicate 200 (0 :: u8))" by simp
  from renderPage_memory_safe [OF plain_file_laws(1) this, of Map.empty ?r 0 16 100] show ?thesis by auto
qed

text \<open>C28: A file produced by the web encoder opens on the device with its title (cut to 127 characters), and
  rendering its page on a panel of its size puts into the framebuffer exactly the bits whose
  pixels the web decoder shows for the preview, leaving the rest of the buffer alone.\<close>

theorem device_shows_encoded_page:
  assumes enc: "xtc_encode_single_page E malloc_ok px w h titl createTime = Some buf"
    and cont: "f_open F path = Some f" "file_content F f buf"
    and nul: "CHR 0x00 \<notin> set titl" and fb: "(unat w + 7) div 8 * unat h \<le> length fb"
  shows "\<exists>r' fb'. XtcReader_open F r path = (True, r') \<and> rdTitle r' = take 127 titl \<and>
    renderPageToFramebuffer F r' 0 fb (length fb) w h = Some (RenderOk, fb') \<and>
    xtc_decode_page (\<lambda>_. True) buf 0 = Decoded w h (unpack_pixels fb' ((unat w + 7) div 8) (unat w) (unat h)) \<and>
    drop ((unat w + 7) div 8 * unat h) fb' = drop ((unat w + 7) div 8 * unat h) fb"
proof -
  define packed where "packed = concat (dither_rows E (unat w) (unat (rowBytesOf w)) (image_rows px (unat w) (unat h))
    (replicate (unat w) (f_0 E)))"
  let ?n = "unat (expectedXtgDataSize w h)"
  from encode_is_encoded [OF enc] have wh: "w \<noteq> 0" "h \<noteq> 0"
    and buf: "buf = encoded titl createTime (22 + expectedXtgDataSize w h) w h packed" by (simp_all add: packed_def)
  have lp: "length packed = ?n" unfolding packed_def by (rule length_packed_rows)
  have n: "?n = (unat w + 7) div 8 * unat h" by (rule unat_expected)
  have "?n \<le> 8192 * 65535"
    unfolding n using unsigned_less [of w, where 'a = nat] unsigned_less [of h, where 'a = nat] by (intro mult_le_mono) simp_all
  then have L: "length buf = 350 + ?n" "length buf < 2 ^ 32" by (simp_all add: buf length_encoded lp)
  note lens = encode_header_fields(1) encode_metadata_fields(1) encode_index_fields(1) encode_xtg_header_fields(1)
  have secs: "take 56 buf = encode_header 56 312 328" "take 256 (drop 56 buf) = encode_metadata titl createTime"
    "take 16 (drop 312 buf) = encode_index 328 (22 + expectedXtgDataSize w h) w h"
    "take 22 (drop 328 buf) = encode_xtg_header w h (expectedXtgDataSize w h)" "take ?n (drop 350 buf) = packed"
    by (simp_all add: buf encoded_def lens lp)
  have rd: "readAt F f 0 56 = (True, take 56 buf)" "readAt F f 56 256 = (True, take 256 (drop 56 buf))"
    "readAt F f 312 16 = (True, take 16 (drop 312 buf))" "readAt F f 328 22 = (True, take 22 (drop 328 buf))"
    using readAt_content [OF cont(2), of 0 56] readAt_content [OF cont(2), of 56 256]
      readAt_content [OF cont(2), of 312 16] readAt_content [OF cont(2), of 328 22] L(1) by simp_all
  define hd where "hd = \<lparr>mark = kMagicXtc, version = 0x0100, xtcPageCount = 1,
     readDirection = 0, hasMetadata = 1, hasThumbnails = 0, hasChapters = 0, currentPage = 0,
     metadataOffset = 56, indexOffset = 312, dataOffset = 328, thumbOffset = 0, chapterOffset = 0\<rparr>"
  have parse: "parseXtcHeader (encode_header 56 312 328) = Some hd"
    using encode_header_parse [of 56 312 328 "[]"] by (simp add: hd_def)
  have "readFixedStringHelper (encode_metadata titl createTime) 128 = readFixedStringHelper (field 0 128 (encode_metadata titl createTime)) 128"
    by (simp add: readFixedStringHelper_def field_def)
  also have "\<dots> = take 127 titl"
  proof -
    have "CHR 0x00 \<notin> set (take 127 titl)" using nul by (auto dest: in_set_takeD)
    from read_packed_string [OF this, of 128] show ?thesis
      using packFixedString_take [of 128 titl] by (simp add: encode_metadata_fields)
  qed
  finally have titl: "strncpy 128 (readFixedStringHelper (encode_metadata titl createTime) 128) = take 127 titl"
    by (simp add: strncpy_def)
  obtain au where au: "au = strncpy 64 (readFixedStringHelper (drop 0x80 (encode_metadata titl createTime)) 64)" by blast
  define r' where "r' = r\<lparr>rdFile := Some f, rdOpen := True, rdHeader := hd, rdTitle := take 127 titl, rdAuthor := au\<rparr>"
  have op: "XtcReader_open F r path = (True, r')"
    by (simp add: XtcReader_open_def cont(1) Let_def kXtcHeaderSize_def rd secs parse hd_def kMetadataSize_def titl
        r'_def XtcReader_close_def) (simp add: hd_def au)
  have info: "getPageInfo F r' 0 = Some \<lparr>offset = 328, pageSize = 22 + expectedXtgDataSize w h, pageWidth = w, pageHeight = h\<rparr>"
    by (simp add: getPageInfo_def r'_def hd_def kIndexEntrySize_def rd secs encode_index_parse Let_def)
  have bulk: "bulk_loop F f ?n 0 350 fb = Some (RenderOk, packed @ drop ?n fb)"
    using bulk_loop_content [OF cont(2) L(2), of 350 ?n "[]" 0 fb fb] L(1) fb n secs(5) by simp
  have "renderPageToFramebuffer F r' 0 fb (length fb) w h = Some (RenderOk, packed @ drop ?n fb)"
    using fb unfolding renderPageToFramebuffer_def Let_def
    by (simp add: r'_def [THEN arg_cong [of _ _ rdFile]] r'_def [THEN arg_cong [of _ _ rdOpen]] info kXtgHeaderSize_def rd secs
        encode_xtg_header_parse isMonochrome_def unat_rowBytesOf bulk)
  moreover have "xtc_decode_page (\<lambda>_. True) buf 0 =
      Decoded w h (unpack_pixels (packed @ drop ?n fb) ((unat w + 7) div 8) (unat w) (unat h))"
    using decode_encoded [OF wh lp, of "\<lambda>_. True" titl createTime "22 + expectedXtgDataSize w h"]
      unpack_append [of packed "(unat w + 7) div 8" "unat h" "unat w" "drop ?n fb"] unat_rowBytes_cover [of w]
    by (simp add: buf unat_rowBytesOf lp n)
  ultimately show ?thesis using op by (intro exI [of _ r'] exI [of _ "packed @ drop ?n fb"]) (simp add: r'_def lp n)
qed

lemma device_shows_encoded_page_witness:
  "\<exists>buf r'. xtc_encode_single_page rat_floats (\<lambda>_. True) [0, 255, 255, 0] 2 2 ''Memo'' 7 = Some buf \<and>
    XtcReader_open (plain_file [''/p'' \<mapsto> buf]) \<lparr>rdFile = None, rdOpen = False, rdHeader = XtcHeader_init, rdTitle = [], rdAuthor = []\<rparr>
      ''/p'' = (True, r') \<and> rdTitle r' = ''Memo''"
proof -
  obtain buf where b: "xtc_encode_single_page rat_floats (\<lambda>_. True) [0, 255, 255, 0] 2 2 ''Memo'' 7 = Some buf"
    using encode_some [of 2 2 rat_floats "[0, 255, 255, 0]" "''Memo''" 7] by auto
  let ?F = "plain_file [''/p'' \<mapsto> buf]"
  have "f_open ?F ''/p'' = Some buf" by (simp add: plain_file_def)
  from device_shows_encoded_page [OF b this plain_file_laws(2), of "[0, 0]"
    "\<lparr>rdFile = None, rdOpen = False, rdHeader = XtcHeader_init, rdTitle = [], rdAuthor = []\<rparr>"]
  show ?thesis using b by auto
qed

end
