(* ===== verification/Approval_Outbox.thy ===== *)
theory Approval_Outbox
  imports Job_Store
begin

text \<open>
  The durable approval queue: src/firmware/src/store/ApprovalOutbox.h (actions, entries, the
  fixed-capacity array and \<open>enqueueApproval\<close>) and src/firmware/src/store/ApprovalOutbox.cpp
  (load and save). An outbox is the live prefix \<^verbatim>\<open>entries_[0 .. count_ - 1]\<close>. The C++ field
  names \<^verbatim>\<open>jobId\<close> and \<^verbatim>\<open>createdAt\<close> of \<^verbatim>\<open>ApprovalEntry\<close> are \<open>apJobId\<close> and \<open>apCreatedAt\<close> here.
\<close>

section \<open>Data\<close>

definition kMaxOutboxEntries :: nat where "kMaxOutboxEntries = 32"

datatype ApprovalAction = Print | Keep | Delete

fun approvalActionName :: "ApprovalAction \<Rightarrow> string" where
  "approvalActionName Print = ''print''"
| "approvalActionName Keep = ''keep''"
| "approvalActionName Delete = ''delete''"

definition parseApprovalAction :: "string \<Rightarrow> ApprovalAction option" where
  "parseApprovalAction s =
     (if strcmp s ''print'' = 0 then Some Print
      else if strcmp s ''keep'' = 0 then Some Keep
      else if strcmp s ''delete'' = 0 then Some Delete
      else None)"

record ApprovalEntry =
  approvalId :: string
  apJobId :: string
  action :: ApprovalAction
  apCreatedAt :: u32
  synced :: bool

definition ApprovalEntry_init :: ApprovalEntry where
  "ApprovalEntry_init = \<lparr>approvalId = [], apJobId = [], action = Keep, apCreatedAt = 0, synced = False\<rparr>"

type_synonym ApprovalOutboxIndex = "ApprovalEntry list"

section \<open>Operations\<close>

definition approvalIdEquals :: "ApprovalEntry \<Rightarrow> string \<Rightarrow> bool" where
  "approvalIdEquals e other \<longleftrightarrow> strncmp (approvalId e) other kApprovalIdLen = 0"

definition Outbox_full :: "ApprovalOutboxIndex \<Rightarrow> bool" where
  "Outbox_full ob \<longleftrightarrow> length ob \<ge> kMaxOutboxEntries"

definition Outbox_append :: "ApprovalOutboxIndex \<Rightarrow> ApprovalEntry \<Rightarrow> bool \<times> ApprovalOutboxIndex" where
  "Outbox_append ob entry = (if Outbox_full ob then (False, ob) else (True, ob @ [entry]))"

fun hasPendingForJob :: "ApprovalOutboxIndex \<Rightarrow> string \<Rightarrow> bool" where
  "hasPendingForJob [] jid = False"
| "hasPendingForJob (e # es) jid =
     (if \<not> synced e \<and> strncmp (apJobId e) jid kJobIdLen = 0 then True else hasPendingForJob es jid)"

fun markSynced :: "ApprovalOutboxIndex \<Rightarrow> string \<Rightarrow> bool \<times> ApprovalOutboxIndex" where
  "markSynced [] aid = (False, [])"
| "markSynced (e # es) aid =
     (if approvalIdEquals e aid then (True, e\<lparr>synced := True\<rparr> # es)
      else let (r, es') = markSynced es aid in (r, e # es'))"

fun countUnsynced :: "ApprovalOutboxIndex \<Rightarrow> nat" where
  "countUnsynced [] = 0"
| "countUnsynced (e # es) = (if \<not> synced e then 1 else 0) + countUnsynced es"

text \<open>
  \<open>compactSynced\<close> works in place with two indices over the one array; the result is the array,
  the new count and the number removed.
\<close>

function compact_loop :: "ApprovalEntry list \<Rightarrow> nat \<Rightarrow> nat \<Rightarrow> nat \<Rightarrow> nat \<Rightarrow> ApprovalEntry list \<times> nat \<times> nat" where
  "compact_loop entries count readIdx writeIdx removed =
     (if readIdx < count then
        if synced (entries ! readIdx) then
          compact_loop entries count (readIdx + 1) writeIdx (removed + 1)
        else
          compact_loop (if writeIdx \<noteq> readIdx then entries[writeIdx := entries ! readIdx] else entries)
            count (readIdx + 1) (writeIdx + 1) removed
      else (entries, writeIdx, removed))"
  by pat_completeness auto
termination
  by (relation "measure (\<lambda>(entries, count, readIdx, writeIdx, removed). count - readIdx)") auto

declare compact_loop.simps [simp del]

definition compactSynced :: "ApprovalOutboxIndex \<Rightarrow> nat \<times> ApprovalOutboxIndex" where
  "compactSynced ob =
     (let (entries, count, removed) = compact_loop ob (length ob) 0 0 0
      in (removed, take count entries))"

section \<open>Queueing an approval\<close>

datatype EnqueueResult = Ok | UnknownJob | AlreadyPending | OutboxFull

fun approvedStatus :: "ApprovalAction \<Rightarrow> JobStatus" where
  "approvedStatus Print = ApprovedPrint"
| "approvedStatus Keep = ApprovedKeep"
| "approvedStatus Delete = ApprovedDelete"

definition enqueueApproval :: "JobIndex \<Rightarrow> ApprovalOutboxIndex \<Rightarrow> string \<Rightarrow> ApprovalAction \<Rightarrow> string \<Rightarrow> u32 \<Rightarrow>
    EnqueueResult \<times> JobIndex \<times> ApprovalOutboxIndex" where
  "enqueueApproval jobs outbox jid act aid created =
     (case JobIndex_find jobs jid of
        None \<Rightarrow> (UnknownJob, jobs, outbox)
      | Some job \<Rightarrow>
          if hasPendingForJob outbox jid then (AlreadyPending, jobs, outbox)
          else if Outbox_full outbox then (OutboxFull, jobs, outbox)
          else
            let entry = \<lparr>approvalId = strncpy kApprovalIdLen aid, apJobId = strncpy kJobIdLen jid,
                  action = act, apCreatedAt = created, synced = False\<rparr>;
                outbox' = snd (Outbox_append outbox entry);
                jobs' = snd (JobIndex_setStatus jobs jid (approvedStatus act))
            in (Ok, jobs', outbox'))"

section \<open>SD persistence\<close>

definition kOutboxPath :: string where
  "kOutboxPath = ''/system/outbox.json''"

definition approval_of_json :: "('c, 'v) json_lib \<Rightarrow> 'v \<Rightarrow> ApprovalEntry" where
  "approval_of_json J a =
     (let actionStr = json_or_str J a ''action'' ''keep''
      in \<lparr>approvalId = strncpy kApprovalIdLen (json_or_str J a ''approval_id'' []),
          apJobId = strncpy kJobIdLen (json_or_str J a ''job_id'' []),
          action = (if strcmp actionStr ''print'' = 0 then Print
                    else if strcmp actionStr ''delete'' = 0 then Delete else Keep),
          apCreatedAt = word_of_int (json_or_int J a ''created_at'' 0),
          synced = json_or_bool J a ''synced'' False\<rparr>)"

definition json_of_approval :: "ApprovalEntry \<Rightarrow> json_out" where
  "json_of_approval e = JObj [
     (''approval_id'', JStr (approvalId e)),
     (''job_id'', JStr (apJobId e)),
     (''action'', JStr (approvalActionName (action e))),
     (''created_at'', JInt (uint (apCreatedAt e))),
     (''synced'', JBool (synced e))]"

fun load_approvals :: "('c, 'v) json_lib \<Rightarrow> 'v list \<Rightarrow> ApprovalOutboxIndex \<Rightarrow> ApprovalOutboxIndex" where
  "load_approvals J [] ob = ob"
| "load_approvals J (a # as) ob =
     (let e = approval_of_json J a
      in if approvalId e = [] then load_approvals J as ob
         else load_approvals J as (snd (Outbox_append ob e)))"

definition loadApprovalOutbox :: "('s, 'c) sd_card \<Rightarrow> ('c, 'v) json_lib \<Rightarrow> 's \<Rightarrow> bool \<times> ApprovalOutboxIndex" where
  "loadApprovalOutbox sd J s =
     (if \<not> sd_exists sd s kOutboxPath then (False, [])
      else let raw = sd_read sd s kOutboxPath
        in if j_isEmpty J raw then (False, [])
           else case j_deserialize J raw of
             None \<Rightarrow> (False, [])
           | Some doc \<Rightarrow> (True, load_approvals J (j_array J (j_get J doc ''approvals'')) []))"

definition outbox_doc :: "ApprovalOutboxIndex \<Rightarrow> json_out" where
  "outbox_doc ob = JObj [(''approvals'', JArr (map json_of_approval ob))]"

definition saveApprovalOutbox :: "('s, 'c) sd_card \<Rightarrow> ('c, 'v) json_lib \<Rightarrow> 's \<Rightarrow> ApprovalOutboxIndex \<Rightarrow> bool \<times> 's" where
  "saveApprovalOutbox sd J s ob =
     (let out = j_serialize J (outbox_doc ob)
      in writeFileAtomic sd (sd_mkdir sd s ''/system'') kOutboxPath out)"

section \<open>What the operations compute\<close>

lemma approvalActionName_parse: "parseApprovalAction s = Some a \<longleftrightarrow> s = approvalActionName a"
  by (cases a) (auto simp: parseApprovalAction_def)

lemma hasPendingForJob_iff:
  "hasPendingForJob ob jid \<longleftrightarrow>
   (\<exists>e \<in> set ob. \<not> synced e \<and> take kJobIdLen (apJobId e) = take kJobIdLen jid)"
  by (induction ob) (auto simp: strncmp_eq_0)

lemma countUnsynced_filter: "countUnsynced ob = length (filter (\<lambda>e. \<not> synced e) ob)"
  by (induction ob) auto

lemma take_Suc_snoc: "r < length xs \<Longrightarrow> take (Suc r) xs = take r xs @ [xs ! r]"
  by (rule take_Suc_conv_app_nth)

text \<open>The in-place loop keeps: what is written is the filtered prefix, what is unread is untouched.\<close>

lemma compact_loop_filter:
  assumes "w \<le> r" "r \<le> length es" "length es = length ob"
    and "take w es = filter (\<lambda>e. \<not> synced e) (take r ob)" "drop r es = drop r ob"
  shows "case compact_loop es (length ob) r w removed of (es', w', removed') \<Rightarrow>
      w' \<le> length ob \<and> take w' es' = filter (\<lambda>e. \<not> synced e) ob \<and>
      removed' = removed + length (filter synced (drop r ob))"
  using assms
proof (induction es "length ob" r w removed rule: compact_loop.induct)
  case (1 es r w removed)
  show ?case
  proof (cases "r < length ob")
    case False
    with "1.prems" have "r = length ob" by simp
    with "1.prems" show ?thesis by (simp add: compact_loop.simps)
  next
    case True
    with "1.prems"(3) have r: "r < length es" by simp
    have eq: "es ! r = ob ! r"
      using "1.prems"(3,5) r True by (metis Cons_nth_drop_Suc list.inject)
    have dr: "drop r ob = ob ! r # drop (Suc r) ob"
      using True by (simp add: Cons_nth_drop_Suc)
    have tail: "drop (Suc r) es = drop (Suc r) ob"
      using "1.prems"(5) by (metis drop_Suc tl_drop)
    show ?thesis
    proof (cases "synced (es ! r)")
      case True
      with "1.prems" r tail eq \<open>r < length ob\<close> show ?thesis
        using "1.hyps"(1) [OF \<open>r < length ob\<close> True]
        by (simp add: compact_loop.simps [of es _ r] take_Suc_snoc dr)
    next
      case False
      let ?es = "if w \<noteq> r then es[w := es ! r] else es"
      have w: "take (w + 1) ?es = filter (\<lambda>e. \<not> synced e) (take (r + 1) ob)"
        using "1.prems"(1,4) False r eq True
        by (cases "w = r") (simp_all add: take_Suc_snoc)
      have d: "drop (r + 1) ?es = drop (r + 1) ob"
        using "1.prems"(1) tail by simp
      show ?thesis
        using "1.hyps"(2) [OF \<open>r < length ob\<close> False _ _ _ w d] "1.prems"(1,3) r False eq True
        by (simp add: compact_loop.simps [of es _ r] dr)
    qed
  qed
qed

lemma compactSynced_filter:
  "compactSynced ob = (length (filter synced ob), filter (\<lambda>e. \<not> synced e) ob)"
  using compact_loop_filter [of 0 0 ob ob 0]
  by (auto simp: compactSynced_def split: prod.splits)

lemma markSynced_False: "\<not> fst (markSynced ob aid) \<Longrightarrow> snd (markSynced ob aid) = ob"
  by (induction ob) (auto split: prod.splits if_splits)

lemma markSynced_fst: "fst (markSynced ob aid) \<longleftrightarrow> (\<exists>e \<in> set ob. approvalIdEquals e aid)"
  by (induction ob) (auto split: prod.splits)

lemma length_markSynced [simp]: "length (snd (markSynced ob aid)) = length ob"
  by (induction ob) (auto split: prod.splits)

lemma markSynced_unsynced:
  "e \<in> set (snd (markSynced ob aid)) \<Longrightarrow> \<not> synced e \<Longrightarrow> e \<in> set ob"
  by (induction ob) (auto split: prod.splits if_splits)

lemma markSynced_keeps:
  "e \<in> set ob \<Longrightarrow> \<not> approvalIdEquals e aid \<Longrightarrow> e \<in> set (snd (markSynced ob aid))"
  by (induction ob) (auto split: prod.splits if_splits)

text \<open>Only unsynced entries count for the job-level guard, so their jobs stay pairwise distinct.\<close>

definition pendingJobs :: "ApprovalOutboxIndex \<Rightarrow> string list" where
  "pendingJobs ob = map (\<lambda>e. take kJobIdLen (apJobId e)) (filter (\<lambda>e. \<not> synced e) ob)"

lemma pendingJobs_append [simp]: "pendingJobs (xs @ ys) = pendingJobs xs @ pendingJobs ys"
  by (simp add: pendingJobs_def)

lemma hasPending_pendingJobs: "hasPendingForJob ob jid \<longleftrightarrow> take kJobIdLen jid \<in> set (pendingJobs ob)"
  by (simp add: hasPendingForJob_iff pendingJobs_def image_iff) metis

lemma pendingJobs_markSynced_subset:
  "set (pendingJobs (snd (markSynced ob aid))) \<subseteq> set (pendingJobs ob)"
  by (auto simp: pendingJobs_def dest: markSynced_unsynced)

lemma pendingJobs_markSynced:
  "distinct (pendingJobs ob) \<Longrightarrow> distinct (pendingJobs (snd (markSynced ob aid)))"
proof (induction ob)
  case Nil
  then show ?case by simp
next
  case (Cons e es)
  have sub: "set (pendingJobs (snd (markSynced es aid))) \<subseteq> set (pendingJobs es)"
    by (rule pendingJobs_markSynced_subset)
  from Cons sub show ?case
    by (cases "markSynced es aid") (auto simp: pendingJobs_def split: if_splits)
qed

lemma pendingJobs_compact: "pendingJobs (snd (compactSynced ob)) = pendingJobs ob"
  by (simp add: compactSynced_filter pendingJobs_def)

section \<open>The queue across operations\<close>

text \<open>Everything the firmware does to a loaded outbox and its job index, as one sequence of steps.\<close>

datatype outbox_op =
    Enqueue string ApprovalAction string u32
  | MarkSynced string
  | Compact

fun outbox_step :: "outbox_op \<Rightarrow> JobIndex \<times> ApprovalOutboxIndex \<Rightarrow> JobIndex \<times> ApprovalOutboxIndex" where
  "outbox_step (Enqueue jid act aid t) (jobs, ob) = snd (enqueueApproval jobs ob jid act aid t)"
| "outbox_step (MarkSynced aid) (jobs, ob) = (jobs, snd (markSynced ob aid))"
| "outbox_step Compact (jobs, ob) = (jobs, snd (compactSynced ob))"

definition outbox_run :: "outbox_op list \<Rightarrow> JobIndex \<times> ApprovalOutboxIndex \<Rightarrow> JobIndex \<times> ApprovalOutboxIndex" where
  "outbox_run ops st = fold outbox_step ops st"

text \<open>
  The invariant: capacity, one pending approval per job, and the status of a job with a
  pending approval is the one that approval asks for.
\<close>

definition outbox_inv :: "JobIndex \<times> ApprovalOutboxIndex \<Rightarrow> bool" where
  "outbox_inv st \<longleftrightarrow> (case st of (jobs, ob) \<Rightarrow>
     JobIndex_inv jobs \<and> length ob \<le> kMaxOutboxEntries \<and> distinct (pendingJobs ob) \<and>
     (\<forall>e \<in> set ob. \<not> synced e \<longrightarrow>
        map_option status (JobIndex_entry jobs (apJobId e)) = Some (approvedStatus (action e))))"

lemma JobIndex_entry_None: "JobIndex_find s jid = None \<longleftrightarrow> JobIndex_entry s jid = None"
  by (simp add: JobIndex_entry_def)

lemma enqueueApproval_cases:
  obtains (unknown) "JobIndex_entry jobs jid = None" "enqueueApproval jobs ob jid act aid t = (UnknownJob, jobs, ob)"
  | (pending) "JobIndex_entry jobs jid \<noteq> None" "hasPendingForJob ob jid"
      "enqueueApproval jobs ob jid act aid t = (AlreadyPending, jobs, ob)"
  | (full) "JobIndex_entry jobs jid \<noteq> None" "\<not> hasPendingForJob ob jid" "kMaxOutboxEntries \<le> length ob"
      "enqueueApproval jobs ob jid act aid t = (OutboxFull, jobs, ob)"
  | (queued) j where "JobIndex_entry jobs jid = Some j" "\<not> hasPendingForJob ob jid" "length ob < kMaxOutboxEntries"
      "enqueueApproval jobs ob jid act aid t =
        (Ok, snd (JobIndex_setStatus jobs jid (approvedStatus act)),
         ob @ [\<lparr>approvalId = strncpy kApprovalIdLen aid, apJobId = strncpy kJobIdLen jid,
                action = act, apCreatedAt = t, synced = False\<rparr>])"
proof (cases "JobIndex_find jobs jid")
  case None
  then show thesis by (intro unknown) (simp_all add: JobIndex_entry_None [symmetric] enqueueApproval_def)
next
  case (Some i)
  then have j: "JobIndex_entry jobs jid = Some (jobs ! i)" by (rule JobIndex_find_entry)
  show thesis
  proof (cases "hasPendingForJob ob jid")
    case True
    with Some j show thesis by (intro pending) (simp_all add: enqueueApproval_def)
  next
    case np: False
    show thesis
    proof (cases "Outbox_full ob")
      case True
      with Some j np show thesis by (intro full) (simp_all add: enqueueApproval_def Outbox_full_def)
    next
      case False
      with Some j np show thesis
        by (intro queued) (simp_all add: enqueueApproval_def Outbox_full_def Outbox_append_def)
    qed
  qed
qed

lemma JobIndex_entry_take: "take kJobIdLen a = take kJobIdLen b \<Longrightarrow> JobIndex_entry s a = JobIndex_entry s b"
  using jobs.fnd_take by metis

lemma outbox_inv_enqueue:
  assumes inv: "outbox_inv (jobs, ob)"
  shows "outbox_inv (snd (enqueueApproval jobs ob jid act aid t))"
proof (cases rule: enqueueApproval_cases [of jobs jid ob act aid t])
  case (queued j)
  let ?jobs = "snd (JobIndex_setStatus jobs jid (approvedStatus act))"
  let ?e = "\<lparr>approvalId = strncpy kApprovalIdLen aid, apJobId = strncpy kJobIdLen jid,
                action = act, apCreatedAt = t, synced = False\<rparr>"
  from inv have ji: "JobIndex_inv jobs" by (simp add: outbox_inv_def)
  have new: "JobIndex_entry ?jobs (strncpy kJobIdLen jid) = Some (j\<lparr>status := approvedStatus act\<rparr>)"
    using queued(1) JobIndex_entry_take [of "strncpy kJobIdLen jid" jid jobs]
    by (simp add: JobIndex_setStatus_entry [OF ji])
  have old: "JobIndex_entry ?jobs (apJobId e) = JobIndex_entry jobs (apJobId e)"
    if "e \<in> set ob" "\<not> synced e" for e
    using that queued(2) by (auto simp: JobIndex_setStatus_entry [OF ji] hasPendingForJob_iff)
  have "distinct (pendingJobs (ob @ [?e]))"
    using inv queued(2) by (simp add: outbox_inv_def hasPending_pendingJobs) (simp add: pendingJobs_def)
  then show ?thesis
    using inv queued new old ji by (auto simp: outbox_inv_def JobIndex_inv_setStatus)
qed (use inv in simp_all)

lemma outbox_inv_step: "outbox_inv st \<Longrightarrow> outbox_inv (outbox_step op st)"
proof (cases st)
  case (Pair jobs ob)
  assume inv: "outbox_inv st"
  show ?thesis
  proof (cases op)
    case (Enqueue jid act aid t)
    with inv show ?thesis by (simp add: Pair outbox_inv_enqueue)
  next
    case (MarkSynced aid)
    with inv show ?thesis
      by (auto simp: Pair outbox_inv_def pendingJobs_markSynced dest: markSynced_unsynced)
  next
    case Compact
    with inv show ?thesis
      by (auto simp: Pair outbox_inv_def pendingJobs_compact)
        (auto simp: compactSynced_filter intro: order_trans [OF length_filter_le])
  qed
qed

lemma outbox_inv_run: "outbox_inv st \<Longrightarrow> outbox_inv (outbox_run ops st)"
  unfolding outbox_run_def by (induction ops arbitrary: st) (simp_all add: outbox_inv_step)

lemma outbox_inv_init: "JobIndex_inv jobs \<Longrightarrow> outbox_inv (jobs, [])"
  by (simp add: outbox_inv_def pendingJobs_def)

text \<open>An unsynced entry leaves the queue by no operation but the confirmation of its own id.\<close>

lemma outbox_step_keeps:
  assumes "e \<in> set (snd st)" "\<not> synced e" "\<And>aid. op = MarkSynced aid \<Longrightarrow> \<not> approvalIdEquals e aid"
  shows "e \<in> set (snd (outbox_step op st))"
proof (cases op)
  case (Enqueue jid act aid t)
  with assms(1) show ?thesis
    by (cases st; cases rule: enqueueApproval_cases [of "fst st" jid "snd st" act aid t]) auto
next
  case (MarkSynced aid)
  with assms show ?thesis by (cases st) (auto intro: markSynced_keeps)
next
  case Compact
  with assms show ?thesis by (cases st) (simp add: compactSynced_filter)
qed

lemma outbox_run_keeps:
  assumes "e \<in> set (snd st)" "\<not> synced e" "\<And>aid. MarkSynced aid \<in> set ops \<Longrightarrow> \<not> approvalIdEquals e aid"
  shows "e \<in> set (snd (outbox_run ops st))"
  using assms unfolding outbox_run_def
proof (induction ops arbitrary: st)
  case (Cons p ps)
  have "e \<in> set (snd (outbox_step p st))"
    by (rule outbox_step_keeps) (use Cons.prems in auto)
  with Cons show ?case by simp
qed simp

section \<open>Save then load\<close>

definition ApprovalEntry_ok :: "ApprovalEntry \<Rightarrow> bool" where
  "ApprovalEntry_ok e \<longleftrightarrow> approvalId e \<noteq> [] \<and> length (approvalId e) \<le> kApprovalIdLen \<and>
     length (apJobId e) \<le> kJobIdLen"

text \<open>
  \<^verbatim>\<open>a["created_at"] | 0\<close> reads an \<^verbatim>\<open>int\<close>: a time from 2038-01-19 on, saved as the 32-bit
  unsigned number it is, is not one and comes back as 0. Ids are cut to their buffers, which those of a C
  struct already fit, and an entry without an id is skipped; everything else of an entry survives.
\<close>

definition approval_readable :: "ApprovalEntry \<Rightarrow> ApprovalEntry" where
  "approval_readable e = e\<lparr>approvalId := strncpy kApprovalIdLen (approvalId e), apJobId := strncpy kJobIdLen (apJobId e),
     apCreatedAt := int_readable (apCreatedAt e)\<rparr>"

definition outbox_readable :: "ApprovalOutboxIndex \<Rightarrow> ApprovalOutboxIndex" where
  "outbox_readable ob = map approval_readable (filter (\<lambda>e. approvalId e \<noteq> []) ob)"

lemma approval_json_roundtrip:
  assumes J: "json_laws J"
  shows "approval_of_json J (j_val J (json_of_approval e)) = approval_readable e"
  by (cases e; cases "action e")
    (simp_all add: approval_of_json_def json_of_approval_def json_read_back [OF J] int_fits_u32
      approval_readable_def int_readable_def)

lemma outbox_readable_ok:
  "list_all ApprovalEntry_ok ob \<Longrightarrow> outbox_readable ob = map (\<lambda>e. e\<lparr>apCreatedAt := int_readable (apCreatedAt e)\<rparr>) ob"
  by (induction ob) (auto simp: outbox_readable_def approval_readable_def ApprovalEntry_ok_def)

lemma load_approvals_append:
  assumes J: "json_laws J"
  shows "length (acc @ ob) \<le> kMaxOutboxEntries \<Longrightarrow>
    load_approvals J (map (j_val J \<circ> json_of_approval) ob) acc = acc @ outbox_readable ob"
proof (induction ob arbitrary: acc)
  case (Cons e ob)
  have "approvalId (approval_readable e) = [] \<longleftrightarrow> approvalId e = []" by (simp add: approval_readable_def kApprovalIdLen_def)
  with Cons show ?case
    by (simp add: approval_json_roundtrip [OF J] outbox_readable_def Outbox_append_def Outbox_full_def)
qed (simp add: outbox_readable_def)

lemma save_load_outbox:
  assumes sd: "sd_laws sd" and J: "json_laws J" and "length ob \<le> kMaxOutboxEntries"
    and save: "saveApprovalOutbox sd J s ob = (True, s')"
  shows "loadApprovalOutbox sd J s' = (True, outbox_readable ob)"
proof -
  have f: "sd_files sd s' kOutboxPath = Some (j_serialize J (outbox_doc ob))"
    using writeFileAtomic_ok [OF sd save [unfolded saveApprovalOutbox_def Let_def]] by simp
  show ?thesis
    using load_approvals_append [OF J, of "[]" ob] assms(3)
    by (simp add: loadApprovalOutbox_def sd_existsD [OF sd] f sd_readD [OF sd f] j_notEmptyD [OF J]
        j_roundtripD [OF J] outbox_doc_def j_getD [OF J] j_arrayD [OF J])
qed

lemma approval_of_json_sizes:
  "length (approvalId (approval_of_json J a)) \<le> kApprovalIdLen \<and>
   length (apJobId (approval_of_json J a)) \<le> kJobIdLen"
  by (simp add: approval_of_json_def Let_def)

lemma load_approvals_inv:
  "length ob \<le> kMaxOutboxEntries \<Longrightarrow> list_all ApprovalEntry_ok ob \<Longrightarrow>
   length (load_approvals J as ob) \<le> kMaxOutboxEntries \<and> list_all ApprovalEntry_ok (load_approvals J as ob)"
proof (induction J as ob rule: load_approvals.induct)
  case (2 J a as ob)
  then show ?case
    using approval_of_json_sizes [of J a]
    by (auto simp: Let_def Outbox_append_def Outbox_full_def ApprovalEntry_ok_def)
qed simp

lemma loadApprovalOutbox_inv:
  "length (snd (loadApprovalOutbox sd J s)) \<le> kMaxOutboxEntries \<and>
   list_all ApprovalEntry_ok (snd (loadApprovalOutbox sd J s))"
  using load_approvals_inv [of "[]"] by (auto simp: loadApprovalOutbox_def Let_def split: option.splits)

section \<open>Properties\<close>

text \<open>C1: An approval that was queued (unsynced in the outbox) is still there, unchanged, after any
  sequence of enqueue attempts, confirmations and compactions that never confirms its own id:
  no approval the user made is lost or overwritten by another.\<close>

theorem approval_never_lost:
  assumes "e \<in> set ob" and "\<not> synced e"
    and "\<forall>aid. MarkSynced aid \<in> set ops \<longrightarrow> take kApprovalIdLen aid \<noteq> take kApprovalIdLen (approvalId e)"
  shows "e \<in> set (snd (outbox_run ops (jobs, ob)))"
  by (rule outbox_run_keeps) (use assms in \<open>auto simp: approvalIdEquals_def strncmp_eq_0\<close>)

lemma approval_never_lost_witness:
  "let e = ApprovalEntry_init\<lparr>approvalId := ''k1'', apJobId := ''a1''\<rparr> in
   e \<in> set (snd (outbox_run [MarkSynced ''k2'', Compact] ([], [e, ApprovalEntry_init\<lparr>approvalId := ''k2''\<rparr>])))"
  unfolding Let_def
  by (rule approval_never_lost)
    (auto simp: ApprovalEntry_init_def kApprovalIdLen_def)

text \<open>C2: Starting from any loaded job index and an empty outbox, every sequence of queue operations keeps
  at most 32 entries, at most one unsynced approval per job, and each job with an unsynced
  approval in exactly the status that approval asks for.\<close>

theorem outbox_invariant:
  assumes "JobIndex_inv jobs" and "outbox_run ops (jobs, []) = (jobs', ob')"
  shows "JobIndex_inv jobs' \<and> length ob' \<le> kMaxOutboxEntries \<and> distinct (pendingJobs ob') \<and>
    (\<forall>e \<in> set ob'. \<not> synced e \<longrightarrow>
       map_option status (JobIndex_entry jobs' (apJobId e)) = Some (approvedStatus (action e)))"
  using outbox_inv_run [OF outbox_inv_init [OF assms(1)], of ops] assms(2) by (simp add: outbox_inv_def)

lemma outbox_invariant_witness:
  "pendingJobs (snd (outbox_run [Enqueue ''a1'' Print ''k1'' 7, Enqueue ''a1'' Delete ''k2'' 8] ([ex_job], []))) = [''a1'']"
proof -
  let ?ops = "[Enqueue ''a1'' Print ''k1'' 7, Enqueue ''a1'' Delete ''k2'' 8]"
  obtain jobs' ob' where r: "outbox_run ?ops ([ex_job], []) = (jobs', ob')" by force
  then have "pendingJobs ob' = [''a1'']"
    by (simp add: outbox_run_def enqueueApproval_def JobIndex_find_def jobIdEquals_def ex_job_def JobEntry_init_def
        strncmp_def kJobIdLen_def JobIndex_setStatus_def Outbox_full_def kMaxOutboxEntries_def Outbox_append_def)
      (auto simp: pendingJobs_def kJobIdLen_def strncpy_def)
  with outbox_invariant [OF ex_job_ok(1) r] r show ?thesis by simp
qed

text \<open>Queueing an approval succeeds exactly for a known job without a pending approval while the
  outbox has room; then the job gets the matching status, no other job changes, and exactly one
  unsynced entry for it is appended; in each refused case nothing changes at all.\<close>

theorem enqueueApproval_correct:
  assumes "JobIndex_inv jobs" and "enqueueApproval jobs ob jid act aid t = (r, jobs', ob')"
  shows "(r = Ok \<longleftrightarrow> JobIndex_entry jobs jid \<noteq> None \<and> \<not> hasPendingForJob ob jid \<and> length ob < kMaxOutboxEntries) \<and>
    (r \<noteq> Ok \<longrightarrow> jobs' = jobs \<and> ob' = ob) \<and>
    (r = Ok \<longrightarrow>
       ob' = ob @ [\<lparr>approvalId = take 32 aid, apJobId = take 32 jid, action = act, apCreatedAt = t, synced = False\<rparr>] \<and>
       hasPendingForJob ob' jid \<and>
       (\<forall>k. JobIndex_entry jobs' k =
          (if take 32 k = take 32 jid then map_option (\<lambda>j. j\<lparr>status := approvedStatus act\<rparr>) (JobIndex_entry jobs k)
           else JobIndex_entry jobs k)))"
  using assms(2)
  by (cases rule: enqueueApproval_cases [of jobs jid ob act aid t])
    (auto simp: JobIndex_setStatus_entry [OF assms(1)] hasPendingForJob_iff kJobIdLen_def kApprovalIdLen_def strncpy_def)

lemma enqueueApproval_correct_witness:
  "fst (enqueueApproval [ex_job] [] ''a1'' Keep ''k1'' 7) = Ok"
proof -
  obtain r jobs' ob' where e: "enqueueApproval [ex_job] [] ''a1'' Keep ''k1'' 7 = (r, jobs', ob')"
    by (cases "enqueueApproval [ex_job] [] ''a1'' Keep ''k1'' 7") auto
  have "JobIndex_entry [ex_job] ''a1'' \<noteq> None"
    by (simp add: JobIndex_entry_def JobIndex_find_def jobIdEquals_def strncmp_def ex_job_def JobEntry_init_def)
  with enqueueApproval_correct [OF ex_job_ok(1) e] e show ?thesis by (simp add: kMaxOutboxEntries_def)
qed

text \<open>The in-place two-index compaction removes exactly the synced entries, keeps the others in order,
  and reports how many it removed.\<close>

theorem compactSynced_correct:
  "compactSynced ob = (length (filter synced ob), filter (\<lambda>e. \<not> synced e) ob) \<and>
   countUnsynced (snd (compactSynced ob)) = countUnsynced ob"
  by (simp add: compactSynced_filter countUnsynced_filter)

text \<open>A saved outbox is read back entry for entry, but for one field: a creation time from
  2038-01-19 on comes back as 0.\<close>

theorem outbox_save_load:
  assumes "sd_laws sd" and "json_laws J" and "length ob \<le> kMaxOutboxEntries" and "list_all ApprovalEntry_ok ob"
    and "saveApprovalOutbox sd J s ob = (True, s')"
  shows "loadApprovalOutbox sd J s' =
    (True, map (\<lambda>e. e\<lparr>apCreatedAt := (if uint (apCreatedAt e) < 2 ^ 31 then apCreatedAt e else 0)\<rparr>) ob)"
  using save_load_outbox [OF assms(1-3,5)] outbox_readable_ok [OF assms(4)] by (simp add: int_readable_def)

lemma outbox_save_load_witness:
  "let e = ApprovalEntry_init\<lparr>approvalId := ''k1'', apJobId := ''a1'', action := Print, apCreatedAt := 2147483648\<rparr> in
   loadApprovalOutbox mem_card plain_json (snd (saveApprovalOutbox mem_card plain_json Map.empty [e])) =
     (True, [e\<lparr>apCreatedAt := 0\<rparr>])"
proof -
  let ?e = "ApprovalEntry_init\<lparr>approvalId := ''k1'', apJobId := ''a1'', action := Print, apCreatedAt := 2147483648\<rparr>"
  obtain ok s' where r: "saveApprovalOutbox mem_card plain_json Map.empty [?e] = (ok, s')" by force
  then have ok by (simp add: saveApprovalOutbox_def writeFileAtomic_def mem_card_def Let_def split: if_splits)
  moreover have "length [?e] \<le> kMaxOutboxEntries" "list_all ApprovalEntry_ok [?e]"
    by (simp_all add: ApprovalEntry_ok_def ApprovalEntry_init_def kMaxOutboxEntries_def kApprovalIdLen_def kJobIdLen_def)
  ultimately show ?thesis
    using outbox_save_load [OF mem_card_laws plain_json_laws, of "[?e]" Map.empty s'] r by simp
qed

text \<open>The wire names of the actions are read back to the action they were written from, and no other
  string is accepted.\<close>

theorem parseApprovalAction_name:
  "parseApprovalAction s = Some a \<longleftrightarrow> s = approvalActionName a"
  by (rule approvalActionName_parse)

end
