(* ===== verification/Web_Session.thy ===== *)
theory Web_Session
  imports Wifi_Radio Timeline Xtc_Reader Approval_Outbox
begin

unbundle bit_operations_syntax

text \<open>
  The web server on the device, its state and its sessions: src/firmware/src/ui/WebUiServer.h, the part of
  WebUiServer.cpp that starts and stops it and guards its pages, and src/firmware/src/util/Random.h. The
  Arduino \<open>WebServer\<close> and its parsed requests, the radio, the card, the random number generator and the
  generated page bytes are parameters (\<open>web_env\<close>, \<open>web_request\<close>). The objects \<^verbatim>\<open>attach()\<close> points at are part of
  the state, with \<open>None\<close> for a null pointer.
\<close>

section \<open>State\<close>

definition kMaxXtcUploadBytes :: u32 where "kMaxXtcUploadBytes = 524288"
definition kMaxOriginalUploadBytes :: u32 where "kMaxOriginalUploadBytes = 20971520"

datatype WebUiMode = Off | Station | Hotspot

text \<open>
  One streaming upload; \<open>upFile\<close> is what was written through the open handle, \<open>None\<close> when there is none.
  The two sets of members of the class are two values of this record (the first never uses \<open>upMime\<close>).
\<close>

record upload_state =
  upAuthorized :: bool
  upTooLarge :: bool
  upError :: "string option"
  upFile :: "u8 list option"
  upJobId :: string
  upPath :: string
  upMime :: string
  upBytes :: u32

definition upload_init :: upload_state where
  "upload_init = \<lparr>upAuthorized = False, upTooLarge = False, upError = None, upFile = None,
     upJobId = [], upPath = [], upMime = [], upBytes = 0\<rparr>"

record 's web_state =
  wWorld :: 's
  wJobs :: "JobIndex option"
  wOutbox :: "ApprovalOutboxIndex option"
  wConfig :: "DeviceConfigData option"
  wTasks :: "TaskIndex option"
  wEvent :: NextEventInfo
  wWifi :: WifiStoreData
  panelWidth :: u16
  panelHeight :: u16
  wakeMillis :: u32
  natBridge :: NatBridge
  webMode :: WebUiMode
  activityFlag :: bool
  routesRegistered :: bool
  webSsid :: string
  webPassword :: string
  webPin :: string
  sessionToken :: string
  upXtc :: upload_state
  upOriginal :: upload_state
  rngPos :: nat

text \<open>\<open>weRandom i\<close> is what call \<open>i\<close> of \<^verbatim>\<open>esp_random()\<close> gives, \<open>weAsset\<close> the bytes of a generated page.\<close>

record ('s, 'c, 'v, 'f) web_env =
  weSd :: "('s, 'c) sd_card"
  weJson :: "('c, 'v) json_lib"
  weB64 :: b64_lib
  weMac :: "u8 list"
  weRadio :: "'s wifi_radio"
  weFiles :: "'s \<Rightarrow> 'f file_ops"
  weBytes :: "u8 list \<Rightarrow> 'c"
  weRandom :: "nat \<Rightarrow> u32"
  weAsset :: "string \<Rightarrow> u8 list"

section \<open>Requests and answers\<close>

datatype http_verb = HTTP_GET | HTTP_POST

text \<open>\<open>UPLOAD_FILE_END\<close> also stands for \<^verbatim>\<open>UPLOAD_FILE_ABORTED\<close>, which the code treats alike.\<close>

datatype upload_event = UPLOAD_FILE_START | UPLOAD_FILE_WRITE "u8 list" | UPLOAD_FILE_END

text \<open>What the diagnostics read of the hardware; the battery values are there when known.\<close>

record diag_reads =
  dgMillis :: u32
  dgSdTotal :: u64
  dgSdUsed :: u64
  dgPercent :: "int option"
  dgMillivolts :: "int option"
  dgHeap :: u32

text \<open>
  A parsed request: \<open>wqCookie\<close> is what \<^verbatim>\<open>header("Cookie")\<close> gives when there is one, \<open>wqArg\<close> what \<^verbatim>\<open>arg()\<close>
  gives (empty when missing), \<open>wqPlain\<close> the raw body, \<open>wqTime\<close> the \<^verbatim>\<open>time(nullptr)\<close> of its handler.
\<close>

record 'c web_request =
  wqVerb :: http_verb
  wqUri :: string
  wqCookie :: "string option"
  wqArg :: "string \<Rightarrow> string"
  wqPlain :: 'c
  wqUploads :: "upload_event list"
  wqAborted :: bool
  wqTime :: int
  wqDiag :: diag_reads

datatype web_body = Text string | Json json_out | Bytes "u8 list"

record web_response =
  rpCode :: int
  rpType :: string
  rpHeaders :: "(string \<times> string) list"
  rpLength :: "nat option"
  rpBody :: web_body

definition send_text :: "int \<Rightarrow> string \<Rightarrow> string \<Rightarrow> web_response" where
  "send_text code ct s = \<lparr>rpCode = code, rpType = ct, rpHeaders = [], rpLength = None, rpBody = Text s\<rparr>"

definition send_json :: "int \<Rightarrow> json_out \<Rightarrow> web_response" where
  "send_json code d = \<lparr>rpCode = code, rpType = ''application/json'', rpHeaders = [], rpLength = None, rpBody = Json d\<rparr>"

text \<open>The literal \<^verbatim>\<open>{"error":"..."}\<close> and \<^verbatim>\<open>{"status":"ok"}\<close> bodies.\<close>

definition error_text :: "int \<Rightarrow> string \<Rightarrow> web_response" where
  \<open>error_text code e = send_text code ''application/json'' (''{"error":"'' @ e @ ''"}'')\<close>

definition unauthorized :: web_response where
  "unauthorized = error_text 401 ''unauthorized''"

definition status_ok :: web_response where
  \<open>status_ok = send_text 200 ''application/json'' ''{"status":"ok"}''\<close>

definition redirect_root :: "(string \<times> string) list \<Rightarrow> web_response" where
  "redirect_root hs = \<lparr>rpCode = 303, rpType = ''text/plain'', rpHeaders = hs @ [(''Location'', ''/'')],
     rpLength = None, rpBody = Text []\<rparr>"

definition sendGzip :: "int \<Rightarrow> string \<Rightarrow> u8 list \<Rightarrow> web_response" where
  "sendGzip code contentType bytes = \<lparr>rpCode = code, rpType = contentType,
     rpHeaders = [(''Content-Encoding'', ''gzip'')], rpLength = Some (length bytes), rpBody = Bytes bytes\<rparr>"

definition handleNotFound :: web_response where
  "handleNotFound = send_text 404 ''text/plain'' ''Not found''"

section \<open>Random identifiers\<close>

definition random_chars :: "('s, 'c, 'v, 'f) web_env \<Rightarrow> (u32 \<Rightarrow> char) \<Rightarrow> nat \<Rightarrow> 's web_state \<Rightarrow> string \<times> 's web_state" where
  "random_chars E f n st = (map (\<lambda>i. f (weRandom E (rngPos st + i))) [0..<n], st\<lparr>rngPos := rngPos st + n\<rparr>)"

definition kHex :: string where "kHex = ''0123456789abcdef''"

definition randomHex :: "('s, 'c, 'v, 'f) web_env \<Rightarrow> nat \<Rightarrow> 's web_state \<Rightarrow> string \<times> 's web_state" where
  "randomHex E n st = random_chars E (\<lambda>r. kHex ! unat (r AND 0xF)) n st"

definition randomPin :: "('s, 'c, 'v, 'f) web_env \<Rightarrow> 's web_state \<Rightarrow> string \<times> 's web_state" where
  "randomPin E st =
     (let v = unat (weRandom E (rngPos st) mod 1000000)
      in (map (\<lambda>k. char_of (48 + v div 10 ^ k mod 10)) [5, 4, 3, 2, 1, 0], st\<lparr>rngPos := rngPos st + 1\<rparr>))"

definition kCharset :: string where "kCharset = ''23456789ABCDEFGHJKMNPQRSTUVWXYZ''"

definition randomPassword :: "('s, 'c, 'v, 'f) web_env \<Rightarrow> nat \<Rightarrow> 's web_state \<Rightarrow> string \<times> 's web_state" where
  "randomPassword E n st = random_chars E (\<lambda>r. kCharset ! unat (r mod word_of_nat (length kCharset))) n st"

section \<open>Starting and stopping\<close>

definition attach :: "JobIndex option \<Rightarrow> ApprovalOutboxIndex option \<Rightarrow> DeviceConfigData option \<Rightarrow> u16 \<Rightarrow> u16 \<Rightarrow> u32 \<Rightarrow>
    TaskIndex option \<Rightarrow> 's web_state \<Rightarrow> 's web_state" where
  "attach jobs outbox cfg pw ph wake tasks st = st\<lparr>wJobs := jobs, wOutbox := outbox, wConfig := cfg,
     panelWidth := pw, panelHeight := ph, wakeMillis := wake, wTasks := tasks\<rparr>"

definition generateSessionSecrets :: "('s, 'c, 'v, 'f) web_env \<Rightarrow> 's web_state \<Rightarrow> 's web_state" where
  "generateSessionSecrets E st =
     (let (pin, st) = randomPin E st;
          st = st\<lparr>webPin := pin\<rparr>;
          (token, st) = randomHex E 32 st
      in st\<lparr>sessionToken := token\<rparr>)"

definition beginCommon :: "'s web_state \<Rightarrow> 's web_state" where
  "beginCommon st = (if \<not> routesRegistered st then st\<lparr>routesRegistered := True\<rparr> else st)"

definition web_stop :: "('s, 'c, 'v, 'f) web_env \<Rightarrow> 's web_state \<Rightarrow> 's web_state" where
  "web_stop E st =
     (if webMode st = Off then st else
      let st =
            (if webMode st = Hotspot then
               let (nb, w) = (if natEnabled (natBridge st) then NatBridge_disable (weRadio E) (natBridge st, wWorld st)
                              else (natBridge st, wWorld st))
               in st\<lparr>natBridge := nb, wWorld := stopAccessPoint (weRadio E) w\<rparr>
             else st\<lparr>wWorld := WifiManager_disconnect (weRadio E) (wWorld st)\<rparr>)
      in st\<lparr>webMode := Off, webSsid := [], webPassword := [], webPin := [], sessionToken := []\<rparr>)"

text \<open>\<open>None\<close>: the radio never answers (Wifi_Radio).\<close>

definition startStation :: "('s, 'c, 'v, 'f) web_env \<Rightarrow> u32 \<Rightarrow> 's web_state \<Rightarrow> (bool \<times> 's web_state) option" where
  "startStation E timeoutMs st =
     (let st = web_stop E st in
      case WifiManager_connect (weRadio E) (weSd E) (weJson E) (weB64 E) (weMac E) timeoutMs (wWifi st, wWorld st) of
        None \<Rightarrow> None
      | Some (joined, store, w) \<Rightarrow>
          let st = st\<lparr>wWifi := store, wWorld := w\<rparr>
          in if \<not> joined then Some (False, st)
             else let st = st\<lparr>webSsid := take 39 (r_joined (weRadio E) w), webPassword := []\<rparr>;
                      st = generateSessionSecrets E st;
                      st = st\<lparr>webMode := Station\<rparr>
                  in Some (True, beginCommon st))"

definition upper_hex2 :: "u8 \<Rightarrow> string" where
  "upper_hex2 b = [''0123456789ABCDEF'' ! unat (drop_bit 4 b), ''0123456789ABCDEF'' ! unat (b AND 0xF)]"

definition device_label :: "'s web_state \<Rightarrow> string" where
  "device_label st =
     (case wConfig st of Some cfg \<Rightarrow> if deviceName cfg \<noteq> [] then deviceName cfg else ''Focusink'' | None \<Rightarrow> ''Focusink'')"

text \<open>The fresh name, password and secrets a hotspot starts with.\<close>

definition hotspot_secrets :: "('s, 'c, 'v, 'f) web_env \<Rightarrow> 's web_state \<Rightarrow> 's web_state" where
  "hotspot_secrets E st =
     (let st = st\<lparr>wWorld := r_mode (weRadio E) WIFI_AP (wWorld st)\<rparr>;
          mac = r_mac (weRadio E) (wWorld st);
          st = st\<lparr>webSsid := take 39 (take 30 (device_label st) @ ''-'' @ upper_hex2 (mac ! 4) @ upper_hex2 (mac ! 5))\<rparr>;
          (pw, st) = randomPassword E 15 st
      in generateSessionSecrets E (st\<lparr>webPassword := pw\<rparr>))"

definition startHotspot :: "('s, 'c, 'v, 'f) web_env \<Rightarrow> bool \<Rightarrow> 's web_state \<Rightarrow> (bool \<times> 's web_state) option" where
  "startHotspot E natBridgeEnabled st =
     (let st = hotspot_secrets E (web_stop E st);
          (up, w) = startAccessPoint (weRadio E) (webSsid st) (webPassword st) (wWorld st);
          st = st\<lparr>wWorld := w\<rparr>
      in if \<not> up then Some (False, st\<lparr>webMode := Off\<rparr>)
         else let st = beginCommon (st\<lparr>webMode := Hotspot\<rparr>)
              in if \<not> natBridgeEnabled then Some (True, st)
                 else case NatBridge_enable (weRadio E) (weSd E) (weJson E) (weB64 E) (weMac E) kNatTimeoutMs
                        (natBridge st, wWifi st, wWorld st) of
                   None \<Rightarrow> None
                 | Some (bridged, nb, store, w) \<Rightarrow>
                     Some (True, st\<lparr>natBridge := nb, wWifi := store, wWorld := w\<rparr>))"

definition markActivity :: "'s web_state \<Rightarrow> 's web_state" where
  "markActivity st = st\<lparr>activityFlag := True\<rparr>"

definition consumeActivityFlag :: "'s web_state \<Rightarrow> bool \<times> 's web_state" where
  "consumeActivityFlag st = (activityFlag st, st\<lparr>activityFlag := False\<rparr>)"

definition web_address :: "('s, 'c, 'v, 'f) web_env \<Rightarrow> 's web_state \<Rightarrow> string" where
  "web_address E st =
     (if webMode st = Station then r_ipText (weRadio E) (wWorld st)
      else if webMode st = Hotspot then r_apText (weRadio E) (wWorld st) else [])"

section \<open>Sessions and pages\<close>

text \<open>\<^verbatim>\<open>cookie.indexOf(needle) >= 0\<close>.\<close>

fun contains :: "string \<Rightarrow> string \<Rightarrow> bool" where
  "contains needle [] = (needle = [])"
| "contains needle (c # cs) = (take (length needle) (c # cs) = needle \<or> contains needle cs)"

definition requestHasValidSession :: "'s web_state \<Rightarrow> 'c web_request \<Rightarrow> bool" where
  "requestHasValidSession st rq =
     (if sessionToken st = [] then False
      else case wqCookie rq of
        None \<Rightarrow> False
      | Some cookie \<Rightarrow> contains (''session='' @ sessionToken st) cookie)"

lemma valid_session_token:
  "sessionToken a = sessionToken b \<Longrightarrow> requestHasValidSession a rq = requestHasValidSession b rq"
  by (simp only: requestHasValidSession_def)

definition handleRoot :: "('s, 'c, 'v, 'f) web_env \<Rightarrow> 'c web_request \<Rightarrow> 's web_state \<Rightarrow> web_response" where
  "handleRoot E rq st =
     (if \<not> requestHasValidSession st rq then sendGzip 200 ''text/html'' (weAsset E ''kLoginPageHtmlGz'')
      else sendGzip 200 ''text/html'' (weAsset E ''kJobListPageHtmlGz''))"

definition handlePlannerPage :: "('s, 'c, 'v, 'f) web_env \<Rightarrow> 'c web_request \<Rightarrow> 's web_state \<Rightarrow> web_response" where
  "handlePlannerPage E rq st =
     (if \<not> requestHasValidSession st rq then redirect_root []
      else sendGzip 200 ''text/html'' (weAsset E ''kPlannerPageHtmlGz''))"

definition wrong_pin :: web_response where
  \<open>wrong_pin = send_text 401 ''text/html''
    (''<style>:root{--bg:#f7ecd1;--fg:#3a2115;--danger:#bd361e;--danger-bg:#f6ded6;'' @
     ''color-scheme:light dark}'' @
     ''@media (prefers-color-scheme:dark){:root{--bg:#1c1109;--fg:#f3e3c4;'' @
     ''--danger:#ff6a47;--danger-bg:#3a1810}}'' @
     ''body{background:var(--bg);color:var(--fg);font-family:"Nunito Sans",-apple-system,'' @
     ''BlinkMacSystemFont,'Segoe UI',Roboto,Helvetica,Arial,sans-serif,'' @
     (CHR 0x27 # ''Apple Color Emoji','Segoe UI Emoji';max-width:320px;margin:3rem auto;'') @
     ''padding:0 1rem}'' @
     ''a:focus-visible{outline:2px solid var(--danger);outline-offset:2px}</style>'' @
     ''<p style="color:var(--danger);background:var(--danger-bg);padding:.75rem;'' @
     ''border-radius:16px">Wrong PIN. <a href="/">Try again</a>.</p>'')\<close>

definition handleLogin :: "'c web_request \<Rightarrow> 's web_state \<Rightarrow> web_response" where
  "handleLogin rq st =
     (if wqArg rq ''pin'' \<noteq> webPin st then wrong_pin
      else redirect_root [(''Set-Cookie'', ''session='' @ sessionToken st @ ''; Path=/; HttpOnly'')])"

definition static_asset :: "('s, 'c, 'v, 'f) web_env \<Rightarrow> string \<Rightarrow> string \<Rightarrow> 'c web_request \<Rightarrow> 's web_state \<Rightarrow> web_response" where
  "static_asset E ct asset rq st =
     (if \<not> requestHasValidSession st rq then unauthorized else sendGzip 200 ct (weAsset E asset))"

definition handleXtcDecoderWasm :: "('s, 'c, 'v, 'f) web_env \<Rightarrow> 'c web_request \<Rightarrow> 's web_state \<Rightarrow> web_response" where
  "handleXtcDecoderWasm E rq st = static_asset E ''application/wasm'' ''kXtcDecoderWasmGz'' rq st"

definition handleXtcDecoderJs :: "('s, 'c, 'v, 'f) web_env \<Rightarrow> 'c web_request \<Rightarrow> 's web_state \<Rightarrow> web_response" where
  "handleXtcDecoderJs E rq st = static_asset E ''application/javascript'' ''kXtcDecoderJsGz'' rq st"

definition handleXtcEncoderWasm :: "('s, 'c, 'v, 'f) web_env \<Rightarrow> 'c web_request \<Rightarrow> 's web_state \<Rightarrow> web_response" where
  "handleXtcEncoderWasm E rq st = static_asset E ''application/wasm'' ''kXtcEncoderWasmGz'' rq st"

definition handleXtcEncoderJs :: "('s, 'c, 'v, 'f) web_env \<Rightarrow> 'c web_request \<Rightarrow> 's web_state \<Rightarrow> web_response" where
  "handleXtcEncoderJs E rq st = static_asset E ''application/javascript'' ''kXtcEncoderJsGz'' rq st"

end
