(* ===== verification/Web_Api.thy ===== *)
theory Web_Api
  imports Web_Session
begin

text \<open>
  The JSON routes of src/firmware/src/ui/WebUiServer.cpp: status, diagnostics, the planner's tasks, the job
  list, approving a job, and streaming a job's file. The fields of a document are listed in the order the
  code assigns them.
\<close>

section \<open>Status and diagnostics\<close>

definition jobStatusLabel :: "JobStatus \<Rightarrow> string" where
  "jobStatusLabel s =
     (case s of Downloaded \<Rightarrow> ''New'' | ApprovedPrint \<Rightarrow> ''Printing'' | ApprovedKeep \<Rightarrow> ''Kept''
      | ApprovedDelete \<Rightarrow> ''Deleted'' | OtherStatus b \<Rightarrow> ''Unknown'')"

definition handleApiStatus :: "('s, 'c, 'v, 'f) web_env \<Rightarrow> 'c web_request \<Rightarrow> 's web_state \<Rightarrow> web_response" where
  "handleApiStatus E rq st =
     (if \<not> requestHasValidSession st rq then unauthorized else
      let jobs = (case wJobs st of Some js \<Rightarrow> js | None \<Rightarrow> []);
          unread = length (filter (\<lambda>e. status e = Downloaded) jobs)
      in send_json 200 (JObj (
        [(''device_name'', JStr (device_label st)),
         (''mode'', JStr (if webMode st = Hotspot then ''hotspot'' else ''station'')),
         (''job_count'', JInt (int (length jobs))),
         (''unread_count'', JInt (int unread)),
         (''outbox_pending'', JInt (case wOutbox st of Some ob \<Rightarrow> int (countUnsynced ob) | None \<Rightarrow> 0))] @
        (case wConfig st of Some cfg \<Rightarrow> [(''device_id'', JStr (deviceId cfg))] | None \<Rightarrow> []) @
        (if webMode st = Station then
           (case wConfig st of
              Some cfg \<Rightarrow> if hasAdminConsole cfg then [(''pi_admin_base_url'', JStr (piAdminBaseUrl cfg))] else []
            | None \<Rightarrow> []) @
           [(''wifi_rssi'', JInt (r_signal (weRadio E) (wWorld st)))]
         else []))))"

definition handleApiDiag :: "'c web_request \<Rightarrow> 's web_state \<Rightarrow> web_response" where
  "handleApiDiag rq st =
     (if \<not> requestHasValidSession st rq then unauthorized else
      let d = wqDiag rq
      in send_json 200 (JObj (
        [(''device_name'', JStr (device_label st)),
         (''device_id'', JStr (case wConfig st of Some cfg \<Rightarrow> deviceId cfg | None \<Rightarrow> [])),
         (''panel_width'', JInt (uint (panelWidth st))),
         (''panel_height'', JInt (uint (panelHeight st))),
         (''uptime_seconds'', JInt (uint ((dgMillis d - wakeMillis st) div 1000))),
         (''sd_total_bytes'', JInt (uint (dgSdTotal d))),
         (''sd_free_bytes'', JInt (if dgSdTotal d \<ge> dgSdUsed d then uint (dgSdTotal d - dgSdUsed d) else 0))] @
        (case dgPercent d of Some p \<Rightarrow> [(''battery_percent'', JInt p)] | None \<Rightarrow> []) @
        (case dgMillivolts d of Some v \<Rightarrow> [(''battery_millivolts'', JInt v)] | None \<Rightarrow> []) @
        [(''heap_free_bytes'', JInt (uint (dgHeap d)))])))"

section \<open>The planner's tasks\<close>

definition web_task :: "TaskEntry \<Rightarrow> json_out" where
  "web_task t = JObj [
     (''id'', JStr (taskId t)),
     (''title'', JStr (taskTitle t)),
     (''category'', JStr (categoryName (category t))),
     (''start_time'', JStr (startTime t)),
     (''end_time'', JStr (endTime t)),
     (''done'', JBool (taskDone t)),
     (''source'', JStr ''task'')]"

definition web_event :: "NextEventInfo \<Rightarrow> json_out" where
  "web_event ev =
     (let hm = formatUtcHm (evStart ev)
      in JObj [
       (''id'', JStr ''calendar''),
       (''title'', JStr (evTitle ev)),
       (''category'', JStr ''Other''),
       (''start_time'', JStr hm),
       (''end_time'', JStr hm),
       (''done'', JBool False),
       (''source'', JStr ''calendar'')])"

definition handleApiPlannerTasksGet :: "'c web_request \<Rightarrow> 's web_state \<Rightarrow> web_response" where
  "handleApiPlannerTasksGet rq st =
     (if \<not> requestHasValidSession st rq then unauthorized else
      let tasks = (case wTasks st of Some ts \<Rightarrow> ts | None \<Rightarrow> [])
      in send_json 200 (JObj [(''tasks'', JArr (map web_task tasks @
        (if hasEvent (wEvent st) then [web_event (wEvent st)] else [])))]))"

section \<open>The job list\<close>

definition web_job :: "'s web_state \<Rightarrow> JobEntry \<Rightarrow> json_out" where
  "web_job st e = JObj [
     (''job_id'', JStr (jobId e)),
     (''title'', JStr (title e)),
     (''page_count'', JInt (uint (pageCount e))),
     (''status'', JStr (jobStatusLabel (status e))),
     (''xtc_bytes'', JInt (uint (xtcBytes e))),
     (''xtc_sha256'', JStr (xtcSha256 e)),
     (''created_at'', JInt (uint (createdAt e))),
     (''pending_approval'', JBool (case wOutbox st of Some ob \<Rightarrow> hasPendingForJob ob (jobId e) | None \<Rightarrow> False)),
     (''original_pending'', JBool (originalPending e))]"

fun jobs_array :: "'s web_state \<Rightarrow> JobEntry list \<Rightarrow> json_out list" where
  "jobs_array st [] = []"
| "jobs_array st (e # es) =
     (if status e = ApprovedDelete then jobs_array st es else web_job st e # jobs_array st es)"

definition handleApiJobsGet :: "'c web_request \<Rightarrow> 's web_state \<Rightarrow> web_response" where
  "handleApiJobsGet rq st =
     (if \<not> requestHasValidSession st rq then unauthorized
      else send_json 200 (JObj [(''jobs'',
        JArr (jobs_array st (case wJobs st of Some js \<Rightarrow> js | None \<Rightarrow> [])))]))"

section \<open>Approving a job\<close>

definition handleApiJobsPost :: "('s, 'c, 'v, 'f) web_env \<Rightarrow> 'c web_request \<Rightarrow> 's web_state \<Rightarrow> web_response \<times> 's web_state" where
  "handleApiJobsPost E rq st =
     (if \<not> requestHasValidSession st rq then (unauthorized, st) else
      case (wJobs st, wOutbox st) of
        (Some jobs, Some outbox) \<Rightarrow>
          (case j_deserialize (weJson E) (wqPlain rq) of
             None \<Rightarrow> (error_text 400 ''invalid body'', st)
           | Some doc \<Rightarrow>
               let jid = json_or_str (weJson E) doc ''job_id'' [];
                   actionStr = json_or_str (weJson E) doc ''action'' []
               in if jid = [] then (error_text 400 ''invalid job_id/action'', st) else
               case parseApprovalAction actionStr of
                 None \<Rightarrow> (error_text 400 ''invalid job_id/action'', st)
               | Some act \<Rightarrow>
                   let (aid, st) = randomHex E kApprovalIdLen st;
                       (result, jobs, outbox) = enqueueApproval jobs outbox jid act aid (to_u32 (wqTime rq));
                       st = st\<lparr>wJobs := Some jobs, wOutbox := Some outbox\<rparr>
                   in if result = Ok then
                        let w = snd (saveApprovalOutbox (weSd E) (weJson E) (wWorld st) outbox);
                            w = snd (saveJobIndex (weSd E) (weJson E) w jobs)
                        in (status_ok, st\<lparr>wWorld := w\<rparr>)
                      else
                        let (code, err) =
                              (if result = UnknownJob then (404, ''unknown_job'')
                               else if result = OutboxFull then (409, ''outbox_full'')
                               else (409, ''already_pending''))
                        in (send_json code (JObj [(''error'', JStr err)]), st))
      | _ \<Rightarrow> (error_text 500 ''not ready'', st))"

section \<open>Streaming a job's file\<close>

definition kXtcStreamChunkBytes :: nat where "kXtcStreamChunkBytes = 2048"

text \<open>
  The read loop; \<open>pos\<close> is where the sequential reads are. \<open>None\<close> is a read that claims more bytes than
  it was asked for, which would send what lies behind the buffer.
\<close>

function stream_loop :: "'f file_ops \<Rightarrow> 'f \<Rightarrow> nat \<Rightarrow> nat \<Rightarrow> u8 list \<Rightarrow> u8 list option" where
  "stream_loop F f remaining pos sent =
     (if \<not> remaining > 0 then Some sent else
      let toRead = (if remaining < kXtcStreamChunkBytes then remaining else kXtcStreamChunkBytes);
          (n, buf) = f_read F f (word_of_nat pos) toRead
      in if n \<le> 0 then Some sent
         else if nat n > toRead then None
         else stream_loop F f (remaining - nat n) (pos + nat n) (sent @ take (nat n) buf))"
  by pat_completeness auto
termination
  by (relation "measure (\<lambda>(F, f, remaining, pos, sent). remaining)") auto

declare stream_loop.simps [simp del]

definition handleApiJobXtc :: "('s, 'c, 'v, 'f) web_env \<Rightarrow> 'c web_request \<Rightarrow> 's web_state \<Rightarrow> web_response option" where
  "handleApiJobXtc E rq st =
     (if \<not> requestHasValidSession st rq then Some unauthorized else
      case wJobs st of
        None \<Rightarrow> Some (error_text 500 ''not ready'')
      | Some jobs \<Rightarrow>
          (case JobIndex_entry jobs (c_str (wqArg rq ''job_id'')) of
             None \<Rightarrow> Some (error_text 404 ''unknown_job'')
           | Some entry \<Rightarrow>
               let F = weFiles E (wWorld st)
               in case f_open F (xtcPath entry) of
                 None \<Rightarrow> Some (error_text 500 ''io_error'')
               | Some f \<Rightarrow> map_option (\<lambda>sent. \<lparr>rpCode = 200, rpType = ''application/octet-stream'', rpHeaders = [],
                   rpLength = Some (unat (xtcBytes entry)), rpBody = Bytes sent\<rparr>)
                   (stream_loop F f (unat (xtcBytes entry)) 0 [])))"

end
