(* ===== verification/Web_Upload.thy ===== *)
theory Web_Upload
  imports Web_Api
begin

text \<open>
  The two streaming uploads of src/firmware/src/ui/WebUiServer.cpp. The library calls the data handler
  with each event of the multipart body and then the completion handler; the outcome is staged in the
  object's members. A write goes to the card with everything written so far, as a file that was
  truncated when it was opened; its result is ignored, as in the code. The completion handlers give
  \<open>None\<close> where the code would go through the null job index.
\<close>

section \<open>POST /api/upload/xtc\<close>

definition upload_write :: "('s, 'c, 'v, 'f) web_env \<Rightarrow> u32 \<Rightarrow> u8 list \<Rightarrow> upload_state \<Rightarrow> 's \<Rightarrow> upload_state \<times> 's" where
  "upload_write E maxBytes buf up w =
     (case upFile up of
        None \<Rightarrow> (up, w)
      | Some written \<Rightarrow>
          if \<not> upAuthorized up then (up, w)
          else if upBytes up + word_of_nat (length buf) > maxBytes then (up\<lparr>upTooLarge := True\<rparr>, w)
          else if upTooLarge up then (up, w)
          else let (ok, w) = sd_write (weSd E) w (upPath up) (weBytes E (written @ buf))
               in (up\<lparr>upFile := Some (if ok then written @ buf else written),
                     upBytes := upBytes up + word_of_nat (length buf)\<rparr>, w))"

definition upload_open :: "('s, 'c, 'v, 'f) web_env \<Rightarrow> upload_state \<Rightarrow> 's \<Rightarrow> upload_state \<times> 's" where
  "upload_open E up w =
     (let w = sd_mkdir (weSd E) w ''/inbox'';
          (ok, w) = sd_write (weSd E) w (upPath up) (weBytes E [])
      in if \<not> ok then (up\<lparr>upFile := None, upError := Some ''io_error''\<rparr>, w)
         else (up\<lparr>upFile := Some [], upAuthorized := True\<rparr>, w))"

definition upload_reset :: "upload_state \<Rightarrow> upload_state" where
  "upload_reset up = up\<lparr>upAuthorized := False, upTooLarge := False, upError := None, upBytes := 0\<rparr>"

definition handleUploadXtcData :: "('s, 'c, 'v, 'f) web_env \<Rightarrow> 'c web_request \<Rightarrow> upload_event \<Rightarrow> 's web_state \<Rightarrow> 's web_state" where
  "handleUploadXtcData E rq ev st =
     (case ev of
        UPLOAD_FILE_START \<Rightarrow>
          let up = upload_reset (upXtc st);
              fail = (\<lambda>e. st\<lparr>upXtc := up\<lparr>upError := Some e\<rparr>\<rparr>)
          in if \<not> requestHasValidSession st rq then fail ''unauthorized'' else
          (case wJobs st of
             None \<Rightarrow> fail ''not_ready''
           | Some jobs \<Rightarrow>
               if JobIndex_full jobs then fail ''inbox_full'' else
               let (jid, st) = randomHex E kJobIdLen st;
                   up = up\<lparr>upJobId := jid, upPath := take kPathLen (''/inbox/'' @ jid @ ''.xtc'')\<rparr>;
                   (up, w) = upload_open E up (wWorld st)
               in st\<lparr>upXtc := up, wWorld := w\<rparr>)
      | UPLOAD_FILE_WRITE buf \<Rightarrow>
          let (up, w) = upload_write E kMaxXtcUploadBytes buf (upXtc st) (wWorld st)
          in st\<lparr>upXtc := up, wWorld := w\<rparr>
      | UPLOAD_FILE_END \<Rightarrow> st\<lparr>upXtc := (upXtc st)\<lparr>upFile := None\<rparr>\<rparr>)"

text \<open>Every refusal of a completion handler removes the file at the upload's path.\<close>

definition upload_refuse :: "('s, 'c, 'v, 'f) web_env \<Rightarrow> web_response \<Rightarrow> string \<Rightarrow> 's web_state \<Rightarrow> web_response \<times> 's web_state" where
  "upload_refuse E rp path st = (rp, st\<lparr>wWorld := snd (sd_remove (weSd E) (wWorld st) path)\<rparr>)"

definition XtcReader_init :: "'f XtcReader" where
  "XtcReader_init = \<lparr>rdFile = None, rdOpen = False, rdHeader = XtcHeader_init, rdTitle = [], rdAuthor = []\<rparr>"

text \<open>The reader's page count, 0 when the file does not open as an XTC file.\<close>

definition reader_page_count :: "'f file_ops \<Rightarrow> string \<Rightarrow> u16" where
  "reader_page_count F path =
     (let (ok, r) = XtcReader_open F XtcReader_init path in if ok then xtcPageCount (rdHeader r) else 0)"

definition uploaded_entry :: "upload_state \<Rightarrow> u16 \<Rightarrow> 'c web_request \<Rightarrow> JobEntry" where
  "uploaded_entry up pages rq =
     (let ttl = wqArg rq ''title'';
          ttl = (if ttl = [] then ''Untitled'' else ttl)
      in JobEntry_init\<lparr>
        jobId := strncpy kJobIdLen (upJobId up),
        title := take kTitleLen ttl,
        xtcPath := strncpy kPathLen (upPath up),
        xtcBytes := upBytes up,
        pageCount := pages,
        createdAt := to_u32 (wqTime rq),
        status := Downloaded\<rparr>)"

definition handleUploadXtcComplete :: "('s, 'c, 'v, 'f) web_env \<Rightarrow> 'c web_request \<Rightarrow> 's web_state \<Rightarrow>
    (web_response \<times> 's web_state) option" where
  "handleUploadXtcComplete E rq st =
     (let up = upXtc st in
      if \<not> requestHasValidSession st rq then Some (unauthorized, st) else
      if \<not> upAuthorized up then
        Some (upload_refuse E (send_json (if upError up = Some ''inbox_full'' then 409 else 400)
          (JObj [(''error'', JStr (case upError up of Some e \<Rightarrow> e | None \<Rightarrow> ''upload_failed''))])) (upPath up) st) else
      if upTooLarge up then Some (upload_refuse E (error_text 413 ''too_large'') (upPath up) st) else
      if upBytes up = 0 then Some (upload_refuse E (error_text 400 ''empty_upload'') (upPath up) st) else
      let pages = reader_page_count (weFiles E (wWorld st)) (upPath up) in
      if pages = 0 then Some (upload_refuse E (error_text 400 ''invalid_xtc'') (upPath up) st) else
      let entry = uploaded_entry up pages rq
      in case wJobs st of
        None \<Rightarrow> None
      | Some jobs \<Rightarrow>
          let (stored, jobs) = JobIndex_upsert jobs entry
          in if \<not> stored then Some (upload_refuse E (error_text 409 ''inbox_full'') (upPath up) st)
             else Some (send_json 200 (JObj [(''job_id'', JStr (jobId entry))]),
               st\<lparr>wJobs := Some jobs, wWorld := snd (saveJobIndex (weSd E) (weJson E) (wWorld st) jobs)\<rparr>))"

section \<open>POST /api/upload/original\<close>

definition original_ext :: "string \<Rightarrow> string option" where
  "original_ext mime =
     (if mime = ''image/jpeg'' then Some ''jpg'' else if mime = ''image/png'' then Some ''png'' else None)"

definition handleUploadOriginalData :: "('s, 'c, 'v, 'f) web_env \<Rightarrow> 'c web_request \<Rightarrow> upload_event \<Rightarrow> 's web_state \<Rightarrow> 's web_state" where
  "handleUploadOriginalData E rq ev st =
     (case ev of
        UPLOAD_FILE_START \<Rightarrow>
          let up = upload_reset (upOriginal st);
              fail = (\<lambda>e. st\<lparr>upOriginal := up\<lparr>upError := Some e\<rparr>\<rparr>)
          in if \<not> requestHasValidSession st rq then fail ''unauthorized'' else
          (case wJobs st of
             None \<Rightarrow> fail ''not_ready''
           | Some jobs \<Rightarrow>
               let jid = c_str (wqArg rq ''job_id'') in
               if JobIndex_find jobs jid = None then fail ''unknown_job'' else
               let mime = wqArg rq ''mime'' in
               case original_ext mime of
                 None \<Rightarrow> fail ''unsupported_mime''
               | Some ext \<Rightarrow>
                   let uid = strncpy kJobIdLen jid;
                       up = up\<lparr>upJobId := uid, upMime := take 23 mime,
                         upPath := take kPathLen (''/inbox/'' @ uid @ ''_orig.'' @ ext)\<rparr>;
                       (up, w) = upload_open E up (wWorld st)
                   in st\<lparr>upOriginal := up, wWorld := w\<rparr>)
      | UPLOAD_FILE_WRITE buf \<Rightarrow>
          let (up, w) = upload_write E kMaxOriginalUploadBytes buf (upOriginal st) (wWorld st)
          in st\<lparr>upOriginal := up, wWorld := w\<rparr>
      | UPLOAD_FILE_END \<Rightarrow> st\<lparr>upOriginal := (upOriginal st)\<lparr>upFile := None\<rparr>\<rparr>)"

definition handleUploadOriginalComplete :: "('s, 'c, 'v, 'f) web_env \<Rightarrow> 'c web_request \<Rightarrow> 's web_state \<Rightarrow>
    (web_response \<times> 's web_state) option" where
  "handleUploadOriginalComplete E rq st =
     (let up = upOriginal st in
      if \<not> requestHasValidSession st rq then Some (unauthorized, st) else
      if \<not> upAuthorized up then
        let rp = send_json (if upError up = Some ''unknown_job'' then 404 else 400)
              (JObj [(''error'', JStr (case upError up of Some e \<Rightarrow> e | None \<Rightarrow> ''upload_failed''))])
        in Some (if upPath up \<noteq> [] then upload_refuse E rp (upPath up) st else (rp, st)) else
      if upTooLarge up then Some (upload_refuse E (error_text 413 ''too_large'') (upPath up) st) else
      if upBytes up = 0 then Some (upload_refuse E (error_text 400 ''empty_upload'') (upPath up) st) else
      case wJobs st of
        None \<Rightarrow> None
      | Some jobs \<Rightarrow>
          (case JobIndex_find jobs (upJobId up) of
             None \<Rightarrow> Some (upload_refuse E (error_text 404 ''unknown_job'') (upPath up) st)
           | Some i \<Rightarrow>
               let jobs = jobs[i := (jobs ! i)\<lparr>originalPending := True,
                     originalPath := strncpy kPathLen (upPath up),
                     originalMime := strncpy 23 (upMime up),
                     originalBytes := upBytes up\<rparr>]
               in Some (status_ok,
                    st\<lparr>wJobs := Some jobs, wWorld := snd (saveJobIndex (weSd E) (weJson E) (wWorld st) jobs)\<rparr>)))"

end
