(* ===== verification/Web_Server.thy ===== *)
theory Web_Server
  imports Web_Upload
begin

text \<open>
  Dispatching of src/firmware/src/ui/WebUiServer.cpp (the routes of \<open>beginCommon()\<close> and \<open>handleClient()\<close>), and
  what the server as a whole guarantees over any sequence of requests.
\<close>

section \<open>Dispatch\<close>

datatype web_route = RRoot | RLogin | RStatus | RDiag | RPlanner | RTasks | RJobs | RJobsPost | RJobXtc
  | RDecoderWasm | RDecoderJs | REncoderWasm | REncoderJs | RUploadXtc | RUploadOriginal

definition web_routes :: "(string \<times> http_verb \<times> web_route) list" where
  "web_routes = [
     (''/'', HTTP_GET, RRoot),
     (''/login'', HTTP_POST, RLogin),
     (''/api/status'', HTTP_GET, RStatus),
     (''/api/diag'', HTTP_GET, RDiag),
     (''/planner'', HTTP_GET, RPlanner),
     (''/api/planner/tasks'', HTTP_GET, RTasks),
     (''/api/jobs'', HTTP_GET, RJobs),
     (''/api/jobs'', HTTP_POST, RJobsPost),
     (''/api/jobs/xtc'', HTTP_GET, RJobXtc),
     (''/xtc-decoder.wasm'', HTTP_GET, RDecoderWasm),
     (''/xtc-decoder.js'', HTTP_GET, RDecoderJs),
     (''/xtc-encoder.wasm'', HTTP_GET, REncoderWasm),
     (''/xtc-encoder.js'', HTTP_GET, REncoderJs),
     (''/api/upload/xtc'', HTTP_POST, RUploadXtc),
     (''/api/upload/original'', HTTP_POST, RUploadOriginal)]"

text \<open>\<open>None\<close> is the handler of \<^verbatim>\<open>onNotFound\<close>.\<close>

definition find_route :: "'s web_state \<Rightarrow> 'c web_request \<Rightarrow> web_route option" where
  "find_route st rq =
     (if \<not> routesRegistered st then None
      else map_option (\<lambda>r. snd (snd r)) (find (\<lambda>r. fst r = wqUri rq \<and> fst (snd r) = wqVerb rq) web_routes))"

definition run_route :: "('s, 'c, 'v, 'f) web_env \<Rightarrow> web_route option \<Rightarrow> 'c web_request \<Rightarrow> 's web_state \<Rightarrow>
    (web_response \<times> 's web_state) option" where
  "run_route E route rq st =
     (case route of
        None \<Rightarrow> Some (handleNotFound, st)
      | Some r \<Rightarrow>
          (case r of
             RRoot \<Rightarrow> Some (handleRoot E rq st, st)
           | RLogin \<Rightarrow> Some (handleLogin rq st, st)
           | RStatus \<Rightarrow> Some (handleApiStatus E rq st, st)
           | RDiag \<Rightarrow> Some (handleApiDiag rq st, st)
           | RPlanner \<Rightarrow> Some (handlePlannerPage E rq st, st)
           | RTasks \<Rightarrow> Some (handleApiPlannerTasksGet rq st, st)
           | RJobs \<Rightarrow> Some (handleApiJobsGet rq st, st)
           | RJobsPost \<Rightarrow> Some (handleApiJobsPost E rq st)
           | RJobXtc \<Rightarrow> map_option (\<lambda>rp. (rp, st)) (handleApiJobXtc E rq st)
           | RDecoderWasm \<Rightarrow> Some (handleXtcDecoderWasm E rq st, st)
           | RDecoderJs \<Rightarrow> Some (handleXtcDecoderJs E rq st, st)
           | REncoderWasm \<Rightarrow> Some (handleXtcEncoderWasm E rq st, st)
           | REncoderJs \<Rightarrow> Some (handleXtcEncoderJs E rq st, st)
           | RUploadXtc \<Rightarrow> handleUploadXtcComplete E rq st
           | RUploadOriginal \<Rightarrow> handleUploadOriginalComplete E rq st))"

text \<open>The events of the body, which only the two upload routes take.\<close>

definition upload_events :: "('s, 'c, 'v, 'f) web_env \<Rightarrow> web_route option \<Rightarrow> 'c web_request \<Rightarrow> 's web_state \<Rightarrow> 's web_state" where
  "upload_events E route rq st =
     (if route = Some RUploadXtc then fold (handleUploadXtcData E rq) (wqUploads rq) st
      else if route = Some RUploadOriginal then fold (handleUploadOriginalData E rq) (wqUploads rq) st
      else st)"

text \<open>One pending request; an aborted upload gets no completion and no answer.\<close>

definition handleClient :: "('s, 'c, 'v, 'f) web_env \<Rightarrow> 'c web_request \<Rightarrow> 's web_state \<Rightarrow>
    (web_response option \<times> 's web_state) option" where
  "handleClient E rq st =
     (if webMode st = Off then Some (None, st) else
      let route = find_route st rq;
          st = upload_events E route rq st
      in if wqAborted rq then Some (None, st)
         else case run_route E route rq (markActivity st) of
           None \<Rightarrow> None
         | Some (rp, st) \<Rightarrow> Some (Some rp, st))"

text \<open>A session of requests: the answers in order and the state after the last.\<close>

fun serve :: "('s, 'c, 'v, 'f) web_env \<Rightarrow> 'c web_request list \<Rightarrow> 's web_state \<Rightarrow> (web_response option list \<times> 's web_state) option" where
  "serve E [] st = Some ([], st)"
| "serve E (rq # rqs) st =
     (case handleClient E rq st of
        None \<Rightarrow> None
      | Some (rp, st) \<Rightarrow>
          (case serve E rqs st of
             None \<Rightarrow> None
           | Some (rps, st) \<Rightarrow> Some (rp # rps, st)))"

section \<open>What a stranger sees\<close>

text \<open>
  Everything but the upload flags and the activity flag: the card and the radio, the jobs, the outbox,
  the settings, the secrets and the random numbers drawn.
\<close>

definition same_but_flags :: "'s web_state \<Rightarrow> 's web_state \<Rightarrow> bool" where
  "same_but_flags a b \<longleftrightarrow>
     b = a\<lparr>upXtc := upXtc b, upOriginal := upOriginal b, activityFlag := activityFlag b\<rparr>"

lemma same_but_flags_refl [simp]: "same_but_flags a a"
  by (simp add: same_but_flags_def)

lemma same_but_flags_trans: "same_but_flags a b \<Longrightarrow> same_but_flags b c \<Longrightarrow> same_but_flags a c"
  by (cases a; cases b; cases c) (simp add: same_but_flags_def)

lemma same_but_flags_updates:
  "same_but_flags a (a\<lparr>upXtc := x\<rparr>)" "same_but_flags a (a\<lparr>upOriginal := y\<rparr>)" "same_but_flags a (markActivity a)"
  by (simp_all add: same_but_flags_def markActivity_def)

lemma same_but_flagsD:
  assumes "same_but_flags a b"
  shows "webMode b = webMode a" "webPin b = webPin a" "sessionToken b = sessionToken a"
    "routesRegistered b = routesRegistered a" "wWorld b = wWorld a" "wJobs b = wJobs a" "wOutbox b = wOutbox a"
  using assms by (cases a; cases b; simp add: same_but_flags_def)+

lemma same_but_flags_session:
  "same_but_flags a b \<Longrightarrow> requestHasValidSession b rq = requestHasValidSession a rq"
  by (simp add: requestHasValidSession_def same_but_flagsD split: option.split)

text \<open>The library starts each part of a multipart body with its start event.\<close>

definition starts_parts :: "'c web_request \<Rightarrow> bool" where
  "starts_parts rq \<longleftrightarrow> (case wqUploads rq of [] \<Rightarrow> True | ev # evs \<Rightarrow> ev = UPLOAD_FILE_START)"

lemma stranger_xtc_event:
  assumes "\<not> requestHasValidSession st rq" and "ev = UPLOAD_FILE_START \<or> \<not> upAuthorized (upXtc st)"
  shows "same_but_flags st (handleUploadXtcData E rq ev st) \<and> \<not> upAuthorized (upXtc (handleUploadXtcData E rq ev st))"
proof (cases ev)
  case (UPLOAD_FILE_WRITE buf)
  with assms obtain "\<not> upAuthorized (upXtc st)" by auto
  then have "fst (upload_write E m buf (upXtc st) w) = upXtc st" "snd (upload_write E m buf (upXtc st) w) = w" for m w
    by (auto simp: upload_write_def split: option.split)
  with UPLOAD_FILE_WRITE \<open>\<not> upAuthorized (upXtc st)\<close> show ?thesis
    by (simp add: handleUploadXtcData_def split_def)
qed (use assms in \<open>simp_all add: handleUploadXtcData_def Let_def upload_reset_def same_but_flags_updates\<close>)

lemma stranger_original_event:
  assumes "\<not> requestHasValidSession st rq" and "ev = UPLOAD_FILE_START \<or> \<not> upAuthorized (upOriginal st)"
  shows "same_but_flags st (handleUploadOriginalData E rq ev st) \<and>
    \<not> upAuthorized (upOriginal (handleUploadOriginalData E rq ev st))"
proof (cases ev)
  case (UPLOAD_FILE_WRITE buf)
  with assms obtain "\<not> upAuthorized (upOriginal st)" by auto
  then have "fst (upload_write E m buf (upOriginal st) w) = upOriginal st" "snd (upload_write E m buf (upOriginal st) w) = w" for m w
    by (auto simp: upload_write_def split: option.split)
  with UPLOAD_FILE_WRITE \<open>\<not> upAuthorized (upOriginal st)\<close> show ?thesis
    by (simp add: handleUploadOriginalData_def split_def)
qed (use assms in \<open>simp_all add: handleUploadOriginalData_def Let_def upload_reset_def same_but_flags_updates\<close>)

text \<open>One induction for both handlers: \<open>up\<close> selects the members the handler works on.\<close>

lemma stranger_fold:
  assumes step: "\<And>st ev. \<not> requestHasValidSession st rq \<Longrightarrow> ev = UPLOAD_FILE_START \<or> \<not> upAuthorized (up st) \<Longrightarrow>
      same_but_flags st (h ev st) \<and> \<not> upAuthorized (up (h ev st))"
    and no: "\<not> requestHasValidSession st rq"
    and "evs = [] \<or> hd evs = UPLOAD_FILE_START \<or> \<not> upAuthorized (up st)"
  shows "same_but_flags st (fold h evs st)"
  using no assms(3)
proof (induction evs arbitrary: st)
  case (Cons ev evs)
  from Cons.prems have s: "same_but_flags st (h ev st) \<and> \<not> upAuthorized (up (h ev st))"
    by (intro step) auto
  then have "same_but_flags (h ev st) (fold h evs (h ev st))"
    using Cons.prems(1) by (intro Cons.IH) (auto simp: same_but_flags_session)
  with s show ?case by (auto intro: same_but_flags_trans)
qed simp

lemma stranger_uploads:
  assumes no: "\<not> requestHasValidSession st rq" and parts: "starts_parts rq"
  shows "same_but_flags st (upload_events E route rq st)"
proof -
  have evs: "wqUploads rq = [] \<or> hd (wqUploads rq) = UPLOAD_FILE_START \<or> X" for X
    using parts by (auto simp: starts_parts_def split: list.splits)
  show ?thesis
    using stranger_fold [where up = upXtc and h = "handleUploadXtcData E rq", OF stranger_xtc_event no evs]
      stranger_fold [where up = upOriginal and h = "handleUploadOriginalData E rq", OF stranger_original_event no evs]
    by (simp add: upload_events_def)
qed

text \<open>What the server answers without a session: a function of the request and the fixed pages only.\<close>

definition public_answer :: "('s, 'c, 'v, 'f) web_env \<Rightarrow> web_route option \<Rightarrow> web_response" where
  "public_answer E route =
     (case route of
        None \<Rightarrow> handleNotFound
      | Some r \<Rightarrow>
          if r = RRoot then sendGzip 200 ''text/html'' (weAsset E ''kLoginPageHtmlGz'')
          else if r = RLogin then wrong_pin
          else if r = RPlanner then redirect_root []
          else unauthorized)"

lemma stranger_route:
  assumes "\<not> requestHasValidSession st rq" and "route = Some RLogin \<Longrightarrow> wqArg rq ''pin'' \<noteq> webPin st"
  shows "run_route E route rq st = Some (public_answer E route, st)"
proof (cases route)
  case (Some r)
  with assms show ?thesis
    by (cases r) (simp_all add: run_route_def public_answer_def handleRoot_def handleLogin_def handlePlannerPage_def
        handleApiStatus_def handleApiDiag_def handleApiPlannerTasksGet_def handleApiJobsGet_def handleApiJobsPost_def
        handleApiJobXtc_def handleXtcDecoderWasm_def handleXtcDecoderJs_def handleXtcEncoderWasm_def
        handleXtcEncoderJs_def static_asset_def handleUploadXtcComplete_def handleUploadOriginalComplete_def)
qed (simp add: run_route_def public_answer_def)

definition stranger :: "'s web_state \<Rightarrow> 'c web_request \<Rightarrow> bool" where
  "stranger st rq \<longleftrightarrow> \<not> requestHasValidSession st rq \<and> starts_parts rq \<and>
     (find_route st rq = Some RLogin \<longrightarrow> wqArg rq ''pin'' \<noteq> webPin st)"

lemma stranger_same:
  "same_but_flags a b \<Longrightarrow> stranger b rq = stranger a rq" "same_but_flags a b \<Longrightarrow> find_route b rq = find_route a rq"
  by (auto simp: stranger_def find_route_def same_but_flagsD same_but_flags_session)

definition public_reply :: "('s, 'c, 'v, 'f) web_env \<Rightarrow> 's web_state \<Rightarrow> 'c web_request \<Rightarrow> web_response option" where
  "public_reply E st rq =
     (if webMode st = Off \<or> wqAborted rq then None else Some (public_answer E (find_route st rq)))"

lemma stranger_request:
  assumes "stranger st rq"
  shows "\<exists>st'. handleClient E rq st = Some (public_reply E st rq, st') \<and> same_but_flags st st'"
proof (cases "webMode st = Off")
  case True
  then show ?thesis by (simp add: handleClient_def public_reply_def)
next
  case False
  let ?st = "upload_events E (find_route st rq) rq st"
  have "same_but_flags st ?st"
    using assms by (intro stranger_uploads) (simp_all add: stranger_def)
  then have s: "same_but_flags st (markActivity ?st)"
    by (rule same_but_flags_trans) (rule same_but_flags_updates)
  then have "run_route E (find_route st rq) rq (markActivity ?st) = Some (public_answer E (find_route st rq), markActivity ?st)"
    using assms s by (intro stranger_route) (auto simp: stranger_def same_but_flagsD same_but_flags_session)
  with s \<open>same_but_flags st ?st\<close> False show ?thesis by (auto simp: handleClient_def public_reply_def Let_def)
qed

lemma stranger_serve:
  assumes "\<forall>rq \<in> set rqs. stranger st rq"
  shows "\<exists>st'. serve E rqs st = Some (map (public_reply E st) rqs, st') \<and> same_but_flags st st'"
  using assms
proof (induction rqs arbitrary: st)
  case (Cons rq rqs)
  obtain st1 where one: "handleClient E rq st = Some (public_reply E st rq, st1)" "same_but_flags st st1"
    using stranger_request Cons.prems by (metis list.set_intros(1))
  have "\<forall>rq \<in> set rqs. stranger st1 rq"
    using Cons.prems by (simp add: stranger_same(1) [OF one(2)])
  then obtain st2 where two: "serve E rqs st1 = Some (map (public_reply E st1) rqs, st2)" "same_but_flags st1 st2"
    using Cons.IH by blast
  have "public_reply E st1 = public_reply E st"
    using one(2) by (simp add: public_reply_def fun_eq_iff stranger_same(2) same_but_flagsD(1))
  with one two show ?case by (auto intro: same_but_flags_trans)
qed simp

end
