(* ===== verification/Pomodoro.thy ===== *)
theory Pomodoro
  imports Job_Store
begin

text \<open>
  The Pomodoro session: src/firmware/src/pomodoro/PomodoroSession.h (the phase machine, its
  catch-up loop and its checkpoint arithmetic) and src/firmware/src/pomodoro/PomodoroSession.cpp
  (load and save). \<^verbatim>\<open>time_t\<close> is 64 bits on this target and every time here is a sum of an epoch
  time and a few minutes, so it is an \<open>int\<close>; the counters and minutes are the \<^verbatim>\<open>uint16_t\<close> of
  the code.
\<close>

section \<open>Data\<close>

datatype Phase = Idle | Work | Break | LongBreak

record PomodoroConfig =
  workMinutes :: u16
  breakMinutes :: u16
  longBreakMinutes :: u16
  sessionsBeforeLongBreak :: u16
  checkpointMinutes :: u16

definition PomodoroConfig_init :: PomodoroConfig where
  "PomodoroConfig_init = \<lparr>workMinutes = 25, breakMinutes = 5, longBreakMinutes = 15,
     sessionsBeforeLongBreak = 4, checkpointMinutes = 5\<rparr>"

record PomodoroState =
  phase :: Phase
  phaseStart :: int
  phaseEnd :: int
  completedWorkSessions :: u16
  config :: PomodoroConfig

definition PomodoroState_init :: PomodoroState where
  "PomodoroState_init = \<lparr>phase = Idle, phaseStart = 0, phaseEnd = 0, completedWorkSessions = 0,
     config = PomodoroConfig_init\<rparr>"

section \<open>Operations\<close>

definition durationSeconds :: "u16 \<Rightarrow> int" where
  "durationSeconds minutes = (if 0 < minutes then uint minutes else 1) * 60"

definition start :: "PomodoroState \<Rightarrow> int \<Rightarrow> PomodoroConfig \<Rightarrow> PomodoroState" where
  "start st now cfg = st\<lparr>phase := Work, phaseStart := now,
     phaseEnd := now + durationSeconds (workMinutes cfg), completedWorkSessions := 0, config := cfg\<rparr>"

definition stop :: "PomodoroState \<Rightarrow> PomodoroState" where
  "stop st = st\<lparr>phase := Idle, phaseStart := 0, phaseEnd := 0\<rparr>"

definition isActive :: "PomodoroState \<Rightarrow> bool" where
  "isActive st \<longleftrightarrow> phase st \<noteq> Idle"

definition transitionOnce :: "PomodoroState \<Rightarrow> PomodoroState" where
  "transitionOnce st =
     (let oldEnd = phaseEnd st; cfg = config st in
      case phase st of
        Idle \<Rightarrow> st
      | Work \<Rightarrow>
          let completed = completedWorkSessions st + 1;
              timeForLongBreak = 0 < sessionsBeforeLongBreak cfg \<and> completed mod sessionsBeforeLongBreak cfg = 0
          in if timeForLongBreak
             then st\<lparr>completedWorkSessions := completed, phase := LongBreak, phaseStart := oldEnd,
                     phaseEnd := oldEnd + durationSeconds (longBreakMinutes cfg)\<rparr>
             else st\<lparr>completedWorkSessions := completed, phase := Break, phaseStart := oldEnd,
                     phaseEnd := oldEnd + durationSeconds (breakMinutes cfg)\<rparr>
      | Break \<Rightarrow> st\<lparr>phase := Work, phaseStart := oldEnd, phaseEnd := oldEnd + durationSeconds (workMinutes cfg)\<rparr>
      | LongBreak \<Rightarrow> st\<lparr>completedWorkSessions := 0, phase := Work, phaseStart := oldEnd,
                       phaseEnd := oldEnd + durationSeconds (workMinutes cfg)\<rparr>)"

definition kMaxIterations :: nat where "kMaxIterations = 1000"

text \<open>The catch-up loop; the counter is the iterations left, the result says if one ran.\<close>

fun advance_loop :: "nat \<Rightarrow> int \<Rightarrow> bool \<Rightarrow> PomodoroState \<Rightarrow> bool \<times> PomodoroState" where
  "advance_loop 0 now transitioned st = (transitioned, st)"
| "advance_loop (Suc i) now transitioned st =
     (if now \<ge> phaseEnd st then advance_loop i now True (transitionOnce st) else (transitioned, st))"

definition advance :: "PomodoroState \<Rightarrow> int \<Rightarrow> bool \<times> PomodoroState" where
  "advance st now = (if phase st = Idle then (False, st) else advance_loop kMaxIterations now False st)"

definition remainingSeconds :: "PomodoroState \<Rightarrow> int \<Rightarrow> u32" where
  "remainingSeconds st now =
     (if phase st = Idle then 0 else if now \<ge> phaseEnd st then 0 else to_u32 (phaseEnd st - now))"

definition secondsUntilNextCheckpoint :: "PomodoroState \<Rightarrow> int \<Rightarrow> u32 option" where
  "secondsUntilNextCheckpoint st now =
     (if phase st = Idle then None
      else if now \<ge> phaseEnd st then Some 0
      else if checkpointMinutes (config st) = 0 then Some (to_u32 (phaseEnd st - now))
      else
        let checkpointSeconds = uint (checkpointMinutes (config st)) * 60;
            elapsed = (if now > phaseStart st then now - phaseStart st else 0);
            nextBoundary = phaseStart st + (c_div elapsed checkpointSeconds + 1) * checkpointSeconds;
            wakeAt = (if nextBoundary < phaseEnd st then nextBoundary else phaseEnd st)
        in if wakeAt \<le> now then Some 0 else Some (to_u32 (wakeAt - now)))"

section \<open>SD persistence\<close>

definition kPomodoroStatePath :: string where
  "kPomodoroStatePath = ''/pomodoro/state.json''"

definition phase_of_u8 :: "u8 \<Rightarrow> Phase" where
  "phase_of_u8 rawPhase =
     (if rawPhase = 0 then Idle else if rawPhase = 1 then Work else if rawPhase = 2 then Break
      else if rawPhase = 3 then LongBreak else Idle)"

fun u8_of_phase :: "Phase \<Rightarrow> u8" where
  "u8_of_phase Idle = 0"
| "u8_of_phase Work = 1"
| "u8_of_phase Break = 2"
| "u8_of_phase LongBreak = 3"

definition pomodoro_of_json :: "('c, 'v) json_lib \<Rightarrow> 'v \<Rightarrow> PomodoroState" where
  "pomodoro_of_json J doc = \<lparr>
     phase = phase_of_u8 (word_of_int (json_or_int J doc ''phase'' 0)),
     phaseStart = json_or_int J doc ''phase_start'' 0,
     phaseEnd = json_or_int J doc ''phase_end'' 0,
     completedWorkSessions = word_of_int (json_or_int J doc ''completed_work_sessions'' 0),
     config = \<lparr>
       workMinutes = word_of_int (json_or_int J doc ''work_minutes'' 25),
       breakMinutes = word_of_int (json_or_int J doc ''break_minutes'' 5),
       longBreakMinutes = word_of_int (json_or_int J doc ''long_break_minutes'' 15),
       sessionsBeforeLongBreak = word_of_int (json_or_int J doc ''sessions_before_long_break'' 4),
       checkpointMinutes = word_of_int (json_or_int J doc ''checkpoint_minutes'' 5)\<rparr>\<rparr>"

definition pomodoro_doc :: "PomodoroState \<Rightarrow> json_out" where
  "pomodoro_doc s = JObj [
     (''phase'', JInt (uint (u8_of_phase (phase s)))),
     (''phase_start'', JInt (uint (to_u32 (phaseStart s)))),
     (''phase_end'', JInt (uint (to_u32 (phaseEnd s)))),
     (''completed_work_sessions'', JInt (uint (completedWorkSessions s))),
     (''work_minutes'', JInt (uint (workMinutes (config s)))),
     (''break_minutes'', JInt (uint (breakMinutes (config s)))),
     (''long_break_minutes'', JInt (uint (longBreakMinutes (config s)))),
     (''sessions_before_long_break'', JInt (uint (sessionsBeforeLongBreak (config s)))),
     (''checkpoint_minutes'', JInt (uint (checkpointMinutes (config s))))]"

definition loadPomodoroSession :: "('s, 'c) sd_card \<Rightarrow> ('c, 'v) json_lib \<Rightarrow> 's \<Rightarrow> PomodoroState \<Rightarrow>
    bool \<times> PomodoroState" where
  "loadPomodoroSession sd J s session =
     (if \<not> sd_exists sd s kPomodoroStatePath then (False, session)
      else let raw = sd_read sd s kPomodoroStatePath
        in if j_isEmpty J raw then (False, session)
           else case j_deserialize J raw of
             None \<Rightarrow> (False, session)
           | Some doc \<Rightarrow> (True, pomodoro_of_json J doc))"

definition savePomodoroSession :: "('s, 'c) sd_card \<Rightarrow> ('c, 'v) json_lib \<Rightarrow> 's \<Rightarrow> PomodoroState \<Rightarrow> bool \<times> 's" where
  "savePomodoroSession sd J s session =
     (let out = j_serialize J (pomodoro_doc session)
      in writeFileAtomic sd (sd_mkdir sd s ''/pomodoro'') kPomodoroStatePath out)"

section \<open>The phase machine\<close>

text \<open>A whole session: started, stopped, and advanced at whatever times the device is awake.\<close>

inductive pomo_step :: "PomodoroState \<Rightarrow> PomodoroState \<Rightarrow> bool" where
  do_start: "pomo_step st (start st now cfg)"
| do_stop: "pomo_step st (stop st)"
| do_transition: "phase st \<noteq> Idle \<Longrightarrow> pomo_step st (transitionOnce st)"

definition phaseMinutes :: "PomodoroState \<Rightarrow> u16" where
  "phaseMinutes st = (case phase st of Work \<Rightarrow> workMinutes (config st) | Break \<Rightarrow> breakMinutes (config st)
     | LongBreak \<Rightarrow> longBreakMinutes (config st) | Idle \<Rightarrow> 0)"

definition pomo_inv :: "PomodoroState \<Rightarrow> bool" where
  "pomo_inv st \<longleftrightarrow>
     (phase st \<noteq> Idle \<longrightarrow> phaseEnd st = phaseStart st + durationSeconds (phaseMinutes st)) \<and>
     (0 < sessionsBeforeLongBreak (config st) \<longrightarrow>
        (phase st = Work \<longrightarrow> completedWorkSessions st < sessionsBeforeLongBreak (config st)) \<and>
        (phase st = Break \<longrightarrow> 0 < completedWorkSessions st \<and>
           completedWorkSessions st < sessionsBeforeLongBreak (config st)) \<and>
        (phase st = LongBreak \<longrightarrow> completedWorkSessions st = sessionsBeforeLongBreak (config st)))"

lemma durationSeconds_ge [simp]: "60 \<le> durationSeconds m"
  by (auto simp: durationSeconds_def word_less_def)

lemma durationSeconds_pos [simp]: "0 < durationSeconds m"
  using durationSeconds_ge [of m] by linarith

lemma word_mod_self_less:
  fixes c n :: u16
  assumes "c < n"
  shows "(c + 1) mod n = 0 \<longleftrightarrow> c + 1 = n"
proof -
  have u: "uint (c + 1) = uint c + 1"
    using assms uint_bounded [of n] by (simp add: uint_word_ariths word_less_def)
  have "(c + 1) mod n = 0 \<longleftrightarrow> (uint c + 1) mod uint n = 0"
    by (simp add: word_uint_eq_iff uint_mod u)
  also have "\<dots> \<longleftrightarrow> uint c + 1 = uint n"
  proof
    assume m: "(uint c + 1) mod uint n = 0"
    have "uint c + 1 \<le> uint n" using assms by (simp add: word_less_def)
    moreover have "uint c + 1 < uint n \<Longrightarrow> uint c + 1 = 0"
      using m mod_pos_pos_trivial [of "uint c + 1" "uint n"] uint_ge_0 [of c] by simp
    ultimately show "uint c + 1 = uint n" using uint_ge_0 [of c] by linarith
  qed simp
  also have "\<dots> \<longleftrightarrow> c + 1 = n" by (simp add: word_uint_eq_iff u)
  finally show ?thesis .
qed

lemma word_Suc_le:
  fixes c n :: u16
  assumes "c < n"
  shows "0 < c + 1" and "c + 1 \<noteq> n \<Longrightarrow> c + 1 < n"
proof -
  have u: "uint (c + 1) = uint c + 1"
    using assms uint_bounded [of n] by (simp add: uint_word_ariths word_less_def)
  then show "0 < c + 1" by (simp add: word_less_def add_nonneg_pos)
  show "c + 1 \<noteq> n \<Longrightarrow> c + 1 < n"
    using assms by (auto simp: word_less_def u word_uint_eq_iff)
qed

lemma transitionOnce_inv: "pomo_inv st \<Longrightarrow> pomo_inv (transitionOnce st)"
proof (cases "phase st = Work \<and> 0 < sessionsBeforeLongBreak (config st)")
  case True
  assume "pomo_inv st"
  with True have "completedWorkSessions st < sessionsBeforeLongBreak (config st)"
    by (simp add: pomo_inv_def)
  then show ?thesis
    using True word_mod_self_less word_Suc_le
    by (simp add: pomo_inv_def transitionOnce_def Let_def phaseMinutes_def)
next
  case False
  then show "pomo_inv st \<Longrightarrow> ?thesis"
    by (cases "phase st") (auto simp: pomo_inv_def transitionOnce_def Let_def phaseMinutes_def)
qed

lemma pomo_step_inv: "pomo_step st st' \<Longrightarrow> pomo_inv st \<Longrightarrow> pomo_inv st'"
  by (induction rule: pomo_step.induct) (auto simp: transitionOnce_inv, auto simp: pomo_inv_def start_def stop_def phaseMinutes_def)

lemma pomo_inv_init: "pomo_inv PomodoroState_init"
  by (simp add: pomo_inv_def PomodoroState_init_def)

lemma pomo_reach_inv: "pomo_step\<^sup>*\<^sup>* PomodoroState_init st \<Longrightarrow> pomo_inv st"
  by (induction rule: rtranclp_induct) (simp_all add: pomo_inv_init pomo_step_inv)

section \<open>Catching up\<close>

lemma transitionOnce_end:
  "phase st \<noteq> Idle \<Longrightarrow> phaseStart (transitionOnce st) = phaseEnd st \<and>
     phaseEnd st + 60 \<le> phaseEnd (transitionOnce st) \<and> phase (transitionOnce st) \<noteq> Idle"
  by (cases "phase st") (simp_all add: transitionOnce_def Let_def)

lemma transitionOnce_config [simp]: "config (transitionOnce st) = config st"
  by (cases "phase st") (simp_all add: transitionOnce_def Let_def)

lemma transition_pow_end:
  "phase st \<noteq> Idle \<Longrightarrow> phaseEnd st + 60 * int n \<le> phaseEnd ((transitionOnce ^^ n) st) \<and>
     phase ((transitionOnce ^^ n) st) \<noteq> Idle"
proof (induction n)
  case (Suc n)
  then show ?case using transitionOnce_end [of "(transitionOnce ^^ n) st"] by auto
qed simp

lemma advance_loop_pow:
  "phase st \<noteq> Idle \<Longrightarrow> \<exists>n \<le> k. advance_loop k now b st = (b \<or> 0 < n, (transitionOnce ^^ n) st) \<and>
     (\<forall>m < n. phaseEnd ((transitionOnce ^^ m) st) \<le> now) \<and>
     (n < k \<longrightarrow> now < phaseEnd ((transitionOnce ^^ n) st))"
proof (induction k arbitrary: st b)
  case 0
  then show ?case by simp
next
  case (Suc k)
  show ?case
  proof (cases "now < phaseEnd st")
    case True
    then show ?thesis by (intro exI [of _ 0]) auto
  next
    case False
    have act: "phase (transitionOnce st) \<noteq> Idle" using transitionOnce_end [OF Suc.prems] by simp
    from Suc.IH [OF act, of True] obtain n where n: "n \<le> k"
      "advance_loop k now True (transitionOnce st) = (True, (transitionOnce ^^ n) (transitionOnce st))"
      "\<forall>m < n. phaseEnd ((transitionOnce ^^ m) (transitionOnce st)) \<le> now"
      "n < k \<longrightarrow> now < phaseEnd ((transitionOnce ^^ n) (transitionOnce st))"
      by auto
    have "\<forall>m < Suc n. phaseEnd ((transitionOnce ^^ m) st) \<le> now"
    proof (intro allI impI)
      fix m assume "m < Suc n"
      with n(3) False show "phaseEnd ((transitionOnce ^^ m) st) \<le> now"
        by (cases m) (simp_all add: funpow_swap1)
    qed
    with n False show ?thesis
      by (intro exI [of _ "Suc n"]) (simp add: funpow_swap1)
  qed
qed

text \<open>
  The abstract schedule: the phase in force at a time is the first one of the sequence that
  ends later. \<open>advance\<close> reaches it whenever fewer than 1000 transitions are due.
\<close>

definition in_force :: "PomodoroState \<Rightarrow> int \<Rightarrow> nat \<Rightarrow> bool" where
  "in_force st now n \<longleftrightarrow> (\<forall>m < n. phaseEnd ((transitionOnce ^^ m) st) \<le> now) \<and>
     now < phaseEnd ((transitionOnce ^^ n) st)"

lemma in_force_unique: "in_force st now n \<Longrightarrow> in_force st now k \<Longrightarrow> n = k"
  unfolding in_force_def by (metis linorder_neqE_nat not_less)

lemma advance_in_force:
  assumes act: "phase st \<noteq> Idle" and near: "now < phaseEnd st + 60 * int kMaxIterations"
  obtains n where "in_force st now n" "advance st now = (0 < n, (transitionOnce ^^ n) st)"
proof -
  from advance_loop_pow [OF act, of kMaxIterations now False]
  obtain n where n: "n \<le> kMaxIterations"
    "advance_loop kMaxIterations now False st = (0 < n, (transitionOnce ^^ n) st)"
    "\<forall>m < n. phaseEnd ((transitionOnce ^^ m) st) \<le> now"
    "n < kMaxIterations \<longrightarrow> now < phaseEnd ((transitionOnce ^^ n) st)" by auto
  have "now < phaseEnd ((transitionOnce ^^ n) st)"
  proof (cases "n < kMaxIterations")
    case False
    with n(1) have "n = kMaxIterations" by simp
    with near transition_pow_end [OF act, of n] show ?thesis by simp
  qed (use n(4) in simp)
  with n act show thesis by (intro that) (simp_all add: in_force_def advance_def)
qed

text \<open>However often the device woke up in between, the session ends in the same state.\<close>

lemma in_force_comp:
  assumes "in_force st t1 n" and "in_force ((transitionOnce ^^ n) st) t2 k" and "t1 \<le> t2"
  shows "in_force st t2 (n + k)"
proof -
  have "phaseEnd ((transitionOnce ^^ m) st) \<le> t2" if "m < n + k" for m
  proof (cases "m < n")
    case True
    with assms(1,3) show ?thesis by (force simp: in_force_def)
  next
    case False
    with that have "(transitionOnce ^^ m) st = (transitionOnce ^^ (m - n)) ((transitionOnce ^^ n) st)"
      by (metis add.commute funpow_add le_add_diff_inverse not_less o_apply)
    with False that assms(2) show ?thesis by (simp add: in_force_def)
  qed
  moreover have "(transitionOnce ^^ (n + k)) st = (transitionOnce ^^ k) ((transitionOnce ^^ n) st)"
    by (metis add.commute funpow_add o_apply)
  ultimately show ?thesis using assms(2) by (simp add: in_force_def)
qed

lemma advance_compose:
  assumes act: "phase st \<noteq> Idle" and le: "t1 \<le> t2" and near: "t2 < phaseEnd st + 60 * int kMaxIterations"
  shows "snd (advance (snd (advance st t1)) t2) = snd (advance st t2)"
proof -
  from le near have near1: "t1 < phaseEnd st + 60 * int kMaxIterations" by simp
  obtain n where n: "in_force st t1 n" "advance st t1 = (0 < n, (transitionOnce ^^ n) st)"
    by (rule advance_in_force [OF act near1])
  obtain m where m: "in_force st t2 m" "advance st t2 = (0 < m, (transitionOnce ^^ m) st)"
    by (rule advance_in_force [OF act near])
  have act1: "phase ((transitionOnce ^^ n) st) \<noteq> Idle" and "phaseEnd st \<le> phaseEnd ((transitionOnce ^^ n) st)"
    using transition_pow_end [OF act, of n] by auto
  then have "t2 < phaseEnd ((transitionOnce ^^ n) st) + 60 * int kMaxIterations" using near by linarith
  from advance_in_force [OF act1 this] obtain k where
    k: "in_force ((transitionOnce ^^ n) st) t2 k"
      "advance ((transitionOnce ^^ n) st) t2 = (0 < k, (transitionOnce ^^ k) ((transitionOnce ^^ n) st))" by auto
  have "m = n + k" using in_force_unique [OF m(1) in_force_comp [OF n(1) k(1) le]] .
  then have "(transitionOnce ^^ m) st = (transitionOnce ^^ k) ((transitionOnce ^^ n) st)"
    by (metis add.commute funpow_add o_apply)
  then show ?thesis by (simp add: n(2) m(2) k(2))
qed

section \<open>The next checkpoint\<close>

definition checkpoint_at :: "PomodoroState \<Rightarrow> int \<Rightarrow> bool" where
  "checkpoint_at st t \<longleftrightarrow> t = phaseEnd st \<or>
     0 < checkpointMinutes (config st) \<and> phaseStart st < t \<and>
       (t - phaseStart st) mod (uint (checkpointMinutes (config st)) * 60) = 0"

lemma next_multiple:
  fixes c e :: int
  assumes "0 < c" and "0 \<le> e"
  shows "e < (e div c + 1) * c" and "e < x \<Longrightarrow> x < (e div c + 1) * c \<Longrightarrow> x mod c \<noteq> 0"
proof -
  have e: "e = e div c * c + e mod c" by simp
  have r: "0 \<le> e mod c" "e mod c < c" using assms by simp_all
  show "e < (e div c + 1) * c" using e r(2) unfolding distrib_right by linarith
  assume x: "e < x" "x < (e div c + 1) * c"
  have "e div c * c < x" using e r x(1) by linarith
  show "x mod c \<noteq> 0"
  proof
    assume "x mod c = 0"
    then obtain k where k: "x = k * c" by (metis mod_0_imp_dvd dvd_def mult.commute)
    with \<open>e div c * c < x\<close> x(2) assms(1) have "e div c < k" "k < e div c + 1"
      by (auto simp: mult_less_cancel_right)
    then show False by simp
  qed
qed

lemma next_checkpoint:
  assumes act: "phase st \<noteq> Idle" and now: "phaseStart st \<le> now" "now < phaseEnd st"
    and near: "phaseEnd st - now < 2 ^ 32"
  obtains s where "secondsUntilNextCheckpoint st now = Some s" "0 < uint s" "uint s \<le> phaseEnd st - now"
    "checkpoint_at st (now + uint s)" "\<And>t. now < t \<Longrightarrow> t < now + uint s \<Longrightarrow> \<not> checkpoint_at st t"
proof (cases "checkpointMinutes (config st) = 0")
  case True
  have u: "uint (to_u32 (phaseEnd st - now)) = phaseEnd st - now"
    using now near by (intro uint_to_u32_diff) simp_all
  have "secondsUntilNextCheckpoint st now = Some (to_u32 (phaseEnd st - now))"
    using act now True by (simp add: secondsUntilNextCheckpoint_def)
  then show thesis
    by (rule that) (use now True in \<open>simp_all add: u checkpoint_at_def\<close>)
next
  case False
  define c where "c = uint (checkpointMinutes (config st)) * 60"
  define e where "e = now - phaseStart st"
  define nb where "nb = phaseStart st + (e div c + 1) * c"
  define w where "w = (if nb < phaseEnd st then nb else phaseEnd st)"
  have cpos: "0 < checkpointMinutes (config st)" using False by (simp add: word_gt_0)
  then have c: "0 < c" by (simp add: c_def word_less_def)
  have e: "0 \<le> e" using now by (simp add: e_def)
  have el: "(if now > phaseStart st then now - phaseStart st else 0) = e" using now by (simp add: e_def)
  have nb: "now < nb" using next_multiple(1) [OF c e] by (simp add: nb_def e_def)
  then have w: "now < w" "w \<le> phaseEnd st" using now by (simp_all add: w_def)
  have u: "uint (to_u32 (w - now)) = w - now"
    using w near by (intro uint_to_u32_diff) simp_all
  have eq: "secondsUntilNextCheckpoint st now = Some (to_u32 (w - now))"
    unfolding secondsUntilNextCheckpoint_def Let_def el c_def [symmetric] c_div_nonneg [OF e c]
      nb_def [symmetric] w_def [symmetric]
    using act now False w by simp
  have at: "checkpoint_at st w"
    using cpos nb now by (auto simp: w_def checkpoint_at_def c_def [symmetric]) (simp add: nb_def)
  have none: "\<not> checkpoint_at st t" if "now < t" "t < w" for t
  proof -
    have "t < nb" "t \<noteq> phaseEnd st" using that(2) by (auto simp: w_def split: if_splits)
    moreover have "(t - phaseStart st) mod c \<noteq> 0"
      by (rule next_multiple(2) [OF c e]) (use that \<open>t < nb\<close> in \<open>simp_all add: e_def nb_def\<close>)
    ultimately show ?thesis by (simp add: checkpoint_at_def c_def)
  qed
  show thesis by (rule that [OF eq]) (use w at none in \<open>simp_all add: u\<close>)
qed

section \<open>Save then load\<close>

lemma phase_roundtrip [simp]: "phase_of_u8 (u8_of_phase p) = p"
  by (cases p) (simp_all add: phase_of_u8_def)

text \<open>A time is saved as the \<^verbatim>\<open>uint32_t\<close> it is cast to and read as an \<^verbatim>\<open>int\<close>.\<close>

definition time_readable :: "int \<Rightarrow> int" where
  "time_readable t = (if t mod 2 ^ 32 < 2 ^ 31 then t mod 2 ^ 32 else 0)"

definition session_readable :: "PomodoroState \<Rightarrow> PomodoroState" where
  "session_readable st = st\<lparr>phaseStart := time_readable (phaseStart st), phaseEnd := time_readable (phaseEnd st)\<rparr>"

lemma time_readable_u32: "(if int_fits (uint (to_u32 t)) then uint (to_u32 t) else 0) = time_readable t"
proof -
  have "uint (to_u32 t) = t mod 2 ^ 32" by (simp add: to_u32_def uint_word_of_int)
  moreover have "0 \<le> t mod 2 ^ 32" by simp
  ultimately show ?thesis by (simp only: time_readable_def int_fits_def) auto
qed

lemma time_readable_small: "0 \<le> t \<Longrightarrow> t < 2 ^ 32 \<Longrightarrow> time_readable t = (if t < 2 ^ 31 then t else 0)"
  by (simp add: time_readable_def)

lemma pomodoro_json_roundtrip:
  assumes J: "json_laws J"
  shows "pomodoro_of_json J (j_val J (pomodoro_doc st)) = session_readable st"
  by (simp add: pomodoro_of_json_def pomodoro_doc_def json_read_back [OF J] time_readable_u32 session_readable_def
      del: word_of_int_uint)

lemma save_load_pomodoro:
  assumes sd: "sd_laws sd" and J: "json_laws J" and save: "savePomodoroSession sd J s st = (True, s')"
  shows "loadPomodoroSession sd J s' st0 = (True, session_readable st)"
proof -
  have f: "sd_files sd s' kPomodoroStatePath = Some (j_serialize J (pomodoro_doc st))"
    using writeFileAtomic_ok [OF sd save [unfolded savePomodoroSession_def Let_def]] by simp
  show ?thesis
    by (simp add: loadPomodoroSession_def sd_existsD [OF sd] f sd_readD [OF sd f] j_notEmptyD [OF J]
        j_roundtripD [OF J] pomodoro_json_roundtrip [OF J])
qed

section \<open>Properties\<close>

definition ex_session :: PomodoroState where
  "ex_session = start PomodoroState_init 1000 PomodoroConfig_init"

text \<open>C30: Catching up is independent of how often the device was awake: for fewer than 1000 minutes
  past the phase end, advancing at one time and again later gives the state of advancing once at
  the later time, and that state is the phase in force then: it ends after the later time, and
  every phase skipped ended at or before it.\<close>

theorem advance_catches_up:
  assumes "phase st \<noteq> Idle" and "t1 \<le> t2" and "t2 < phaseEnd st + 60000"
  shows "snd (advance (snd (advance st t1)) t2) = snd (advance st t2) \<and>
    (\<exists>n. advance st t2 = (0 < n, (transitionOnce ^^ n) st) \<and> t2 < phaseEnd (snd (advance st t2)) \<and>
       (\<forall>m < n. phaseEnd ((transitionOnce ^^ m) st) \<le> t2))"
proof -
  have near: "t2 < phaseEnd st + 60 * int kMaxIterations" using assms(3) by (simp add: kMaxIterations_def)
  from advance_compose [OF assms(1,2) near] advance_in_force [OF assms(1) near]
  show ?thesis by (metis in_force_def snd_conv)
qed

lemma advance_catches_up_witness:
  "snd (advance (snd (advance ex_session 3000)) 9000) = snd (advance ex_session 9000)"
  using advance_catches_up [of ex_session 3000 9000]
  by (simp add: ex_session_def start_def PomodoroConfig_init_def durationSeconds_def)

text \<open>In every state a session can reach, the current phase ends its configured minutes (at least
  one) after it began, and with a long break every n sessions the count of completed work
  sessions is below n in a work phase, between 1 and n - 1 in a break, and n in a long break.\<close>

theorem pomodoro_invariant:
  assumes "pomo_step\<^sup>*\<^sup>* PomodoroState_init st"
  shows "(phase st \<noteq> Idle \<longrightarrow> phaseEnd st = phaseStart st + durationSeconds (phaseMinutes st)) \<and>
    (0 < sessionsBeforeLongBreak (config st) \<longrightarrow>
        (phase st = Work \<longrightarrow> completedWorkSessions st < sessionsBeforeLongBreak (config st)) \<and>
        (phase st = Break \<longrightarrow> 0 < completedWorkSessions st \<and>
           completedWorkSessions st < sessionsBeforeLongBreak (config st)) \<and>
        (phase st = LongBreak \<longrightarrow> completedWorkSessions st = sessionsBeforeLongBreak (config st)))"
  using pomo_reach_inv [OF assms] by (simp add: pomo_inv_def)

lemma pomodoro_invariant_witness:
  "phaseEnd (transitionOnce ex_session) = phaseStart (transitionOnce ex_session) + 300"
proof -
  have "pomo_step PomodoroState_init ex_session" unfolding ex_session_def by (rule pomo_step.do_start)
  moreover have "pomo_step ex_session (transitionOnce ex_session)"
    by (rule pomo_step.do_transition) (simp add: ex_session_def start_def)
  ultimately have "pomo_step\<^sup>*\<^sup>* PomodoroState_init (transitionOnce ex_session)" by auto
  from pomodoro_invariant [OF this] show ?thesis
    by (simp add: ex_session_def start_def transitionOnce_def PomodoroConfig_init_def phaseMinutes_def durationSeconds_def)
qed

text \<open>While a phase runs, the seconds to the next checkpoint are positive, reach at most the phase
  end, land exactly on a multiple of the checkpoint interval from the phase start or on the phase
  end, and no such instant lies before.\<close>

theorem secondsUntilNextCheckpoint_next:
  assumes "phase st \<noteq> Idle" and "phaseStart st \<le> now" and "now < phaseEnd st" and "phaseEnd st - now < 2 ^ 32"
  shows "\<exists>s. secondsUntilNextCheckpoint st now = Some s \<and> 0 < uint s \<and> uint s \<le> uint (remainingSeconds st now) \<and>
    checkpoint_at st (now + uint s) \<and> (\<forall>t. now < t \<and> t < now + uint s \<longrightarrow> \<not> checkpoint_at st t)"
proof -
  have "uint (remainingSeconds st now) = phaseEnd st - now"
    using assms uint_to_u32_diff [of now "phaseEnd st"] by (simp add: remainingSeconds_def)
  then show ?thesis by (metis next_checkpoint [OF assms])
qed

lemma secondsUntilNextCheckpoint_next_witness:
  "\<exists>s. secondsUntilNextCheckpoint ex_session 1100 = Some s \<and> 0 < uint s"
  using secondsUntilNextCheckpoint_next [of ex_session 1100]
  by (simp add: ex_session_def start_def PomodoroConfig_init_def durationSeconds_def)
    (metis)

text \<open>A saved session is read back whole, but a phase boundary from 2038-01-19 on, although it fits the
  32 bits it is written in, comes back as 0.\<close>

theorem pomodoro_save_load:
  assumes "sd_laws sd" and "json_laws J"
    and "0 \<le> phaseStart st" "phaseStart st < 2 ^ 32" "0 \<le> phaseEnd st" "phaseEnd st < 2 ^ 32"
    and "savePomodoroSession sd J s st = (True, s')"
  shows "loadPomodoroSession sd J s' st0 =
    (True, st\<lparr>phaseStart := (if phaseStart st < 2 ^ 31 then phaseStart st else 0),
              phaseEnd := (if phaseEnd st < 2 ^ 31 then phaseEnd st else 0)\<rparr>)"
  using save_load_pomodoro [OF assms(1,2,7)] assms(3-6) by (simp add: session_readable_def time_readable_small)

lemma pomodoro_save_load_witness:
  "loadPomodoroSession mem_card plain_json (snd (savePomodoroSession mem_card plain_json Map.empty
     (ex_session\<lparr>phaseEnd := 2147483648\<rparr>))) PomodoroState_init = (True, ex_session\<lparr>phaseEnd := 0\<rparr>)"
proof -
  let ?st = "ex_session\<lparr>phaseEnd := 2147483648\<rparr>"
  obtain ok s' where r: "savePomodoroSession mem_card plain_json Map.empty ?st = (ok, s')" by force
  then have ok by (simp add: savePomodoroSession_def writeFileAtomic_def mem_card_def Let_def split: if_splits)
  then show ?thesis
    using pomodoro_save_load [OF mem_card_laws plain_json_laws, of ?st Map.empty s' PomodoroState_init] r
    by (simp add: ex_session_def start_def)
qed

end
