(* ===== verification/Wake_Schedule.thy ===== *)
theory Wake_Schedule
  imports Config_Stores Pomodoro
begin

text \<open>
  When to wake and why: src/firmware/src/calendar/WakeSchedule.h and WakeSchedule.cpp (calendar
  reminders), and src/firmware/src/power/SleepManager.cpp (the wake reason, and the timer armed
  before deep sleep).
\<close>

section \<open>Calendar reminders\<close>

datatype WakeAlertKind = NoAlert | BeforeStart | AtEnd

record WakeDecision =
  alert :: WakeAlertKind
  sleepSeconds :: u32

definition kMinSleepSeconds :: u32 where "kMinSleepSeconds = 30"

text \<open>
  The two targets are handled by the same code over different fields: given the target and the
  marker of what already fired, it yields whether it fires now, the new marker, and the
  seconds to sleep, shortened when the target lies ahead.
\<close>

definition wake_target :: "int \<Rightarrow> int \<Rightarrow> int \<Rightarrow> u32 \<Rightarrow> bool \<times> int \<times> u32" where
  "wake_target target alerted now secs =
     (if alerted \<noteq> target then
        if now \<ge> target then (True, target, secs)
        else let untilTarget = to_u32 (target - now)
             in (False, alerted, if untilTarget < secs then untilTarget else secs)
      else (False, alerted, secs))"

definition startTarget :: "AppSettingsData \<Rightarrow> NextEventInfo \<Rightarrow> int" where
  "startTarget settings event = evStart event - uint (calendarWakeLeadMinutes settings) * 60"

definition computeWakeDecision :: "AppSettingsData \<Rightarrow> NextEventInfo \<Rightarrow> int \<Rightarrow> u32 \<Rightarrow> WakeDecision \<times> NextEventInfo" where
  "computeWakeDecision settings event now baseIntervalSeconds =
     (if \<not> hasEvent event then (\<lparr>alert = NoAlert, sleepSeconds = baseIntervalSeconds\<rparr>, event)
      else
        let (beforeStartFired, aStart, secs) =
              (if calendarWakeBeforeStart settings
               then wake_target (startTarget settings event) (alertedForStart event) now baseIntervalSeconds
               else (False, alertedForStart event, baseIntervalSeconds));
            (atEndFired, aEnd, secs) =
              (if calendarWakeAtEnd settings
               then wake_target (evEnd event) (alertedForEnd event) now secs
               else (False, alertedForEnd event, secs));
            kind = (if beforeStartFired then BeforeStart else if atEndFired then AtEnd else NoAlert)
        in (\<lparr>alert = kind, sleepSeconds = (if secs < kMinSleepSeconds then kMinSleepSeconds else secs)\<rparr>,
            event\<lparr>alertedForStart := aStart, alertedForEnd := aEnd\<rparr>))"

lemma wake_target_cases:
  "fst (wake_target t a now secs) \<longleftrightarrow> a \<noteq> t \<and> t \<le> now"
  "fst (snd (wake_target t a now secs)) = (if t \<le> now then t else a)"
  "snd (snd (wake_target t a now secs)) \<le> secs"
  by (auto simp: wake_target_def Let_def)

lemma wake_target_until:
  "a \<noteq> t \<Longrightarrow> now < t \<Longrightarrow> uint (snd (snd (wake_target t a now secs))) \<le> t - now"
proof -
  assume a: "a \<noteq> t" "now < t"
  have "uint (to_u32 (t - now)) \<le> t - now"
    using a(2) by (simp only: to_u32_def uint_word_of_int) (simp add: zmod_le_nonneg_dividend)
  with a show ?thesis by (auto simp: wake_target_def Let_def word_less_def not_less)
qed

text \<open>What the decision is, in terms of the two targets.\<close>

definition start_due :: "AppSettingsData \<Rightarrow> NextEventInfo \<Rightarrow> int \<Rightarrow> bool" where
  "start_due settings event now \<longleftrightarrow> hasEvent event \<and> calendarWakeBeforeStart settings \<and>
     alertedForStart event \<noteq> startTarget settings event \<and> startTarget settings event \<le> now"

definition end_due :: "AppSettingsData \<Rightarrow> NextEventInfo \<Rightarrow> int \<Rightarrow> bool" where
  "end_due settings event now \<longleftrightarrow> hasEvent event \<and> calendarWakeAtEnd settings \<and>
     alertedForEnd event \<noteq> evEnd event \<and> evEnd event \<le> now"

lemma computeWakeDecision_alert:
  "alert (fst (computeWakeDecision settings event now base)) =
     (if start_due settings event now then BeforeStart else if end_due settings event now then AtEnd else NoAlert)"
  by (auto simp: computeWakeDecision_def start_due_def end_due_def Let_def split_def wake_target_cases)

lemma computeWakeDecision_event:
  "snd (computeWakeDecision settings event now base) =
     event\<lparr>alertedForStart := (if start_due settings event now then startTarget settings event else alertedForStart event),
           alertedForEnd := (if end_due settings event now then evEnd event else alertedForEnd event)\<rparr>"
  by (cases event) (auto simp: computeWakeDecision_def start_due_def end_due_def Let_def split_def wake_target_cases startTarget_def)

lemma computeWakeDecision_sleep_bounds:
  "sleepSeconds (fst (computeWakeDecision settings event now base)) \<le> max base kMinSleepSeconds"
  "hasEvent event \<Longrightarrow> kMinSleepSeconds \<le> sleepSeconds (fst (computeWakeDecision settings event now base))"
proof -
  have le: "snd (snd (wake_target t a now s)) \<le> s'" if "s \<le> s'" for t a s s'
    using wake_target_cases(3) that by (rule order_trans)
  show "sleepSeconds (fst (computeWakeDecision settings event now base)) \<le> max base kMinSleepSeconds"
    by (auto simp: computeWakeDecision_def Let_def split_def le_max_iff_disj intro!: disjI1 le)
  show "hasEvent event \<Longrightarrow> kMinSleepSeconds \<le> sleepSeconds (fst (computeWakeDecision settings event now base))"
    by (auto simp: computeWakeDecision_def Let_def split_def)
qed

text \<open>Neither target is overslept by more than the 30 second floor.\<close>

definition start_pending :: "AppSettingsData \<Rightarrow> NextEventInfo \<Rightarrow> int \<Rightarrow> bool" where
  "start_pending settings event now \<longleftrightarrow> hasEvent event \<and> calendarWakeBeforeStart settings \<and>
     alertedForStart event \<noteq> startTarget settings event \<and> now < startTarget settings event"

definition end_pending :: "AppSettingsData \<Rightarrow> NextEventInfo \<Rightarrow> int \<Rightarrow> bool" where
  "end_pending settings event now \<longleftrightarrow> hasEvent event \<and> calendarWakeAtEnd settings \<and>
     alertedForEnd event \<noteq> evEnd event \<and> now < evEnd event"

lemma uint_if_max: "uint (if s < kMinSleepSeconds then kMinSleepSeconds else s) = max (uint s) 30"
  by (auto simp: word_less_def kMinSleepSeconds_def)

lemma sleep_until_start:
  assumes "start_pending settings event now"
  shows "uint (sleepSeconds (fst (computeWakeDecision settings event now base))) \<le> max (startTarget settings event - now) 30"
proof -
  let ?s1 = "snd (snd (wake_target (startTarget settings event) (alertedForStart event) now base))"
  have s1: "uint ?s1 \<le> startTarget settings event - now"
    using assms by (intro wake_target_until) (auto simp: start_pending_def)
  have "uint (snd (snd (wake_target t a now ?s1))) \<le> uint ?s1" for t a
    using wake_target_cases(3) [of t a now ?s1] by (simp add: word_le_def)
  with s1 assms show ?thesis
    by (auto simp: computeWakeDecision_def start_pending_def Let_def split_def uint_if_max
        intro: order_trans simp del: max.bounded_iff) (meson max.coboundedI1 max.mono order_refl order_trans)+
qed

lemma sleep_until_end:
  assumes "end_pending settings event now"
  shows "uint (sleepSeconds (fst (computeWakeDecision settings event now base))) \<le> max (evEnd event - now) 30"
proof -
  have "uint (snd (snd (wake_target (evEnd event) (alertedForEnd event) now s))) \<le> evEnd event - now" for s
    using assms by (intro wake_target_until) (auto simp: end_pending_def)
  then show ?thesis
    using assms by (auto simp: computeWakeDecision_def end_pending_def Let_def split_def uint_if_max intro: max.coboundedI1)
qed

text \<open>The decisions of a sequence of wakes with the marker state carried along.\<close>

fun wake_alerts :: "AppSettingsData \<Rightarrow> u32 \<Rightarrow> NextEventInfo \<Rightarrow> int list \<Rightarrow> WakeAlertKind list" where
  "wake_alerts settings base event [] = []"
| "wake_alerts settings base event (now # ts) =
     (let (d, event') = computeWakeDecision settings event now base
      in alert d # wake_alerts settings base event' ts)"

lemma wake_alerts_start_once:
  "alertedForStart event = startTarget settings event \<Longrightarrow> BeforeStart \<notin> set (wake_alerts settings base event ts)"
proof (induction ts arbitrary: event)
  case (Cons now ts)
  let ?e = "snd (computeWakeDecision settings event now base)"
  have "alertedForStart ?e = startTarget settings ?e"
    using Cons.prems by (simp add: computeWakeDecision_event startTarget_def)
  from Cons.IH [OF this] Cons.prems show ?case
    by (simp add: Let_def split_def computeWakeDecision_alert start_due_def)
qed simp

lemma wake_alerts_end_once:
  "alertedForEnd event = evEnd event \<Longrightarrow> AtEnd \<notin> set (wake_alerts settings base event ts)"
proof (induction ts arbitrary: event)
  case (Cons now ts)
  let ?e = "snd (computeWakeDecision settings event now base)"
  have "alertedForEnd ?e = evEnd ?e" using Cons.prems by (simp add: computeWakeDecision_event)
  from Cons.IH [OF this] Cons.prems show ?case
    by (simp add: Let_def split_def computeWakeDecision_alert end_due_def)
qed simp

lemma wake_alerts_count:
  "count_list (wake_alerts settings base event ts) BeforeStart \<le> 1 \<and>
   count_list (wake_alerts settings base event ts) AtEnd \<le> 1"
proof (induction ts arbitrary: event)
  case (Cons now ts)
  let ?e = "snd (computeWakeDecision settings event now base)"
  have s: "start_due settings event now \<Longrightarrow> count_list (wake_alerts settings base ?e ts) BeforeStart = 0"
    using wake_alerts_start_once [of ?e settings] by (simp add: computeWakeDecision_event startTarget_def)
  have e: "end_due settings event now \<Longrightarrow> count_list (wake_alerts settings base ?e ts) AtEnd = 0"
    using wake_alerts_end_once [of ?e] by (simp add: computeWakeDecision_event)
  from Cons.IH [of ?e] s e show ?case
    by (auto simp: Let_def split_def computeWakeDecision_alert)
qed simp

section \<open>Sleeping\<close>

datatype WakeReason = PowerButton | Timer | AfterUsbOrFlash | UnknownWake

text \<open>The ESP-IDF enumerators the code compares with, as far as it does.\<close>

datatype esp_wakeup_cause = ESP_SLEEP_WAKEUP_TIMER | ESP_SLEEP_WAKEUP_GPIO | ESP_SLEEP_WAKEUP_EXT1 | OtherCause
datatype esp_reset_reason = ESP_RST_POWERON | ESP_RST_USB | OtherReset

definition determineWakeReason :: "esp_wakeup_cause \<Rightarrow> esp_reset_reason \<Rightarrow> WakeReason" where
  "determineWakeReason cause resetReason =
     (if cause = ESP_SLEEP_WAKEUP_TIMER then Timer
      else if cause = ESP_SLEEP_WAKEUP_GPIO \<or> cause = ESP_SLEEP_WAKEUP_EXT1 then PowerButton
      else if resetReason = ESP_RST_POWERON \<or> resetReason = ESP_RST_USB then AfterUsbOrFlash
      else UnknownWake)"

text \<open>What is armed when the device goes to sleep: always the button, and the timer, in microseconds, or none.\<close>

definition sleepUntilNextEvent :: "u32 \<Rightarrow> u64 option" where
  "sleepUntilNextEvent timerIntervalSeconds =
     (if timerIntervalSeconds > 0 then Some (ucast timerIntervalSeconds * 1000000) else None)"

lemma sleepUntilNextEvent_exact:
  "0 < n \<Longrightarrow> sleepUntilNextEvent n = Some us \<Longrightarrow> uint us = uint n * 1000000"
proof -
  assume n: "0 < n" and s: "sleepUntilNextEvent n = Some us"
  have "uint n < 2 ^ 32" using uint_bounded [of n] by simp
  then have "uint n * 1000000 < 2 ^ 64" by simp
  moreover have "uint (ucast n * 1000000 :: u64) = (uint n * 1000000) mod 2 ^ 64"
    by (simp add: uint_word_ariths unsigned_ucast_eq take_bit_eq_mod mod_mult_left_eq)
  ultimately show ?thesis using n s by (simp add: sleepUntilNextEvent_def)
qed

section \<open>Properties\<close>

definition ex_event :: NextEventInfo where
  "ex_event = NextEventInfo_init\<lparr>hasEvent := True, evStart := 10000, evEnd := 13600\<rparr>"

definition ex_settings :: AppSettingsData where
  "ex_settings = AppSettingsData_init\<lparr>calendarWakeBeforeStart := True, calendarWakeAtEnd := True\<rparr>"

text \<open>C31: The device never sleeps longer than the base interval (or the 30 second floor), with an event
  never shorter than the floor, and never past a reminder that is still to come by more than
  that floor.\<close>

theorem computeWakeDecision_timely:
  assumes "computeWakeDecision settings event now base = (d, event')"
  shows "sleepSeconds d \<le> max base 30 \<and>
    (hasEvent event \<longrightarrow> 30 \<le> sleepSeconds d) \<and>
    (start_pending settings event now \<longrightarrow> now + uint (sleepSeconds d) \<le> max (startTarget settings event) (now + 30)) \<and>
    (end_pending settings event now \<longrightarrow> now + uint (sleepSeconds d) \<le> max (evEnd event) (now + 30))"
proof -
  have d: "d = fst (computeWakeDecision settings event now base)" using assms by simp
  have shift: "x \<le> max (t - now) 30 \<Longrightarrow> now + x \<le> max t (now + 30)" for x t :: int by auto
  show ?thesis
    unfolding d
    using computeWakeDecision_sleep_bounds [where settings = settings and event = event and now = now and base = base]
      shift [OF sleep_until_start] shift [OF sleep_until_end]
    by (simp add: kMinSleepSeconds_def)
qed

lemma computeWakeDecision_timely_witness:
  "sleepSeconds (fst (computeWakeDecision ex_settings ex_event 9000 3600)) = 400"
proof -
  obtain d e where r: "computeWakeDecision ex_settings ex_event 9000 3600 = (d, e)" by force
  then have "sleepSeconds d = 400"
    by (auto simp: computeWakeDecision_def ex_settings_def ex_event_def AppSettingsData_init_def
        NextEventInfo_init_def wake_target_def startTarget_def to_u32_def Let_def kMinSleepSeconds_def)
  with computeWakeDecision_timely [OF r] r show ?thesis by simp
qed

text \<open>C32: Over any sequence of wakes for one event, each of the two reminders is shown at most once: a
  reminder that was due at one wake is marked by that decision and not due at any later one.\<close>

theorem reminders_fire_once:
  "count_list (wake_alerts settings base event ts) BeforeStart \<le> 1 \<and>
   count_list (wake_alerts settings base event ts) AtEnd \<le> 1 \<and>
   \<not> (start_due settings event now \<and> start_due settings (snd (computeWakeDecision settings event now base)) later) \<and>
   \<not> (end_due settings event now \<and> end_due settings (snd (computeWakeDecision settings event now base)) later)"
  using wake_alerts_count [where settings = settings and base = base and event = event and ts = ts]
  by (auto simp: start_due_def end_due_def computeWakeDecision_event startTarget_def)

end
