(* ===== verification/Main_Loop.thy ===== *)
theory Main_Loop
  imports Wake_Schedule Approval_Outbox Planner_Store Wifi_Store
begin

text \<open>
  The firmware's entry point, src/firmware/src/main.cpp: loading, how long to sleep, and the wake by the timer. The
  globals are the record \<open>AppState\<close>; the singletons of the settings files are part of it. The display, the
  buttons and FreeInkUI are the SDK (a submodule): of a rendered frame only which screen it shows is kept.
  \<^verbatim>\<open>runSyncPass()\<close> is the argument \<open>sync\<close>, and every \<^verbatim>\<open>time(nullptr)\<close> call is an argument of its own, as
  the clock moves between them. Device puts these over the interface and the web server and adds the loop.
\<close>

section \<open>State\<close>

definition kIdleSleepTimeoutMs :: u32 where "kIdleSleepTimeoutMs = 90000"
definition kWakeTimerIntervalSeconds :: u32 where "kWakeTimerIntervalSeconds = 3600"

record AppState =
  jobIndex :: JobIndex
  outboxIndex :: ApprovalOutboxIndex
  plannerTaskIndex :: TaskIndex
  pomodoroSession :: PomodoroState
  deviceConfig :: DeviceConfigData
  wifiStore :: WifiStoreData
  appSettings :: AppSettingsData
  calendarFeeds :: "CalendarFeed list"
  nextEvent :: NextEventInfo

section \<open>How long to sleep\<close>

definition nextWakeIntervalSeconds :: "AppState \<Rightarrow> int \<Rightarrow> int \<Rightarrow> u32" where
  "nextWakeIntervalSeconds st t1 t2 =
     (let (decision, scratch) = computeWakeDecision (appSettings st) (nextEvent st) t1 kWakeTimerIntervalSeconds
      in case secondsUntilNextCheckpoint (pomodoroSession st) t2 of
           Some pomodoroWake \<Rightarrow> min (sleepSeconds decision) pomodoroWake
         | None \<Rightarrow> sleepSeconds decision)"

section \<open>Going to sleep\<close>

text \<open>
  The four defensive saves, then the armed timer; a failed save is ignored, as in the code. The web server, which is stopped
  before them, is in Device.
\<close>

definition goToSleep :: "('s, 'c) sd_card \<Rightarrow> ('c, 'v) json_lib \<Rightarrow> 's \<Rightarrow> AppState \<Rightarrow> u32 \<Rightarrow> 's \<times> u64 option" where
  "goToSleep sd J s st intervalSeconds =
     (let s = snd (saveJobIndex sd J s (jobIndex st));
          s = snd (saveApprovalOutbox sd J s (outboxIndex st));
          s = snd (savePlannerIndex sd J s (plannerTaskIndex st));
          s = snd (savePomodoroSession sd J s (pomodoroSession st))
      in (s, sleepUntilNextEvent intervalSeconds))"

section \<open>Booting\<close>

definition boot_load :: "('s, 'c) sd_card \<Rightarrow> ('c, 'v) json_lib \<Rightarrow> b64_lib \<Rightarrow> u8 list \<Rightarrow> 's \<Rightarrow> int \<Rightarrow> AppState" where
  "boot_load sd J B mac s now = \<lparr>
     jobIndex = snd (loadJobIndex sd J s),
     outboxIndex = snd (loadApprovalOutbox sd J s),
     plannerTaskIndex = snd (loadPlannerIndex sd J s),
     pomodoroSession = snd (advance (snd (loadPomodoroSession sd J s PomodoroState_init)) now),
     deviceConfig = snd (DeviceConfig_load sd J s),
     wifiStore = snd (WifiStore_load sd J B mac s),
     appSettings = AppSettings_load sd J s,
     calendarFeeds = CalendarConfig_load sd J s,
     nextEvent = CalendarCache_load sd J s\<rparr>"

datatype Frame = NoFrame | CalendarReminderFrame WakeAlertKind | PomodoroFrame

text \<open>\<^verbatim>\<open>std::optional\<close> compared with 0: an empty optional is not equal to it.\<close>

definition pomodoroCheckpointDue :: "PomodoroState \<Rightarrow> int \<Rightarrow> bool" where
  "pomodoroCheckpointDue session now \<longleftrightarrow> isActive session \<and> secondsUntilNextCheckpoint session now = Some 0"

definition setup_timer :: "('s, 'c) sd_card \<Rightarrow> ('c, 'v) json_lib \<Rightarrow> (AppState \<times> 's \<Rightarrow> AppState \<times> 's) \<Rightarrow>
    AppState \<times> 's \<Rightarrow> int \<Rightarrow> int \<Rightarrow> int \<Rightarrow> int \<Rightarrow> Frame \<times> AppState \<times> 's \<times> u64 option" where
  "setup_timer sd J sync st0 tDecide tCheck t1 t2 =
     (let (st, s) = sync st0;
          (decision, ev) = computeWakeDecision (appSettings st) (nextEvent st) tDecide kWakeTimerIntervalSeconds;
          st = st\<lparr>nextEvent := ev\<rparr>;
          due = pomodoroCheckpointDue (pomodoroSession st) tCheck
      in if alert decision = NoAlert \<and> \<not> due then
           let (s, timer) = goToSleep sd J s st (nextWakeIntervalSeconds st t1 t2) in (NoFrame, st, s, timer)
         else
           let (frame, s) =
                 (if alert decision \<noteq> NoAlert
                  then (CalendarReminderFrame (alert decision), snd (CalendarCache_save sd J s ev))
                  else (PomodoroFrame, s));
               (s, timer) = goToSleep sd J s st (nextWakeIntervalSeconds st t1 t2)
           in (frame, st, s, timer))"

section \<open>Screens\<close>

datatype ScreenMode = Inbox | Reader | ActionMenu | Status | WebUiChoice | WebUi | Settings | Timeline
  | PomodoroScreen | CalendarReminder

section \<open>Lemmas\<close>

lemma nextWake_le:
  "nextWakeIntervalSeconds st t1 t2 \<le> kWakeTimerIntervalSeconds"
proof -
  have "sleepSeconds (fst (computeWakeDecision (appSettings st) (nextEvent st) t1 kWakeTimerIntervalSeconds))
      \<le> kWakeTimerIntervalSeconds"
    using computeWakeDecision_sleep_bounds(1) [of "appSettings st" "nextEvent st" t1 kWakeTimerIntervalSeconds]
    by (simp add: kWakeTimerIntervalSeconds_def kMinSleepSeconds_def max_def)
  then show ?thesis
    by (auto simp: nextWakeIntervalSeconds_def Let_def split_def min_le_iff_disj split: option.split)
qed

lemma nextWake_pos:
  assumes "\<And>s. secondsUntilNextCheckpoint (pomodoroSession st) t2 = Some s \<Longrightarrow> 0 < s"
  shows "0 < nextWakeIntervalSeconds st t1 t2"
proof -
  have "0 < sleepSeconds (fst (computeWakeDecision (appSettings st) (nextEvent st) t1 kWakeTimerIntervalSeconds))"
  proof (cases "hasEvent (nextEvent st)")
    case True
    then have "kMinSleepSeconds \<le> sleepSeconds (fst (computeWakeDecision (appSettings st) (nextEvent st) t1 kWakeTimerIntervalSeconds))"
      by (rule computeWakeDecision_sleep_bounds(2))
    then show ?thesis by (rule less_le_trans [rotated]) (simp add: kMinSleepSeconds_def)
  next
    case False
    then show ?thesis by (simp add: computeWakeDecision_def kWakeTimerIntervalSeconds_def)
  qed
  then show ?thesis
    using assms by (auto simp: nextWakeIntervalSeconds_def Let_def split_def min_def split: option.split)
qed

lemma checkpoint_zero_iff:
  assumes "phaseStart p \<le> now" and "phaseEnd p - now < 2 ^ 32"
  shows "secondsUntilNextCheckpoint p now = Some 0 \<longleftrightarrow> phase p \<noteq> Idle \<and> phaseEnd p \<le> now"
proof (cases "phase p \<noteq> Idle \<and> now < phaseEnd p")
  case True
  then obtain s where "secondsUntilNextCheckpoint p now = Some s" "0 < uint s"
    using next_checkpoint [of p now] assms by metis
  with True show ?thesis by auto
next
  case False
  then show ?thesis by (auto simp: secondsUntilNextCheckpoint_def)
qed

lemma u32_pos_iff: "0 < (s :: u32) \<longleftrightarrow> s \<noteq> 0"
  by (simp add: word_gt_0)

lemma nextWake_zero_iff:
  assumes "phaseStart (pomodoroSession st) \<le> t2" and "phaseEnd (pomodoroSession st) - t2 < 2 ^ 32"
  shows "nextWakeIntervalSeconds st t1 t2 = 0 \<longleftrightarrow>
    phase (pomodoroSession st) \<noteq> Idle \<and> phaseEnd (pomodoroSession st) \<le> t2"
proof
  assume z: "nextWakeIntervalSeconds st t1 t2 = 0"
  then have "secondsUntilNextCheckpoint (pomodoroSession st) t2 = Some 0"
    using nextWake_pos [of st t2 t1] by (force simp: u32_pos_iff)
  then show "phase (pomodoroSession st) \<noteq> Idle \<and> phaseEnd (pomodoroSession st) \<le> t2"
    using checkpoint_zero_iff [OF assms] by simp
next
  assume "phase (pomodoroSession st) \<noteq> Idle \<and> phaseEnd (pomodoroSession st) \<le> t2"
  then show "nextWakeIntervalSeconds st t1 t2 = 0"
    by (simp add: nextWakeIntervalSeconds_def Let_def secondsUntilNextCheckpoint_def split_def min_def)
qed

section \<open>Properties\<close>

text \<open>Every sleep is at most an hour, and it is zero, so that \<open>sleepUntilNextEvent\<close> arms no timer at all
  and only the button can wake the device, exactly when a running Pomodoro phase has already
  ended at the time it is asked.\<close>

theorem sleep_interval_zero_iff:
  assumes "phaseStart (pomodoroSession st) \<le> t2" and "phaseEnd (pomodoroSession st) - t2 < 2 ^ 32"
  shows "nextWakeIntervalSeconds st t1 t2 \<le> 3600 \<and>
    (sleepUntilNextEvent (nextWakeIntervalSeconds st t1 t2) = None \<longleftrightarrow>
       isActive (pomodoroSession st) \<and> phaseEnd (pomodoroSession st) \<le> t2)"
  using nextWake_le [of st t1 t2] nextWake_zero_iff [OF assms, of t1]
  by (auto simp: sleepUntilNextEvent_def kWakeTimerIntervalSeconds_def isActive_def u32_pos_iff)

definition ex_app :: AppState where
  "ex_app = \<lparr>jobIndex = [], outboxIndex = [], plannerTaskIndex = [], pomodoroSession = ex_session,
     deviceConfig = DeviceConfigData_init, wifiStore = \<lparr>creds = [], lastSsid = []\<rparr>, appSettings = AppSettingsData_init,
     calendarFeeds = [], nextEvent = NextEventInfo_init\<rparr>"

lemma sleep_interval_zero_iff_witness:
  "sleepUntilNextEvent (nextWakeIntervalSeconds ex_app 2500 2500) = None"
  using sleep_interval_zero_iff [of ex_app 2500 2500]
  by (simp add: ex_app_def ex_session_def start_def PomodoroConfig_init_def durationSeconds_def isActive_def)

text \<open>On a timer wake a Pomodoro frame is never drawn while the phase still runs, checkpoint or not: it
  is drawn only if no reminder is due and the phase has ended by the time of the check.\<close>

theorem checkpoint_frame_only_at_phase_end:
  assumes "sync st0 = (st, s)" and "phaseStart (pomodoroSession st) \<le> tCheck"
    and "phaseEnd (pomodoroSession st) - tCheck < 2 ^ 32"
  shows "fst (setup_timer sd J sync st0 tDecide tCheck t1 t2) =
    (if start_due (appSettings st) (nextEvent st) tDecide then CalendarReminderFrame BeforeStart
     else if end_due (appSettings st) (nextEvent st) tDecide then CalendarReminderFrame AtEnd
     else if isActive (pomodoroSession st) \<and> phaseEnd (pomodoroSession st) \<le> tCheck then PomodoroFrame
     else NoFrame)"
  using checkpoint_zero_iff [OF assms(2,3)]
    computeWakeDecision_alert [of "appSettings st" "nextEvent st" tDecide kWakeTimerIntervalSeconds]
  by (auto simp: setup_timer_def assms(1) Let_def split_def pomodoroCheckpointDue_def isActive_def)

lemma checkpoint_frame_only_at_phase_end_witness:
  "fst (setup_timer mem_card plain_json (\<lambda>x. x) (ex_app, Map.empty) 1300 1300 1300 1300) = NoFrame"
proof -
  have "phaseStart (pomodoroSession ex_app) \<le> 1300" "phaseEnd (pomodoroSession ex_app) - 1300 < 2 ^ 32"
    by (simp_all add: ex_app_def ex_session_def start_def PomodoroConfig_init_def durationSeconds_def)
  from checkpoint_frame_only_at_phase_end [of "\<lambda>x. x" "(ex_app, Map.empty)", OF refl this, of mem_card plain_json 1300 1300 1300]
  show ?thesis
    by (simp add: ex_app_def ex_session_def start_def PomodoroConfig_init_def durationSeconds_def
        start_due_def end_due_def NextEventInfo_init_def)
qed

end
