(* ===== verification/Sync_Manager.thy ===== *)
theory Sync_Manager
  imports Approval_Outbox Wifi_Store
begin

text \<open>
  One sync pass: src/firmware/src/sync/SyncManager.h and SyncManager.cpp. The network client is
  \<open>net::SyncClient\<close>, here the record of its operations over the state \<open>'w\<close> of the world (the
  network and the card); \<^verbatim>\<open>Sync_Client\<close> builds that record from the client's own code. The
  data types of src/firmware/src/net/SyncClient.h that the two share are here.
\<close>

section \<open>What the client exchanges\<close>

datatype Endpoint = Pi | Relay

record ApprovalSubmitResult =
  networkOk :: bool
  applied :: bool
  alreadyApplied :: bool

definition ApprovalSubmitResult_init :: ApprovalSubmitResult where
  "ApprovalSubmitResult_init = \<lparr>networkOk = False, applied = False, alreadyApplied = False\<rparr>"

record JobManifest =
  mJobId :: string
  mTitle :: string
  mCreatedAt :: u32
  mXtcBytes :: u32
  mXtcSha256 :: string
  mPageCount :: u16
  mLandscapeXtcBytes :: u32
  mLandscapeXtcSha256 :: string
  mLandscapePageCount :: u16

record DeviceConfigManifest =
  mCalendars :: "CalendarFeed list"
  mWifiNetworks :: "WifiCredential list"

text \<open>\<open>cl_fetch\<close> gives \<open>None\<close> for the code's -1.\<close>

record 'w sync_client =
  cl_status :: "Endpoint \<Rightarrow> 'w \<Rightarrow> bool \<times> 'w"
  cl_fetch :: "nat \<Rightarrow> 'w \<Rightarrow> JobManifest list option \<times> 'w"
  cl_config :: "'w \<Rightarrow> DeviceConfigManifest option \<times> 'w"
  cl_download :: "string \<Rightarrow> string \<Rightarrow> string \<Rightarrow> u32 \<Rightarrow> string option \<Rightarrow> 'w \<Rightarrow> bool \<times> 'w"
  cl_ack :: "string \<Rightarrow> string \<Rightarrow> string option \<Rightarrow> 'w \<Rightarrow> bool \<times> 'w"
  cl_submit :: "ApprovalEntry \<Rightarrow> Endpoint \<Rightarrow> 'w \<Rightarrow> ApprovalSubmitResult \<times> 'w"
  cl_upload :: "string \<Rightarrow> string \<Rightarrow> string \<Rightarrow> string \<Rightarrow> u32 \<Rightarrow> 'w \<Rightarrow> bool \<times> 'w"

record SyncSummary =
  wifiConnected :: bool
  newJobsDownloaded :: int
  jobsFailedVerification :: int
  approvalsSynced :: int
  approvalsFailedSync :: int
  usedRelay :: bool
  originalsUploaded :: int

definition SyncSummary_init :: SyncSummary where
  "SyncSummary_init = \<lparr>wifiConnected = False, newJobsDownloaded = 0, jobsFailedVerification = 0,
     approvalsSynced = 0, approvalsFailedSync = 0, usedRelay = False, originalsUploaded = 0\<rparr>"

definition kSyncBatchSize :: nat where "kSyncBatchSize = 16"

section \<open>Downloading pending jobs\<close>

definition entry_of_manifest :: "JobManifest \<Rightarrow> JobEntry" where
  "entry_of_manifest m =
     (let destPath = ''/inbox/'' @ mJobId m @ ''.xtc'';
          landscapeDestPath = ''/inbox/'' @ mJobId m @ ''_l.xtc'';
          entry = JobEntry_init\<lparr>
            jobId := strncpy kJobIdLen (mJobId m),
            title := strncpy kTitleLen (mTitle m),
            xtcPath := strncpy kPathLen destPath,
            xtcBytes := mXtcBytes m,
            xtcSha256 := strncpy kSha256Len (mXtcSha256 m),
            pageCount := mPageCount m,
            createdAt := mCreatedAt m,
            status := Downloaded\<rparr>
      in if mLandscapeXtcSha256 m \<noteq> [] then
           entry\<lparr>landscapeXtcPath := strncpy kPathLen landscapeDestPath,
                 landscapeXtcBytes := mLandscapeXtcBytes m,
                 landscapeXtcSha256 := strncpy kSha256Len (mLandscapeXtcSha256 m),
                 landscapePageCount := mLandscapePageCount m\<rparr>
         else entry)"

text \<open>One manifest: the loop body, each \<^verbatim>\<open>continue\<close> a branch.\<close>

definition download_one :: "('w, 'c) sd_card \<Rightarrow> ('c, 'v) json_lib \<Rightarrow> 'w sync_client \<Rightarrow> JobManifest \<Rightarrow>
    JobIndex \<times> SyncSummary \<times> 'w \<Rightarrow> JobIndex \<times> SyncSummary \<times> 'w" where
  "download_one sd J cl m st =
     (case st of (jobs, summary, w) \<Rightarrow>
      if JobIndex_full jobs \<and> JobIndex_find jobs (mJobId m) = None then (jobs, summary, w) else
      let destPath = ''/inbox/'' @ mJobId m @ ''.xtc'';
          (ok, w) = cl_download cl (mJobId m) destPath (mXtcSha256 m) (mXtcBytes m) None w
      in if \<not> ok then (jobs, summary\<lparr>jobsFailedVerification := jobsFailedVerification summary + 1\<rparr>, w) else
      let hasLandscape = mLandscapeXtcSha256 m \<noteq> [];
          landscapeDestPath = ''/inbox/'' @ mJobId m @ ''_l.xtc'';
          (landscapeOk, w) =
            (if hasLandscape
             then cl_download cl (mJobId m) landscapeDestPath (mLandscapeXtcSha256 m) (mLandscapeXtcBytes m)
               (Some ''landscape'') w
             else (True, w))
      in if \<not> landscapeOk then (jobs, summary\<lparr>jobsFailedVerification := jobsFailedVerification summary + 1\<rparr>, w) else
      let (acked, w) = cl_ack cl (mJobId m) (mXtcSha256 m) (if hasLandscape then Some (mLandscapeXtcSha256 m) else None) w
      in if \<not> acked then (jobs, summary\<lparr>jobsFailedVerification := jobsFailedVerification summary + 1\<rparr>, w) else
      let (upserted, jobs') = JobIndex_upsert jobs (entry_of_manifest m)
      in if upserted
         then (jobs', summary\<lparr>newJobsDownloaded := newJobsDownloaded summary + 1\<rparr>, snd (saveJobIndex sd J w jobs'))
         else (jobs', summary, w))"

definition downloadPendingJobs :: "('w, 'c) sd_card \<Rightarrow> ('c, 'v) json_lib \<Rightarrow> 'w sync_client \<Rightarrow>
    JobIndex \<times> SyncSummary \<times> 'w \<Rightarrow> JobIndex \<times> SyncSummary \<times> 'w" where
  "downloadPendingJobs sd J cl st =
     (case st of (jobs, summary, w) \<Rightarrow>
      case cl_fetch cl kSyncBatchSize w of
        (None, w) \<Rightarrow> (jobs, summary, w)
      | (Some manifests, w) \<Rightarrow> fold (download_one sd J cl) manifests (jobs, summary, w))"

section \<open>Handing over original images\<close>

fun upload_loop :: "('w, 'c) sd_card \<Rightarrow> 'w sync_client \<Rightarrow> nat list \<Rightarrow> bool \<Rightarrow> JobIndex \<times> SyncSummary \<times> 'w \<Rightarrow>
    bool \<times> JobIndex \<times> SyncSummary \<times> 'w" where
  "upload_loop sd cl [] changed st = (changed, st)"
| "upload_loop sd cl (i # is) changed (jobs, summary, w) =
     (let snapshot = jobs ! i in
      if \<not> originalPending snapshot then upload_loop sd cl is changed (jobs, summary, w) else
      let jid = strncpy kJobIdLen (jobId snapshot); path = strncpy kPathLen (originalPath snapshot);
          (ok, w) = cl_upload cl jid path (strncpy 23 (originalMime snapshot)) (strncpy kTitleLen (title snapshot))
            (originalBytes snapshot) w
      in if \<not> ok then upload_loop sd cl is changed (jobs, summary, w) else
      let w = snd (sd_remove sd w path);
          jobs = (case JobIndex_find jobs jid of
              None \<Rightarrow> jobs
            | Some e \<Rightarrow> jobs[e := (jobs ! e)\<lparr>originalPending := False, originalPath := [], originalMime := [],
                originalBytes := 0\<rparr>])
      in upload_loop sd cl is True (jobs, summary\<lparr>originalsUploaded := originalsUploaded summary + 1\<rparr>, w))"

definition uploadPendingOriginals :: "('w, 'c) sd_card \<Rightarrow> ('c, 'v) json_lib \<Rightarrow> 'w sync_client \<Rightarrow>
    JobIndex \<times> SyncSummary \<times> 'w \<Rightarrow> JobIndex \<times> SyncSummary \<times> 'w" where
  "uploadPendingOriginals sd J cl st =
     (case st of (jobs, summary, w) \<Rightarrow>
      let (reachable, w) = cl_status cl Pi w in
      if \<not> reachable then (jobs, summary, w) else
      let (changed, jobs, summary, w) = upload_loop sd cl [0..<length jobs] False (jobs, summary, w)
      in (jobs, summary, if changed then snd (saveJobIndex sd J w jobs) else w))"

section \<open>Draining the approval outbox\<close>

fun drain_loop :: "'w sync_client \<Rightarrow> JobIndex \<Rightarrow> Endpoint \<Rightarrow> nat list \<Rightarrow> bool \<Rightarrow>
    ApprovalOutboxIndex \<times> SyncSummary \<times> 'w \<Rightarrow> bool \<times> ApprovalOutboxIndex \<times> SyncSummary \<times> 'w" where
  "drain_loop cl jobs endpoint [] changed st = (changed, st)"
| "drain_loop cl jobs endpoint (i # is) changed (ob, summary, w) =
     (let entry = ob ! i in
      if synced entry then drain_loop cl jobs endpoint is changed (ob, summary, w) else
      if (case JobIndex_find jobs (apJobId entry) of None \<Rightarrow> False | Some job \<Rightarrow> originalPending (jobs ! job))
      then drain_loop cl jobs endpoint is changed (ob, summary, w) else
      let (result, w) = cl_submit cl entry endpoint w in
      if applied result then
        drain_loop cl jobs endpoint is True
          (snd (markSynced ob (approvalId entry)),
           summary\<lparr>approvalsSynced := approvalsSynced summary + 1, usedRelay := (endpoint = Relay)\<rparr>, w)
      else
        drain_loop cl jobs endpoint is changed
          (ob, summary\<lparr>approvalsFailedSync := approvalsFailedSync summary + 1\<rparr>, w))"

definition drainApprovalOutbox :: "('w, 'c) sd_card \<Rightarrow> ('c, 'v) json_lib \<Rightarrow> 'w sync_client \<Rightarrow> DeviceConfigData \<Rightarrow>
    JobIndex \<Rightarrow> ApprovalOutboxIndex \<times> SyncSummary \<times> 'w \<Rightarrow> ApprovalOutboxIndex \<times> SyncSummary \<times> 'w" where
  "drainApprovalOutbox sd J cl cfg jobs st =
     (case st of (ob, summary, w) \<Rightarrow>
      if ob = [] then (ob, summary, w) else
      let (piReachable, w) = cl_status cl Pi w;
          (relayReachable, w) = (if \<not> piReachable \<and> hasRelay cfg then cl_status cl Relay w else (False, w))
      in if \<not> piReachable \<and> \<not> relayReachable then (ob, summary, w) else
      let endpoint = (if piReachable then Pi else Relay);
          (changed, ob, summary, w) = drain_loop cl jobs endpoint [0..<length ob] False (ob, summary, w)
      in if changed then
           let ob = snd (compactSynced ob) in (ob, summary, snd (saveApprovalOutbox sd J w ob))
         else (ob, summary, w))"

section \<open>Pi-managed configuration\<close>

text \<open>\<open>None\<close> is the undefined behaviour of saving an overlong password, see \<open>obfuscateAndEncode\<close>.\<close>

definition syncDeviceConfig :: "('w, 'c) sd_card \<Rightarrow> ('c, 'v) json_lib \<Rightarrow> b64_lib \<Rightarrow> u8 list \<Rightarrow> 'w sync_client \<Rightarrow>
    CalendarFeed list \<times> WifiStoreData \<times> 'w \<Rightarrow> (CalendarFeed list \<times> WifiStoreData \<times> 'w) option" where
  "syncDeviceConfig sd J B mac cl st =
     (case st of (feeds, wifi, w) \<Rightarrow>
      case cl_config cl w of
        (None, w) \<Rightarrow> Some (feeds, wifi, w)
      | (Some manifest, w) \<Rightarrow>
          let feeds = CalendarConfig_replaceAll (mCalendars manifest);
              w = snd (CalendarConfig_save sd J w feeds)
          in if mWifiNetworks manifest \<noteq> [] then
               let cs = fold (\<lambda>n cs. snd (wifi_addOrUpdate cs (ssid n) (password n))) (mWifiNetworks manifest) (creds wifi);
                   wifi = wifi\<lparr>creds := cs\<rparr>
               in case WifiStore_save sd J B mac w wifi of
                    None \<Rightarrow> None
                  | Some (ok, w) \<Rightarrow> Some (feeds, wifi, w)
             else Some (feeds, wifi, w))"

section \<open>The clock\<close>

text \<open>
  NTP and the clocks: \<open>nt_config\<close> is \<^verbatim>\<open>configTime()\<close>, \<open>nt_start\<close> the \<^verbatim>\<open>millis()\<close> after it, \<open>nt_time\<close> and \<open>nt_millis\<close> what turn
  \<open>i\<close> of the wait reads, \<open>nt_after\<close> the world after \<open>i\<close> turns.
\<close>

record 'w ntp =
  nt_config :: "'w \<Rightarrow> 'w"
  nt_start :: "'w \<Rightarrow> u32"
  nt_time :: "'w \<Rightarrow> nat \<Rightarrow> int"
  nt_millis :: "'w \<Rightarrow> nat \<Rightarrow> u32"
  nt_after :: "'w \<Rightarrow> nat \<Rightarrow> 'w"

text \<open>The number of turns; \<open>None\<close> is the loop that never ends.\<close>

partial_function (option) wait_clock :: "(nat \<Rightarrow> int) \<Rightarrow> (nat \<Rightarrow> u32) \<Rightarrow> u32 \<Rightarrow> nat \<Rightarrow> nat option" where
  "wait_clock time now deadline i =
     (if time i < 1700000000 \<and> now i < deadline then wait_clock time now deadline (Suc i) else Some i)"

definition syncClock :: "'w ntp \<Rightarrow> 'w \<Rightarrow> 'w option" where
  "syncClock C w =
     (let w = nt_config C w; deadline = nt_start C w + 5000
      in map_option (nt_after C w) (wait_clock (nt_time C w) (nt_millis C w) deadline 0))"

text \<open>The wait ends at the first turn with a plausible time or past the deadline (at once if the deadline wraps).\<close>

lemma wait_clock_first:
  assumes "\<not> (time n < 1700000000 \<and> now n < deadline)" and "\<forall>k. i \<le> k \<and> k < n \<longrightarrow> time k < 1700000000 \<and> now k < deadline" and "i \<le> n"
  shows "wait_clock time now deadline i = Some n"
  using assms(2,3)
proof (induction "n - i" arbitrary: i)
  case 0
  then have "i = n" by simp
  with assms(1) show ?case by (subst wait_clock.simps) auto
next
  case (Suc d)
  then have "wait_clock time now deadline (Suc i) = Some n" by (intro Suc.hyps(1)) auto
  with Suc show ?case by (subst wait_clock.simps) auto
qed

definition ntp_ends :: "'w ntp \<Rightarrow> bool" where
  "ntp_ends C \<longleftrightarrow> (\<forall>w. \<exists>i. \<not> (nt_time C w i < 1700000000 \<and> nt_millis C w i < nt_start C w + 5000))"

lemma syncClock_total:
  assumes "ntp_ends C" shows "\<exists>n. syncClock C w = Some (nt_after C (nt_config C w) n)"
proof -
  let ?w = "nt_config C w"
  let ?P = "\<lambda>i. \<not> (nt_time C ?w i < 1700000000 \<and> nt_millis C ?w i < nt_start C ?w + 5000)"
  have "\<exists>i. ?P i" using assms unfolding ntp_ends_def by blast
  then have "?P (LEAST i. ?P i)" by (rule LeastI_ex)
  then have "wait_clock (nt_time C ?w) (nt_millis C ?w) (nt_start C ?w + 5000) 0 = Some (LEAST i. ?P i)"
    by (rule wait_clock_first) (auto dest: not_less_Least)
  then have "syncClock C w = Some (nt_after C ?w (LEAST i. ?P i))" unfolding syncClock_def Let_def by (simp only: option.map)
  then show ?thesis by (rule exI)
qed

section \<open>The whole pass\<close>

record SyncState =
  sJobs :: JobIndex
  sOutbox :: ApprovalOutboxIndex
  sFeeds :: "CalendarFeed list"
  sWifi :: WifiStoreData
  sCache :: NextEventInfo

text \<open>
  \<open>connect\<close> and \<open>disconnect\<close> are \<^verbatim>\<open>net::WifiManager\<close> (Wifi_Radio), which works on the list of known
  networks, \<open>syncClock\<close> is the one above, and \<open>syncCalendars\<close> is the calendar pass that follows (Calendar_Sync), which
  works on the cached next event. Device puts the other theories' definitions in. \<open>None\<close>: a radio or a clock that never answers, a
  feed on which the parser leaves an array.
\<close>

record 'w sync_env =
  env_connect :: "WifiStoreData \<times> 'w \<Rightarrow> (bool \<times> WifiStoreData \<times> 'w) option"
  env_disconnect :: "'w \<Rightarrow> 'w"
  env_syncClock :: "'w \<Rightarrow> 'w option"
  env_syncCalendars :: "CalendarFeed list \<Rightarrow> NextEventInfo \<times> 'w \<Rightarrow> (NextEventInfo \<times> 'w) option"

definition runFullSync :: "('w, 'c) sd_card \<Rightarrow> ('c, 'v) json_lib \<Rightarrow> b64_lib \<Rightarrow> u8 list \<Rightarrow> 'w sync_env \<Rightarrow> 'w sync_client \<Rightarrow>
    DeviceConfigData \<Rightarrow> SyncState \<times> 'w \<Rightarrow> (SyncSummary \<times> SyncState \<times> 'w) option" where
  "runFullSync sd J B mac env cl cfg st0 =
     (case st0 of (st, w) \<Rightarrow>
      if \<not> loaded cfg then Some (SyncSummary_init, st, w) else
      case env_connect env (sWifi st, w) of None \<Rightarrow> None | Some (up, wifi, w) \<Rightarrow>
      if \<not> up then Some (SyncSummary_init, st\<lparr>sWifi := wifi\<rparr>, w) else
      let summary = SyncSummary_init\<lparr>wifiConnected := True\<rparr>;
          (jobs, summary, w) = downloadPendingJobs sd J cl (sJobs st, summary, w);
          (jobs, summary, w) = uploadPendingOriginals sd J cl (jobs, summary, w);
          (ob, summary, w) = drainApprovalOutbox sd J cl cfg jobs (sOutbox st, summary, w);
          (jobs, summary, w) =
            (if approvalsSynced summary > 0 then downloadPendingJobs sd J cl (jobs, summary, w) else (jobs, summary, w))
      in case syncDeviceConfig sd J B mac cl (sFeeds st, wifi, w) of
           None \<Rightarrow> None
         | Some (feeds, wifi, w) \<Rightarrow>
             (case env_syncClock env w of None \<Rightarrow> None | Some w \<Rightarrow>
              case env_syncCalendars env feeds (sCache st, w) of
                None \<Rightarrow> None
              | Some (cache, w) \<Rightarrow>
                  Some (summary, \<lparr>sJobs = jobs, sOutbox = ob, sFeeds = feeds, sWifi = wifi, sCache = cache\<rparr>,
                    env_disconnect env w)))"

end
