(* ===== verification/Civil_Date.thy ===== *)
theory Civil_Date
  imports Prelude
begin

text \<open>
  Calendar arithmetic: src/firmware/src/calendar/TimeUtil.h and the date helpers at the top of
  src/firmware/src/calendar/IcsParser.cpp. The unsigned intermediate values are 32-bit words, as
  in the code; \<^verbatim>\<open>int\<close> and \<^verbatim>\<open>long\<close> results are \<open>int\<close>. An access to the table of month
  lengths outside its twelve entries is \<open>None\<close>: C++ leaves it undefined.
\<close>

section \<open>Definitions\<close>

text \<open>Where arithmetic on \<^verbatim>\<open>int\<close> or \<^verbatim>\<open>long\<close>, 32 bits each, may leave them: the wrap-around of the instructions.\<close>

definition long32 :: "int \<Rightarrow> int" where
  "long32 x = sint (word_of_int x :: u32)"

definition daysFromCivil :: "int \<Rightarrow> u32 \<Rightarrow> u32 \<Rightarrow> int" where
  "daysFromCivil y m d =
     (let y = (if m \<le> 2 then y - 1 else y);
          era = c_div (if y \<ge> 0 then y else y - 399) 400;
          yoe = (word_of_int (y - era * 400) :: u32);
          doy = (153 * (m + (if m > 2 then -3 else 9)) + 2) div 5 + d - 1;
          doe = yoe * 365 + yoe div 4 - yoe div 100 + doy
      in era * 146097 + sint doe - 719468)"

definition epochFromUtc :: "int \<Rightarrow> int \<Rightarrow> int \<Rightarrow> int \<Rightarrow> int \<Rightarrow> int \<Rightarrow> int" where
  "epochFromUtc y mo d h mi s = daysFromCivil y (word_of_int mo) (word_of_int d) * 86400 + h * 3600 + mi * 60 + s"

definition month_days :: "int list" where
  "month_days = [31, 28, 31, 30, 31, 30, 31, 31, 30, 31, 30, 31]"

definition daysInMonth :: "int \<Rightarrow> int \<Rightarrow> int option" where
  "daysInMonth year month =
     (if month = 2 \<and> (c_mod year 4 = 0 \<and> c_mod year 100 \<noteq> 0 \<or> c_mod year 400 = 0) then Some 29
      else if 1 \<le> month \<and> month \<le> 12 then Some (month_days ! nat (month - 1))
      else None)"

definition civilFromDays :: "int \<Rightarrow> int \<times> int \<times> int" where
  "civilFromDays z0 =
     (let z = z0 + 719468;
          era = c_div (if z \<ge> 0 then z else z - 146096) 146097;
          doe = (word_of_int (z - era * 146097) :: u32);
          yoe = (doe - doe div 1460 + doe div 36524 - doe div 146096) div 365;
          yr = uint yoe + era * 400;
          doy = doe - (365 * yoe + yoe div 4 - yoe div 100);
          mp = (5 * doy + 2) div 153;
          d = sint (doy - (153 * mp + 2) div 5 + 1);
          m = sint (mp + (if mp < 10 then 3 else -9))
      in (yr + (if m \<le> 2 then 1 else 0), m, d))"

definition weekdayOfDayNum :: "int \<Rightarrow> int" where
  "weekdayOfDayNum dayNum = c_mod (c_mod dayNum 7 + 7 + 3) 7"

function clamp_day :: "int \<Rightarrow> int \<Rightarrow> int" where
  "clamp_day dim day = (if day > dim then clamp_day dim (day - 7) else day)"
  by pat_completeness auto
termination
  by (relation "measure (\<lambda>(dim, day). nat (day - dim))") auto

declare clamp_day.simps [simp del]

definition transitionDayNum :: "int \<Rightarrow> int \<Rightarrow> int \<Rightarrow> int \<Rightarrow> int option" where
  "transitionDayNum year month week wday =
     (case daysInMonth year month of
        None \<Rightarrow> None
      | Some dim \<Rightarrow>
          let first = daysFromCivil year (word_of_int month) 1;
              firstWd = weekdayOfDayNum first
          in if week > 0 then
               let day = long32 (1 + c_mod (wday - firstWd + 7) 7 + (week - 1) * 7)
               in Some (first + clamp_day dim day - 1)
             else
               let lastWd = c_mod (firstWd + dim - 1) 7;
                   day = dim - c_mod (lastWd - wday + 7) 7
               in Some (first + day - 1))"

section \<open>The civil calendar\<close>

definition leap :: "int \<Rightarrow> bool" where
  "leap y \<longleftrightarrow> 4 dvd y \<and> \<not> 100 dvd y \<or> 400 dvd y"

definition valid_civil :: "int \<Rightarrow> int \<Rightarrow> int \<Rightarrow> bool" where
  "valid_civil y m d \<longleftrightarrow> 1 \<le> m \<and> m \<le> 12 \<and> 1 \<le> d \<and> (\<exists>n. daysInMonth y m = Some n \<and> d \<le> n)"

lemma c_mod_zero: "0 < b \<Longrightarrow> c_mod a b = 0 \<longleftrightarrow> b dvd a"
proof -
  assume b: "0 < b"
  have "c_mod a b = (if 0 \<le> a then a mod b else - ((- a) mod b))"
    using b by (auto simp: c_mod_def c_div_def sgn_if minus_mult_div_eq_mod [symmetric] abs_if)
  then show ?thesis by (auto simp: dvd_eq_mod_eq_0 [symmetric])
qed

lemma daysInMonth_leap:
  "daysInMonth y m = (if m = 2 then Some (if leap y then 29 else 28)
    else if m \<in> {4, 6, 9, 11} then Some 30 else if 1 \<le> m \<and> m \<le> 12 then Some 31 else None)"
proof (cases "1 \<le> m \<and> m \<le> 12")
  case True
  then have "m \<in> {1, 2, 3, 4, 5, 6, 7, 8, 9, 10, 11, 12}" by simp presburger
  then show ?thesis
    by (elim insertE emptyE) (simp_all add: daysInMonth_def month_days_def leap_def c_mod_zero)
next
  case False
  then show ?thesis by (auto simp: daysInMonth_def)
qed

text \<open>Era and year of era are the floor division by 400; the truncating division is corrected by hand.\<close>

lemma era_floor: "0 < b \<Longrightarrow> c_div (if 0 \<le> a then a else a - (b - 1)) b = a div b"
proof -
  assume b: "0 < b"
  show ?thesis
  proof (cases "0 \<le> a")
    case True
    with b show ?thesis by simp
  next
    case False
    then have "c_div (a - (b - 1)) b = - ((b - 1 - a) div b)"
      using b by (simp add: c_div_def sgn_if)
    also have "\<dots> = a div b"
    proof -
      have "(b - 1 - a) div b = - (a div b)"
        using pos_mod_bound [OF b, of a] pos_mod_sign [OF b, of a] minus_mult_div_eq_mod [of a b]
        by (intro int_div_pos_eq [where r = "b - 1 - a mod b"]) (simp_all add: algebra_simps)
      then show ?thesis by simp
    qed
    finally show ?thesis using False by simp
  qed
qed

section \<open>The words never wrap\<close>

lemma word_div_small:
  "0 \<le> a \<Longrightarrow> a < 2 ^ 32 \<Longrightarrow> 0 < b \<Longrightarrow> b < 2 ^ 32 \<Longrightarrow>
   (word_of_int a :: u32) div word_of_int b = word_of_int (a div b)"
proof -
  assume a: "0 \<le> a" "a < 2 ^ 32" and b: "0 < b" "b < 2 ^ 32"
  have "uint ((word_of_int a :: u32) div word_of_int b) = a div b"
    unfolding uint_div using a b by (simp add: uint_word_of_int)
  then show ?thesis by (metis word_of_int_uint)
qed

lemma sint_small: "0 \<le> a \<Longrightarrow> a < 2 ^ 31 \<Longrightarrow> sint (word_of_int a :: u32) = a"
  by (simp add: sint_sbintrunc' signed_take_bit_int_eq_self)

lemma uint_small: "0 \<le> a \<Longrightarrow> a < 2 ^ 32 \<Longrightarrow> uint (word_of_int a :: u32) = a"
  by (simp add: uint_word_of_int)

text \<open>The same on integers.\<close>

definition month_start :: "int \<Rightarrow> int" where
  "month_start mp = (153 * mp + 2) div 5"

definition year_start :: "int \<Rightarrow> int" where
  "year_start yoe = 365 * yoe + yoe div 4 - yoe div 100"

definition shifted_month :: "int \<Rightarrow> int" where
  "shifted_month m = (if m > 2 then m - 3 else m + 9)"

definition shifted_year :: "int \<Rightarrow> int \<Rightarrow> int" where
  "shifted_year y m = (if m \<le> 2 then y - 1 else y)"

lemma daysFromCivil_int:
  assumes m: "1 \<le> m" "m \<le> 12" and d: "1 \<le> d" "d \<le> 31"
  shows "daysFromCivil y (word_of_int m) (word_of_int d) =
    shifted_year y m div 400 * 146097 + year_start (shifted_year y m mod 400) +
      month_start (shifted_month m) + d - 1 - 719468"
proof -
  let ?y = "shifted_year y m" let ?n = "?y mod 400"
  have n: "0 \<le> ?n" "?n < 400" by simp_all
  have mw: "(word_of_int m :: u32) \<le> 2 \<longleftrightarrow> m \<le> 2" "(word_of_int m :: u32) > 2 \<longleftrightarrow> m > 2"
    using m by (auto simp: word_le_def word_less_def uint_word_of_int)
  have era: "c_div (if ?y \<ge> 0 then ?y else ?y - 399) 400 = ?y div 400"
    using era_floor [of 400 ?y] by (cases "0 \<le> ?y") simp_all
  have yoe: "?y - ?y div 400 * 400 = ?n" by (simp add: minus_div_mult_eq_mod)
  have q: "(word_of_int ?n :: u32) div 4 = word_of_int (?n div 4)" "(word_of_int ?n :: u32) div 100 = word_of_int (?n div 100)"
    using word_div_small [of ?n 4] word_div_small [of ?n 100] n by simp_all
  have sm: "0 \<le> shifted_month m" "shifted_month m \<le> 11" using m by (auto simp: shifted_month_def)
  have "(word_of_int m :: u32) + (if m > 2 then -3 else 9) = word_of_int (shifted_month m)"
    by (simp add: shifted_month_def)
  then have doy: "(153 * ((word_of_int m :: u32) + (if m > 2 then -3 else 9)) + 2) div 5 + word_of_int d - 1 =
      word_of_int (month_start (shifted_month m) + d - 1)"
    using word_div_small [of "153 * shifted_month m + 2" 5] sm by (simp add: month_start_def)
  have ms: "0 \<le> month_start (shifted_month m)" "month_start (shifted_month m) \<le> 337"
    using sm by (simp_all add: month_start_def)
  have doe: "(word_of_int ?n * 365 + word_of_int (?n div 4) - word_of_int (?n div 100) +
      word_of_int (month_start (shifted_month m) + d - 1) :: u32) =
      word_of_int (year_start ?n + month_start (shifted_month m) + d - 1)"
    by (simp add: year_start_def algebra_simps)
  have b: "0 \<le> year_start ?n" "year_start ?n \<le> 146000"
    using n by (simp_all add: year_start_def)
  have s: "sint (word_of_int (year_start ?n + month_start (shifted_month m) + d - 1) :: u32) =
      year_start ?n + month_start (shifted_month m) + d - 1"
    by (rule sint_small) (use b ms d in simp_all)
  show ?thesis
    unfolding daysFromCivil_def Let_def mw shifted_year_def [symmetric] era yoe q doy doe s by simp
qed

text \<open>The year of an era from a day of it. The last day of the last year is the leap day of year 400.\<close>

definition yoe_of :: "int \<Rightarrow> int" where
  "yoe_of doe = (doe - doe div 1460 + doe div 36524 - doe div 146096) div 365"

lemma civilFromDays_int:
  assumes "doe = (z + 719468) mod 146097" and "yoe = yoe_of doe" and "doy = doe - year_start yoe"
    and "0 \<le> yoe" "yoe < 400" "0 \<le> doy" "doy \<le> 365" and "mp = (5 * doy + 2) div 153"
  shows "civilFromDays z =
    (yoe + (z + 719468) div 146097 * 400 + (if mp < 10 then 0 else 1),
     mp + (if mp < 10 then 3 else -9), doy - month_start mp + 1)"
proof -
  let ?z = "z + 719468"
  have era: "c_div (if ?z \<ge> 0 then ?z else ?z - 146096) 146097 = ?z div 146097"
    using era_floor [of 146097 ?z] by (cases "0 \<le> ?z") simp_all
  have doe: "?z - ?z div 146097 * 146097 = doe" by (simp add: assms(1) minus_div_mult_eq_mod)
  have d: "0 \<le> doe" "doe < 146097" by (simp_all add: assms(1))
  have q: "(word_of_int doe :: u32) div 1460 = word_of_int (doe div 1460)"
    "(word_of_int doe :: u32) div 36524 = word_of_int (doe div 36524)"
    "(word_of_int doe :: u32) div 146096 = word_of_int (doe div 146096)"
    using word_div_small [of doe 1460] word_div_small [of doe 36524] word_div_small [of doe 146096] d by simp_all
  have pos: "0 \<le> doe - doe div 1460 + doe div 36524 - doe div 146096" "doe - doe div 1460 + doe div 36524 - doe div 146096 < 146097"
    using d by linarith+
  have yw: "((word_of_int doe :: u32) - word_of_int (doe div 1460) + word_of_int (doe div 36524) - word_of_int (doe div 146096)) div 365 =
      word_of_int yoe"
    using word_div_small [of "doe - doe div 1460 + doe div 36524 - doe div 146096" 365] pos
    by (simp add: assms(2) yoe_of_def)
  have y: "uint (word_of_int yoe :: u32) = yoe" using assms(4,5) by (intro uint_small) simp_all
  have yq: "(word_of_int yoe :: u32) div 4 = word_of_int (yoe div 4)" "(word_of_int yoe :: u32) div 100 = word_of_int (yoe div 100)"
    using word_div_small [of yoe 4] word_div_small [of yoe 100] assms(4,5) by simp_all
  have dw: "(word_of_int doe :: u32) - (365 * word_of_int yoe + word_of_int (yoe div 4) - word_of_int (yoe div 100)) = word_of_int doy"
    by (simp add: assms(3) year_start_def)
  have mw: "(5 * (word_of_int doy :: u32) + 2) div 153 = word_of_int mp"
    using word_div_small [of "5 * doy + 2" 153] assms(6,7) by (simp add: assms(8))
  have mb: "0 \<le> mp" "mp \<le> 11" using assms(6,7) by (simp_all add: assms(8))
  have ms: "(153 * (word_of_int mp :: u32) + 2) div 5 = word_of_int (month_start mp)"
    using word_div_small [of "153 * mp + 2" 5] mb by (simp add: month_start_def)
  have dd: "0 \<le> doy - month_start mp + 1" "doy - month_start mp + 1 < 2 ^ 31"
    using assms(6,7) by (simp_all add: month_start_def assms(8))
  have "sint ((word_of_int doy :: u32) - word_of_int (month_start mp) + 1) = doy - month_start mp + 1"
    using sint_small [OF dd] by simp
  moreover have lt: "(word_of_int mp :: u32) < 10 \<longleftrightarrow> mp < 10"
    using mb by (simp add: word_less_def uint_word_of_int)
  moreover have "sint ((word_of_int mp :: u32) + (if mp < 10 then 3 else -9)) = mp + (if mp < 10 then 3 else -9)"
    using sint_small [of "mp + (if mp < 10 then 3 else -9)"] mb by (cases "mp < 10") simp_all
  ultimately show ?thesis
    unfolding civilFromDays_def Let_def era doe q yw y yq dw mw ms lt using mb by simp
qed

definition year_len :: "int \<Rightarrow> int" where
  "year_len yoe = (if leap (yoe + 1) then 366 else 365)"

lemma yoe_of_year:
  assumes y: "0 \<le> y" "y < 400" and t: "0 \<le> t" "t < year_len y"
  shows "yoe_of (year_start y + t) = y"
proof -
  define c where "c = y div 100"
  define q where "q = y mod 100 div 4"
  define r where "r = y mod 100 mod 4"
  have yd: "y = 100 * c + 4 * q + r" unfolding c_def q_def r_def by simp
  have b: "0 \<le> c" "c \<le> 3" "0 \<le> q" "q \<le> 24" "0 \<le> r" "r \<le> 3"
    using y unfolding c_def q_def r_def by simp_all
  have "y div 4 = 25 * c + q" unfolding yd using b by simp
  moreover have "y div 100 = c" by (simp add: c_def)
  ultimately have s: "year_start y = 36524 * c + 1461 * q + 365 * r"
    unfolding year_start_def by (simp add: yd)
  have lp: "leap (y + 1) \<longleftrightarrow> r = 3 \<and> (q < 24 \<or> c = 3)"
  proof -
    have small: "n dvd x \<longleftrightarrow> x = n" if "0 < x" "x \<le> n" for x n :: int
      using that zdvd_imp_le [of n x] by auto
    have period: "n dvd x + n * k \<longleftrightarrow> n dvd x" for n x k :: int
      by (rule dvd_add_left_iff) simp
    have "4 dvd y + 1 \<longleftrightarrow> 4 dvd (r + 1) + 4 * (25 * c + q)" by (simp add: yd algebra_simps)
    also have "\<dots> \<longleftrightarrow> r = 3" using small [of "r + 1" 4] b unfolding period by simp
    finally have "4 dvd y + 1 \<longleftrightarrow> r = 3" .
    moreover have "100 dvd y + 1 \<longleftrightarrow> 100 dvd (4 * q + r + 1) + 100 * c" by (simp add: yd algebra_simps)
    then have "100 dvd y + 1 \<longleftrightarrow> 4 * q + r + 1 = 100" using small [of "4 * q + r + 1" 100] b
      unfolding period by simp
    moreover have "400 dvd y + 1 \<longleftrightarrow> y + 1 = 400" using small [of "y + 1" 400] y by simp
    ultimately show ?thesis using b yd unfolding leap_def by auto
  qed
  define e where "e = year_start y + t"
  have es: "e = 36524 * c + 1461 * q + 365 * r + t" by (simp add: e_def s)
  have t2: "t \<le> 365" "t = 365 \<Longrightarrow> r = 3 \<and> (q < 24 \<or> c = 3)"
    using t lp by (auto simp: year_len_def split: if_splits)
  have "365 * y \<le> e - e div 1460 + e div 36524 - e div 146096 \<and> e - e div 1460 + e div 36524 - e div 146096 < 365 * y + 365"
  proof -
    consider "t = 365 \<and> q = 24 \<and> c = 3 \<and> r = 3" | "t = 365" "r = 3" "q < 24" | "t < 365" using t2 b by force
    then show ?thesis
    proof cases
      case 1
      then show ?thesis unfolding es yd by simp
    next
      case 2
      then have "e div 36524 = c" "e div 146096 = 0" "e div 1460 = 25 * c + q + 1"
        unfolding es using b by simp_all
      then show ?thesis using 2 unfolding es yd by simp
    next
      case 3
      then have "e div 36524 = c" "e div 146096 = 0" "e div 1460 \<le> 25 * c + q + 1" "25 * c + q \<le> e div 1460"
         "t = 0 \<Longrightarrow> e div 1460 = 25 * c + q"
        unfolding es using b t(1) by linarith+
      then show ?thesis using 3 t(1) unfolding es yd by (cases "t = 0") simp_all
    qed
  qed
  then have "yoe_of e = y" unfolding yoe_of_def by (intro div_pos_pos_trivial int_div_pos_eq [where r = "e - e div 1460 + e div 36524 - e div 146096 - 365 * y"]) simp_all
  then show ?thesis by (simp add: e_def)
qed

section \<open>Round trips\<close>

lemma leap_mod_400: "leap (y mod 400 + 1) \<longleftrightarrow> leap (y + 1)"
proof -
  have "n dvd y mod 400 + 1 \<longleftrightarrow> n dvd y + 1" if n: "n dvd 400" for n :: int
  proof -
    have "y + 1 = (y mod 400 + 1) + 400 * (y div 400)" by simp
    moreover have "n dvd 400 * (y div 400)" using n by (rule dvd_mult2)
    ultimately show ?thesis by (metis dvd_add_left_iff)
  qed
  then show ?thesis by (simp add: leap_def)
qed

lemma month_start_values:
  "month_start 0 = 0" "month_start 1 = 31" "month_start 2 = 61" "month_start 3 = 92" "month_start 4 = 122"
  "month_start 5 = 153" "month_start 6 = 184" "month_start 7 = 214" "month_start 8 = 245" "month_start 9 = 275"
  "month_start 10 = 306" "month_start 11 = 337"
  by (simp_all add: month_start_def)

lemma month_cases:
  assumes "1 \<le> (m :: int)" "m \<le> 12"
  obtains "m = 1" | "m = 2" | "m = 3" | "m = 4" | "m = 5" | "m = 6" | "m = 7" | "m = 8" | "m = 9" | "m = 10" | "m = 11" | "m = 12"
proof -
  have "m \<in> {1, 2, 3, 4, 5, 6, 7, 8, 9, 10, 11, 12}" using assms by simp presburger
  then show ?thesis using that by blast
qed

text \<open>The day of a March-based year, and back.\<close>

lemma doy_of_valid:
  assumes "valid_civil y m d"
  shows "0 \<le> month_start (shifted_month m) + d - 1"
    and "month_start (shifted_month m) + d - 1 < year_len (shifted_year y m mod 400)"
    and "(5 * (month_start (shifted_month m) + d - 1) + 2) div 153 = shifted_month m"
proof -
  from assms have m: "1 \<le> m" "m \<le> 12" and d: "1 \<le> d" "\<And>n. daysInMonth y m = Some n \<Longrightarrow> d \<le> n"
    by (auto simp: valid_civil_def)
  have "0 \<le> month_start (shifted_month m) + d - 1 \<and>
      month_start (shifted_month m) + d - 1 < (if leap (shifted_year y m + 1) then 366 else 365) \<and>
      (5 * (month_start (shifted_month m) + d - 1) + 2) div 153 = shifted_month m"
    using m
  proof (cases rule: month_cases)
    case 2
    then show ?thesis
      using d by (cases "leap y") (simp_all add: daysInMonth_leap shifted_month_def shifted_year_def month_start_values)
  qed (use d in \<open>simp_all add: daysInMonth_leap shifted_month_def shifted_year_def month_start_values\<close>)
  then show "0 \<le> month_start (shifted_month m) + d - 1"
    and "month_start (shifted_month m) + d - 1 < year_len (shifted_year y m mod 400)"
    and "(5 * (month_start (shifted_month m) + d - 1) + 2) div 153 = shifted_month m"
    by (simp_all add: year_len_def leap_mod_400)
qed

lemma year_in_era:
  assumes y: "0 \<le> y" "y < 400" and t: "0 \<le> t" "t < year_len y"
  shows "0 \<le> year_start y + t" "year_start y + t < 146097"
proof -
  have "0 \<le> y div 4 - y div 100" using y by linarith
  then show "0 \<le> year_start y + t" using y t by (simp add: year_start_def)
  show "year_start y + t < 146097"
  proof (cases "y = 399")
    case True
    with t show ?thesis by (simp add: year_start_def year_len_def leap_def)
  next
    case False
    with y have "365 * y + y div 4 \<le> 365 * 398 + 99" by linarith
    then show ?thesis using t y by (auto simp: year_start_def year_len_def split: if_splits)
  qed
qed

lemma civilFromDays_of:
  assumes y: "0 \<le> yoe" "yoe < 400" and t: "0 \<le> doy" "doy < year_len yoe"
    and z: "z = era * 146097 + year_start yoe + doy - 719468" and mp: "mp = (5 * doy + 2) div 153"
  shows "civilFromDays z = (yoe + era * 400 + (if mp < 10 then 0 else 1), mp + (if mp < 10 then 3 else -9), doy - month_start mp + 1)"
proof -
  note b = year_in_era [OF y t]
  have zz: "z + 719468 = (year_start yoe + doy) + 146097 * era" by (simp add: z)
  have q: "(z + 719468) mod 146097 = year_start yoe + doy" "(z + 719468) div 146097 = era"
    unfolding zz using b by (simp_all add: div_pos_pos_trivial mod_pos_pos_trivial)
  show ?thesis
    using civilFromDays_int [of "year_start yoe + doy" z yoe doy mp] q yoe_of_year [OF y t] y t mp
    by (auto simp: year_len_def split: if_splits)
qed

lemma civil_days_civil:
  assumes v: "valid_civil y m d"
  shows "civilFromDays (daysFromCivil y (word_of_int m) (word_of_int d)) = (y, m, d)"
proof -
  from v have m: "1 \<le> m" "m \<le> 12" and d: "1 \<le> d" "d \<le> 31"
    by (auto simp: valid_civil_def daysInMonth_leap split: if_splits)
  let ?y = "shifted_year y m" and ?mp = "shifted_month m"
  note doy = doy_of_valid [OF v]
  have "civilFromDays (daysFromCivil y (word_of_int m) (word_of_int d)) =
      (?y mod 400 + ?y div 400 * 400 + (if ?mp < 10 then 0 else 1), ?mp + (if ?mp < 10 then 3 else -9),
       month_start ?mp + d - 1 - month_start ?mp + 1)"
    using doy by (intro civilFromDays_of) (simp_all add: daysFromCivil_int [OF m d])
  also have "\<dots> = (y, m, d)"
    using m by (simp add: shifted_year_def shifted_month_def mod_div_mult_eq)
  finally show ?thesis .
qed

text \<open>Every day of an era lies in one of its years.\<close>

lemma div_plus_one:
  fixes y n :: int
  assumes "0 < n"
  shows "(y + 1) div n = y div n + (if n dvd y + 1 then 1 else 0)"
proof -
  have y: "y = n * (y div n) + y mod n" by simp
  have r: "0 \<le> y mod n" "y mod n < n" using assms by simp_all
  have "n dvd y + 1 \<longleftrightarrow> n dvd (y mod n + 1) + n * (y div n)" by simp
  also have "\<dots> \<longleftrightarrow> n dvd y mod n + 1" by (rule dvd_add_left_iff) simp
  also have "\<dots> \<longleftrightarrow> y mod n + 1 = n" using r zdvd_imp_le [of n "y mod n + 1"] by auto
  finally have d: "n dvd y + 1 \<longleftrightarrow> y mod n + 1 = n" .
  show ?thesis
  proof (cases "y mod n + 1 = n")
    case True
    have "y + 1 = n * (y div n) + (y mod n + 1)" using y by linarith
    also have "\<dots> = n * (y div n + 1)" unfolding True by (simp add: distrib_left)
    finally have "y + 1 = n * (y div n + 1)" .
    then show ?thesis using True d assms by simp
  next
    case False
    then have "(y + 1) div n = y div n"
      using r y by (intro int_div_pos_eq [where r = "y mod n + 1"]) simp_all
    then show ?thesis using False d by simp
  qed
qed

lemma year_start_Suc: "0 \<le> y \<Longrightarrow> y < 399 \<Longrightarrow> year_start (y + 1) = year_start y + year_len y"
proof -
  assume y: "0 \<le> y" "y < 399"
  have "\<not> 400 dvd y + 1" using y zdvd_imp_le [of 400 "y + 1"] by linarith
  moreover have "4 dvd x" if "100 dvd x" for x :: int using that by (rule dvd_trans [rotated]) simp
  ultimately show ?thesis by (auto simp: year_start_def year_len_def leap_def div_plus_one)
qed

lemma day_of_era:
  assumes "0 \<le> doe" "doe < 146097"
  shows "\<exists>y t. 0 \<le> y \<and> y < 400 \<and> 0 \<le> t \<and> t < year_len y \<and> doe = year_start y + t"
proof -
  have "\<exists>y t. 0 \<le> y \<and> y < 400 \<and> 0 \<le> t \<and> t < year_len y \<and> int n = year_start y + t" if "int n < 146097" for n
    using that
  proof (induction n)
    case 0
    show ?case by (intro exI [of _ 0]) (simp add: year_len_def year_start_def)
  next
    case (Suc n)
    then obtain y t where yt: "0 \<le> y" "y < 400" "0 \<le> t" "t < year_len y" "int n = year_start y + t" by auto
    consider "t + 1 < year_len y" | "t + 1 = year_len y" "y < 399" | "t + 1 = year_len y" "y = 399" using yt by linarith
    then show ?case
    proof cases
      case 1
      with yt show ?thesis by (intro exI [of _ y] exI [of _ "t + 1"]) simp
    next
      case 2
      with yt year_start_Suc [of y] show ?thesis
        by (intro exI [of _ "y + 1"] exI [of _ 0]) (simp add: year_len_def)
    next
      case 3
      with yt Suc.prems show ?thesis by (simp add: year_start_def year_len_def leap_def)
    qed
  qed
  from this [of "nat doe"] assms show ?thesis by simp
qed

lemma month_of_doy:
  assumes "0 \<le> doy" "doy \<le> 365" and mp: "mp = (5 * doy + 2) div 153"
  shows "0 \<le> mp" "mp \<le> 11" "month_start mp \<le> doy" "mp < 11 \<Longrightarrow> doy < month_start (mp + 1)"
  using assms by (simp_all add: month_start_def mp)

lemma days_civil_days:
  assumes "civilFromDays z = (y, m, d)"
  shows "valid_civil y m d \<and> daysFromCivil y (word_of_int m) (word_of_int d) = z"
proof -
  define era where "era = (z + 719468) div 146097"
  obtain yoe doy where yt: "0 \<le> yoe" "yoe < 400" "0 \<le> doy" "doy < year_len yoe"
    and doe: "(z + 719468) mod 146097 = year_start yoe + doy"
    using day_of_era [of "(z + 719468) mod 146097"] by auto
  define mp where "mp = (5 * doy + 2) div 153"
  have z: "z = era * 146097 + year_start yoe + doy - 719468"
    using doe div_mult_mod_eq [of "z + 719468" 146097] by (simp add: era_def)
  from civilFromDays_of [OF yt z mp_def] assms
  have ymd: "y = yoe + era * 400 + (if mp < 10 then 0 else 1)" "m = mp + (if mp < 10 then 3 else -9)" "d = doy - month_start mp + 1"
    by simp_all
  have doy: "doy \<le> 365" using yt(3,4) by (simp add: year_len_def split: if_splits)
  note mo = month_of_doy [OF yt(3) doy mp_def]
  have sy: "shifted_year y m = yoe + era * 400" "shifted_month m = mp"
    using mo by (auto simp: ymd shifted_year_def shifted_month_def)
  have lp: "leap (yoe + 1) \<longleftrightarrow> leap (yoe + era * 400 + 1)"
    using leap_mod_400 [of "yoe + era * 400"] yt(1,2) by simp
  have v: "valid_civil y m d"
  proof -
    have "mp \<in> {0, 1, 2, 3, 4, 5, 6, 7, 8, 9, 10, 11}" using mo(1,2) by simp presburger
    then show ?thesis
      using mo(3,4) yt(4) lp
      by (elim insertE emptyE) (simp_all add: valid_civil_def daysInMonth_leap ymd month_start_values year_len_def split: if_splits)
  qed
  then have m: "1 \<le> m" "m \<le> 12" and d: "1 \<le> d" "d \<le> 31"
    by (auto simp: valid_civil_def daysInMonth_leap split: if_splits)
  have "daysFromCivil y (word_of_int m) (word_of_int d) = z"
    unfolding daysFromCivil_int [OF m d] sy using yt(1,2) by (simp add: z ymd(3))
  with v show ?thesis by blast
qed

section \<open>The day number counts calendar days\<close>

text \<open>The day after a civil date; together with day 0 this determines \<^const>\<open>daysFromCivil\<close>.\<close>

fun next_civil :: "int \<times> int \<times> int \<Rightarrow> int \<times> int \<times> int" where
  "next_civil (y, m, d) =
     (if daysInMonth y m \<noteq> Some d then (y, m, d + 1) else if m < 12 then (y, m + 1, 1) else (y + 1, 1, 1))"

lemma daysFromCivil_day:
  assumes "1 \<le> m" "m \<le> 12" "1 \<le> d" "d \<le> 31"
  shows "daysFromCivil y (word_of_int m) (word_of_int d) = daysFromCivil y (word_of_int m) 1 + d - 1"
  using daysFromCivil_int [OF assms(1,2,3,4)] daysFromCivil_int [OF assms(1,2), of 1 y] by simp

lemma year_start_next:
  "(Y + 1) div 400 * 146097 + year_start ((Y + 1) mod 400) = Y div 400 * 146097 + year_start (Y mod 400) + year_len (Y mod 400)"
proof -
  define q r where "q = Y div 400" and "r = Y mod 400"
  have r: "0 \<le> r" "r < 400" and Y: "Y = r + 400 * q" by (simp_all add: q_def r_def)
  have "(r + 1 + 400 * q) div 400 * 146097 + year_start ((r + 1 + 400 * q) mod 400) = q * 146097 + year_start r + year_len r"
  proof (cases "r = 399")
    case True
    then show ?thesis by (simp add: year_start_def year_len_def leap_def)
  next
    case False
    with r have l: "r < 399" by linarith
    then show ?thesis using year_start_Suc [of r] r by (simp add: div_pos_pos_trivial mod_pos_pos_trivial)
  qed
  then show ?thesis unfolding q_def [symmetric] r_def [symmetric] by (simp add: Y algebra_simps)
qed

text \<open>\<^const>\<open>daysFromCivil\<close> numbers the days of the Gregorian calendar consecutively: the day after a valid
  civil date, over the ends of months, leap years and eras alike, has the next number, and 1970-01-01 has number 0.\<close>

theorem daysFromCivil_consecutive:
  assumes v: "valid_civil y m d" and n: "next_civil (y, m, d) = (y', m', d')"
  shows "daysFromCivil 1970 1 1 = 0 \<and> valid_civil y' m' d' \<and>
    daysFromCivil y' (word_of_int m') (word_of_int d') = daysFromCivil y (word_of_int m) (word_of_int d) + 1"
proof -
  have zero: "daysFromCivil 1970 1 1 = 0" by code_simp
  from v have m: "1 \<le> m" "m \<le> 12" and d: "1 \<le> d" "d \<le> 31"
    by (auto simp: valid_civil_def daysInMonth_leap split: if_splits)
  have v': "valid_civil y' m' d'"
    using v n by (auto simp: valid_civil_def daysInMonth_leap split: if_splits)
  then have m': "1 \<le> m'" "m' \<le> 12" and d': "1 \<le> d'" "d' \<le> 31"
    by (auto simp: valid_civil_def daysInMonth_leap split: if_splits)
  have lp: "year_len (y mod 400) = (if leap (y + 1) then 366 else 365)" for y
    by (simp add: year_len_def leap_mod_400)
  have "shifted_year y' m' div 400 * 146097 + year_start (shifted_year y' m' mod 400) + month_start (shifted_month m') + d' =
      shifted_year y m div 400 * 146097 + year_start (shifted_year y m mod 400) + month_start (shifted_month m) + d + 1"
    using m
  proof (cases rule: month_cases)
    case 2
    then show ?thesis using n v year_start_next [of "y - 1"] lp [of "y - 1"]
      by (auto simp: valid_civil_def daysInMonth_leap shifted_month_def shifted_year_def month_start_values split: if_splits)
  qed (use n v in \<open>auto simp: valid_civil_def daysInMonth_leap shifted_month_def shifted_year_def month_start_values split: if_splits\<close>)
  then have "daysFromCivil y' (word_of_int m') (word_of_int d') = daysFromCivil y (word_of_int m) (word_of_int d) + 1"
    unfolding daysFromCivil_int [OF m d] daysFromCivil_int [OF m' d'] by linarith
  with zero v' show ?thesis by blast
qed

lemma weekdayOfDayNum_mod: "weekdayOfDayNum z = (z + 3) mod 7"
proof (cases "0 \<le> z")
  case True
  then have "weekdayOfDayNum z = (z mod 7 + 10) mod 7" by (simp add: weekdayOfDayNum_def add.assoc)
  then show ?thesis by presburger
next
  case False
  then have "c_mod z 7 = - ((- z) mod 7)" by (simp add: c_mod_def c_div_def sgn_if minus_mult_div_eq_mod [symmetric])
  then have "weekdayOfDayNum z = (10 - (- z) mod 7) mod 7" by (simp add: weekdayOfDayNum_def)
  then show ?thesis by presburger
qed

lemma clamp_day_range:
  "1 \<le> day \<Longrightarrow> 28 \<le> dim \<Longrightarrow>
   1 \<le> clamp_day dim day \<and> clamp_day dim day \<le> dim \<and> clamp_day dim day \<le> day \<and>
   clamp_day dim day mod 7 = day mod 7 \<and> (clamp_day dim day = day \<or> dim < clamp_day dim day + 7)"
proof (induction dim day rule: clamp_day.induct)
  case (1 dim day)
  show ?case
  proof (cases "day > dim")
    case True
    with 1 have "1 \<le> day - 7" by simp
    with 1 True have IH: "1 \<le> clamp_day dim (day - 7)" "clamp_day dim (day - 7) \<le> dim" "clamp_day dim (day - 7) \<le> day - 7"
       "clamp_day dim (day - 7) mod 7 = (day - 7) mod 7" "clamp_day dim (day - 7) = day - 7 \<or> dim < clamp_day dim (day - 7) + 7"
      by simp_all
    have "(day - 7) mod 7 = day mod 7" by presburger
    with IH True show ?thesis by (auto simp: clamp_day.simps [of dim day])
  next
    case False
    with 1 show ?thesis by (simp add: clamp_day.simps [of dim day])
  qed
qed

text \<open>Stepping from a day to the next or previous day with a given weekday.\<close>

lemma weekday_reach:
  assumes w: "0 \<le> w" "w \<le> (6 :: int)"
  shows "(f + (w - f mod 7 + 7) mod 7 + k * 7) mod 7 = w"
proof -
  have "(f + (w - f mod 7 + 7) mod 7 + k * 7) mod 7 = (f + (w - f mod 7 + 7)) mod 7"
    unfolding mod_mult_self1 by (rule mod_add_right_eq)
  also have "\<dots> = (f + w - f mod 7) mod 7"
    using mod_add_self2 [of "f + w - f mod 7" 7] by (simp add: algebra_simps)
  also have "\<dots> = w" using w mod_diff_right_eq [of "f + w" f 7] by simp
  finally show ?thesis .
qed

lemma weekday_reach_back:
  assumes w: "0 \<le> w" "w \<le> (6 :: int)"
  shows "(l - (l mod 7 - w + 7) mod 7) mod 7 = w"
proof -
  have "(l - (l mod 7 - w + 7) mod 7) mod 7 = (l - (l mod 7 - w + 7)) mod 7" by (rule mod_diff_right_eq)
  also have "\<dots> = (l + w - l mod 7) mod 7"
    using mod_mult_self1 [of "l + w - l mod 7" "-1" 7] by (simp add: algebra_simps)
  also have "\<dots> = w" using w mod_diff_right_eq [of "l + w" l 7] by simp
  finally show ?thesis .
qed

text \<open>The month of a VTIMEZONE rule holds its transition day, on the weekday of the rule.\<close>

definition is_nth_weekday :: "int \<Rightarrow> int \<Rightarrow> int \<Rightarrow> int \<Rightarrow> int \<Rightarrow> bool" where
  "is_nth_weekday y m week wday z \<longleftrightarrow>
     (\<exists>d dim. civilFromDays z = (y, m, d) \<and> daysInMonth y m = Some dim \<and> weekdayOfDayNum z = wday \<and>
       (if week > 0 then (d - 1) div 7 + 1 = week \<or> (d - 1) div 7 + 1 < week \<and> dim < d + 7 else dim < d + 7))"

lemma civilFromDays_first:
  assumes "1 \<le> m" "m \<le> 12" "1 \<le> d" "daysInMonth y m = Some dim" "d \<le> dim"
  shows "civilFromDays (daysFromCivil y (word_of_int m) 1 + d - 1) = (y, m, d)"
proof -
  have "valid_civil y m d" using assms by (simp add: valid_civil_def)
  moreover have "d \<le> 31" using assms by (auto simp: daysInMonth_leap split: if_splits)
  ultimately show ?thesis
    using civil_days_civil [of y m d] daysFromCivil_day [of m d y] assms by simp
qed

lemma long32_id: "- (2 ^ 31) \<le> x \<Longrightarrow> x < 2 ^ 31 \<Longrightarrow> long32 x = x"
  by (simp add: long32_def sint_sbintrunc' signed_take_bit_int_eq_self)

lemma daysInMonth_bounds: "daysInMonth y m = Some dim \<Longrightarrow> 28 \<le> dim \<and> dim \<le> 31"
  by (auto simp: daysInMonth_leap split: if_splits)

lemma daysInMonth_None: "daysInMonth y m = None \<longleftrightarrow> \<not> (1 \<le> m \<and> m \<le> 12)"
  by (auto simp: daysInMonth_leap)

text \<open>the transition of a VTIMEZONE rule (month 1 to 12, weekday 0 to 6) falls in the month of the rule, on its
  weekday, and is the rule's \<^verbatim>\<open>week\<close>-th such day of the month; a fifth one that does not exist is replaced by
  the last one, and a non-positive week always means the last one. (Beyond that week the number of the day leaves 32 bits.)\<close>

theorem transitionDayNum_correct:
  assumes m: "1 \<le> month" "month \<le> 12" and w: "0 \<le> wday" "wday \<le> 6" and small: "week \<le> 306783378"
  shows "\<exists>z. transitionDayNum year month week wday = Some z \<and> is_nth_weekday year month week wday z"
proof -
  define first where "first = daysFromCivil year (word_of_int month) 1"
  obtain dim where dim: "daysInMonth year month = Some dim" using m daysInMonth_None by blast
  note db = daysInMonth_bounds [OF dim]
  have civil: "civilFromDays (first + d - 1) = (year, month, d)" if "1 \<le> d" "d \<le> dim" for d
    using civilFromDays_first [OF m that(1) dim that(2)] by (simp add: first_def)
  have fw: "0 \<le> weekdayOfDayNum first" "weekdayOfDayNum first \<le> 6" by (simp_all add: weekdayOfDayNum_mod)
  show ?thesis
  proof (cases "week > 0")
    case True
    define day where "day = 1 + (wday - weekdayOfDayNum first + 7) mod 7 + (week - 1) * 7"
    define c where "c = clamp_day dim day"
    have "0 \<le> (wday - weekdayOfDayNum first + 7) mod 7" "(wday - weekdayOfDayNum first + 7) mod 7 < 7" by simp_all
    note fifth = this
    have l: "long32 day = day" by (rule long32_id) (use True fifth small in \<open>simp_all add: day_def\<close>)
    from fifth have "(day - 1) div 7 = week - 1" "1 \<le> day" using True by (simp_all add: day_def)
    moreover from this(2) have c: "1 \<le> c" "c \<le> dim" "c \<le> day" "c mod 7 = day mod 7" "c = day \<or> dim < c + 7"
      using clamp_day_range [of day dim] db by (simp_all add: c_def)
    ultimately have nth: "(c - 1) div 7 + 1 = week \<or> (c - 1) div 7 + 1 < week \<and> dim < c + 7"
      by (auto dest: zdiv_mono1 [of "c - 1" "day - 1" 7])
    have "(first + c - 1 + 3) mod 7 = (first + 2 + day) mod 7"
      using mod_add_cong [OF refl c(4), of "first + 2"] by (simp add: algebra_simps)
    also have "\<dots> = wday"
      using weekday_reach [OF w, of "first + 3" "week - 1"] by (simp add: day_def weekdayOfDayNum_mod algebra_simps)
    finally have "weekdayOfDayNum (first + c - 1) = wday" by (simp add: weekdayOfDayNum_mod)
    moreover have "transitionDayNum year month week wday = Some (first + c - 1)"
      using True w fw l by (simp add: transitionDayNum_def dim Let_def first_def [symmetric] c_def day_def)
    ultimately show ?thesis using civil [OF c(1,2)] nth True dim unfolding is_nth_weekday_def by auto
  next
    case False
    define last where "last = (weekdayOfDayNum first + dim - 1) mod 7"
    define day where "day = dim - (last - wday + 7) mod 7"
    have "0 \<le> last" "last < 7" "0 \<le> (last - wday + 7) mod 7" "(last - wday + 7) mod 7 < 7" by (simp_all add: last_def)
    note lb = this
    then have day: "1 \<le> day" "day \<le> dim" "dim < day + 7" using db unfolding day_def by linarith+
    have "last = (first + dim + 2) mod 7"
      using mod_add_left_eq [of "first + 3" 7 "dim - 1"] by (simp add: last_def weekdayOfDayNum_mod algebra_simps)
    then have "(first + day - 1 + 3) mod 7 = wday"
      using weekday_reach_back [OF w, of "first + dim + 2"] by (simp add: day_def algebra_simps)
    then have "weekdayOfDayNum (first + day - 1) = wday" by (simp add: weekdayOfDayNum_mod)
    moreover have "transitionDayNum year month week wday = Some (first + day - 1)"
      using False w fw db lb
      by (simp add: transitionDayNum_def dim Let_def first_def [symmetric] day_def last_def)
    ultimately show ?thesis using civil [OF day(1,2)] day(3) False dim unfolding is_nth_weekday_def by auto
  qed
qed

theorem transitionDayNum_correct_witness:
  "\<exists>z. transitionDayNum 2026 3 2 6 = Some z \<and> is_nth_weekday 2026 3 2 6 z"
  by (rule transitionDayNum_correct) simp_all

text \<open>the conversions between civil dates and day numbers are inverse to each other: every valid civil date is
  found again from its number, and every day number is that of the valid date \<^const>\<open>civilFromDays\<close> returns.\<close>

theorem civil_round_trip:
  assumes "valid_civil y m d" and "civilFromDays z = (y', m', d')"
  shows "civilFromDays (daysFromCivil y (word_of_int m) (word_of_int d)) = (y, m, d) \<and>
    valid_civil y' m' d' \<and> daysFromCivil y' (word_of_int m') (word_of_int d') = z"
  using civil_days_civil [OF assms(1)] days_civil_days [OF assms(2)] by blast

theorem civil_round_trip_witness:
  "civilFromDays (daysFromCivil 2024 2 29) = (2024, 2, 29) \<and> valid_civil 1969 12 31 \<and> daysFromCivil 1969 12 31 = -1"
proof -
  have "valid_civil 2024 2 29" "civilFromDays (-1) = (1969, 12, 31)"
    by (simp add: valid_civil_def daysInMonth_leap leap_def, code_simp)
  from civil_round_trip [OF this] show ?thesis by simp
qed

theorem daysFromCivil_consecutive_witness:
  "daysFromCivil 2024 3 1 = daysFromCivil 2024 2 29 + 1"
proof -
  have "valid_civil 2024 2 29" "next_civil (2024, 2, 29) = (2024, 3, 1)"
    by (simp_all add: valid_civil_def daysInMonth_leap leap_def)
  from daysFromCivil_consecutive [OF this] show ?thesis by simp
qed

end
