(* ===== verification/Ui_State.thy ===== *)
theory Ui_State
  imports Web_Server Main_Loop Sync_Manager Civil_Date
begin

text \<open>
  The state of the buttons-and-screens interface: src/firmware/src/ui/InboxUI.h. FreeInkUI is the SDK (a submodule).
  A screen function calls its builder; here it returns what it asked the builder for (\<open>ui_screen\<close>), together
  with the state it leaves. The job index, the outbox, the tasks, the settings of the radio and the card are the
  ones the web server is attached to, so they are read in the \<open>web_state\<close> that is a member of the state.
\<close>

section \<open>Screens\<close>

datatype ui_action = ActionOpenJob | ActionBack | ActionNextPage | ActionPrevPage | ActionShowActionMenu
  | ActionCancelMenu | ActionSyncNow | ActionMenuRowSelect | ActionOpenWebUiChoice | ActionWebUiChoiceRowSelect
  | ActionWebUiStop | ActionCancelWebUiChoice | ActionOpenSettings | ActionSettingsBack | ActionSettingsPrevTab
  | ActionSettingsNextTab | ActionSettingsWifiRowSelect | ActionSettingsWifiConfirmRemove
  | ActionSettingsWifiCancelRemove | ActionSettingsDisplayRowSelect | ActionSettingsCalendarRowSelect

datatype planner_action = kActionOpenTimeline | kActionTimelineBack | kActionTimelineToggleView
  | kActionSettingsPlannerRowSelect | kActionTimelineRowSelect

datatype pomodoro_action = kActionOpenPomodoro | kActionPomodoroBack | kActionPomodoroStart | kActionPomodoroStop

datatype action_id = InboxAction ui_action | PlannerAction planner_action | PomodoroAction pomodoro_action

text \<open>A list row; \<open>rowToggle\<close> is the state of its switch when it has one.\<close>

record ui_row =
  rowLabel :: string
  rowSubtitle :: "string option"
  rowValue :: "string option"
  actionValue :: int
  isHeader :: bool
  rowToggle :: "bool option"

definition row_init :: ui_row where
  "row_init = \<lparr>rowLabel = [], rowSubtitle = None, rowValue = None, actionValue = 0, isHeader = False, rowToggle = None\<rparr>"

text \<open>A drawn cell of the horizontal day view: background shade, whether its text is white, the text.\<close>

record ui_cell =
  cellShade :: DitherPattern
  cellWhite :: bool
  cellText :: string

datatype ui_element =
    Popup string
  | RowList "ui_row list" int action_id
  | Dialog string string "(string \<times> action_id) list"
  | Strip "ui_cell list" "string option"

record ui_screen =
  scHeader :: "(string \<times> string) option"
  scBody :: "ui_element list"
  scFooter :: "(string \<times> action_id) list"

text \<open>
  What a frame reads from outside: the width of the body and whether it is empty, the clock, the battery and the
  card, and the value the SDK gives to the event of a footer button.
\<close>

record ui_frame =
  fnWidth :: int
  fnEmpty :: bool
  fnNow :: int
  fnDiag :: diag_reads
  fnFooterValue :: int

section \<open>State\<close>

datatype SettingsTab = TabWifi | TabSyncRelay | TabDisplay | TabCalendar | TabDeviceInfo | TabPlanner | TabPomodoro

definition settings_tabs :: "SettingsTab list" where
  "settings_tabs = [TabWifi, TabSyncRelay, TabDisplay, TabCalendar, TabDeviceInfo, TabPlanner, TabPomodoro]"

fun tab_index :: "SettingsTab \<Rightarrow> nat" where
  "tab_index TabWifi = 0"
| "tab_index TabSyncRelay = 1"
| "tab_index TabDisplay = 2"
| "tab_index TabCalendar = 3"
| "tab_index TabDeviceInfo = 4"
| "tab_index TabPlanner = 5"
| "tab_index TabPomodoro = 6"

record ('s, 'f) ui_state =
  uWeb :: "'s web_state"
  uMode :: ScreenMode
  uSettings :: "AppSettingsData option"
  uPomodoro :: "PomodoroState option"
  webUiStartError :: "string option"
  selectedJobIndex :: int
  uPage :: u16
  uReader :: "'f XtcReader"
  readerOpenForSelected :: bool
  landscapeView :: bool
  lastSyncSummary :: SyncSummary
  hasSyncedOnce :: bool
  settingsTab :: SettingsTab
  settingsWifiRemoveIndex :: int
  reminderAtEnd :: bool
  uFramebuffer :: "u8 list option"
  uFramebufferSize :: nat
  uPanelWidth :: u16
  uPanelHeight :: u16
  uRequestSyncNow :: bool

text \<open>
  \<^verbatim>\<open>at(i)\<close> of the job index: a slot past the count is still the zero-initialised entry, as nothing ever
  takes a job out of the index; \<open>None\<close> is a read past the array.
\<close>

definition job_at :: "JobIndex \<Rightarrow> int \<Rightarrow> JobEntry option" where
  "job_at jobs i =
     (if i < 0 \<or> i \<ge> int kMaxInboxJobs then None
      else if nat i < length jobs then Some (jobs ! nat i) else Some JobEntry_init)"

text \<open>\<^verbatim>\<open>static_cast<int16_t>\<close> of an event's 32-bit value.\<close>

definition to_i16 :: "int \<Rightarrow> int" where
  "to_i16 v = sint (word_of_int v :: 16 word)"

section \<open>Text\<close>

text \<open>The conversions of \<^verbatim>\<open>snprintf\<close> that the screens use, and its truncation.\<close>

fun show_nat :: "nat \<Rightarrow> string" where
  "show_nat n = (if n < 10 then [char_of (48 + n)] else show_nat (n div 10) @ [char_of (48 + n mod 10)])"

declare show_nat.simps [simp del]

definition show_int :: "int \<Rightarrow> string" where
  "show_int n = (if n < 0 then ''-'' @ show_nat (nat (- n)) else show_nat (nat n))"

definition snprintf :: "nat \<Rightarrow> string \<Rightarrow> string" where
  "snprintf bufsize s = take (bufsize - 1) s"

definition newline :: string where "newline = [CHR 0x0A]"

definition day_names :: "string list" where
  "day_names = [''Sun'', ''Mon'', ''Tue'', ''Wed'', ''Thu'', ''Fri'', ''Sat'']"

definition month_names :: "string list" where
  "month_names = [''Jan'', ''Feb'', ''Mar'', ''Apr'', ''May'', ''Jun'', ''Jul'', ''Aug'', ''Sep'', ''Oct'', ''Nov'', ''Dec'']"

text \<open>\<^verbatim>\<open>strftime\<close> with \<^verbatim>\<open>%a %b %d\<close> of a UTC time.\<close>

definition day_text :: "int \<Rightarrow> string" where
  "day_text t =
     (let days = t div 86400; (y, m, d) = civilFromDays days
      in day_names ! nat ((days + 4) mod 7) @ '' '' @ month_names ! nat (m - 1) @ '' '' @ two_digits d)"

definition time_text :: "int \<Rightarrow> string" where
  "time_text t = day_text t @ '', '' @ formatUtcHm t @ '' UTC''"

end
