(* ===== verification/Planner_Ui.thy ===== *)
theory Planner_Ui
  imports Ui_State
begin

text \<open>
  The day view and the Pomodoro screen with their buttons: src/firmware/src/ui/PlannerUI.cpp and PomodoroUI.cpp.
  A toggle writes the setting and saves the settings file; a failed save is ignored, as in the code.
\<close>

section \<open>The day view\<close>

fun category_byte :: "Category \<Rightarrow> u8" where
  "category_byte Category.Work = 0"
| "category_byte Category.Break = 1"
| "category_byte Chore = 2"
| "category_byte Health = 3"
| "category_byte Social = 4"
| "category_byte School = 5"
| "category_byte Personal = 6"
| "category_byte Other = 7"

definition renderVertical :: "TimelineItem list \<Rightarrow> ui_element" where
  "renderVertical items =
     RowList (map (\<lambda>i. let it = items ! i;
          prefix = (if isCalendarEvent it then ''[C]'' else if tlDone it then ''[x]'' else ''[ ]'')
        in row_init\<lparr>rowLabel := snprintf (kTimelineLabelLen + 8) (prefix @ '' '' @ tlLabel it),
             rowSubtitle := Some (if isCalendarEvent it then ''Calendar'' else categoryName (tlCategory it)),
             actionValue := int i\<rparr>) [0..<length items]) 0 (PlannerAction kActionTimelineRowSelect)"

text \<open>The body of the screen is \<open>bodyWidth\<close> pixels wide, or empty: no cell is drawn then.\<close>

definition renderHorizontal :: "int \<Rightarrow> bool \<Rightarrow> TimelineItem list \<Rightarrow> ui_element list" where
  "renderHorizontal bodyWidth bodyEmpty items =
     (let len = length items in
      if bodyEmpty \<or> len = 0 then [] else
      let maxCells = nat (c_div bodyWidth (150 + 8));
          maxCells = (if maxCells = 0 then 1 else maxCells);
          cut = len > maxCells;
          shown = (if cut then maxCells - 1 else len);
          cell = (\<lambda>it. let visual = (if isCalendarEvent it then \<lparr>iconSlug = ''calendar'', dither = Dense\<rparr>
                                       else styleFor (category_byte (tlCategory it)))
            in \<lparr>cellShade = dither visual, cellWhite = (dither visual = Solid),
                 cellText = snprintf (kTimelineLabelLen + 16)
                   ((if tlDone it then ''[done]'' else []) @ newline @ tlLabel it)\<rparr>)
      in [Strip (map cell (take shown items))
           (if cut then Some (snprintf 32 (''+'' @ show_nat (len - shown) @ '' more'')) else None)])"

definition timeline_items :: "('s, 'f) ui_state \<Rightarrow> TimelineItem list" where
  "timeline_items st =
     (case wTasks (uWeb st) of
        None \<Rightarrow> []
      | Some tasks \<Rightarrow>
          let (n, items) = buildTimelineItems tasks (Some (wEvent (uWeb st)))
                (replicate kMaxTimelineItems \<lparr>tlLabel = [], tlCategory = Other, isCalendarEvent = False, tlDone = False\<rparr>)
                kMaxTimelineItems
          in take n items)"

definition timelineScreen :: "int \<Rightarrow> bool \<Rightarrow> ('s, 'f) ui_state \<Rightarrow> ui_screen" where
  "timelineScreen bodyWidth bodyEmpty st =
     (let horizontal = (case uSettings st of Some s \<Rightarrow> plannerHorizontalView s | None \<Rightarrow> False);
          items = timeline_items st; len = length items
      in \<lparr>scHeader = Some (''Timeline'', snprintf 32 ((if horizontal then ''Horizontal'' else ''Vertical'') @ '' * '' @
            show_nat len @ '' item'' @ (if len = 1 then [] else ''s''))),
          scBody =
            (if len = 0 then [Popup ''Nothing scheduled today. Tasks are added from the Pi's admin console (docs/planner.md).'']
             else if horizontal then renderHorizontal bodyWidth bodyEmpty items else [renderVertical items]),
          scFooter = [(if horizontal then ''View: Vert'' else ''View: Horiz'', PlannerAction kActionTimelineToggleView),
            (''Pomodoro'', PomodoroAction kActionOpenPomodoro), (''Back'', PlannerAction kActionTimelineBack)]\<rparr>)"

definition settingsPlannerTab :: "('s, 'f) ui_state \<Rightarrow> ui_element list" where
  "settingsPlannerTab st =
     (case uSettings st of
        None \<Rightarrow> []
      | Some s \<Rightarrow> [RowList [row_init\<lparr>rowLabel := ''Timeline orientation'',
          rowValue := Some (if plannerHorizontalView s then ''Horizontal'' else ''Vertical''),
          rowToggle := Some (plannerHorizontalView s), actionValue := 0\<rparr>] 0 (PlannerAction kActionSettingsPlannerRowSelect)])"

text \<open>
  Changing a setting: the handler changes the copy of main.cpp that \<^verbatim>\<open>state.appSettings\<close> points to, gives the
  singleton the same value and saves the singleton. Both start equal (main.cpp) and nothing else changes either, so
  one record stands for both.
\<close>

definition save_settings :: "('s, 'c, 'v, 'f) web_env \<Rightarrow> AppSettingsData \<Rightarrow> ('s, 'f) ui_state \<Rightarrow> ('s, 'f) ui_state" where
  "save_settings E s st =
     (let web = uWeb st
      in st\<lparr>uSettings := Some s, uWeb := web\<lparr>wWorld := snd (AppSettings_save (weSd E) (weJson E) (wWorld web) s)\<rparr>\<rparr>)"

definition toggle_orientation :: "('s, 'c, 'v, 'f) web_env \<Rightarrow> ('s, 'f) ui_state \<Rightarrow> ('s, 'f) ui_state" where
  "toggle_orientation E st =
     (case uSettings st of
        None \<Rightarrow> st
      | Some s \<Rightarrow> save_settings E (s\<lparr>plannerHorizontalView := \<not> plannerHorizontalView s\<rparr>) st)"

definition planner_handler :: "('s, 'c, 'v, 'f) web_env \<Rightarrow> planner_action \<Rightarrow> ('s, 'f) ui_state \<Rightarrow> ('s, 'f) ui_state" where
  "planner_handler E a st =
     (case a of
        kActionOpenTimeline \<Rightarrow> st\<lparr>uMode := ScreenMode.Timeline\<rparr>
      | kActionTimelineBack \<Rightarrow> st\<lparr>uMode := Inbox\<rparr>
      | kActionTimelineToggleView \<Rightarrow> toggle_orientation E st
      | kActionSettingsPlannerRowSelect \<Rightarrow> toggle_orientation E st
      | kActionTimelineRowSelect \<Rightarrow> st)"

section \<open>The Pomodoro screen\<close>

definition phaseName :: "Phase \<Rightarrow> string" where
  "phaseName p = (case p of Phase.Idle \<Rightarrow> ''Idle'' | Phase.Work \<Rightarrow> ''Work'' | Phase.Break \<Rightarrow> ''Break'' | LongBreak \<Rightarrow> ''Long Break'')"

definition formatMinSec :: "u32 \<Rightarrow> string" where
  "formatMinSec totalSeconds =
     snprintf 16 (show_nat (unat (totalSeconds div 60)) @ '':'' @ two_digits (uint (totalSeconds mod 60)))"

definition configFromSettings :: "AppSettingsData option \<Rightarrow> PomodoroConfig" where
  "configFromSettings settings =
     (case settings of
        None \<Rightarrow> PomodoroConfig_init
      | Some s \<Rightarrow> PomodoroConfig_init\<lparr>workMinutes := pomodoroWorkMinutes s, breakMinutes := pomodoroBreakMinutes s,
          longBreakMinutes := pomodoroLongBreakMinutes s, sessionsBeforeLongBreak := pomodoroSessionsBeforeLongBreak s,
          checkpointMinutes := pomodoroCheckpointMinutes s\<rparr>)"

definition pomodoroScreen :: "int \<Rightarrow> ('s, 'f) ui_state \<Rightarrow> ui_screen" where
  "pomodoroScreen now st =
     (let running = (case uPomodoro st of Some session \<Rightarrow> isActive session | None \<Rightarrow> False)
      in \<lparr>scHeader = Some (''Pomodoro'', ''Checkpoint-driven, not a live tick''),
          scBody = [Popup (case uPomodoro st of
              None \<Rightarrow> ''No active session. Press Start to begin a Work phase.''
            | Some session \<Rightarrow>
                if \<not> isActive session then ''No active session. Press Start to begin a Work phase.''
                else snprintf 128 (phaseName (phase session) @ newline @ formatMinSec (remainingSeconds session now) @
                  '' remaining'' @ newline @ newline @ ''Completed work sessions: '' @
                  show_nat (unat (completedWorkSessions session))))],
          scFooter = [(if running then ''Stop'' else ''Start'',
              PomodoroAction (if running then kActionPomodoroStop else kActionPomodoroStart)),
            (''Back'', PomodoroAction kActionPomodoroBack)]\<rparr>)"

definition settingsPomodoroTab :: "('s, 'f) ui_state \<Rightarrow> ui_element list" where
  "settingsPomodoroTab st =
     (case uSettings st of
        None \<Rightarrow> []
      | Some s \<Rightarrow> [Popup (snprintf 192 (''Work: '' @ show_nat (unat (pomodoroWorkMinutes s)) @ '' min'' @ newline @
          ''Break: '' @ show_nat (unat (pomodoroBreakMinutes s)) @ '' min'' @ newline @
          ''Long break: '' @ show_nat (unat (pomodoroLongBreakMinutes s)) @ '' min (every '' @
          show_nat (unat (pomodoroSessionsBeforeLongBreak s)) @ '' sessions)'' @ newline @
          ''Checkpoint: '' @ show_nat (unat (pomodoroCheckpointMinutes s)) @ '' min''))])"

definition save_session :: "('s, 'c, 'v, 'f) web_env \<Rightarrow> PomodoroState \<Rightarrow> ('s, 'f) ui_state \<Rightarrow> ('s, 'f) ui_state" where
  "save_session E session st =
     (let web = uWeb st
      in st\<lparr>uPomodoro := Some session,
           uWeb := web\<lparr>wWorld := snd (savePomodoroSession (weSd E) (weJson E) (wWorld web) session)\<rparr>\<rparr>)"

definition pomodoro_handler :: "('s, 'c, 'v, 'f) web_env \<Rightarrow> pomodoro_action \<Rightarrow> int \<Rightarrow> ('s, 'f) ui_state \<Rightarrow> ('s, 'f) ui_state" where
  "pomodoro_handler E a now st =
     (case a of
        kActionOpenPomodoro \<Rightarrow> st\<lparr>uMode := PomodoroScreen\<rparr>
      | kActionPomodoroBack \<Rightarrow> st\<lparr>uMode := ScreenMode.Timeline\<rparr>
      | kActionPomodoroStart \<Rightarrow>
          (case uPomodoro st of
             None \<Rightarrow> st
           | Some session \<Rightarrow> save_session E (start session now (configFromSettings (uSettings st))) st)
      | kActionPomodoroStop \<Rightarrow>
          (case uPomodoro st of None \<Rightarrow> st | Some session \<Rightarrow> save_session E (stop session) st))"

end
