(* ===== verification/Inbox_Ui.thy ===== *)
theory Inbox_Ui
  imports Planner_Ui
begin

text \<open>
  The screens of src/firmware/src/ui/InboxUI.cpp. A screen function gives what it asks the builder to draw and the
  state it leaves; \<open>None\<close> is an access outside an array or through a null pointer, which C++ leaves undefined.
  The static \<^verbatim>\<open>selected\<close> variables of the lists are never written but with 0, so the lists get 0.
\<close>

section \<open>The list of documents\<close>

fun statusGlyph :: "JobStatus \<Rightarrow> string" where
  "statusGlyph Downloaded = ''*''"
| "statusGlyph ApprovedPrint = ''P''"
| "statusGlyph ApprovedKeep = ''K''"
| "statusGlyph ApprovedDelete = ''D''"
| "statusGlyph (OtherStatus b) = '' ''"

definition kJobSections :: "(string \<times> JobStatus) list" where
  "kJobSections = [(''New'', Downloaded), (''To Print'', ApprovedPrint), (''Kept'', ApprovedKeep)]"

definition job_row :: "nat \<Rightarrow> JobEntry \<Rightarrow> ui_row" where
  "job_row i e = row_init\<lparr>rowLabel := snprintf 80 (''['' @ statusGlyph (status e) @ ''] '' @ title e @ '' ('' @
     show_nat (unat (pageCount e)) @ '' pg)''), actionValue := int i\<rparr>"

definition section_header :: "string \<Rightarrow> nat \<Rightarrow> ui_row" where
  "section_header name n = row_init\<lparr>rowLabel := snprintf 24 (name @ '' ('' @ show_nat n @ '')''),
     actionValue := -1, isHeader := True\<rparr>"

text \<open>
  The rows \<open>0..<outCount\<close> of the caller's array are the list; row \<open>outCount\<close> takes its text from
  \<^verbatim>\<open>labelBuf[outCount]\<close>, which the caller has \<open>labelCap\<close> of.
\<close>

fun job_rows :: "nat \<Rightarrow> nat \<Rightarrow> JobStatus \<Rightarrow> JobIndex \<Rightarrow> nat list \<Rightarrow> ui_row list \<times> nat \<Rightarrow> (ui_row list \<times> nat) option" where
  "job_rows labelCap maxJobs wanted jobs [] (items, jobsAdded) = Some (items, jobsAdded)"
| "job_rows labelCap maxJobs wanted jobs (i # rest) (items, jobsAdded) =
     (if jobsAdded \<ge> maxJobs then Some (items, jobsAdded)
      else if status (jobs ! i) \<noteq> wanted then job_rows labelCap maxJobs wanted jobs rest (items, jobsAdded)
      else if length items \<ge> labelCap then None
      else job_rows labelCap maxJobs wanted jobs rest (items @ [job_row i (jobs ! i)], jobsAdded + 1))"

text \<open>The loop that moves a section's rows one slot down and puts its header in front.\<close>

definition insert_header :: "nat \<Rightarrow> ui_row \<Rightarrow> ui_row list \<Rightarrow> ui_row list" where
  "insert_header sectionStart h items =
     (fold (\<lambda>i xs. xs[i := xs ! (i - 1)]) (rev [sectionStart + 1..<length items + 1]) (items @ [row_init]))[sectionStart := h]"

fun inbox_sections :: "nat \<Rightarrow> nat \<Rightarrow> JobIndex \<Rightarrow> (string \<times> JobStatus) list \<Rightarrow> ui_row list \<times> nat \<Rightarrow> ui_row list option" where
  "inbox_sections labelCap maxJobs jobs [] (items, jobsAdded) = Some items"
| "inbox_sections labelCap maxJobs jobs ((name, wanted) # rest) (items, jobsAdded) =
     (case job_rows labelCap maxJobs wanted jobs [0..<length jobs] (items, jobsAdded) of
        None \<Rightarrow> None
      | Some (items', jobsAdded') \<Rightarrow>
          if length items' = length items then inbox_sections labelCap maxJobs jobs rest (items', jobsAdded')
          else inbox_sections labelCap maxJobs jobs rest
                 (insert_header (length items) (section_header name (length items' - length items)) items', jobsAdded'))"

definition buildInboxListItems :: "nat \<Rightarrow> JobIndex \<Rightarrow> nat \<Rightarrow> ui_row list option" where
  "buildInboxListItems labelCap jobs maxJobs = inbox_sections labelCap maxJobs jobs kJobSections ([], 0)"

section \<open>The home screen\<close>

definition idleScreenMessage :: "('s, 'f) ui_state \<Rightarrow> string" where
  "idleScreenMessage st =
     (let ev = wEvent (uWeb st) in
      if \<not> hasEvent ev then ''Inbox empty. Print something from any computer on your network, then wake this device.''
      else
        let timeStr = (if evAllDay ev then day_text (evStart ev) @ '' (all day, UTC)'' else time_text (evStart ev))
        in snprintf 192 (''Next: '' @ evTitle ev @ newline @ timeStr @ newline @ newline @
             ''Inbox empty. Print something to see it here.''))"

text \<open>The loop that looks for the row of the selected job: that row, the first real row, whether it was found.\<close>

fun find_selected :: "ui_row list \<Rightarrow> int \<Rightarrow> int \<Rightarrow> int \<Rightarrow> int \<times> int \<times> bool" where
  "find_selected [] i wanted firstRealRow = (0, firstRealRow, False)"
| "find_selected (r # rs) i wanted firstRealRow =
     (if isHeader r then find_selected rs (i + 1) wanted firstRealRow
      else
        let firstRealRow = (if firstRealRow < 0 then i else firstRealRow)
        in if actionValue r = wanted then (i, firstRealRow, True) else find_selected rs (i + 1) wanted firstRealRow)"

definition home_footer :: "(string \<times> action_id) list" where
  "home_footer = [(''Open'', InboxAction ActionOpenJob), (''Sync Now'', InboxAction ActionSyncNow),
     (''Timeline'', PlannerAction kActionOpenTimeline), (''Web UI'', InboxAction ActionOpenWebUiChoice),
     (''Settings'', InboxAction ActionOpenSettings)]"

definition home_subtitle :: "JobIndex \<Rightarrow> ('s, 'f) ui_state \<Rightarrow> string" where
  "home_subtitle jobs st = snprintf 64
     (if hasSyncedOnce st then show_int (newJobsDownloaded (lastSyncSummary st)) @ '' new * last sync +'' @
        show_int (approvalsSynced (lastSyncSummary st)) @ ''/-'' @ show_int (approvalsFailedSync (lastSyncSummary st))
      else show_nat (length jobs) @ '' documents'')"

definition homeScreen :: "('s, 'f) ui_state \<Rightarrow> (ui_screen \<times> ('s, 'f) ui_state) option" where
  "homeScreen st =
     (case wJobs (uWeb st) of None \<Rightarrow> None | Some jobs \<Rightarrow>
      case buildInboxListItems kMaxInboxJobs jobs kMaxInboxJobs of None \<Rightarrow> None | Some items \<Rightarrow>
        let (row, firstRealRow, found) = find_selected items 0 (selectedJobIndex st) (-1);
            fallback = \<not> found \<and> firstRealRow \<ge> 0;
            selectedRow = (if fallback then firstRealRow else row);
            st' = (if fallback then st\<lparr>selectedJobIndex := to_i16 (actionValue (items ! nat firstRealRow))\<rparr> else st)
        in Some (\<lparr>scHeader = Some (''Print Inbox'', home_subtitle jobs st),
             scBody = [if items = [] then Popup (idleScreenMessage st')
                       else RowList items selectedRow (InboxAction ActionOpenJob)],
             scFooter = home_footer\<rparr>, st'))"

section \<open>Menus\<close>

definition plain_row :: "string \<Rightarrow> int \<Rightarrow> ui_row" where
  "plain_row l v = row_init\<lparr>rowLabel := l, actionValue := v\<rparr>"

definition actionMenuScreen :: "('s, 'f) ui_state \<Rightarrow> (ui_screen \<times> ('s, 'f) ui_state) option" where
  "actionMenuScreen st =
     (let screen = (\<lambda>heading hasLandscape.
        Some (\<lparr>scHeader = Some (heading, ''Choose an action''),
          scBody = [RowList ([plain_row ''Print'' 0, plain_row ''Keep'' 1, plain_row ''Delete'' 2, plain_row ''Cancel'' 3] @
            (if hasLandscape then [plain_row (if landscapeView st then ''View: Portrait'' else ''View: Landscape'') 4] else []))
            0 (InboxAction ActionMenuRowSelect)],
          scFooter = [(''Cancel'', InboxAction ActionCancelMenu)]\<rparr>, st))
      in if selectedJobIndex st < 0 then screen ''Document'' False
         else case wJobs (uWeb st) of None \<Rightarrow> None | Some jobs \<Rightarrow>
              case job_at jobs (selectedJobIndex st) of None \<Rightarrow> None | Some job \<Rightarrow>
                screen (title job) (landscapeXtcPath job \<noteq> []))"

definition webUiChoiceScreen :: "('s, 'f) ui_state \<Rightarrow> ui_screen \<times> ('s, 'f) ui_state" where
  "webUiChoiceScreen st =
     (\<lparr>scHeader = Some (''Web UI'', case webUiStartError st of Some e \<Rightarrow> e | None \<Rightarrow> ''View the queue from a phone''),
       scBody = [RowList [plain_row ''Use Wi-Fi'' 0, plain_row ''Use Hotspot'' 1, plain_row ''Cancel'' 2] 0
         (InboxAction ActionWebUiChoiceRowSelect)],
       scFooter = [(''Cancel'', InboxAction ActionCancelWebUiChoice)]\<rparr>,
      st\<lparr>webUiStartError := None\<rparr>)"

definition webUiScreen :: "('s, 'c, 'v, 'f) web_env \<Rightarrow> ('s, 'f) ui_state \<Rightarrow> ui_screen" where
  "webUiScreen E st =
     (let web = uWeb st;
          subtitle = snprintf 96
            (if webMode web = Hotspot then ''Hotspot: '' @ webSsid web @ '' / '' @ webPassword web else ''Wi-Fi: '' @ webSsid web);
          whole = ''On your phone, open http://'' @ web_address E web @ ''/ and enter PIN '' @ webPin web;
          body = snprintf 160 whole @
            (if webMode web = Hotspot \<and> length whole < 160
             then snprintf (160 - length whole) (newline @ ''NAT bridge: '' @
               (if natEnabled (natBridge web) then ''on (reaches Pi/LAN)'' else ''off (device only)''))
             else [])
      in \<lparr>scHeader = Some (''Web UI running'', subtitle), scBody = [Popup body],
          scFooter = [(''Stop'', InboxAction ActionWebUiStop)]\<rparr>)"

section \<open>The reader\<close>

definition reader_files :: "('s, 'c, 'v, 'f) web_env \<Rightarrow> ('s, 'f) ui_state \<Rightarrow> 'f file_ops" where
  "reader_files E st = weFiles E (wWorld (uWeb st))"

definition reader_open_selected :: "('s, 'c, 'v, 'f) web_env \<Rightarrow> JobEntry \<Rightarrow> ('s, 'f) ui_state \<Rightarrow> ('s, 'f) ui_state" where
  "reader_open_selected E job st =
     (if readerOpenForSelected st then st
      else let path = (if landscapeView st \<and> landscapeXtcPath job \<noteq> [] then landscapeXtcPath job else xtcPath job);
               (ok, r) = XtcReader_open (reader_files E st) (XtcReader_close (uReader st)) path
           in st\<lparr>uReader := r, readerOpenForSelected := ok, uPage := 0\<rparr>)"

definition reader_footer :: "('s, 'f) ui_state \<Rightarrow> (string \<times> action_id) list" where
  "reader_footer st =
     (let pages = (if readerOpenForSelected st then xtcPageCount (rdHeader (uReader st)) else 0)
      in [(''Prev'', InboxAction ActionPrevPage),
          (snprintf 32 (show_nat (unat (uPage st) + 1) @ '' / '' @ show_nat (unat pages) @
             (if landscapeView st then '' L'' else [])), InboxAction ActionShowActionMenu),
          (''Next'', InboxAction ActionNextPage), (''Back'', InboxAction ActionBack)])"

definition reader_draw :: "('s, 'c, 'v, 'f) web_env \<Rightarrow> ('s, 'f) ui_state \<Rightarrow> (ui_element list \<times> ('s, 'f) ui_state) option" where
  "reader_draw E st =
     (if \<not> readerOpenForSelected st then Some ([Popup ''Could not open this document from SD.''], st)
      else case uFramebuffer st of
        None \<Rightarrow> Some ([Popup ''Could not open this document from SD.''], st)
      | Some fb \<Rightarrow>
          (case renderPageToFramebuffer (reader_files E st) (uReader st) (uPage st) fb (uFramebufferSize st)
              (uPanelWidth st) (uPanelHeight st) of
             None \<Rightarrow> None
           | Some (result, fb') \<Rightarrow>
               Some (if result \<noteq> RenderOk then [Popup ''This page could not be rendered (unsupported or corrupt data).''] else [],
                 st\<lparr>uFramebuffer := Some fb'\<rparr>)))"

definition readerScreen :: "('s, 'c, 'v, 'f) web_env \<Rightarrow> ('s, 'f) ui_state \<Rightarrow> (ui_screen \<times> ('s, 'f) ui_state) option" where
  "readerScreen E st =
     (if selectedJobIndex st < 0 then Some (\<lparr>scHeader = None, scBody = [], scFooter = []\<rparr>, st\<lparr>uMode := Inbox\<rparr>)
      else case wJobs (uWeb st) of None \<Rightarrow> None | Some jobs \<Rightarrow>
           case job_at jobs (selectedJobIndex st) of None \<Rightarrow> None | Some job \<Rightarrow>
           case reader_draw E (reader_open_selected E job st) of None \<Rightarrow> None | Some (body, st') \<Rightarrow>
             Some (\<lparr>scHeader = None, scBody = body, scFooter = reader_footer st'\<rparr>, st'))"

section \<open>Settings\<close>

fun settingsTabName :: "SettingsTab \<Rightarrow> string" where
  "settingsTabName TabWifi = ''Wi-Fi''"
| "settingsTabName TabSyncRelay = ''Sync & Relay''"
| "settingsTabName TabDisplay = ''Display''"
| "settingsTabName TabCalendar = ''Calendar''"
| "settingsTabName TabDeviceInfo = ''Device Info''"
| "settingsTabName TabPlanner = ''Planner''"
| "settingsTabName TabPomodoro = ''Pomodoro''"

definition toggle_row :: "string \<Rightarrow> bool \<Rightarrow> int \<Rightarrow> ui_row" where
  "toggle_row l on v = row_init\<lparr>rowLabel := l, rowToggle := Some on, actionValue := v\<rparr>"

definition wifi_row :: "string \<Rightarrow> nat \<Rightarrow> WifiCredential \<Rightarrow> ui_row" where
  "wifi_row lastName i cred = row_init\<lparr>rowLabel := snprintf (kMaxSsidLen + 1) (ssid cred),
     rowSubtitle := (if strcmp lastName (ssid cred) = 0 then Some ''Last connected'' else None), actionValue := int i\<rparr>"

definition nat_bridge_on :: "('s, 'f) ui_state \<Rightarrow> bool" where
  "nat_bridge_on st = (case uSettings st of Some s \<Rightarrow> hotspotNatBridgeEnabled s | None \<Rightarrow> False)"

definition settingsWifiTab :: "('s, 'f) ui_state \<Rightarrow> ui_element list" where
  "settingsWifiTab st =
     (let store = wWifi (uWeb st); cs = creds store; n = length cs in
      if n = 0 then [Popup ''No saved Wi-Fi networks. Add one from the on-device Web UI (Inbox screen).'']
      else
        [RowList (map (\<lambda>i. wifi_row (lastSsid store) i (cs ! i)) [0..<n] @
           [(toggle_row ''Hotspot NAT bridge'' (nat_bridge_on st) (int n))
              \<lparr>rowSubtitle := Some ''Lets hotspot clients reach the Pi/LAN''\<rparr>])
           0 (InboxAction ActionSettingsWifiRowSelect)] @
        (if settingsWifiRemoveIndex st \<ge> 0 \<and> settingsWifiRemoveIndex st < to_i16 (int n)
         then [Dialog ''Remove network?'' (ssid (cs ! nat (settingsWifiRemoveIndex st)))
                [(''Remove'', InboxAction ActionSettingsWifiConfirmRemove),
                 (''Cancel'', InboxAction ActionSettingsWifiCancelRemove)]]
         else []))"

definition settingsSyncRelayTab :: "('s, 'f) ui_state \<Rightarrow> ui_element list" where
  "settingsSyncRelayTab st =
     (case wConfig (uWeb st) of
        None \<Rightarrow> [Popup ''Not paired yet. See docs/setup-x4.md.'']
      | Some cfg \<Rightarrow>
          if \<not> loaded cfg then [Popup ''Not paired yet. See docs/setup-x4.md.''] else
          let whole = ''Device: '' @ (if deviceName cfg \<noteq> [] then deviceName cfg else deviceId cfg) @ newline @
                ''Paired to: '' @ piBaseUrl cfg @ newline @ ''Relay: '' @
                (if hasRelay cfg then relayBaseUrl cfg else ''not configured'')
          in [Popup (snprintf 320 whole @
               (if hasSyncedOnce st \<and> length whole < 320
                then snprintf (320 - length whole) (newline @ ''Last sync: '' @
                  show_int (newJobsDownloaded (lastSyncSummary st)) @ '' new, '' @
                  show_int (approvalsSynced (lastSyncSummary st)) @ '' approval(s) synced'' @
                  (if usedRelay (lastSyncSummary st) then '' (via relay)'' else []))
                else []))])"

definition settingsDisplayTab :: "('s, 'f) ui_state \<Rightarrow> ui_element list" where
  "settingsDisplayTab st = [RowList [toggle_row ''Default view''
     (case uSettings st of Some s \<Rightarrow> defaultLandscapeView s | None \<Rightarrow> False) 0] 0 (InboxAction ActionSettingsDisplayRowSelect)]"

definition settingsCalendarTab :: "('s, 'f) ui_state \<Rightarrow> ui_element list" where
  "settingsCalendarTab st =
     (case uSettings st of None \<Rightarrow> [] | Some s \<Rightarrow>
        [RowList [toggle_row ''Wake before start'' (calendarWakeBeforeStart s) 0,
           (plain_row ''Lead time'' 1)\<lparr>rowValue := Some (snprintf 16 (show_nat (unat (calendarWakeLeadMinutes s)) @ '' min''))\<rparr>,
           toggle_row ''Wake at event end'' (calendarWakeAtEnd s) 2] 0 (InboxAction ActionSettingsCalendarRowSelect)])"

definition kFirmwareVersion :: string where "kFirmwareVersion = ''0.1.0''"

definition settingsDeviceInfoTab :: "diag_reads \<Rightarrow> ui_element list" where
  "settingsDeviceInfoTab d =
     (let batteryStr = snprintf 16 (case dgPercent d of Some p \<Rightarrow> show_int p @ ''%'' | None \<Rightarrow> ''unknown'')
      in [Popup (snprintf 256 (''Firmware: '' @ kFirmwareVersion @ newline @ ''Battery: '' @ batteryStr @ newline @
           ''Storage: '' @ show_nat (unat (dgSdUsed d div (1024 * 1024))) @ '' / '' @
           show_nat (unat (dgSdTotal d div (1024 * 1024))) @ '' MB used''))])"

definition settings_footer :: "(string \<times> action_id) list" where
  "settings_footer = [(''< Tab'', InboxAction ActionSettingsPrevTab), (''Tab >'', InboxAction ActionSettingsNextTab),
     (''Back'', InboxAction ActionSettingsBack)]"

definition settingsScreen :: "ui_frame \<Rightarrow> ('s, 'f) ui_state \<Rightarrow> ui_screen" where
  "settingsScreen fe st =
     \<lparr>scHeader = Some (''Settings'', settingsTabName (settingsTab st)),
      scBody = (case settingsTab st of
          TabWifi \<Rightarrow> settingsWifiTab st
        | TabSyncRelay \<Rightarrow> settingsSyncRelayTab st
        | TabDisplay \<Rightarrow> settingsDisplayTab st
        | TabCalendar \<Rightarrow> settingsCalendarTab st
        | TabPlanner \<Rightarrow> settingsPlannerTab st
        | TabPomodoro \<Rightarrow> settingsPomodoroTab st
        | TabDeviceInfo \<Rightarrow> settingsDeviceInfoTab (fnDiag fe)),
      scFooter = settings_footer\<rparr>"

section \<open>The reminder, and the router\<close>

definition calendarReminderScreen :: "('s, 'f) ui_state \<Rightarrow> ui_screen" where
  "calendarReminderScreen st =
     (let ev = wEvent (uWeb st); atEnd = reminderAtEnd st
      in \<lparr>scHeader = Some (''Reminder'', if atEnd then ''Event ended'' else ''Starting soon''),
          scBody = [Popup (if \<not> hasEvent ev then []
             else snprintf 160 (evTitle ev @ newline @ time_text (if atEnd then evEnd ev else evStart ev)))],
          scFooter = []\<rparr>)"

definition screenRouter :: "('s, 'c, 'v, 'f) web_env \<Rightarrow> ui_frame \<Rightarrow> ('s, 'f) ui_state \<Rightarrow>
    (ui_screen \<times> ('s, 'f) ui_state) option" where
  "screenRouter E fe st =
     (case uMode st of
        CalendarReminder \<Rightarrow> Some (calendarReminderScreen st, st)
      | Reader \<Rightarrow> readerScreen E st
      | ActionMenu \<Rightarrow> actionMenuScreen st
      | WebUiChoice \<Rightarrow> Some (webUiChoiceScreen st)
      | WebUi \<Rightarrow> Some (webUiScreen E st, st)
      | Settings \<Rightarrow> Some (settingsScreen fe st, st)
      | ScreenMode.Timeline \<Rightarrow> Some (timelineScreen (fnWidth fe) (fnEmpty fe) st, st)
      | PomodoroScreen \<Rightarrow> Some (pomodoroScreen (fnNow fe) st, st)
      | Inbox \<Rightarrow> homeScreen st
      | Status \<Rightarrow> homeScreen st)"

end
