(* ===== verification/Ui_Actions.thy ===== *)
theory Ui_Actions
  imports Inbox_Ui
begin

text \<open>
  The action handlers that initApp() of src/firmware/src/ui/InboxUI.cpp registers, and the sequences of frames and
  button presses they make with the screens. \<open>None\<close> is again an access C++ leaves undefined, or a radio that never
  answers.
\<close>

section \<open>Wiring\<close>

text \<open>
  The part of initApp() that is not the registration of a handler: the web server gets the pointers of the state, which
  \<^verbatim>\<open>setup()\<close> has filled in.
\<close>

definition initApp :: "JobIndex option \<Rightarrow> ApprovalOutboxIndex option \<Rightarrow> DeviceConfigData option \<Rightarrow> TaskIndex option \<Rightarrow> u32 \<Rightarrow>
    ('s, 'f) ui_state \<Rightarrow> ('s, 'f) ui_state" where
  "initApp jobs outbox cfg tasks wake st =
     st\<lparr>uWeb := attach jobs outbox cfg (uPanelWidth st) (uPanelHeight st) wake tasks (uWeb st)\<rparr>"

section \<open>Approving\<close>

text \<open>
  The wrapper \<^verbatim>\<open>enqueueApproval()\<close>: a fresh id and the time, the shared function, and on success both files and
  back to the list.
\<close>

definition ui_enqueue :: "('s, 'c, 'v, 'f) web_env \<Rightarrow> ApprovalAction \<Rightarrow> int \<Rightarrow> ('s, 'f) ui_state \<Rightarrow> ('s, 'f) ui_state option" where
  "ui_enqueue E act now st =
     (if selectedJobIndex st < 0 then Some st else
      case (wJobs (uWeb st), wOutbox (uWeb st)) of
        (Some jobs, Some outbox) \<Rightarrow>
          (case job_at jobs (selectedJobIndex st) of
             None \<Rightarrow> None
           | Some job \<Rightarrow>
               let (aid, web) = randomHex E kApprovalIdLen (uWeb st);
                   (result, jobs', outbox') = enqueueApproval jobs outbox (jobId job) act aid (to_u32 now);
                   web = web\<lparr>wJobs := Some jobs', wOutbox := Some outbox'\<rparr>
               in if result \<noteq> Ok then Some (st\<lparr>uWeb := web\<rparr>)
                  else let w = snd (saveApprovalOutbox (weSd E) (weJson E) (wWorld web) outbox');
                           w = snd (saveJobIndex (weSd E) (weJson E) w jobs')
                       in Some (st\<lparr>uWeb := web\<lparr>wWorld := w\<rparr>, uMode := Inbox\<rparr>))
      | _ \<Rightarrow> None)"

section \<open>Documents\<close>

definition open_job :: "int \<Rightarrow> ('s, 'f) ui_state \<Rightarrow> ('s, 'f) ui_state" where
  "open_job v st = st\<lparr>selectedJobIndex := to_i16 v, readerOpenForSelected := False,
     landscapeView := (case uSettings st of Some s \<Rightarrow> defaultLandscapeView s | None \<Rightarrow> False), uMode := Reader\<rparr>"

definition reader_back :: "('s, 'f) ui_state \<Rightarrow> ('s, 'f) ui_state" where
  "reader_back st = st\<lparr>uReader := XtcReader_close (uReader st), readerOpenForSelected := False, uMode := Inbox\<rparr>"

definition next_page :: "('s, 'f) ui_state \<Rightarrow> ('s, 'f) ui_state" where
  "next_page st =
     (if readerOpenForSelected st \<and> unat (uPage st) + 1 < unat (xtcPageCount (rdHeader (uReader st)))
      then st\<lparr>uPage := uPage st + 1\<rparr> else st)"

definition prev_page :: "('s, 'f) ui_state \<Rightarrow> ('s, 'f) ui_state" where
  "prev_page st = (if uPage st > 0 then st\<lparr>uPage := uPage st - 1\<rparr> else st)"

definition menu_row :: "('s, 'c, 'v, 'f) web_env \<Rightarrow> int \<Rightarrow> int \<Rightarrow> ('s, 'f) ui_state \<Rightarrow> ('s, 'f) ui_state option" where
  "menu_row E v now st =
     (if v = 0 then ui_enqueue E Print now st
      else if v = 1 then ui_enqueue E Keep now st
      else if v = 2 then ui_enqueue E Delete now st
      else if v = 4 then Some (st\<lparr>landscapeView := \<not> landscapeView st, readerOpenForSelected := False, uPage := 0,
             uMode := Reader\<rparr>)
      else Some (st\<lparr>uMode := Reader\<rparr>))"

section \<open>The web UI\<close>

definition kStationTimeoutMs :: u32 where "kStationTimeoutMs = 15000"

definition web_choice_row :: "('s, 'c, 'v, 'f) web_env \<Rightarrow> int \<Rightarrow> ('s, 'f) ui_state \<Rightarrow> ('s, 'f) ui_state option" where
  "web_choice_row E v st =
     (if v = 0 then
        (case startStation E kStationTimeoutMs (uWeb st) of
           None \<Rightarrow> None
         | Some (started, web) \<Rightarrow>
             let st = st\<lparr>uWeb := web\<rparr>
             in Some (if started then st\<lparr>uMode := WebUi\<rparr>
                      else st\<lparr>webUiStartError := Some ''No known Wi-Fi network in range''\<rparr>))
      else if v = 1 then
        (case startHotspot E (nat_bridge_on st) (uWeb st) of
           None \<Rightarrow> None
         | Some (started, web) \<Rightarrow>
             let st = st\<lparr>uWeb := web\<rparr>
             in Some (if started then st\<lparr>uMode := WebUi\<rparr> else st\<lparr>webUiStartError := Some ''Could not start hotspot''\<rparr>))
      else Some (st\<lparr>uMode := Inbox\<rparr>))"

section \<open>Settings\<close>

definition tab_move :: "nat \<Rightarrow> ('s, 'f) ui_state \<Rightarrow> ('s, 'f) ui_state" where
  "tab_move d st = st\<lparr>settingsWifiRemoveIndex := -1,
     settingsTab := settings_tabs ! ((tab_index (settingsTab st) + d) mod length settings_tabs)\<rparr>"

definition wifi_row_select :: "('s, 'c, 'v, 'f) web_env \<Rightarrow> int \<Rightarrow> ('s, 'f) ui_state \<Rightarrow> ('s, 'f) ui_state" where
  "wifi_row_select E v st =
     (if v < 0 \<or> v \<ge> int (length (creds (wWifi (uWeb st)))) then
        (case uSettings st of
           None \<Rightarrow> st
         | Some s \<Rightarrow> save_settings E (s\<lparr>hotspotNatBridgeEnabled := \<not> hotspotNatBridgeEnabled s\<rparr>) st)
      else st\<lparr>settingsWifiRemoveIndex := to_i16 v\<rparr>)"

definition wifi_confirm_remove :: "('s, 'c, 'v, 'f) web_env \<Rightarrow> ('s, 'f) ui_state \<Rightarrow> ('s, 'f) ui_state option" where
  "wifi_confirm_remove E st =
     (let web = uWeb st; store = wWifi web; i = settingsWifiRemoveIndex st in
      if i \<ge> 0 \<and> i < to_i16 (int (length (creds store))) then
        let name = snprintf (kMaxSsidLen + 1) (ssid (creds store ! nat i));
            store = store\<lparr>creds := snd (wifi_remove (creds store) name)\<rparr>
        in (case WifiStore_save (weSd E) (weJson E) (weB64 E) (weMac E) (wWorld web) store of
              None \<Rightarrow> None
            | Some (ok, w) \<Rightarrow> Some (st\<lparr>uWeb := web\<lparr>wWifi := store, wWorld := w\<rparr>, settingsWifiRemoveIndex := -1\<rparr>))
      else Some (st\<lparr>settingsWifiRemoveIndex := -1\<rparr>))"

definition kCalendarLeadMinutePresets :: "u16 list" where
  "kCalendarLeadMinutePresets = [5, 10, 15, 30, 60]"

definition next_lead :: "u16 \<Rightarrow> u16" where
  "next_lead current = kCalendarLeadMinutePresets !
     (case first_index (\<lambda>m. m = current) kCalendarLeadMinutePresets of
        Some i \<Rightarrow> (i + 1) mod length kCalendarLeadMinutePresets | None \<Rightarrow> 0)"

definition calendar_row :: "('s, 'c, 'v, 'f) web_env \<Rightarrow> int \<Rightarrow> ('s, 'f) ui_state \<Rightarrow> ('s, 'f) ui_state" where
  "calendar_row E v st =
     (case uSettings st of None \<Rightarrow> st | Some s \<Rightarrow>
        if v = 0 then save_settings E (s\<lparr>calendarWakeBeforeStart := \<not> calendarWakeBeforeStart s\<rparr>) st
        else if v = 1 then save_settings E (s\<lparr>calendarWakeLeadMinutes := next_lead (calendarWakeLeadMinutes s)\<rparr>) st
        else if v = 2 then save_settings E (s\<lparr>calendarWakeAtEnd := \<not> calendarWakeAtEnd s\<rparr>) st
        else st)"

definition display_row :: "('s, 'c, 'v, 'f) web_env \<Rightarrow> ('s, 'f) ui_state \<Rightarrow> ('s, 'f) ui_state" where
  "display_row E st =
     (case uSettings st of
        None \<Rightarrow> st
      | Some s \<Rightarrow> save_settings E (s\<lparr>defaultLandscapeView := \<not> defaultLandscapeView s\<rparr>) st)"

section \<open>Dispatch\<close>

definition inbox_handler :: "('s, 'c, 'v, 'f) web_env \<Rightarrow> ui_action \<Rightarrow> int \<Rightarrow> int \<Rightarrow> ('s, 'f) ui_state \<Rightarrow> ('s, 'f) ui_state option" where
  "inbox_handler E a v now st =
     (case a of
        ActionOpenJob \<Rightarrow> Some (open_job v st)
      | ActionBack \<Rightarrow> Some (reader_back st)
      | ActionNextPage \<Rightarrow> Some (next_page st)
      | ActionPrevPage \<Rightarrow> Some (prev_page st)
      | ActionShowActionMenu \<Rightarrow> Some (st\<lparr>uMode := ActionMenu\<rparr>)
      | ActionCancelMenu \<Rightarrow> Some (st\<lparr>uMode := Reader\<rparr>)
      | ActionMenuRowSelect \<Rightarrow> menu_row E v now st
      | ActionSyncNow \<Rightarrow> Some (st\<lparr>uRequestSyncNow := True\<rparr>)
      | ActionOpenWebUiChoice \<Rightarrow> Some (st\<lparr>uMode := WebUiChoice\<rparr>)
      | ActionWebUiChoiceRowSelect \<Rightarrow> web_choice_row E v st
      | ActionWebUiStop \<Rightarrow> Some (st\<lparr>uWeb := web_stop E (uWeb st), uMode := Inbox\<rparr>)
      | ActionCancelWebUiChoice \<Rightarrow> Some (st\<lparr>uMode := Inbox\<rparr>)
      | ActionOpenSettings \<Rightarrow> Some (st\<lparr>settingsWifiRemoveIndex := -1, uMode := Settings\<rparr>)
      | ActionSettingsBack \<Rightarrow> Some (st\<lparr>settingsWifiRemoveIndex := -1, uMode := Inbox\<rparr>)
      | ActionSettingsPrevTab \<Rightarrow> Some (tab_move (length settings_tabs - 1) st)
      | ActionSettingsNextTab \<Rightarrow> Some (tab_move 1 st)
      | ActionSettingsWifiRowSelect \<Rightarrow> Some (wifi_row_select E v st)
      | ActionSettingsWifiConfirmRemove \<Rightarrow> wifi_confirm_remove E st
      | ActionSettingsWifiCancelRemove \<Rightarrow> Some (st\<lparr>settingsWifiRemoveIndex := -1\<rparr>)
      | ActionSettingsDisplayRowSelect \<Rightarrow> Some (display_row E st)
      | ActionSettingsCalendarRowSelect \<Rightarrow> Some (calendar_row E v st))"

definition ui_handler :: "('s, 'c, 'v, 'f) web_env \<Rightarrow> action_id \<Rightarrow> int \<Rightarrow> int \<Rightarrow> ('s, 'f) ui_state \<Rightarrow> ('s, 'f) ui_state option" where
  "ui_handler E a v now st =
     (case a of
        InboxAction b \<Rightarrow> inbox_handler E b v now st
      | PlannerAction b \<Rightarrow> Some (planner_handler E b st)
      | PomodoroAction b \<Rightarrow> Some (pomodoro_handler E b now st))"

section \<open>Frames and presses\<close>

text \<open>
  The actions a screen offers: the rows of a list that are not headers (the SDK never selects a header), each with its
  value, the options of a dialog and the footer buttons, with the SDK's own value.
\<close>

fun element_offers :: "int \<Rightarrow> ui_element \<Rightarrow> (action_id \<times> int) list" where
  "element_offers fv (RowList rows selected a) = map (\<lambda>r. (a, actionValue r)) (filter (\<lambda>r. \<not> isHeader r) rows)"
| "element_offers fv (Dialog t h options) = map (\<lambda>(l, a). (a, fv)) options"
| "element_offers fv (Popup m) = []"
| "element_offers fv (Strip cells trailer) = []"

definition offers :: "ui_frame \<Rightarrow> ui_screen \<Rightarrow> (action_id \<times> int) list" where
  "offers fe sc = concat (map (element_offers (fnFooterValue fe)) (scBody sc)) @
     map (\<lambda>(l, a). (a, fnFooterValue fe)) (scFooter sc)"

text \<open>A frame is drawn; then one of its offers may be chosen, at some later time.\<close>

inductive ui_step :: "('s, 'c, 'v, 'f) web_env \<Rightarrow> ('s, 'f) ui_state \<Rightarrow> ('s, 'f) ui_state \<Rightarrow> bool" for E where
  Redraw: "screenRouter E fe st = Some (sc, st') \<Longrightarrow> 0 \<le> fnFooterValue fe \<Longrightarrow> fnFooterValue fe < int kMaxInboxJobs \<Longrightarrow>
     ui_step E st st'"
| Press: "screenRouter E fe st = Some (sc, st') \<Longrightarrow> 0 \<le> fnFooterValue fe \<Longrightarrow> fnFooterValue fe < int kMaxInboxJobs \<Longrightarrow>
     (a, v) \<in> set (offers fe sc) \<Longrightarrow> ui_handler E a v now st' = Some st'' \<Longrightarrow> ui_step E st st''"

end
