(* ===== verification/Ui_Lists.thy ===== *)
theory Ui_Lists
  imports Ui_Actions
begin

text \<open>
  What the home screen's list holds: the blocks of its sections, when they fit its buffers, and that every row of it
  that can be chosen is a job.
\<close>

section \<open>Sections\<close>

definition section_hits :: "JobIndex \<Rightarrow> JobStatus \<Rightarrow> nat list" where
  "section_hits jobs wanted = filter (\<lambda>i. status (jobs ! i) = wanted) [0..<length jobs]"

definition section_block :: "JobIndex \<Rightarrow> string \<times> JobStatus \<Rightarrow> ui_row list" where
  "section_block jobs sec =
     (let hits = section_hits jobs (snd sec)
      in if hits = [] then [] else section_header (fst sec) (length hits) # map (\<lambda>i. job_row i (jobs ! i)) hits)"

definition inbox_rows :: "JobIndex \<Rightarrow> ui_row list" where
  "inbox_rows jobs = concat (map (section_block jobs) kJobSections)"

lemma job_rows_spec:
  assumes "added + length (filter (\<lambda>i. status (jobs ! i) = w) is) \<le> maxJobs"
  shows "job_rows cap maxJobs w jobs is (items, added) =
    (let hits = filter (\<lambda>i. status (jobs ! i) = w) is
     in if hits = [] \<or> length items + length hits \<le> cap
        then Some (items @ map (\<lambda>i. job_row i (jobs ! i)) hits, added + length hits) else None)"
  using assms
proof (induction "is" arbitrary: items added)
  case (Cons i rest)
  show ?case
  proof (cases "status (jobs ! i) = w")
    case True
    with Cons.prems have "added < maxJobs" by simp
    moreover have "job_rows cap maxJobs w jobs rest (items @ [job_row i (jobs ! i)], added + 1) =
      (let hits = filter (\<lambda>i. status (jobs ! i) = w) rest
       in if hits = [] \<or> length (items @ [job_row i (jobs ! i)]) + length hits \<le> cap
          then Some ((items @ [job_row i (jobs ! i)]) @ map (\<lambda>i. job_row i (jobs ! i)) hits, added + 1 + length hits) else None)"
      using Cons.prems True by (intro Cons.IH) simp
    ultimately show ?thesis using True by (auto simp: Let_def)
  next
    case False
    have "filter (\<lambda>i. status (jobs ! i) = w) rest = []" if "added \<ge> maxJobs"
    proof -
      have "added + length (filter (\<lambda>i. status (jobs ! i) = w) rest) \<le> maxJobs" using Cons.prems False by simp
      with that have "length (filter (\<lambda>i. status (jobs ! i) = w) rest) = 0" by linarith
      then show ?thesis by (simp only: length_0_conv)
    qed
    moreover have "job_rows cap maxJobs w jobs rest (items, added) =
      (let hits = filter (\<lambda>i. status (jobs ! i) = w) rest
       in if hits = [] \<or> length items + length hits \<le> cap
          then Some (items @ map (\<lambda>i. job_row i (jobs ! i)) hits, added + length hits) else None)"
      using Cons.prems False by (intro Cons.IH) simp
    ultimately show ?thesis using False by (simp add: Let_def)
  qed
qed simp

lemma shift_rows:
  "s \<le> length ys \<Longrightarrow> fold (\<lambda>i xs. xs[i := xs ! (i - 1)]) (rev [s + 1..<length ys + 1]) (ys @ [e]) =
     take s ys @ (if s = length ys then e else ys ! s) # drop s ys"
proof (induction ys arbitrary: e rule: rev_induct)
  case (snoc y ys)
  let ?f = "\<lambda>i xs. xs[i := xs ! (i - 1)]"
  have app: "fold ?f is (zs @ [e]) = fold ?f is zs @ [e]" if "\<And>i. i \<in> set is \<Longrightarrow> 0 < i \<and> i < length zs" for "is" zs and e :: 'a
    using that
  proof (induction "is" arbitrary: zs)
    case (Cons i rest)
    then have "0 < i" "i < length zs" "i - 1 < length zs" by fastforce+
    with Cons show ?case by (simp add: list_update_append nth_append)
  qed simp
  show ?case
  proof (cases "s = length (ys @ [y])")
    case False
    with snoc.prems have s: "s \<le> length ys" by simp
    have "fold ?f (rev [s + 1..<length (ys @ [y]) + 1]) ((ys @ [y]) @ [e])
        = fold ?f (rev [s + 1..<length ys + 1]) ((ys @ [y]) @ [y])"
      using s by (simp add: list_update_append nth_append)
    also have "\<dots> = fold ?f (rev [s + 1..<length ys + 1]) (ys @ [y]) @ [y]"
      by (rule app) auto
    also have "\<dots> = (take s ys @ (if s = length ys then y else ys ! s) # drop s ys) @ [y]"
      using snoc.IH [OF s] by simp
    also have "\<dots> = take s (ys @ [y]) @ (if s = length (ys @ [y]) then e else (ys @ [y]) ! s) # drop s (ys @ [y])"
      using s by (auto simp: nth_append)
    finally show ?thesis .
  qed simp
qed simp

lemma insert_header_spec:
  "s \<le> length items \<Longrightarrow> insert_header s h items = take s items @ h # drop s items"
  unfolding insert_header_def by (subst shift_rows) (simp_all add: list_update_append)

lemma inbox_sections_spec:
  assumes "added + sum_list (map (\<lambda>sec. length (section_hits jobs (snd sec))) secs) \<le> maxJobs"
  shows "inbox_sections cap maxJobs jobs secs (items, added) =
    (let rows = concat (map (section_block jobs) secs)
     in if rows = [] \<or> length items + length rows \<le> cap + 1 then Some (items @ rows) else None)"
  using assms
proof (induction secs arbitrary: items added)
  case (Cons sec rest)
  obtain name w where sec: "sec = (name, w)" by (cases sec)
  let ?hits = "section_hits jobs w"
  define rows where "rows = concat (map (section_block jobs) rest)"
  let ?block = "map (\<lambda>i. job_row i (jobs ! i)) ?hits"
  from Cons.prems sec have room: "added + length (filter (\<lambda>i. status (jobs ! i) = w) [0..<length jobs]) \<le> maxJobs"
    by (simp add: section_hits_def)
  have ih: "inbox_sections cap maxJobs jobs rest (items', added + length ?hits) =
      (if rows = [] \<or> length items' + length rows \<le> cap + 1 then Some (items' @ rows) else None)" for items'
    unfolding rows_def using Cons.prems sec by (subst Cons.IH) (simp_all only: Let_def, simp)
  have all: "concat (map (section_block jobs) (sec # rest)) = section_block jobs sec @ rows"
    by (simp add: rows_def)
  show ?case
  proof (cases "?hits = []")
    case True
    then show ?thesis
      using ih [of items] unfolding all
      by (simp add: sec job_rows_spec [OF room] section_hits_def [symmetric] section_block_def Let_def)
  next
    case False
    have ins: "insert_header (length items) h (items @ ?block) = items @ h # ?block" for h
      by (simp add: insert_header_spec)
    show ?thesis
      unfolding all
      using False ih [of "items @ section_header name (length ?hits) # ?block"]
      by (auto simp: sec job_rows_spec [OF room] section_hits_def [symmetric] section_block_def Let_def ins)
  qed
qed simp

lemma three_filters:
  assumes "\<And>x. \<not> (P x \<and> Q x)" "\<And>x. \<not> (P x \<and> R x)" "\<And>x. \<not> (Q x \<and> R x)"
  shows "length (filter P xs) + length (filter Q xs) + length (filter R xs) \<le> length xs"
  using assms by (induction xs) fastforce+

lemma section_hits_total:
  "sum_list (map (\<lambda>sec. length (section_hits jobs (snd sec))) kJobSections) \<le> length jobs"
  using three_filters [of "\<lambda>i. status (jobs ! i) = Downloaded" "\<lambda>i. status (jobs ! i) = ApprovedPrint"
      "\<lambda>i. status (jobs ! i) = ApprovedKeep" "[0..<length jobs]"]
  by (simp add: kJobSections_def section_hits_def)

lemma buildInboxListItems_spec:
  assumes "length jobs \<le> maxJobs" and "0 < cap"
  shows "buildInboxListItems cap jobs maxJobs = (if length (inbox_rows jobs) \<le> cap + 1 then Some (inbox_rows jobs) else None)"
  using inbox_sections_spec [of 0 jobs kJobSections maxJobs cap "[]"] section_hits_total [of jobs] assms
  by (auto simp: buildInboxListItems_def inbox_rows_def [symmetric] Let_def)

section \<open>Rows\<close>

lemma job_row_simps [simp]: "isHeader (job_row i e) = False" "actionValue (job_row i e) = int i"
  by (simp_all add: job_row_def row_init_def)

lemma section_header_simps [simp]: "isHeader (section_header name n) = True" "actionValue (section_header name n) = -1"
  by (simp_all add: section_header_def)

lemma section_block_rows:
  "filter (\<lambda>r. \<not> isHeader r) (section_block jobs sec) = map (\<lambda>i. job_row i (jobs ! i)) (section_hits jobs (snd sec))"
  by (simp add: section_block_def Let_def comp_def)

lemma inbox_rows_jobs:
  "map actionValue (filter (\<lambda>r. \<not> isHeader r) (inbox_rows jobs)) =
     map int (section_hits jobs Downloaded @ section_hits jobs ApprovedPrint @ section_hits jobs ApprovedKeep)"
  by (simp add: inbox_rows_def kJobSections_def section_block_rows comp_def)

lemma inbox_rows_range:
  assumes "r \<in> set (inbox_rows jobs)" and "\<not> isHeader r"
  shows "\<exists>i. i < length jobs \<and> actionValue r = int i \<and> r = job_row i (jobs ! i)"
proof -
  have "r \<in> set (filter (\<lambda>r. \<not> isHeader r) (inbox_rows jobs))" using assms by simp
  then show ?thesis
    by (auto simp: inbox_rows_def kJobSections_def section_block_rows section_hits_def)
qed

lemma find_selected_spec:
  assumes "find_selected rs i w f = (row, first, found)" and "0 \<le> i"
  shows "(found \<longrightarrow> (\<exists>k < length rs. row = i + int k \<and> \<not> isHeader (rs ! k) \<and> actionValue (rs ! k) = w)) \<and>
    (\<not> found \<longrightarrow> row = 0 \<and> (\<forall>r \<in> set rs. \<not> isHeader r \<longrightarrow> actionValue r \<noteq> w) \<and>
      (if 0 \<le> f then first = f
       else (first = f \<and> (\<forall>r \<in> set rs. isHeader r)) \<or> (\<exists>k < length rs. first = i + int k \<and> \<not> isHeader (rs ! k))))"
  using assms
proof (induction rs arbitrary: i f)
  case (Cons r rs)
  have suc: "(\<exists>k < length rs. x = i + 1 + int k \<and> P (rs ! k)) \<Longrightarrow> \<exists>k < length (r # rs). x = i + int k \<and> P ((r # rs) ! k)"
    for x P by (force intro: exI [of _ "Suc _"])
  have zero: "P r \<Longrightarrow> \<exists>k < length (r # rs). i = i + int k \<and> P ((r # rs) ! k)" for P
    by (rule exI [of _ 0]) simp
  consider (header) "isHeader r" | (hit) "\<not> isHeader r" "actionValue r = w" | (miss) "\<not> isHeader r" "actionValue r \<noteq> w"
    by blast
  then show ?case
  proof cases
    case header
    with Cons.prems have "find_selected rs (i + 1) w f = (row, first, found)" by simp
    from Cons.IH [OF this] Cons.prems(2) header show ?thesis
      using suc [of row "\<lambda>r. \<not> isHeader r \<and> actionValue r = w"] suc [of first "\<lambda>r. \<not> isHeader r"] by auto
  next
    case hit
    with Cons.prems show ?thesis
      using zero [of "\<lambda>r. \<not> isHeader r \<and> actionValue r = w"] by (auto simp: Let_def)
  next
    case miss
    with Cons.prems have "find_selected rs (i + 1) w (if f < 0 then i else f) = (row, first, found)" by (simp add: Let_def)
    from Cons.IH [OF this] Cons.prems(2) miss show ?thesis
      using suc [of row "\<lambda>r. \<not> isHeader r \<and> actionValue r = w"] zero [of "\<lambda>r. \<not> isHeader r"]
      by (auto split: if_splits)
  qed
qed simp

end
