(* ===== verification/Web_Safety.thy ===== *)
theory Web_Safety
  imports Web_Server
begin

text \<open>
  What every sequence of requests to the web server keeps (src/firmware/src/ui/WebUiServer.cpp), authorised or
  not: no null pointer is used, no buffer is overread, the job index stays well formed and the uploads stay
  within their caps.
\<close>

section \<open>The invariant\<close>

definition upload_ok :: "u32 \<Rightarrow> upload_state \<Rightarrow> bool" where
  "upload_ok maxBytes up \<longleftrightarrow> upBytes up \<le> maxBytes \<and>
     (case upFile up of
        None \<Rightarrow> True
      | Some written \<Rightarrow> length written \<le> unat maxBytes \<and> (upAuthorized up \<longrightarrow> length written \<le> unat (upBytes up)))"

definition web_inv :: "'s web_state \<Rightarrow> bool" where
  "web_inv st \<longleftrightarrow>
     pred_option JobIndex_inv (wJobs st) \<and>
     (wJobs st = None \<longrightarrow> \<not> upAuthorized (upXtc st) \<and> \<not> upAuthorized (upOriginal st)) \<and>
     upload_ok kMaxXtcUploadBytes (upXtc st) \<and> upload_ok kMaxOriginalUploadBytes (upOriginal st)"

text \<open>The library's upload buffer bounds a chunk.\<close>

definition small_chunks :: "'c web_request \<Rightarrow> bool" where
  "small_chunks rq \<longleftrightarrow> (\<forall>buf. UPLOAD_FILE_WRITE buf \<in> set (wqUploads rq) \<longrightarrow> length buf < 2 ^ 31)"

definition read_laws :: "('s, 'c, 'v, 'f) web_env \<Rightarrow> bool" where
  "read_laws E \<longleftrightarrow> (\<forall>w f off n. fst (f_read (weFiles E w) f off n) \<le> int n)"

lemma upload_write_flags [simp]:
  "upAuthorized (fst (upload_write E m buf up w)) = upAuthorized up"
  by (simp add: upload_write_def split: option.split prod.split)

lemma unat_add_le:
  assumes "(a :: u32) \<le> m" and "unat m < 2 ^ 31" and "n < 2 ^ 31"
  shows "unat (a + word_of_nat n) = unat a + n"
proof -
  have "unat a < 2 ^ 31" using assms(1,2) by (simp add: word_le_nat_alt)
  then have "unat a + n < 2 ^ 32" using assms(3) by simp
  moreover have "unat (word_of_nat n :: u32) = n" using assms(3) by (simp add: unat_of_nat)
  ultimately show ?thesis by (simp add: unat_word_ariths)
qed

lemma upload_write_ok:
  assumes up: "upload_ok m up" and m: "unat m < 2 ^ 31" and buf: "length buf < 2 ^ 31"
  shows "upload_ok m (fst (upload_write E m buf up w))"
proof (cases "upFile up")
  case None
  with up show ?thesis by (simp add: upload_write_def)
next
  case (Some written)
  have le: "upBytes up \<le> m" and len: "upAuthorized up \<Longrightarrow> length written \<le> unat (upBytes up)"
    using up Some by (simp_all add: upload_ok_def)
  have sum: "unat (upBytes up + word_of_nat (length buf)) = unat (upBytes up) + length buf"
    using le m buf by (rule unat_add_le)
  show ?thesis
  proof (cases "upAuthorized up \<and> upBytes up + word_of_nat (length buf) \<le> m")
    case True
    then have "unat (upBytes up) + length buf \<le> unat m"
      using sum by (simp add: word_le_nat_alt)
    with True up Some len sum show ?thesis
      by (auto simp: upload_write_def upload_ok_def split: prod.split)
  next
    case False
    with up Some show ?thesis by (auto simp: upload_write_def upload_ok_def)
  qed
qed

lemma upload_open_ok:
  "upBytes up = 0 \<Longrightarrow> upload_ok m (fst (upload_open E up w))"
  by (simp add: upload_open_def upload_ok_def Let_def split: prod.split)

lemma upload_reset_simps [simp]:
  "upBytes (upload_reset up) = 0" "\<not> upAuthorized (upload_reset up)" "upFile (upload_reset up) = upFile up"
  by (simp_all add: upload_reset_def)

lemma upload_reset_ok:
  "upload_ok m up \<Longrightarrow> upload_ok m (upload_reset up\<lparr>upError := e\<rparr>)"
  by (auto simp: upload_ok_def split: option.splits)

lemma upload_close_ok: "upload_ok m up \<Longrightarrow> upload_ok m (up\<lparr>upFile := None\<rparr>)"
  by (simp add: upload_ok_def)

lemma caps: "unat kMaxXtcUploadBytes < 2 ^ 31" "unat kMaxOriginalUploadBytes < 2 ^ 31"
  by (simp_all add: kMaxXtcUploadBytes_def kMaxOriginalUploadBytes_def)

section \<open>Every handler keeps it\<close>

lemma random_chars_simps [simp]:
  "snd (random_chars E f n st) = st\<lparr>rngPos := rngPos st + n\<rparr>"
  by (simp add: random_chars_def)

lemma randomHex_simps [simp]: "snd (randomHex E n st) = st\<lparr>rngPos := rngPos st + n\<rparr>"
  by (simp add: randomHex_def)

lemma web_inv_xtc_event:
  assumes inv: "web_inv st" and small: "\<And>buf. ev = UPLOAD_FILE_WRITE buf \<Longrightarrow> length buf < 2 ^ 31"
  shows "web_inv (handleUploadXtcData E rq ev st)"
proof (cases ev)
  case UPLOAD_FILE_START
  with inv show ?thesis
    by (auto simp: handleUploadXtcData_def web_inv_def Let_def split_def upload_reset_ok upload_open_ok
        split: option.split option.split_asm)
next
  case (UPLOAD_FILE_WRITE buf)
  with inv small upload_write_ok [OF _ caps(1), of "upXtc st" buf E "wWorld st"] show ?thesis
    by (simp add: handleUploadXtcData_def web_inv_def split_def Let_def)
next
  case UPLOAD_FILE_END
  with inv show ?thesis
    by (simp add: handleUploadXtcData_def web_inv_def upload_close_ok)
qed

lemma web_inv_original_event:
  assumes inv: "web_inv st" and small: "\<And>buf. ev = UPLOAD_FILE_WRITE buf \<Longrightarrow> length buf < 2 ^ 31"
  shows "web_inv (handleUploadOriginalData E rq ev st)"
proof (cases ev)
  case UPLOAD_FILE_START
  with inv show ?thesis
    by (auto simp: handleUploadOriginalData_def web_inv_def Let_def split_def upload_reset_ok upload_open_ok
        split: option.split option.split_asm)
next
  case (UPLOAD_FILE_WRITE buf)
  with inv small upload_write_ok [OF _ caps(2), of "upOriginal st" buf E "wWorld st"] show ?thesis
    by (simp add: handleUploadOriginalData_def web_inv_def split_def Let_def)
next
  case UPLOAD_FILE_END
  with inv show ?thesis
    by (simp add: handleUploadOriginalData_def web_inv_def upload_close_ok)
qed

lemma web_inv_uploads:
  assumes inv: "web_inv st" and small: "small_chunks rq"
  shows "web_inv (upload_events E route rq st)"
proof -
  have "web_inv (fold h evs st)"
    if "\<And>ev st. web_inv st \<Longrightarrow> ev \<in> set evs \<Longrightarrow> web_inv (h ev st)" for h evs
    using inv that by (induction evs arbitrary: st) auto
  note fold = this
  show ?thesis
    using inv small by (auto simp: upload_events_def small_chunks_def intro!: fold web_inv_xtc_event web_inv_original_event)
qed

lemma web_inv_refuse: "web_inv st \<Longrightarrow> web_inv (snd (upload_refuse E rp path st))"
  by (simp add: upload_refuse_def web_inv_def)

definition kept :: "(web_response \<times> 's web_state) option \<Rightarrow> bool" where
  "kept res \<longleftrightarrow> (\<exists>rp st. res = Some (rp, st) \<and> web_inv st)"

lemma kept_Some: "kept (Some p) \<longleftrightarrow> web_inv (snd p)"
  by (cases p) (simp add: kept_def)

lemma web_inv_jobs:
  assumes "web_inv st" and "JobIndex_inv jobs"
  shows "web_inv (st\<lparr>wJobs := Some jobs\<rparr>)" "web_inv (st\<lparr>wJobs := Some jobs, wWorld := w\<rparr>)"
  using assms by (simp_all add: web_inv_def)

lemma web_inv_xtc_complete:
  assumes inv: "web_inv st"
  shows "kept (handleUploadXtcComplete E rq st)"
proof (cases "wJobs st")
  case None
  with inv have "\<not> upAuthorized (upXtc st)" by (simp add: web_inv_def)
  then show ?thesis
    using inv by (simp add: handleUploadXtcComplete_def Let_def kept_Some web_inv_refuse)
next
  case (Some jobs)
  with inv have "JobIndex_inv jobs" by (simp add: web_inv_def)
  with inv Some show ?thesis
    by (simp add: handleUploadXtcComplete_def Let_def kept_Some web_inv_refuse split_def web_inv_jobs JobIndex_inv_upsert)
qed

lemma web_inv_original_complete:
  assumes inv: "web_inv st"
  shows "kept (handleUploadOriginalComplete E rq st)"
proof (cases "wJobs st")
  case None
  with inv have "\<not> upAuthorized (upOriginal st)" by (simp add: web_inv_def)
  then show ?thesis
    using inv by (simp add: handleUploadOriginalComplete_def Let_def kept_Some web_inv_refuse)
next
  case (Some jobs)
  with inv have "JobIndex_inv jobs" by (simp add: web_inv_def)
  with inv Some show ?thesis
    by (auto simp: handleUploadOriginalComplete_def Let_def kept_Some web_inv_refuse web_inv_jobs JobIndex_inv_update
        split: option.split)
qed

lemma enqueueApproval_jobs_inv:
  "JobIndex_inv jobs \<Longrightarrow> JobIndex_inv (fst (snd (enqueueApproval jobs ob jid act aid t)))"
  by (auto simp: enqueueApproval_def Let_def split: option.split intro: JobIndex_inv_setStatus)

lemma web_inv_updates [simp]:
  "web_inv (st\<lparr>rngPos := n\<rparr>) = web_inv st" "web_inv (st\<lparr>wWorld := w\<rparr>) = web_inv st"
  "web_inv (st\<lparr>wOutbox := ob\<rparr>) = web_inv st" "web_inv (markActivity st) = web_inv st"
  by (simp_all add: web_inv_def markActivity_def)

lemma web_inv_post:
  assumes "web_inv st"
  shows "web_inv (snd (handleApiJobsPost E rq st))"
proof (cases "wJobs st")
  case None
  with assms show ?thesis by (simp add: handleApiJobsPost_def)
next
  case (Some jobs)
  with assms have jobs: "JobIndex_inv (fst (snd (enqueueApproval jobs ob jid act aid t)))" for ob jid act aid t
    by (intro enqueueApproval_jobs_inv) (simp add: web_inv_def)
  show ?thesis
  proof (cases "wOutbox st")
    case None
    with assms Some show ?thesis by (simp add: handleApiJobsPost_def)
  next
    case (Some ob)
    show ?thesis
      using assms
      by (simp add: handleApiJobsPost_def Some \<open>wJobs st = Some jobs\<close> Let_def split_def web_inv_jobs jobs split: option.split)
  qed
qed

lemma stream_Some:
  assumes "\<And>off n. fst (f_read F f off n) \<le> int n"
  shows "stream_loop F f remaining pos sent \<noteq> None"
  using assms
proof (induction F f remaining pos sent rule: stream_loop.induct)
  case (1 F f remaining pos sent)
  let ?n = "if remaining < kXtcStreamChunkBytes then remaining else kXtcStreamChunkBytes"
  obtain n buf where r: "f_read F f (word_of_nat pos) ?n = (n, buf)" by force
  then have "nat n \<le> ?n" using "1.prems" [of "word_of_nat pos" ?n] by simp
  with 1 r show ?case
    by (subst stream_loop.simps) (simp add: Let_def)
qed

lemma web_inv_request:
  assumes inv: "web_inv st" and read: "read_laws E" and small: "small_chunks rq"
  shows "\<exists>rp st'. handleClient E rq st = Some (rp, st') \<and> web_inv st'"
proof -
  let ?route = "find_route st rq"
  define st1 where "st1 = markActivity (upload_events E ?route rq st)"
  have i: "web_inv (upload_events E ?route rq st)" using inv small by (rule web_inv_uploads)
  then have i1: "web_inv st1" by (simp add: st1_def)
  have s: "handleApiJobXtc E rq st1 \<noteq> None"
    using read stream_Some [of "weFiles E (wWorld st1)"]
    by (simp add: handleApiJobXtc_def Let_def read_laws_def split: option.split)
  have "kept (run_route E ?route rq st1)"
  proof (cases ?route)
    case None
    then show ?thesis using i1 by (simp add: run_route_def kept_Some)
  next
    case (Some r)
    then show ?thesis
      using i1 s web_inv_post [OF i1] web_inv_xtc_complete [OF i1] web_inv_original_complete [OF i1]
      by (cases r) (auto simp: run_route_def kept_Some)
  qed
  with i inv show ?thesis
    by (auto simp: handleClient_def Let_def st1_def [symmetric] kept_def)
qed

lemma web_inv_serve:
  assumes "web_inv st" and "read_laws E" and "\<forall>rq \<in> set rqs. small_chunks rq"
  shows "\<exists>rps st'. serve E rqs st = Some (rps, st') \<and> length rps = length rqs \<and> web_inv st'"
  using assms
proof (induction rqs arbitrary: st)
  case (Cons rq rqs)
  obtain rp st1 where one: "handleClient E rq st = Some (rp, st1)" "web_inv st1"
    using web_inv_request [OF Cons.prems(1,2), of rq] Cons.prems(3) by auto
  obtain rps st2 where "serve E rqs st1 = Some (rps, st2)" "length rps = length rqs" "web_inv st2"
    using Cons.IH [OF one(2) Cons.prems(2)] Cons.prems(3) by auto
  with one show ?case by auto
qed simp

end
