(* ===== verification/Web_Outcomes.thy ===== *)
theory Web_Outcomes
  imports Web_Safety
begin

unbundle bit_operations_syntax

text \<open>
  What the single operations of the web server achieve (src/firmware/src/ui/WebUiServer.cpp): the outcome of an
  upload, of an approval, of streaming a file and of starting and stopping, and the properties of the
  server as a whole.
\<close>

section \<open>Uploading an XTC file\<close>

definition sd_works :: "('s, 'c) sd_card \<Rightarrow> bool" where
  "sd_works sd \<longleftrightarrow> (\<forall>w p c. fst (sd_write sd w p c))"

lemma sd_works_write:
  assumes "sd_laws sd" and "sd_works sd"
  obtains w' where "sd_write sd w p c = (True, w')" "sd_files sd w' = (sd_files sd w)(p \<mapsto> c)"
proof -
  obtain b w' where w: "sd_write sd w p c = (b, w')" by force
  with assms(2) have b by (auto simp: sd_works_def) (metis fst_conv)
  with w sd_write_okD [OF assms(1)] show thesis by (intro that) auto
qed

text \<open>An upload in progress: \<open>bs\<close> was received, all of it counted and on the card.\<close>

definition streaming :: "('s, 'c, 'v, 'f) web_env \<Rightarrow> (string \<rightharpoonup> 'c) \<Rightarrow> string \<Rightarrow> string \<Rightarrow> u8 list \<Rightarrow> 's web_state \<Rightarrow> 's web_state \<Rightarrow> bool" where
  "streaming E files jid path bs st0 st \<longleftrightarrow> (\<exists>w up. st = st0\<lparr>upXtc := up, wWorld := w, rngPos := rngPos st0 + kJobIdLen\<rparr> \<and>
     upAuthorized up \<and> \<not> upTooLarge up \<and> upFile up = Some bs \<and> upJobId up = jid \<and> upPath up = path \<and>
     upBytes up = word_of_nat (length bs) \<and> sd_files (weSd E) w = files(path \<mapsto> weBytes E bs))"

lemma streaming_start:
  assumes sd: "sd_laws (weSd E)" "sd_works (weSd E)"
    and s: "requestHasValidSession st rq" "wJobs st = Some jobs" "\<not> JobIndex_full jobs"
    and jid: "jid = fst (randomHex E kJobIdLen st)"
  shows "streaming E (sd_files (weSd E) (wWorld st)) jid (take kPathLen (''/inbox/'' @ jid @ ''.xtc'')) [] st
    (handleUploadXtcData E rq UPLOAD_FILE_START st)"
proof -
  let ?path = "take kPathLen (''/inbox/'' @ jid @ ''.xtc'')"
  let ?w = "sd_mkdir (weSd E) (wWorld st) ''/inbox''"
  obtain w' where w': "sd_write (weSd E) ?w ?path (weBytes E []) = (True, w')"
    "sd_files (weSd E) w' = (sd_files (weSd E) ?w)(?path \<mapsto> weBytes E [])"
    using sd by (rule sd_works_write)
  have r: "randomHex E kJobIdLen st = (jid, st\<lparr>rngPos := rngPos st + kJobIdLen\<rparr>)"
    using jid randomHex_simps [of E kJobIdLen st] by (cases "randomHex E kJobIdLen st") simp
  have h: "handleUploadXtcData E rq UPLOAD_FILE_START st = st\<lparr>upXtc := (upload_reset (upXtc st))\<lparr>upJobId := jid,
      upPath := ?path, upFile := Some [], upAuthorized := True\<rparr>, wWorld := w', rngPos := rngPos st + kJobIdLen\<rparr>"
    using s w'(1) by (simp add: handleUploadXtcData_def r Let_def upload_open_def)
  show ?thesis
    unfolding h streaming_def
    by (rule exI [of _ w'], rule exI, rule conjI, rule refl)
      (use w'(2) sd_mkdirD [OF sd(1), of "wWorld st" "''/inbox''"] in \<open>simp add: upload_reset_def\<close>)
qed

lemma streaming_write:
  assumes sd: "sd_laws (weSd E)" "sd_works (weSd E)"
    and s: "streaming E files jid path bs st0 st" and len: "length bs + length buf \<le> unat kMaxXtcUploadBytes"
  shows "streaming E files jid path (bs @ buf) st0 (handleUploadXtcData E rq (UPLOAD_FILE_WRITE buf) st)"
proof -
  obtain w up where st: "st = st0\<lparr>upXtc := up, wWorld := w, rngPos := rngPos st0 + kJobIdLen\<rparr>"
    and up: "upAuthorized up" "\<not> upTooLarge up" "upFile up = Some bs" "upJobId up = jid" "upPath up = path"
      "upBytes up = word_of_nat (length bs)" "sd_files (weSd E) w = files(path \<mapsto> weBytes E bs)"
    using s by (auto simp: streaming_def)
  obtain w' where w': "sd_write (weSd E) w path (weBytes E (bs @ buf)) = (True, w')"
    "sd_files (weSd E) w' = (sd_files (weSd E) w)(path \<mapsto> weBytes E (bs @ buf))"
    using sd by (rule sd_works_write)
  have "unat (word_of_nat n :: u32) = n" if "n \<le> unat kMaxXtcUploadBytes" for n
    using that by (simp add: unat_of_nat kMaxXtcUploadBytes_def)
  from this [OF len] have le: "(word_of_nat (length bs) + word_of_nat (length buf) :: u32) \<le> kMaxXtcUploadBytes"
    using len unfolding word_le_nat_alt of_nat_add [symmetric] by simp
  have h: "handleUploadXtcData E rq (UPLOAD_FILE_WRITE buf) st = st0\<lparr>upXtc := up\<lparr>upFile := Some (bs @ buf),
      upBytes := word_of_nat (length (bs @ buf))\<rparr>, wWorld := w', rngPos := rngPos st0 + kJobIdLen\<rparr>"
    using up w'(1) le by (simp add: handleUploadXtcData_def st upload_write_def not_less [symmetric])
  show ?thesis
    unfolding h streaming_def
    by (rule exI [of _ w'], rule exI, rule conjI, rule refl) (use up w'(2) in simp)
qed

lemma streaming_writes:
  assumes sd: "sd_laws (weSd E)" "sd_works (weSd E)"
  shows "streaming E files jid path bs st0 st \<Longrightarrow> length bs + length (concat chunks) \<le> unat kMaxXtcUploadBytes \<Longrightarrow>
    streaming E files jid path (bs @ concat chunks) st0 (fold (handleUploadXtcData E rq) (map UPLOAD_FILE_WRITE chunks) st)"
proof (induction chunks arbitrary: bs st)
  case (Cons buf chunks)
  have "streaming E files jid path (bs @ buf) st0 (handleUploadXtcData E rq (UPLOAD_FILE_WRITE buf) st)"
    using Cons.prems by (intro streaming_write [OF sd]) simp_all
  from Cons.IH [OF this] Cons.prems(2) show ?case by simp
qed simp

definition upload_of :: "u8 list list \<Rightarrow> 'c web_request \<Rightarrow> bool" where
  "upload_of chunks rq \<longleftrightarrow> wqVerb rq = HTTP_POST \<and> wqUri rq = ''/api/upload/xtc'' \<and> \<not> wqAborted rq \<and>
     wqUploads rq = UPLOAD_FILE_START # map UPLOAD_FILE_WRITE chunks @ [UPLOAD_FILE_END]"

lemma route_upload: "routesRegistered st \<Longrightarrow> upload_of chunks rq \<Longrightarrow> find_route st rq = Some RUploadXtc"
  by (simp add: find_route_def upload_of_def web_routes_def)

definition expected_entry :: "string \<Rightarrow> string \<Rightarrow> nat \<Rightarrow> u16 \<Rightarrow> 'c web_request \<Rightarrow> JobEntry" where
  "expected_entry jid path n pages rq = JobEntry_init\<lparr>jobId := jid,
     title := take kTitleLen (if wqArg rq ''title'' = [] then ''Untitled'' else wqArg rq ''title''),
     xtcPath := path, xtcBytes := word_of_nat n, pageCount := pages, createdAt := to_u32 (wqTime rq), status := Downloaded\<rparr>"

lemma length_randomHex [simp]: "length (fst (randomHex E n st)) = n"
  by (simp add: randomHex_def random_chars_def)

lemma upload_xtc_outcome:
  assumes sd: "sd_laws (weSd E)" "sd_works (weSd E)"
    and s: "requestHasValidSession st rq" "wJobs st = Some jobs" "JobIndex_inv jobs" "\<not> JobIndex_full jobs"
      "webMode st \<noteq> Off" "routesRegistered st"
    and rq: "upload_of chunks rq" and len: "concat chunks \<noteq> []" "length (concat chunks) \<le> unat kMaxXtcUploadBytes"
    and jid: "jid = fst (randomHex E kJobIdLen st)" and path: "path = ''/inbox/'' @ jid @ ''.xtc''"
  shows "\<exists>w st'. sd_files (weSd E) w = (sd_files (weSd E) (wWorld st))(path \<mapsto> weBytes E (concat chunks)) \<and>
    (let pages = reader_page_count (weFiles E w) path;
         entry = expected_entry jid path (length (concat chunks)) pages rq
     in if pages = 0
        then handleClient E rq st = Some (Some (error_text 400 ''invalid_xtc''), st') \<and> wJobs st' = Some jobs \<and>
          wWorld st' = snd (sd_remove (weSd E) w path)
        else handleClient E rq st = Some (Some (send_json 200 (JObj [(''job_id'', JStr jid)])), st') \<and>
          wJobs st' = Some (snd (JobIndex_upsert jobs entry)) \<and>
          wWorld st' = snd (saveJobIndex (weSd E) (weJson E) w (snd (JobIndex_upsert jobs entry))))"
proof -
  let ?bs = "concat chunks"
  have lj: "length jid = 32" by (simp add: jid kJobIdLen_def)
  then have p: "take kPathLen (''/inbox/'' @ jid @ ''.xtc'') = path"
    by (simp add: path kPathLen_def)
  define st1 where "st1 = fold (handleUploadXtcData E rq) (UPLOAD_FILE_START # map UPLOAD_FILE_WRITE chunks) st"
  note s0 = streaming_start [OF sd s(1,2,4) jid, unfolded p]
  from streaming_writes [OF sd s0, of chunks rq] len(2)
  obtain w up where st1: "st1 = st\<lparr>upXtc := up, wWorld := w, rngPos := rngPos st + kJobIdLen\<rparr>"
    and up: "upAuthorized up" "\<not> upTooLarge up" "upFile up = Some ?bs" "upJobId up = jid" "upPath up = path"
      "upBytes up = word_of_nat (length ?bs)"
    and files: "sd_files (weSd E) w = (sd_files (weSd E) (wWorld st))(path \<mapsto> weBytes E ?bs)"
    by (auto simp: streaming_def st1_def)
  define st2 where "st2 = markActivity (st1\<lparr>upXtc := up\<lparr>upFile := None\<rparr>\<rparr>)"
  have ev: "markActivity (upload_events E (Some RUploadXtc) rq st) = st2"
  proof -
    have "upload_events E (Some RUploadXtc) rq st = handleUploadXtcData E rq UPLOAD_FILE_END st1"
      using rq by (simp add: upload_events_def upload_of_def st1_def)
    then show ?thesis by (simp add: st2_def handleUploadXtcData_def st1)
  qed
  have st2: "requestHasValidSession st2 rq" "upXtc st2 = up\<lparr>upFile := None\<rparr>" "wWorld st2 = w" "wJobs st2 = Some jobs"
    using s(1,2) valid_session_token [of st2 st rq] by (simp_all add: st2_def st1 markActivity_def)
  have nz: "upBytes up \<noteq> 0"
  proof -
    have "unat (word_of_nat (length ?bs) :: u32) = length ?bs"
      using len(2) by (simp add: unat_of_nat kMaxXtcUploadBytes_def)
    with len(1) up(6) show ?thesis by (metis length_0_conv unat_0)
  qed
  define pages where "pages = reader_page_count (weFiles E w) path"
  define entry where "entry = expected_entry jid path (length ?bs) pages rq"
  have fits: "strncpy kJobIdLen jid = jid" "strncpy kPathLen path = path"
    using lj by (simp_all add: kJobIdLen_def kPathLen_def path)
  have same: "uploaded_entry (up\<lparr>upFile := None\<rparr>) pages rq = entry" and jid_entry: "jobId entry = jid"
    using up fits by (simp_all add: uploaded_entry_def entry_def expected_entry_def Let_def)
  have stored: "fst (JobIndex_upsert jobs entry)"
    using s(4) by (auto simp: JobIndex_upsert_def split: option.split)
  have run: "handleUploadXtcComplete E rq st2 =
      (if pages = 0 then Some (upload_refuse E (error_text 400 ''invalid_xtc'') path st2)
       else Some (send_json 200 (JObj [(''job_id'', JStr jid)]),
         st2\<lparr>wJobs := Some (snd (JobIndex_upsert jobs entry)),
           wWorld := snd (saveJobIndex (weSd E) (weJson E) w (snd (JobIndex_upsert jobs entry)))\<rparr>))"
    using st2 up nz stored
    by (simp add: handleUploadXtcComplete_def Let_def pages_def [symmetric] same split_def jid_entry)
  have hc: "handleClient E rq st = (case handleUploadXtcComplete E rq st2 of None \<Rightarrow> None | Some (rp, st) \<Rightarrow> Some (Some rp, st))"
    using rq s(5) by (simp add: handleClient_def route_upload [OF s(6) rq] Let_def ev run_route_def upload_of_def)
  show ?thesis
    by (rule exI [of _ w], cases "pages = 0")
      (use files run hc st2 in \<open>simp_all add: pages_def [symmetric] entry_def [symmetric] Let_def upload_refuse_def\<close>)
qed

section \<open>Streaming a file\<close>

lemma take_more: "take m xs @ take k (drop m xs) = take (m + k) xs"
  by (simp add: take_add)

lemma stream_loop_content:
  assumes F: "file_content F f c" and len: "length c < 2 ^ 32"
  shows "pos \<le> length c \<Longrightarrow> stream_loop F f remaining pos sent = Some (sent @ take remaining (drop pos c))"
proof (induction remaining arbitrary: pos sent rule: less_induct)
  case (less remaining)
  let ?n = "if remaining < kXtcStreamChunkBytes then remaining else kXtcStreamChunkBytes"
  define buf where "buf = take ?n (drop pos c)"
  have "unat (word_of_nat pos :: u64) = pos" using less.prems len by (simp add: unat_of_nat)
  then have r: "f_read F f (word_of_nat pos) ?n = (int (length buf), buf)"
    using F less.prems by (simp add: file_content_def buf_def)
  have lb: "length buf \<le> ?n" by (simp add: buf_def)
  show ?case
  proof (cases "remaining = 0 \<or> buf = []")
    case True
    then have "take remaining (drop pos c) = []"
      by (auto simp: buf_def kXtcStreamChunkBytes_def split: if_splits)
    with True r show ?thesis
      by (subst stream_loop.simps) (auto simp: Let_def)
  next
    case False
    then have pos: "0 < remaining" "0 < length buf" "length buf \<le> remaining" "pos + length buf \<le> length c"
      using lb less.prems by (auto simp: buf_def split: if_splits)
    have eq: "buf = take (length buf) (drop pos c)"
      by (metis buf_def length_take min.commute take_take take_all_iff nle_le)
    have "stream_loop F f remaining pos sent =
        stream_loop F f (remaining - length buf) (pos + length buf) (sent @ buf)"
      by (subst stream_loop.simps) (use False r lb pos(1,3) in \<open>auto simp: Let_def\<close>)
    also have "\<dots> = Some (sent @ buf @ take (remaining - length buf) (drop (pos + length buf) c))"
      using less.IH [of "remaining - length buf" "pos + length buf"] pos(1,2,4) by (simp del: length_greater_0_conv)
    also have "buf @ take (remaining - length buf) (drop (pos + length buf) c) = take remaining (drop pos c)"
      using take_more [of "length buf" "drop pos c" "remaining - length buf"] eq pos(3)
      by (simp add: add.commute)
    finally show ?thesis .
  qed
qed

section \<open>Secrets and the radio across starting and stopping\<close>

lemma kHex_nth: "kHex ! unat ((r :: u32) AND 0xF) \<in> set kHex"
proof -
  have "r AND 0xF \<le> 0xF" by (rule word_and_le1)
  then have "unat (r AND 0xF) < length kHex" by (simp add: word_le_nat_alt kHex_def)
  then show ?thesis by (rule nth_mem)
qed

lemma randomHex_hex: "set (fst (randomHex E n st)) \<subseteq> set kHex"
  by (auto simp: randomHex_def random_chars_def kHex_nth)

lemma kCharset_nth: "kCharset ! unat ((r :: u32) mod word_of_nat (length kCharset)) \<in> set kCharset"
proof -
  have "unat (r mod word_of_nat (length kCharset)) < length kCharset"
    by (simp add: unat_mod kCharset_def)
  then show ?thesis by (rule nth_mem)
qed

definition decimal :: "char \<Rightarrow> bool" where
  "decimal c \<longleftrightarrow> 48 \<le> (of_char c :: nat) \<and> (of_char c :: nat) \<le> 57"

lemma decimal_digit: "decimal (char_of (48 + v mod 10 :: nat))"
proof -
  have "v mod 10 < 10" by simp
  then show ?thesis by (simp add: decimal_def)
qed

definition secrets_ok :: "'s web_state \<Rightarrow> bool" where
  "secrets_ok st \<longleftrightarrow> length (webPin st) = 6 \<and> (\<forall>c \<in> set (webPin st). decimal c) \<and>
     length (sessionToken st) = 32 \<and> set (sessionToken st) \<subseteq> set kHex"

lemma generated_secrets: "secrets_ok (generateSessionSecrets E st)"
proof -
  obtain pin st1 where p: "randomPin E st = (pin, st1)" by force
  then have m: "pin = map (\<lambda>k. char_of (48 + unat (weRandom E (rngPos st) mod 1000000) div 10 ^ k mod 10)) [5, 4, 3, 2, 1, 0]"
    by (simp only: randomPin_def Let_def prod.inject)
  then have pin: "length pin = 6" "\<forall>c \<in> set pin. decimal c"
    by (simp_all add: decimal_digit)
  obtain token st2 where t: "randomHex E 32 (st1\<lparr>webPin := pin\<rparr>) = (token, st2)" by force
  then have "length token = 32" "set token \<subseteq> set kHex" "webPin st2 = pin"
    using length_randomHex [of E 32 "st1\<lparr>webPin := pin\<rparr>"] randomHex_hex [of E 32 "st1\<lparr>webPin := pin\<rparr>"]
      randomHex_simps [of E 32 "st1\<lparr>webPin := pin\<rparr>"] by auto
  with p t pin show ?thesis
    by (simp add: generateSessionSecrets_def secrets_ok_def)
qed

lemma beginCommon_simps [simp]:
  "webMode (beginCommon st) = webMode st" "wWorld (beginCommon st) = wWorld st" "natBridge (beginCommon st) = natBridge st"
  "wWifi (beginCommon st) = wWifi st" "webPassword (beginCommon st) = webPassword st"
  by (simp_all add: beginCommon_def)

lemma secrets_ok_updates:
  "secrets_ok (st\<lparr>webMode := m\<rparr>) = secrets_ok st" "secrets_ok (beginCommon st) = secrets_ok st"
  "secrets_ok (st\<lparr>wWorld := w\<rparr>) = secrets_ok st" "secrets_ok (st\<lparr>natBridge := nb\<rparr>) = secrets_ok st"
  "secrets_ok (st\<lparr>wWifi := x\<rparr>) = secrets_ok st"
  by (simp_all add: secrets_ok_def beginCommon_def)

definition web_radio_inv :: "('s \<Rightarrow> u32 set) \<Rightarrow> 's web_state \<Rightarrow> bool" where
  "web_radio_inv napt st \<longleftrightarrow> nat_inv napt (natBridge st, wWorld st) \<and> (natEnabled (natBridge st) \<longrightarrow> webMode st = Hotspot)"

lemma generateSessionSecrets_frame [simp]:
  "wWorld (generateSessionSecrets E st) = wWorld st" "natBridge (generateSessionSecrets E st) = natBridge st"
  "webMode (generateSessionSecrets E st) = webMode st" "wWifi (generateSessionSecrets E st) = wWifi st"
  "webPassword (generateSessionSecrets E st) = webPassword st" "webSsid (generateSessionSecrets E st) = webSsid st"
  by (simp_all add: generateSessionSecrets_def randomPin_def Let_def split_def)

lemma web_stop_off:
  assumes L: "napt_laws (weRadio E) (weSd E) napt" and inv: "web_radio_inv napt st"
  shows "webMode (web_stop E st) = Off" "\<not> natEnabled (natBridge (web_stop E st))" "napt (wWorld (web_stop E st)) = {}"
proof -
  show "webMode (web_stop E st) = Off" by (simp add: web_stop_def Let_def)
  have ap: "napt (stopAccessPoint (weRadio E) w) = napt w" "napt (WifiManager_disconnect (weRadio E) w) = napt w" for w
    using L by (simp_all add: stopAccessPoint_def WifiManager_disconnect_def napt_laws_def)
  obtain nb w where d: "NatBridge_disable (weRadio E) (natBridge st, wWorld st) = (nb, w)" by force
  with NatBridge_disable_inv [OF L, of "(natBridge st, wWorld st)"] inv
  have nb: "napt w = {}" "\<not> natEnabled nb" by (simp_all add: nat_inv_def web_radio_inv_def)
  show "\<not> natEnabled (natBridge (web_stop E st))"
    using inv nb by (auto simp: web_stop_def Let_def d web_radio_inv_def)
  show "napt (wWorld (web_stop E st)) = {}"
    using inv nb by (auto simp: web_stop_def Let_def d web_radio_inv_def nat_inv_def ap)
qed

lemma web_stop_secrets:
  "webMode st \<noteq> Off \<Longrightarrow> sessionToken (web_stop E st) = [] \<and> webPin (web_stop E st) = [] \<and>
     webPassword (web_stop E st) = [] \<and> webSsid (web_stop E st) = []"
  by (simp add: web_stop_def Let_def)

lemma startStation_inv:
  assumes L: "napt_laws (weRadio E) (weSd E) napt" and inv: "web_radio_inv napt st"
    and s: "startStation E timeoutMs st = Some (up, st')"
  shows "web_radio_inv napt st' \<and> (if up then webMode st' = Station \<and> secrets_ok st' else webMode st' = Off)"
proof -
  let ?st = "web_stop E st"
  note off = web_stop_off [OF L inv]
  obtain joined store w where c:
    "WifiManager_connect (weRadio E) (weSd E) (weJson E) (weB64 E) (weMac E) timeoutMs (wWifi ?st, wWorld ?st) = Some (joined, store, w)"
    using s by (auto simp: startStation_def Let_def split: option.splits)
  have n: "napt w = {}"
    using napt_connect [OF L c [unfolded WifiManager_connect_def]] off(3) by simp
  show ?thesis
    using s c n off
    by (auto simp: startStation_def Let_def web_radio_inv_def nat_inv_def generated_secrets secrets_ok_updates split: if_splits)
qed

lemma startHotspot_inv:
  assumes L: "napt_laws (weRadio E) (weSd E) napt" and inv: "web_radio_inv napt st"
    and s: "startHotspot E natWanted st = Some (up, st')"
  shows "web_radio_inv napt st' \<and> (if up then webMode st' = Hotspot \<and> secrets_ok st' \<and> length (webPassword st') = 15 else webMode st' = Off)"
proof -
  let ?R = "weRadio E"
  define st1 where "st1 = hotspot_secrets E (web_stop E st)"
  obtain b w where ap: "startAccessPoint ?R (webSsid st1) (webPassword st1) (wWorld st1) = (b, w)" by force
  note off = web_stop_off [OF L inv]
  have st1: "\<not> natEnabled (natBridge st1)" "napt (wWorld st1) = {}" "secrets_ok st1" "length (webPassword st1) = 15"
    using off L generated_secrets [of E]
    by (simp_all add: st1_def hotspot_secrets_def Let_def split_def randomPassword_def random_chars_def napt_laws_def)
  have "napt (snd (startAccessPoint ?R x y z)) = napt z" for x y z
    using L by (simp add: startAccessPoint_def napt_laws_def)
  from this [of "webSsid st1" "webPassword st1" "wWorld st1"] ap st1 have n: "napt w = {}" by simp
  define st2 where "st2 = beginCommon (st1\<lparr>wWorld := w, webMode := Hotspot\<rparr>)"
  have st2: "nat_inv napt (natBridge st2, wWorld st2)" "webMode st2 = Hotspot" "secrets_ok st2" "length (webPassword st2) = 15"
    using st1 n by (simp_all add: st2_def beginCommon_def nat_inv_def secrets_ok_def)
  have start: "startHotspot E natWanted st =
      (if \<not> b then Some (False, st1\<lparr>wWorld := w, webMode := Off\<rparr>)
       else if \<not> natWanted then Some (True, st2)
       else case NatBridge_enable ?R (weSd E) (weJson E) (weB64 E) (weMac E) kNatTimeoutMs (natBridge st2, wWifi st2, wWorld st2) of
           None \<Rightarrow> None
         | Some (bridged, nb, store, w) \<Rightarrow> Some (True, st2\<lparr>natBridge := nb, wWifi := store, wWorld := w\<rparr>))"
    using ap by (simp add: startHotspot_def Let_def st1_def [symmetric] st2_def [symmetric])
  show ?thesis
  proof (cases "b \<and> natWanted")
    case True
    then obtain bridged nb store w' where
      e: "NatBridge_enable ?R (weSd E) (weJson E) (weB64 E) (weMac E) kNatTimeoutMs (natBridge st2, wWifi st2, wWorld st2) =
        Some (bridged, nb, store, w')"
      and st': "up" "st' = st2\<lparr>natBridge := nb, wWifi := store, wWorld := w'\<rparr>"
      using s start by (auto split: option.splits)
    from NatBridge_enable_inv [OF L st2(1) e] st2 st' show ?thesis
      by (simp add: web_radio_inv_def secrets_ok_def)
  next
    case False
    with s start st1 st2 n show ?thesis
      by (auto simp: web_radio_inv_def nat_inv_def split: if_splits)
  qed
qed

section \<open>Approving over the web\<close>

definition posts_approval :: "('s, 'c, 'v, 'f) web_env \<Rightarrow> string \<Rightarrow> ApprovalAction \<Rightarrow> 'c web_request \<Rightarrow> bool" where
  "posts_approval E jid act rq \<longleftrightarrow> wqVerb rq = HTTP_POST \<and> wqUri rq = ''/api/jobs'' \<and> \<not> wqAborted rq \<and> jid \<noteq> [] \<and>
     (\<exists>doc. j_deserialize (weJson E) (wqPlain rq) = Some doc \<and> json_or_str (weJson E) doc ''job_id'' [] = jid \<and>
        parseApprovalAction (json_or_str (weJson E) doc ''action'' []) = Some act)"

lemma posts_approval_handled:
  assumes rq: "posts_approval E jid act rq" and s: "requestHasValidSession st rq" "webMode st \<noteq> Off" "routesRegistered st"
    and jobs: "wJobs st = Some jobs" "wOutbox st = Some ob"
    and r: "enqueueApproval jobs ob jid act (fst (randomHex E kApprovalIdLen st)) (to_u32 (wqTime rq)) = (r, jobs', ob')"
  shows "\<exists>rp st'. handleClient E rq st = Some (Some rp, st') \<and> wJobs st' = Some jobs' \<and> wOutbox st' = Some ob' \<and>
    rpCode rp = (case r of Ok \<Rightarrow> 200 | UnknownJob \<Rightarrow> 404 | _ \<Rightarrow> 409) \<and>
    wWorld st' = (if r = Ok then snd (saveJobIndex (weSd E) (weJson E)
      (snd (saveApprovalOutbox (weSd E) (weJson E) (wWorld st) ob')) jobs') else wWorld st)"
proof -
  have route: "find_route st rq = Some RJobsPost"
    using rq s(3) by (simp add: find_route_def posts_approval_def web_routes_def)
  let ?st = "markActivity st"
  obtain aid where aid: "randomHex E kApprovalIdLen ?st = (aid, ?st\<lparr>rngPos := rngPos ?st + kApprovalIdLen\<rparr>)"
    "aid = fst (randomHex E kApprovalIdLen st)"
    by (simp add: randomHex_def random_chars_def markActivity_def)
  have v: "requestHasValidSession ?st rq" "wJobs ?st = Some jobs" "wOutbox ?st = Some ob" "wWorld ?st = wWorld st"
    using s(1) jobs valid_session_token [of ?st st rq] by (simp_all add: markActivity_def)
  obtain doc where doc: "j_deserialize (weJson E) (wqPlain rq) = Some doc" "json_or_str (weJson E) doc ''job_id'' [] = jid"
    "parseApprovalAction (json_or_str (weJson E) doc ''action'' []) = Some act" "jid \<noteq> []" "\<not> wqAborted rq"
    using rq by (auto simp: posts_approval_def)
  have h: "handleClient E rq st = Some (Some (fst (handleApiJobsPost E rq ?st)), snd (handleApiJobsPost E rq ?st))"
    using doc(5) s(2) by (simp add: handleClient_def route upload_events_def run_route_def split: prod.split)
  show ?thesis
    unfolding h using r doc v
    by (cases r) (simp_all add: handleApiJobsPost_def aid Let_def status_ok_def send_text_def send_json_def)
qed

end
