(* ===== verification/Ui_Invariant.thy ===== *)
theory Ui_Invariant
  imports Ui_Lists Web_Outcomes
begin

text \<open>
  The invariant of the interface: what every frame and every button press keeps, and that the next frame can be drawn
  without leaving an array.
\<close>

section \<open>The invariant\<close>

text \<open>\<open>Q\<close> is what holds of the index and the outbox together.\<close>

definition stores_ok :: "(JobIndex \<times> ApprovalOutboxIndex \<Rightarrow> bool) \<Rightarrow> 's web_state \<Rightarrow> bool" where
  "stores_ok Q web \<longleftrightarrow> wifi_inv (creds (wWifi web)) \<and>
     (\<exists>jobs ob. wJobs web = Some jobs \<and> wOutbox web = Some ob \<and> Q (jobs, ob))"

definition selection_ok :: "('s, 'f) ui_state \<Rightarrow> bool" where
  "selection_ok st \<longleftrightarrow> - 1 \<le> selectedJobIndex st \<and> selectedJobIndex st < int kMaxInboxJobs"

definition page_ok :: "('s, 'f) ui_state \<Rightarrow> bool" where
  "page_ok st \<longleftrightarrow> readerOpenForSelected st \<longrightarrow> uPage st = 0 \<or> uPage st < xtcPageCount (rdHeader (uReader st))"

definition framebuffer_ok :: "('s, 'f) ui_state \<Rightarrow> bool" where
  "framebuffer_ok st \<longleftrightarrow> pred_option (\<lambda>fb. uFramebufferSize st \<le> length fb \<and>
     unat (rowBytesOf (uPanelWidth st)) * unat (uPanelHeight st) \<le> length fb) (uFramebuffer st)"

definition web_mode_ok :: "('s, 'f) ui_state \<Rightarrow> bool" where
  "web_mode_ok st \<longleftrightarrow> (uMode st = WebUi \<longleftrightarrow> webMode (uWeb st) \<noteq> Off)"

definition ui_inv :: "(JobIndex \<times> ApprovalOutboxIndex \<Rightarrow> bool) \<Rightarrow> ('s \<Rightarrow> u32 set) \<Rightarrow> ('s, 'f) ui_state \<Rightarrow> bool" where
  "ui_inv Q napt st \<longleftrightarrow> stores_ok Q (uWeb st) \<and> web_radio_inv napt (uWeb st) \<and> selection_ok st \<and> page_ok st \<and>
     framebuffer_ok st \<and> web_mode_ok st"

lemmas ui_inv_defs = ui_inv_def selection_ok_def page_ok_def framebuffer_ok_def web_mode_ok_def

lemma to_i16_small: "- 32768 \<le> v \<Longrightarrow> v < 32768 \<Longrightarrow> to_i16 v = v"
  by (simp add: to_i16_def sint_sbintrunc' signed_take_bit_int_eq_self)

lemma stores_ok_updates [simp]:
  "stores_ok Q (web\<lparr>wWorld := w\<rparr>) = stores_ok Q web" "stores_ok Q (web\<lparr>rngPos := n\<rparr>) = stores_ok Q web"
  "stores_ok Q (web\<lparr>webMode := m\<rparr>) = stores_ok Q web" "stores_ok Q (web\<lparr>natBridge := nb\<rparr>) = stores_ok Q web"
  by (simp_all add: stores_ok_def)

definition frame_ok :: "ui_frame \<Rightarrow> bool" where
  "frame_ok fe \<longleftrightarrow> 0 \<le> fnFooterValue fe \<and> fnFooterValue fe < int kMaxInboxJobs"

subsection \<open>What the interface needs of index and outbox\<close>

text \<open>The contract under which the screens and handlers are safe: queueing an approval keeps it.\<close>

locale approval_queue =
  fixes Q :: "JobIndex \<times> ApprovalOutboxIndex \<Rightarrow> bool"
  assumes Q_jobs: "Q (jobs, ob) \<Longrightarrow> JobIndex_inv jobs"
    and Q_enqueue: "Q (jobs, ob) \<Longrightarrow> Q (snd (enqueueApproval jobs ob jid act aid t))"
begin

lemma stores_ok_jobs: "stores_ok Q web \<Longrightarrow> wJobs web = Some jobs \<Longrightarrow> length jobs \<le> kMaxInboxJobs"
  by (auto simp: stores_ok_def dest!: Q_jobs dest: jobs.inv_length)

lemma stores_ok_eq:
  assumes "wJobs web' = wJobs web" "wOutbox web' = wOutbox web" "creds (wWifi web') = creds (wWifi web)"
  shows "stores_ok Q web' = stores_ok Q web"
  using assms by (simp add: stores_ok_def)

subsection \<open>Frames\<close>

lemma homeScreen_kept:
  assumes st: "ui_inv Q napt st" and h: "homeScreen st = Some (sc, st')"
  shows "ui_inv Q napt st'" "uMode st' = uMode st"
proof -
  obtain jobs where jobs: "wJobs (uWeb st) = Some jobs" using h by (auto simp: homeScreen_def split: option.splits)
  with st have len: "length jobs \<le> kMaxInboxJobs" by (auto simp: ui_inv_def dest: stores_ok_jobs)
  obtain items where b: "buildInboxListItems kMaxInboxJobs jobs kMaxInboxJobs = Some items"
    using h jobs by (auto simp: homeScreen_def split: option.splits)
  then have items: "items = inbox_rows jobs"
    using len by (simp add: buildInboxListItems_spec kMaxInboxJobs_def split: if_splits)
  obtain row first found where f: "find_selected items 0 (selectedJobIndex st) (- 1) = (row, first, found)"
    by (cases "find_selected items 0 (selectedJobIndex st) (- 1)") auto
  have st': "st' = (if \<not> found \<and> first \<ge> 0 then st\<lparr>selectedJobIndex := to_i16 (actionValue (items ! nat first))\<rparr> else st)"
    using h by (simp add: homeScreen_def jobs b f Let_def)
  have sel: "0 \<le> to_i16 (actionValue (items ! nat first)) \<and> to_i16 (actionValue (items ! nat first)) < int kMaxInboxJobs"
    if "\<not> found" "first \<ge> 0"
  proof -
    from find_selected_spec [OF f] that have "nat first < length items" "\<not> isHeader (items ! nat first)" by auto
    then obtain i where "i < length jobs" "actionValue (items ! nat first) = int i"
      using inbox_rows_range [of "items ! nat first" jobs] by (auto simp: items)
    with len show ?thesis by (simp add: to_i16_small kMaxInboxJobs_def)
  qed
  show "uMode st' = uMode st" by (simp add: st')
  show "ui_inv Q napt st'"
    using st sel by (auto simp: st' ui_inv_defs)
qed

lemma actionMenu_kept: "actionMenuScreen st = Some (sc, st') \<Longrightarrow> st' = st"
  by (auto simp: actionMenuScreen_def Let_def split: if_splits option.splits)

lemma reader_open_selected_kept:
  assumes "ui_inv Q napt st"
  shows "ui_inv Q napt (reader_open_selected E job st)" "uMode (reader_open_selected E job st) = uMode st"
  using assms by (auto simp: reader_open_selected_def ui_inv_defs Let_def split_def)

lemma reader_draw_kept:
  assumes st: "ui_inv Q napt st" and F: "\<And>w. file_laws (weFiles E w)"
  shows "\<exists>body st'. reader_draw E st = Some (body, st') \<and> ui_inv Q napt st' \<and> uMode st' = uMode st"
proof (cases "readerOpenForSelected st \<and> uFramebuffer st \<noteq> None")
  case True
  then obtain fb where fb: "uFramebuffer st = Some fb" by auto
  let ?r = "renderPageToFramebuffer (reader_files E st) (uReader st) (uPage st) fb (uFramebufferSize st) (uPanelWidth st) (uPanelHeight st)"
  have size: "uFramebufferSize st \<le> length fb" "unat (rowBytesOf (uPanelWidth st)) * unat (uPanelHeight st) \<le> length fb"
    using st fb by (simp_all add: ui_inv_def framebuffer_ok_def)
  have "file_laws (reader_files E st)" using F by (simp add: reader_files_def)
  from render_kept_in [OF this size(1), of "uPanelWidth st" "uPanelHeight st" "uReader st" "uPage st"] size(2)
  obtain res fb' where r: "?r = Some (res, fb')" "length fb' = length fb"
    by (auto simp: kept_in_def split: option.splits)
  show ?thesis
    using True st r by (simp add: reader_draw_def fb ui_inv_defs)
next
  case False
  then show ?thesis using st by (auto simp: reader_draw_def)
qed

lemma reader_draw_offers: "reader_draw E st = Some (body, st') \<Longrightarrow> concat (map (element_offers fv) body) = []"
  by (auto simp: reader_draw_def split: if_splits option.splits)

lemma stores_ok_job_at:
  assumes "ui_inv Q napt st" and "0 \<le> selectedJobIndex st"
  shows "\<exists>jobs job. wJobs (uWeb st) = Some jobs \<and> job_at jobs (selectedJobIndex st) = Some job"
  using assms by (auto simp: ui_inv_def stores_ok_def selection_ok_def job_at_def)

lemma readerScreen_kept:
  assumes st: "ui_inv Q napt st" and m: "uMode st = Reader" and F: "\<And>w. file_laws (weFiles E w)"
  shows "\<exists>sc st'. readerScreen E st = Some (sc, st') \<and> ui_inv Q napt st' \<and> concat (map (element_offers fv) (scBody sc)) = [] \<and>
    (if selectedJobIndex st < 0 then uMode st' = Inbox \<and> scFooter sc = []
     else uMode st' = Reader \<and> scFooter sc = reader_footer st')"
proof (cases "selectedJobIndex st < 0")
  case True
  then show ?thesis using st m by (auto simp: readerScreen_def ui_inv_defs)
next
  case False
  with stores_ok_job_at [OF st] obtain jobs job where
    j: "wJobs (uWeb st) = Some jobs" "job_at jobs (selectedJobIndex st) = Some job" by auto
  from reader_draw_kept [OF reader_open_selected_kept(1) [OF st] F] reader_open_selected_kept(2) [OF st, of E job] m
  obtain body st' where d: "reader_draw E (reader_open_selected E job st) = Some (body, st')" "ui_inv Q napt st'" "uMode st' = Reader"
    by (metis (no_types))
  then show ?thesis
    using False reader_draw_offers [OF d(1), of fv] by (simp add: readerScreen_def j)
qed

lemma screenRouter_kept:
  assumes st: "ui_inv Q napt st" and F: "\<And>w. file_laws (weFiles E w)" and r: "screenRouter E fe st = Some (sc, st')"
  shows "ui_inv Q napt st'" "uMode st' = (if uMode st = Reader \<and> selectedJobIndex st < 0 then Inbox else uMode st)"
proof -
  have "ui_inv Q napt st' \<and> uMode st' = (if uMode st = Reader \<and> selectedJobIndex st < 0 then Inbox else uMode st)"
  proof (cases "uMode st")
    case Reader
    from readerScreen_kept [OF st Reader F, where fv = 0] r Reader show ?thesis
      by (auto simp: screenRouter_def split: if_splits)
  next
    case WebUiChoice
    with r st show ?thesis by (auto simp: screenRouter_def webUiChoiceScreen_def ui_inv_defs)
  qed (use r st in \<open>auto simp: screenRouter_def dest: homeScreen_kept actionMenu_kept\<close>)
  then show "ui_inv Q napt st'" "uMode st' = (if uMode st = Reader \<and> selectedJobIndex st < 0 then Inbox else uMode st)"
    by simp_all
qed

subsection \<open>What a screen offers\<close>

text \<open>A screen never offers to open a job that is not there, and a running web UI offers nothing but to stop it.\<close>

lemma homeScreen_offers:
  assumes st: "ui_inv Q napt st" and h: "homeScreen st = Some (sc, st')" and o: "(InboxAction ActionOpenJob, v) \<in> set (offers fe sc)"
    and fe: "frame_ok fe"
  shows "0 \<le> v \<and> v < int kMaxInboxJobs"
proof -
  obtain jobs items where jobs: "wJobs (uWeb st) = Some jobs" and b: "buildInboxListItems kMaxInboxJobs jobs kMaxInboxJobs = Some items"
    using h by (auto simp: homeScreen_def split: option.splits)
  with st have len: "length jobs \<le> kMaxInboxJobs" by (auto simp: ui_inv_def dest: stores_ok_jobs)
  have items: "items = inbox_rows jobs"
    using b len by (simp add: buildInboxListItems_spec kMaxInboxJobs_def split: if_splits)
  have row: "0 \<le> actionValue r \<and> actionValue r < int kMaxInboxJobs" if "r \<in> set items" "\<not> isHeader r" for r
    using inbox_rows_range [OF that [unfolded items]] len by auto
  show ?thesis
    using h o fe row
    by (auto simp: homeScreen_def jobs b Let_def split_def offers_def home_footer_def frame_ok_def split: if_splits)
qed

lemma screenRouter_offers_job:
  assumes st: "ui_inv Q napt st" and F: "\<And>w. file_laws (weFiles E w)" and r: "screenRouter E fe st = Some (sc, st')"
    and o: "(InboxAction ActionOpenJob, v) \<in> set (offers fe sc)" and fe: "frame_ok fe"
  shows "0 \<le> v \<and> v < int kMaxInboxJobs"
proof (cases "uMode st")
  case Inbox
  with r o fe st show ?thesis by (auto simp: screenRouter_def dest: homeScreen_offers)
next
  case Status
  with r o fe st show ?thesis by (auto simp: screenRouter_def dest: homeScreen_offers)
next
  case Reader
  from readerScreen_kept [OF st Reader F, where fv = "fnFooterValue fe"] r Reader o show ?thesis
    by (auto simp: screenRouter_def offers_def reader_footer_def Let_def split: if_splits)
next
  case ActionMenu
  with r o show ?thesis by (auto simp: screenRouter_def actionMenuScreen_def offers_def Let_def split: if_splits option.splits)
next
  case WebUiChoice
  with r o show ?thesis by (auto simp: screenRouter_def webUiChoiceScreen_def offers_def)
next
  case WebUi
  with r o show ?thesis by (auto simp: screenRouter_def webUiScreen_def offers_def Let_def)
next
  case Settings
  with r o show ?thesis
    by (auto simp: screenRouter_def settingsScreen_def offers_def settings_footer_def settingsWifiTab_def settingsSyncRelayTab_def
      settingsDisplayTab_def settingsCalendarTab_def settingsPlannerTab_def settingsPomodoroTab_def settingsDeviceInfoTab_def Let_def
      split: SettingsTab.splits option.splits if_splits)
next
  case Timeline
  with r o show ?thesis
    by (auto simp: screenRouter_def timelineScreen_def offers_def renderHorizontal_def renderVertical_def Let_def split: if_splits)
next
  case PomodoroScreen
  with r o show ?thesis by (auto simp: screenRouter_def pomodoroScreen_def offers_def Let_def split: if_splits)
next
  case CalendarReminder
  with r o show ?thesis by (auto simp: screenRouter_def calendarReminderScreen_def offers_def Let_def)
qed

lemma screenRouter_offers_stop:
  assumes "uMode st = WebUi" and "screenRouter E fe st = Some (sc, st')" and "(a, v) \<in> set (offers fe sc)"
  shows "a = InboxAction ActionWebUiStop"
  using assms by (auto simp: screenRouter_def webUiScreen_def offers_def Let_def)

subsection \<open>Handlers\<close>

lemma napt_write:
  assumes "napt_laws R sd napt"
  shows "napt (snd (writeFileAtomic sd w p c)) = napt w" "napt (sd_mkdir sd w p) = napt w"
proof -
  show "napt (snd (writeFileAtomic sd w p c)) = napt w"
    using napt_writeFileAtomic [OF assms, of w p c] by (cases "writeFileAtomic sd w p c") auto
  show "napt (sd_mkdir sd w p) = napt w" using assms by (simp add: napt_laws_def)
qed

lemma napt_saves:
  assumes "napt_laws R sd napt"
  shows "napt (snd (saveJobIndex sd J w jobs)) = napt w" "napt (snd (saveApprovalOutbox sd J w ob)) = napt w"
    "napt (snd (AppSettings_save sd J w d)) = napt w" "napt (snd (savePomodoroSession sd J w p)) = napt w"
  by (simp_all add: saveJobIndex_def saveApprovalOutbox_def AppSettings_save_def savePomodoroSession_def napt_write [OF assms])

lemma web_radio_inv_world:
  "napt w = napt (wWorld web) \<Longrightarrow> web_radio_inv napt (web\<lparr>wWorld := w\<rparr>) = web_radio_inv napt web"
  by (simp add: web_radio_inv_def nat_inv_def)

lemma web_radio_inv_eq:
  assumes "napt (wWorld b) = napt (wWorld a)" "natBridge b = natBridge a" "webMode b = webMode a"
  shows "web_radio_inv napt b = web_radio_inv napt a"
  using assms by (simp add: web_radio_inv_def nat_inv_def)

lemma save_settings_kept:
  assumes L: "napt_laws (weRadio E) (weSd E) napt" and st: "ui_inv Q napt st"
  shows "ui_inv Q napt (save_settings E s st)"
  using st by (simp add: save_settings_def Let_def ui_inv_defs web_radio_inv_world napt_saves [OF L])

lemma save_session_kept:
  assumes L: "napt_laws (weRadio E) (weSd E) napt" and st: "ui_inv Q napt st"
  shows "ui_inv Q napt (save_session E s st)"
  using st by (simp add: save_session_def Let_def ui_inv_defs web_radio_inv_world napt_saves [OF L])

lemma web_stop_stores [simp]:
  "wJobs (web_stop E web) = wJobs web" "wOutbox (web_stop E web) = wOutbox web" "wWifi (web_stop E web) = wWifi web"
  by (simp_all add: web_stop_def Let_def split_def)

lemma generateSessionSecrets_stores [simp]:
  "wJobs (generateSessionSecrets E web) = wJobs web" "wOutbox (generateSessionSecrets E web) = wOutbox web"
  by (simp_all add: generateSessionSecrets_def randomPin_def Let_def split_def)

lemma beginCommon_stores [simp]:
  "wJobs (beginCommon web) = wJobs web" "wOutbox (beginCommon web) = wOutbox web"
  by (simp_all add: beginCommon_def)

lemma startStation_stores:
  assumes s: "startStation E t web = Some (up, web')"
  shows "stores_ok Q web' = stores_ok Q web"
proof -
  obtain joined store w where c:
    "connectWithMode (weRadio E) (weSd E) (weJson E) (weB64 E) (weMac E) WIFI_STA t (wWifi web, wWorld (web_stop E web)) = Some (joined, store, w)"
    using s by (auto simp: startStation_def Let_def WifiManager_connect_def split: option.splits)
  from connect_creds [OF c] s c show ?thesis
    by (intro stores_ok_eq) (auto simp: startStation_def Let_def WifiManager_connect_def split: if_splits)
qed

lemma hotspot_secrets_stores [simp]:
  "wJobs (hotspot_secrets E web) = wJobs web" "wOutbox (hotspot_secrets E web) = wOutbox web"
  "wWifi (hotspot_secrets E web) = wWifi web"
  by (simp_all add: hotspot_secrets_def Let_def split_def randomPassword_def random_chars_def)

lemma NatBridge_enable_creds:
  assumes "NatBridge_enable R sd J B mac t (nb, store, w) = Some (up, nb', store', w')"
  shows "creds store' = creds store"
  using assms
  by (auto simp: NatBridge_enable_def connectKeepingAp_def Let_def split_def split: option.splits if_splits dest: connect_creds)

lemma startHotspot_stores:
  assumes s: "startHotspot E wanted web = Some (up, web')"
  shows "stores_ok Q web' = stores_ok Q web"
proof -
  define st1 where "st1 = hotspot_secrets E (web_stop E web)"
  obtain b w where ap: "startAccessPoint (weRadio E) (webSsid st1) (webPassword st1) (wWorld st1) = (b, w)" by force
  have st1: "wJobs st1 = wJobs web" "wOutbox st1 = wOutbox web" "wWifi st1 = wWifi web" by (simp_all add: st1_def)
  show ?thesis
    using s st1 ap
    by (intro stores_ok_eq)
      (auto simp: startHotspot_def Let_def st1_def [symmetric] split: if_splits option.splits dest: NatBridge_enable_creds)
qed

lemma ui_enqueue_kept:
  assumes L: "napt_laws (weRadio E) (weSd E) napt" and st: "ui_inv Q napt st" and m: "uMode st \<noteq> WebUi"
    and e: "ui_enqueue E act now st = Some st'"
  shows "ui_inv Q napt st'"
proof (cases "selectedJobIndex st < 0")
  case True
  with e st show ?thesis by (simp add: ui_enqueue_def)
next
  case False
  from stores_ok_job_at [OF st] False obtain jobs job where
    j: "wJobs (uWeb st) = Some jobs" "job_at jobs (selectedJobIndex st) = Some job" by auto
  from st j obtain ob where ob: "wOutbox (uWeb st) = Some ob" "Q (jobs, ob)"
    by (auto simp: ui_inv_def stores_ok_def)
  define aid where "aid = fst (randomHex E kApprovalIdLen (uWeb st))"
  obtain r jobs' ob' where q: "enqueueApproval jobs ob (jobId job) act aid (to_u32 now) = (r, jobs', ob')"
    by (cases "enqueueApproval jobs ob (jobId job) act aid (to_u32 now)") auto
  with Q_enqueue [OF ob(2), of "jobId job" act aid "to_u32 now"] have inv: "Q (jobs', ob')" by simp
  have rh: "randomHex E kApprovalIdLen (uWeb st) = (aid, (uWeb st)\<lparr>rngPos := rngPos (uWeb st) + kApprovalIdLen\<rparr>)"
    by (simp add: aid_def randomHex_def random_chars_def)
  from e False j ob(1) q m have "st' = (let web = (uWeb st)\<lparr>rngPos := rngPos (uWeb st) + kApprovalIdLen, wJobs := Some jobs', wOutbox := Some ob'\<rparr>
      in if r \<noteq> Ok then st\<lparr>uWeb := web\<rparr>
         else st\<lparr>uWeb := web\<lparr>wWorld := snd (saveJobIndex (weSd E) (weJson E) (snd (saveApprovalOutbox (weSd E) (weJson E) (wWorld web) ob')) jobs')\<rparr>,
                uMode := Inbox\<rparr>)"
    by (simp add: ui_enqueue_def rh Let_def split: if_splits)
  with inv st m show ?thesis
    by (cases "r = Ok") (auto simp: Let_def ui_inv_defs stores_ok_def web_radio_inv_def nat_inv_def napt_saves [OF L])
qed

lemma web_choice_row_kept:
  assumes L: "napt_laws (weRadio E) (weSd E) napt" and st: "ui_inv Q napt st" and m: "uMode st \<noteq> WebUi"
    and e: "web_choice_row E v st = Some st'"
  shows "ui_inv Q napt st'"
proof -
  from st have radio: "web_radio_inv napt (uWeb st)" by (simp add: ui_inv_def)
  consider (station) up web where "startStation E kStationTimeoutMs (uWeb st) = Some (up, web)"
      "st' = (if up then st\<lparr>uWeb := web, uMode := WebUi\<rparr>
         else st\<lparr>uWeb := web, webUiStartError := Some ''No known Wi-Fi network in range''\<rparr>)"
    | (hotspot) up web where "startHotspot E (nat_bridge_on st) (uWeb st) = Some (up, web)"
      "st' = (if up then st\<lparr>uWeb := web, uMode := WebUi\<rparr>
         else st\<lparr>uWeb := web, webUiStartError := Some ''Could not start hotspot''\<rparr>)"
    | (other) "st' = st\<lparr>uMode := Inbox\<rparr>"
    using e by (auto simp: web_choice_row_def Let_def split: if_splits option.splits)
  then show ?thesis
  proof cases
    case station
    with startStation_inv [OF L radio station(1)] startStation_stores [OF station(1)] st m show ?thesis
      by (auto simp: ui_inv_defs)
  next
    case hotspot
    with startHotspot_inv [OF L radio hotspot(1)] startHotspot_stores [OF hotspot(1)] st m show ?thesis
      by (auto simp: ui_inv_defs)
  next
    case other
    with st m show ?thesis by (simp add: ui_inv_defs)
  qed
qed

lemma wifi_confirm_remove_kept:
  assumes L: "napt_laws (weRadio E) (weSd E) napt" and st: "ui_inv Q napt st"
    and e: "wifi_confirm_remove E st = Some st'"
  shows "ui_inv Q napt st'"
proof -
  have save: "napt w = napt (wWorld (uWeb st))" if "WifiStore_save (weSd E) (weJson E) (weB64 E) (weMac E) (wWorld (uWeb st)) store = Some (ok, w)"
    for store ok w
    using that napt_writeFileAtomic [OF L] by (auto simp: WifiStore_save_def split: option.splits)
  have inv: "wifi_inv (creds (wWifi (uWeb st)))" using st by (simp add: ui_inv_def stores_ok_def)
  then have "wifi_inv (snd (wifi_remove (creds (wWifi (uWeb st))) name))" for name by (rule wifi.rem_inv)
  with e st save show ?thesis
    by (auto simp: wifi_confirm_remove_def Let_def ui_inv_defs stores_ok_def web_radio_inv_def nat_inv_def
        split: if_splits option.splits)
qed

lemma page_steps_kept:
  assumes "ui_inv Q napt st"
  shows "ui_inv Q napt (next_page st)" "ui_inv Q napt (prev_page st)"
proof -
  have up: "p + 1 < n" if "unat p + 1 < unat n" for p n :: u16
    using that by (simp add: word_less_nat_alt unat_word_ariths)
  show "ui_inv Q napt (next_page st)"
    using assms up by (auto simp: next_page_def ui_inv_defs)
  have down: "p - 1 < n" if "p < n" "0 < p" for p n :: u16
    using that by (metis less_imp_diff_less unat_minus_one word_less_nat_alt word_not_simps(1))
  show "ui_inv Q napt (prev_page st)"
    using assms down by (auto simp: prev_page_def ui_inv_defs word_neq_0_conv)
qed

lemma ui_inv_mode: "ui_inv Q napt st \<Longrightarrow> uMode st \<noteq> WebUi \<Longrightarrow> m \<noteq> WebUi \<Longrightarrow> ui_inv Q napt (st\<lparr>uMode := m\<rparr>)"
  by (simp add: ui_inv_defs)

lemma ui_inv_remove_index: "ui_inv Q napt (st\<lparr>settingsWifiRemoveIndex := i\<rparr>) = ui_inv Q napt st"
  by (simp add: ui_inv_defs)

lemma inbox_handler_kept:
  assumes L: "napt_laws (weRadio E) (weSd E) napt" and st: "ui_inv Q napt st"
    and m: "uMode st = WebUi \<longrightarrow> a = ActionWebUiStop" and v: "a = ActionOpenJob \<longrightarrow> 0 \<le> v \<and> v < int kMaxInboxJobs"
    and h: "inbox_handler E a v now st = Some st'"
  shows "ui_inv Q napt st'"
proof (cases a)
  case ActionOpenJob
  with h v m st show ?thesis by (auto simp: inbox_handler_def open_job_def ui_inv_defs to_i16_small kMaxInboxJobs_def)
next
  case ActionNextPage
  with h page_steps_kept [OF st] show ?thesis by (simp add: inbox_handler_def)
next
  case ActionPrevPage
  with h page_steps_kept [OF st] show ?thesis by (simp add: inbox_handler_def)
next
  case ActionMenuRowSelect
  with h m st ui_enqueue_kept [OF L st] show ?thesis
    by (auto simp: inbox_handler_def menu_row_def ui_inv_defs split: if_splits)
next
  case ActionWebUiChoiceRowSelect
  with h m web_choice_row_kept [OF L st] show ?thesis by (simp add: inbox_handler_def)
next
  case ActionWebUiStop
  have "web_radio_inv napt (uWeb st)" using st by (simp add: ui_inv_def)
  from web_stop_off [OF L this] ActionWebUiStop h st show ?thesis
    by (auto simp: inbox_handler_def ui_inv_defs stores_ok_def web_radio_inv_def nat_inv_def)
next
  case ActionSettingsWifiRowSelect
  with h m st save_settings_kept [OF L st] show ?thesis
    by (auto simp: inbox_handler_def wifi_row_select_def ui_inv_remove_index split: option.splits if_splits)
next
  case ActionSettingsWifiConfirmRemove
  with h wifi_confirm_remove_kept [OF L st] show ?thesis by (simp add: inbox_handler_def)
next
  case ActionSettingsDisplayRowSelect
  with h st save_settings_kept [OF L st] show ?thesis by (auto simp: inbox_handler_def display_row_def split: option.splits)
next
  case ActionSettingsCalendarRowSelect
  with h st save_settings_kept [OF L st] show ?thesis
    by (auto simp: inbox_handler_def calendar_row_def split: option.splits if_splits)
qed (use h m st in \<open>auto simp: inbox_handler_def reader_back_def tab_move_def ui_inv_defs\<close>)

lemma ui_handler_kept:
  assumes L: "napt_laws (weRadio E) (weSd E) napt" and st: "ui_inv Q napt st"
    and m: "uMode st = WebUi \<longrightarrow> a = InboxAction ActionWebUiStop"
    and v: "a = InboxAction ActionOpenJob \<longrightarrow> 0 \<le> v \<and> v < int kMaxInboxJobs"
    and h: "ui_handler E a v now st = Some st'"
  shows "ui_inv Q napt st'"
proof (cases a)
  case (InboxAction b)
  with h m v show ?thesis by (intro inbox_handler_kept [OF L st]) (auto simp: ui_handler_def)
next
  case (PlannerAction b)
  with m have "uMode st \<noteq> WebUi" by auto
  with PlannerAction h st save_settings_kept [OF L st] show ?thesis
    by (cases b) (auto simp: ui_handler_def planner_handler_def toggle_orientation_def ui_inv_mode split: option.splits)
next
  case (PomodoroAction b)
  with m have "uMode st \<noteq> WebUi" by auto
  with PomodoroAction h st save_session_kept [OF L st] show ?thesis
    by (cases b) (auto simp: ui_handler_def pomodoro_handler_def ui_inv_mode split: option.splits)
qed

text \<open>No handler leaves an array or waits for ever: \<^verbatim>\<open>millis()\<close> reaches the radio's time-out.\<close>

lemma stores_ok_creds: "stores_ok Q web \<Longrightarrow> \<forall>c \<in> set (creds (wWifi web)). cred_ok c"
  by (auto simp: stores_ok_def wifi_inv_def list_all_iff)

lemma startStation_defined:
  assumes "stores_ok Q web" and "clock_passes (weRadio E) timeoutMs"
  shows "startStation E timeoutMs web \<noteq> None"
proof -
  have c: "connectWithMode (weRadio E) (weSd E) (weJson E) (weB64 E) (weMac E) WIFI_STA timeoutMs (wWifi web, w) \<noteq> None" for w
    by (rule connect_Some [OF stores_ok_creds [OF assms(1)] assms(2)])
  show ?thesis
    by (auto simp: startStation_def Let_def WifiManager_connect_def c split: option.split)
qed

lemma startHotspot_defined:
  assumes "stores_ok Q web" and "clock_passes (weRadio E) kNatTimeoutMs"
  shows "startHotspot E wanted web \<noteq> None"
proof -
  have c: "connectWithMode (weRadio E) (weSd E) (weJson E) (weB64 E) (weMac E) WIFI_AP_STA kNatTimeoutMs (wWifi web, w) \<noteq> None" for w
    by (rule connect_Some [OF stores_ok_creds [OF assms(1)] assms(2)])
  have "NatBridge_enable (weRadio E) (weSd E) (weJson E) (weB64 E) (weMac E) kNatTimeoutMs (nb, wWifi web, w) \<noteq> None" for nb w
    using c [of w] c [of "snd (NatBridge_disable (weRadio E) (nb, w))"]
    by (cases "natEnabled nb") (auto simp: NatBridge_enable_def connectKeepingAp_def Let_def split_def)
  then have n: "NatBridge_enable (weRadio E) (weSd E) (weJson E) (weB64 E) (weMac E) kNatTimeoutMs (nb, wWifi web, w) = None \<longleftrightarrow> False" for nb w
    by blast
  show ?thesis
    by (auto simp: startHotspot_def Let_def split_def n split: option.split)
qed

lemma ui_enqueue_defined:
  assumes "ui_inv Q napt st" shows "ui_enqueue E act now st \<noteq> None"
proof (cases "selectedJobIndex st < 0")
  case False
  with stores_ok_job_at [OF assms] obtain jobs job where
    j: "wJobs (uWeb st) = Some jobs" "job_at jobs (selectedJobIndex st) = Some job" by auto
  from assms j(1) obtain ob where "wOutbox (uWeb st) = Some ob" by (auto simp: ui_inv_def stores_ok_def)
  with j False show ?thesis by (simp add: ui_enqueue_def Let_def split_def)
qed (simp add: ui_enqueue_def)

lemma wifi_confirm_remove_defined:
  assumes "ui_inv Q napt st" shows "wifi_confirm_remove E st \<noteq> None"
proof -
  have inv: "wifi_inv (creds (wWifi (uWeb st)))" using assms by (simp add: ui_inv_def stores_ok_def)
  have s: "WifiStore_save (weSd E) (weJson E) (weB64 E) (weMac E) w
      ((wWifi (uWeb st))\<lparr>creds := snd (wifi_remove (creds (wWifi (uWeb st))) name)\<rparr>) \<noteq> None" for w name
    using wifi.rem_inv [OF inv, of name] by (intro WifiStore_save_Some) (simp add: wifi_inv_def list_all_iff)
  show ?thesis by (auto simp: wifi_confirm_remove_def Let_def s split: option.split)
qed

lemma ui_handler_defined:
  assumes st: "ui_inv Q napt st" and clock: "clock_passes (weRadio E) kStationTimeoutMs" "clock_passes (weRadio E) kNatTimeoutMs"
  shows "ui_handler E a v now st \<noteq> None"
proof -
  have s: "stores_ok Q (uWeb st)" using st by (simp add: ui_inv_def)
  have "menu_row E v now st \<noteq> None"
    using ui_enqueue_defined [OF st, of E] by (simp add: menu_row_def)
  moreover have "web_choice_row E v st \<noteq> None"
    by (auto simp: web_choice_row_def Let_def startStation_defined [OF s clock(1)] startHotspot_defined [OF s clock(2)]
        split: option.split)
  moreover note wifi_confirm_remove_defined [OF st, of E]
  ultimately have "inbox_handler E b v now st \<noteq> None" for b
    by (cases b) (simp_all add: inbox_handler_def)
  then show ?thesis by (cases a) (simp_all add: ui_handler_def)
qed

subsection \<open>Frames and presses\<close>

lemma ui_step_kept:
  assumes L: "napt_laws (weRadio E) (weSd E) napt" and F: "\<And>w. file_laws (weFiles E w)"
    and s: "ui_step E st st'" and st: "ui_inv Q napt st"
  shows "ui_inv Q napt st'"
  using s
proof (cases rule: ui_step.cases)
  case (Redraw fe sc)
  with screenRouter_kept(1) [OF st F] show ?thesis by blast
next
  case (Press fe sc st1 a v now)
  note kept = screenRouter_kept [OF st F Press(1)]
  have fe: "frame_ok fe" using Press by (simp add: frame_ok_def)
  show ?thesis
  proof (rule ui_handler_kept [OF L kept(1) _ _ Press(5)])
    show "uMode st1 = WebUi \<longrightarrow> a = InboxAction ActionWebUiStop"
      using kept(2) screenRouter_offers_stop [OF _ Press(1) Press(4)] by (auto split: if_splits)
    show "a = InboxAction ActionOpenJob \<longrightarrow> 0 \<le> v \<and> v < int kMaxInboxJobs"
      using screenRouter_offers_job [OF st F Press(1) _ fe] Press(4) by auto
  qed
qed

lemma ui_run_kept:
  assumes L: "napt_laws (weRadio E) (weSd E) napt" and F: "\<And>w. file_laws (weFiles E w)"
    and s: "(ui_step E)\<^sup>*\<^sup>* st st'" and st: "ui_inv Q napt st"
  shows "ui_inv Q napt st'"
  using s st by (induction rule: rtranclp_induct) (auto intro: ui_step_kept [OF L F])

text \<open>The next frame can be drawn unless the list of documents leaves its buffers.\<close>

lemma screenRouter_draws:
  assumes st: "ui_inv Q napt st" and F: "\<And>w. file_laws (weFiles E w)"
    and fits: "uMode st \<in> {Inbox, Status} \<longrightarrow> (\<forall>jobs. wJobs (uWeb st) = Some jobs \<longrightarrow> length (inbox_rows jobs) \<le> kMaxInboxJobs + 1)"
  shows "\<exists>sc st'. screenRouter E fe st = Some (sc, st')"
proof -
  from st obtain jobs where jobs: "wJobs (uWeb st) = Some jobs" by (auto simp: ui_inv_def stores_ok_def)
  with st have len: "length jobs \<le> kMaxInboxJobs" by (auto simp: ui_inv_def dest: stores_ok_jobs)
  have home: "\<exists>sc st'. homeScreen st = Some (sc, st')" if "length (inbox_rows jobs) \<le> kMaxInboxJobs + 1"
    using that len
    by (simp add: homeScreen_def jobs buildInboxListItems_spec kMaxInboxJobs_def Let_def split: prod.splits)
  show ?thesis
  proof (cases "uMode st")
    case Reader
    from readerScreen_kept [OF st Reader F, where fv = 0] Reader show ?thesis by (auto simp: screenRouter_def)
  next
    case ActionMenu
    with stores_ok_job_at [OF st] show ?thesis
      by (cases "selectedJobIndex st < 0") (auto simp: screenRouter_def actionMenuScreen_def Let_def)
  next
    case Inbox
    with home fits jobs show ?thesis by (simp add: screenRouter_def)
  next
    case Status
    with home fits jobs show ?thesis by (simp add: screenRouter_def)
  qed (auto simp: screenRouter_def intro: prod.exhaust)
qed

end

text \<open>
  The two contracts the model has: the full invariant of the outbox, and the part of it that also survives a sync pass and
  uploads, which can make a job new again whose approval is pending.
\<close>

definition queue_inv :: "JobIndex \<times> ApprovalOutboxIndex \<Rightarrow> bool" where
  "queue_inv st \<longleftrightarrow> (case st of (jobs, ob) \<Rightarrow>
     JobIndex_inv jobs \<and> length ob \<le> kMaxOutboxEntries \<and> distinct (pendingJobs ob))"

lemma queue_inv_enqueue:
  assumes "queue_inv (jobs, ob)" shows "queue_inv (snd (enqueueApproval jobs ob jid act aid t))"
proof (cases rule: enqueueApproval_cases [of jobs jid ob act aid t])
  case (queued j)
  then show ?thesis
    using assms by (simp add: queue_inv_def JobIndex_inv_setStatus hasPending_pendingJobs) (simp add: pendingJobs_def)
qed (use assms in simp_all)

lemma outbox_inv_queue: "outbox_inv st \<Longrightarrow> queue_inv st"
  by (cases st) (simp add: outbox_inv_def queue_inv_def)

interpretation ui_outbox: approval_queue outbox_inv
  by (unfold_locales, simp add: outbox_inv_def, rule outbox_inv_enqueue)

interpretation ui_queue: approval_queue queue_inv
  by (unfold_locales, simp add: queue_inv_def, rule queue_inv_enqueue)

end
