(* ===== verification/Sync_Trace.thy ===== *)
theory Sync_Trace
  imports Sync_Manager
begin

text \<open>
  What a sync pass (\<^verbatim>\<open>Sync_Manager\<close>) does to the outside, as a log: \<open>log_client\<close> is an arbitrary
  client whose every call is also recorded, newest first, with its answer. The rules of the
  protocol are a predicate on one event and the log before it; \<open>obeys\<close> asks it of every event.
\<close>

section \<open>Recording a client\<close>

datatype sync_event =
    EConnect bool
  | EStatus Endpoint bool
  | EFetch
  | EDownload string string "string option" bool
  | EAck string string "string option" bool
  | EUpload string bool
  | ESubmit ApprovalEntry Endpoint ApprovalSubmitResult
  | EConfig
  | EClock
  | ECalendars "CalendarFeed list"
  | EDisconnect

definition logged :: "('a \<Rightarrow> sync_event) \<Rightarrow> ('w \<Rightarrow> 'a \<times> 'w) \<Rightarrow> 'w \<times> sync_event list \<Rightarrow> 'a \<times> 'w \<times> sync_event list" where
  "logged ev f wl = (case wl of (w, log) \<Rightarrow> let (a, w') = f w in (a, w', ev a # log))"

definition log_client :: "'w sync_client \<Rightarrow> ('w \<times> sync_event list) sync_client" where
  "log_client cl = \<lparr>
     cl_status = (\<lambda>ep. logged (EStatus ep) (cl_status cl ep)),
     cl_fetch = (\<lambda>n. logged (\<lambda>_. EFetch) (cl_fetch cl n)),
     cl_config = logged (\<lambda>_. EConfig) (cl_config cl),
     cl_download = (\<lambda>j p sha n v. logged (EDownload j sha v) (cl_download cl j p sha n v)),
     cl_ack = (\<lambda>j sha l. logged (EAck j sha l) (cl_ack cl j sha l)),
     cl_submit = (\<lambda>e ep. logged (ESubmit e ep) (cl_submit cl e ep)),
     cl_upload = (\<lambda>j p m t n. logged (EUpload j) (cl_upload cl j p m t n))\<rparr>"

definition log_env :: "'w sync_env \<Rightarrow> ('w \<times> sync_event list) sync_env" where
  "log_env env = \<lparr>
     env_connect = (\<lambda>(store, (w, log)). map_option (\<lambda>(up, store, w). (up, store, (w, EConnect up # log)))
       (env_connect env (store, w))),
     env_disconnect = (\<lambda>(w, log). (env_disconnect env w, EDisconnect # log)),
     env_syncClock = (\<lambda>(w, log). map_option (\<lambda>w. (w, EClock # log)) (env_syncClock env w)),
     env_syncCalendars = (\<lambda>fs (cache, (w, log)). map_option (\<lambda>(cache, w). (cache, (w, ECalendars fs # log)))
       (env_syncCalendars env fs (cache, w)))\<rparr>"

lemma logged_snd [simp]: "snd (snd (logged ev f wl)) = ev (fst (logged ev f wl)) # snd wl"
  by (simp add: logged_def split: prod.splits)

lemma logged_eqD: "logged ev f wl = (a, wl') \<Longrightarrow> snd wl' = ev a # snd wl"
  by (auto simp: logged_def split: prod.splits)

text \<open>Nothing the firmware does on the card is in the log.\<close>

lemma writeFileAtomic_log [simp]: "snd (snd (writeFileAtomic (sd_with sd) wl p c)) = snd wl"
proof -
  obtain a wl1 where w: "sd_write (sd_with sd) wl (tmp_path p) c = (a, wl1)" by (rule prod.exhaust)
  obtain g wl2 where g: "(if sd_exists (sd_with sd) wl1 p then sd_remove (sd_with sd) wl1 p else (True, wl1)) = (g, wl2)"
    by (rule prod.exhaust)
  obtain r wl3 where m: "sd_rename (sd_with sd) wl2 (tmp_path p) p = (r, wl3)" by (rule prod.exhaust)
  have "snd wl1 = snd wl" "snd wl3 = snd wl2" using w m by (simp_all add: sd_with_eqD)
  moreover have "snd wl2 = snd wl1" using g sd_with_eqD(2) [of sd wl1 p] by (auto split: if_splits)
  ultimately show ?thesis by (simp add: writeFileAtomic_def w g m)
qed

lemma save_log [simp]:
  "snd (snd (saveJobIndex (sd_with sd) J wl jobs)) = snd wl"
  "snd (snd (saveApprovalOutbox (sd_with sd) J wl ob)) = snd wl"
  "snd (snd (CalendarConfig_save (sd_with sd) J wl fs)) = snd wl"
  by (simp_all add: saveJobIndex_def saveApprovalOutbox_def CalendarConfig_save_def)

lemma WifiStore_save_log: "WifiStore_save (sd_with sd) J B mac wl st = Some (b, wl') \<Longrightarrow> snd wl' = snd wl"
  by (auto simp: WifiStore_save_def split: option.splits dest: arg_cong [where f = "\<lambda>x. snd (snd x)"])

section \<open>The rules\<close>

text \<open>
  \<open>handed k log\<close>: the server has the document of job \<open>k\<close>, because it took the upload of its
  original or because it offered the job itself and took the acknowledgement.
\<close>

definition handed :: "string \<Rightarrow> sync_event list \<Rightarrow> bool" where
  "handed k log \<longleftrightarrow>
     (\<exists>j. take 32 j = k \<and> EUpload j True \<in> set log) \<or>
     (\<exists>j sha l. take 32 j = k \<and> EAck j sha l True \<in> set log)"

fun permitted :: "bool \<Rightarrow> string set \<Rightarrow> sync_event list \<Rightarrow> sync_event \<Rightarrow> bool" where
  "permitted relay pend log (EConnect b) = (log = [])"
| "permitted relay pend log (EAck j sha l b) =
     (EDownload j sha None True \<in> set log \<and>
      (\<forall>s. l = Some s \<longrightarrow> EDownload j s (Some ''landscape'') True \<in> set log))"
| "permitted relay pend log (EUpload j b) = (EStatus Pi True \<in> set log)"
| "permitted relay pend log (ESubmit e ep r) =
     (\<not> synced e \<and> EStatus ep True \<in> set log \<and>
      (ep = Relay \<longrightarrow> relay \<and> EStatus Pi False \<in> set log) \<and>
      (take 32 (apJobId e) \<in> pend \<longrightarrow> handed (take 32 (apJobId e)) log))"
| "permitted relay pend log (EStatus ep b) = (ep = Relay \<longrightarrow> relay \<and> EStatus Pi False \<in> set log)"
| "permitted relay pend log (ECalendars fs) = (EConfig \<in> set log \<and> EClock \<in> set log \<and> length fs \<le> 4)"
| "permitted relay pend log _ = True"

text \<open>Nothing is called before the connection is up or after it is closed.\<close>

definition allowed :: "bool \<Rightarrow> string set \<Rightarrow> sync_event list \<Rightarrow> sync_event \<Rightarrow> bool" where
  "allowed relay pend log ev \<longleftrightarrow>
     permitted relay pend log ev \<and>
     (log \<noteq> [] \<longrightarrow> EConnect True \<in> set log \<and> EDisconnect \<notin> set log)"

fun obeys :: "bool \<Rightarrow> string set \<Rightarrow> sync_event list \<Rightarrow> bool" where
  "obeys relay pend [] = True"
| "obeys relay pend (ev # log) = (allowed relay pend log ev \<and> obeys relay pend log)"

text \<open>The job ids, as the index compares them, whose original image the server does not have yet.\<close>

definition pendingOriginals :: "JobIndex \<Rightarrow> string set" where
  "pendingOriginals jobs = {k. \<exists>e \<in> set jobs. originalPending e \<and> take 32 (jobId e) = k}"

definition online :: "sync_event list \<Rightarrow> bool" where
  "online log \<longleftrightarrow> EConnect True \<in> set log \<and> EDisconnect \<notin> set log"

definition sync_inv :: "bool \<Rightarrow> string set \<Rightarrow> JobIndex \<Rightarrow> sync_event list \<Rightarrow> bool" where
  "sync_inv relay pend jobs log \<longleftrightarrow>
     obeys relay pend log \<and> online log \<and> JobIndex_inv jobs \<and>
     (\<forall>k \<in> pend. k \<in> pendingOriginals jobs \<or> handed k log)"

lemma handed_mono: "handed k log \<Longrightarrow> handed k (ev # log)"
  by (auto simp: handed_def)

lemma sync_inv_event:
  "sync_inv relay pend jobs log \<Longrightarrow> permitted relay pend log ev \<Longrightarrow> ev \<noteq> EDisconnect \<Longrightarrow>
     sync_inv relay pend jobs (ev # log)"
  by (auto simp: sync_inv_def allowed_def online_def handed_mono)

section \<open>Each part of the pass obeys the rules\<close>

lemma pendingOriginals_upsert:
  assumes "JobIndex_inv jobs" and "k \<in> pendingOriginals jobs" and "k \<noteq> take 32 (jobId e)"
  shows "k \<in> pendingOriginals (snd (JobIndex_upsert jobs e))"
proof -
  from assms(2) obtain i where i: "i < length jobs" "originalPending (jobs ! i)" "take 32 (jobId (jobs ! i)) = k"
    by (auto simp: pendingOriginals_def in_set_conv_nth)
  show ?thesis
  proof (cases "JobIndex_find jobs (jobId e)")
    case None
    with i show ?thesis by (auto simp: pendingOriginals_def JobIndex_upsert_def)
  next
    case (Some m)
    then have "m \<noteq> i" using JobIndex_find_SomeD [OF Some] i assms(3) by (auto simp: kJobIdLen_def)
    then have "jobs ! i \<in> set (jobs[m := e])"
      using i(1) by (metis length_list_update nth_list_update_neq nth_mem)
    with Some i show ?thesis by (auto simp: pendingOriginals_def JobIndex_upsert_def)
  qed
qed

lemma sync_inv_upsert:
  assumes inv: "sync_inv relay pend jobs log" and h: "handed (take 32 (jobId e)) log"
  shows "sync_inv relay pend (snd (JobIndex_upsert jobs e)) log"
  using inv h pendingOriginals_upsert [of jobs _ e] JobIndex_inv_upsert [of jobs e]
  by (auto simp: sync_inv_def)

lemma jobId_entry_of_manifest: "jobId (entry_of_manifest m) = take 32 (mJobId m)"
  by (simp add: entry_of_manifest_def Let_def kJobIdLen_def strncpy_def)

lemma log_client_eqD:
  "cl_status (log_client cl) ep wl = (b, wl') \<Longrightarrow> snd wl' = EStatus ep b # snd wl"
  "cl_fetch (log_client cl) n wl = (ms, wl') \<Longrightarrow> snd wl' = EFetch # snd wl"
  "cl_config (log_client cl) wl = (dc, wl') \<Longrightarrow> snd wl' = EConfig # snd wl"
  "cl_download (log_client cl) j p sha sz v wl = (b, wl') \<Longrightarrow> snd wl' = EDownload j sha v b # snd wl"
  "cl_ack (log_client cl) j sha l wl = (b, wl') \<Longrightarrow> snd wl' = EAck j sha l b # snd wl"
  "cl_submit (log_client cl) e ep wl = (r, wl') \<Longrightarrow> snd wl' = ESubmit e ep r # snd wl"
  "cl_upload (log_client cl) j p mime ttl sz wl = (b, wl') \<Longrightarrow> snd wl' = EUpload j b # snd wl"
  by (auto simp: log_client_def dest: logged_eqD)

lemma download_one_inv:
  assumes inv: "sync_inv relay pend jobs (snd wl)"
    and run: "download_one (sd_with sd) J (log_client cl) m (jobs, summary, wl) = (jobs', summary', wl')"
  shows "sync_inv relay pend jobs' (snd wl')"
proof (cases "JobIndex_full jobs \<and> JobIndex_find jobs (mJobId m) = None")
  case True
  with inv run show ?thesis by (simp add: download_one_def)
next
  case False
  let ?j = "mJobId m" and ?l = "mLandscapeXtcSha256 m"
  obtain ok wl1 where d: "cl_download (log_client cl) ?j (''/inbox/'' @ ?j @ ''.xtc'') (mXtcSha256 m) (mXtcBytes m) None wl = (ok, wl1)"
    by (rule prod.exhaust)
  note l1 = log_client_eqD(4) [OF d]
  have i1: "sync_inv relay pend jobs (snd wl1)" using inv by (simp add: l1 sync_inv_event)
  show ?thesis
  proof (cases ok)
    case False
    with \<open>\<not> (_ \<and> _)\<close> run d i1 show ?thesis by (auto simp: download_one_def Let_def)
  next
    case okT: True
    obtain lok wl2 where d2: "(if ?l \<noteq> [] then cl_download (log_client cl) ?j (''/inbox/'' @ ?j @ ''_l.xtc'') ?l
        (mLandscapeXtcBytes m) (Some ''landscape'') wl1 else (True, wl1)) = (lok, wl2)" by (rule prod.exhaust)
    have l2: "snd wl2 = (if ?l \<noteq> [] then EDownload ?j ?l (Some ''landscape'') lok # snd wl1 else snd wl1)"
      using d2 by (auto split: if_splits dest: log_client_eqD)
    have i2: "sync_inv relay pend jobs (snd wl2)" using i1 by (simp add: l2 sync_inv_event)
    show ?thesis
    proof (cases lok)
      case False
      with \<open>\<not> (_ \<and> _)\<close> okT run d d2 i2 show ?thesis by (auto simp: download_one_def Let_def split: if_splits)
    next
      case True
      let ?ls = "if ?l \<noteq> [] then Some ?l else None"
      obtain a wl3 where ak: "cl_ack (log_client cl) ?j (mXtcSha256 m) ?ls wl2 = (a, wl3)" by (rule prod.exhaust)
      note l3 = log_client_eqD(5) [OF ak]
      have "permitted relay pend (snd wl2) (EAck ?j (mXtcSha256 m) ?ls a)"
        using okT True by (simp add: l1 l2)
      then have i3: "sync_inv relay pend jobs (snd wl3)" unfolding l3 by (rule sync_inv_event [OF i2]) simp
      have st: "(jobs', snd wl') = (if a then (snd (JobIndex_upsert jobs (entry_of_manifest m)), snd wl3)
          else (jobs, snd wl3))"
        using run \<open>\<not> (_ \<and> _)\<close> okT True d d2 ak
          save_log(1) [of sd J wl3 "snd (JobIndex_upsert jobs (entry_of_manifest m))"]
        by (cases "JobIndex_upsert jobs (entry_of_manifest m)")
          (auto simp: download_one_def Let_def split: if_splits option.splits)
      have "a \<Longrightarrow> handed (take 32 (jobId (entry_of_manifest m))) (snd wl3)"
        by (auto simp: handed_def jobId_entry_of_manifest l3)
      with st i3 show ?thesis by (auto intro: sync_inv_upsert split: if_splits)
    qed
  qed
qed

lemma download_fold_inv:
  "sync_inv relay pend jobs (snd wl) \<Longrightarrow>
   fold (download_one (sd_with sd) J (log_client cl)) ms (jobs, summary, wl) = (jobs', summary', wl') \<Longrightarrow>
   sync_inv relay pend jobs' (snd wl')"
proof (induction ms arbitrary: jobs summary wl)
  case (Cons m ms)
  obtain jobs1 summary1 wl1 where
    one: "download_one (sd_with sd) J (log_client cl) m (jobs, summary, wl) = (jobs1, summary1, wl1)"
    by (rule prod_cases3)
  show ?case
    by (rule Cons.IH [OF download_one_inv [OF Cons.prems(1) one]]) (use Cons.prems(2) one in simp)
qed simp

lemma downloadPendingJobs_inv:
  assumes "sync_inv relay pend jobs (snd wl)"
    and run: "downloadPendingJobs (sd_with sd) J (log_client cl) (jobs, summary, wl) = (jobs', summary', wl')"
  shows "sync_inv relay pend jobs' (snd wl')"
proof -
  obtain ms wl1 where f: "cl_fetch (log_client cl) kSyncBatchSize wl = (ms, wl1)" by (rule prod.exhaust)
  have "sync_inv relay pend jobs (snd wl1)"
    using assms(1) by (simp add: log_client_eqD(2) [OF f] sync_inv_event)
  with run f show ?thesis
    by (auto simp: downloadPendingJobs_def split: option.splits intro: download_fold_inv)
qed

text \<open>After the upload of an original only that job stops waiting.\<close>

lemma sync_inv_clear_original:
  assumes inv: "sync_inv relay pend jobs log" and f: "JobIndex_find jobs jid = Some i"
    and h: "handed (take 32 jid) log" and e: "jobId e = jobId (jobs ! i)"
  shows "sync_inv relay pend (jobs[i := e]) log"
proof -
  note i = JobIndex_find_SomeD [OF f]
  have "k \<in> pendingOriginals (jobs[i := e])" if k: "k \<in> pendingOriginals jobs" "k \<noteq> take 32 jid" for k
  proof -
    from k(1) obtain n where n: "n < length jobs" "originalPending (jobs ! n)" "take 32 (jobId (jobs ! n)) = k"
      by (auto simp: pendingOriginals_def in_set_conv_nth)
    with i k(2) have "n \<noteq> i" by (auto simp: kJobIdLen_def)
    then have "jobs ! n \<in> set (jobs[i := e])"
      using n(1) by (metis length_list_update nth_list_update_neq nth_mem)
    with n show ?thesis by (auto simp: pendingOriginals_def)
  qed
  with inv h JobIndex_inv_update [of jobs e i] e show ?thesis by (auto simp: sync_inv_def)
qed

lemma upload_loop_inv:
  "sync_inv relay pend jobs (snd wl) \<Longrightarrow> EStatus Pi True \<in> set (snd wl) \<Longrightarrow>
   upload_loop (sd_with sd) (log_client cl) ixs changed (jobs, summary, wl) = (changed', jobs', summary', wl') \<Longrightarrow>
   sync_inv relay pend jobs' (snd wl')"
proof (induction ixs arbitrary: changed jobs summary wl)
  case (Cons i ixs)
  let ?s = "jobs ! i" let ?j = "strncpy kJobIdLen (jobId ?s)" let ?p = "strncpy kPathLen (originalPath ?s)"
  obtain ok wl1 where u: "cl_upload (log_client cl) ?j ?p (strncpy 23 (originalMime ?s)) (strncpy kTitleLen (title ?s))
      (originalBytes ?s) wl = (ok, wl1)" by (rule prod.exhaust)
  note l1 = log_client_eqD(7) [OF u]
  have i1: "sync_inv relay pend jobs (snd wl1)" using Cons.prems(1,2) by (simp add: l1 sync_inv_event)
  have s1: "EStatus Pi True \<in> set (snd wl1)" using Cons.prems(2) by (simp add: l1)
  show ?case
  proof (cases "originalPending ?s \<and> ok")
    case False
    then show ?thesis
      using Cons.prems i1 s1 u by (auto simp: Let_def split: if_splits intro: Cons.IH)
  next
    case True
    define wl2 where "wl2 = snd (sd_remove (sd_with sd) wl1 ?p)"
    have l2: "snd wl2 = snd wl1" by (simp add: wl2_def)
    define jobs2 where "jobs2 = (case JobIndex_find jobs ?j of None \<Rightarrow> jobs
      | Some e \<Rightarrow> jobs[e := (jobs ! e)\<lparr>originalPending := False, originalPath := [], originalMime := [], originalBytes := 0\<rparr>])"
    have "handed (take 32 ?j) (snd wl2)" using True by (auto simp: handed_def l1 l2)
    then have i2: "sync_inv relay pend jobs2 (snd wl2)"
      using i1 by (auto simp: jobs2_def l2 split: option.split intro: sync_inv_clear_original)
    have r: "upload_loop (sd_with sd) (log_client cl) ixs True
        (jobs2, summary\<lparr>originalsUploaded := originalsUploaded summary + 1\<rparr>, wl2) = (changed', jobs', summary', wl')"
      using Cons.prems(3) True u by (simp add: Let_def wl2_def jobs2_def)
    show ?thesis by (rule Cons.IH [OF _ _ r]) (use i2 s1 l2 in simp_all)
  qed
qed simp

lemma uploadPendingOriginals_inv:
  assumes "sync_inv relay pend jobs (snd wl)"
    and run: "uploadPendingOriginals (sd_with sd) J (log_client cl) (jobs, summary, wl) = (jobs', summary', wl')"
  shows "sync_inv relay pend jobs' (snd wl')"
proof -
  obtain ok wl1 where s: "cl_status (log_client cl) Pi wl = (ok, wl1)" by (rule prod.exhaust)
  note l1 = log_client_eqD(1) [OF s]
  have i1: "sync_inv relay pend jobs (snd wl1)" using assms(1) by (simp add: l1 sync_inv_event)
  obtain ch jobs2 summary2 wl2 where
    u: "upload_loop (sd_with sd) (log_client cl) [0..<length jobs] False (jobs, summary, wl1) = (ch, jobs2, summary2, wl2)"
    by (rule prod_cases4)
  have "ok \<Longrightarrow> sync_inv relay pend jobs2 (snd wl2)"
    by (rule upload_loop_inv [OF i1 _ u]) (simp add: l1)
  with run s u i1 show ?thesis
    by (auto simp: uploadPendingOriginals_def split: if_splits)
qed

lemma pendingOriginals_find:
  assumes inv: "JobIndex_inv jobs" and k: "take 32 jid \<in> pendingOriginals jobs"
  shows "\<exists>i. JobIndex_find jobs jid = Some i \<and> originalPending (jobs ! i)"
proof -
  from k obtain n where n: "n < length jobs" "originalPending (jobs ! n)" "take 32 (jobId (jobs ! n)) = take 32 jid"
    by (auto simp: pendingOriginals_def in_set_conv_nth)
  then have "JobIndex_find jobs jid = Some n"
    unfolding JobIndex_find_ix ix_pos_Some [OF JobIndex_distinct [OF inv]] by (simp add: kJobIdLen_def)
  with n(2) show ?thesis by blast
qed

definition awaits_original :: "JobIndex \<Rightarrow> ApprovalEntry \<Rightarrow> bool" where
  "awaits_original jobs e \<longleftrightarrow>
     (case JobIndex_find jobs (apJobId e) of None \<Rightarrow> False | Some job \<Rightarrow> originalPending (jobs ! job))"

lemma submit_permitted:
  assumes inv: "sync_inv relay pend jobs log" and "\<not> synced e" "\<not> awaits_original jobs e" "EStatus ep True \<in> set log"
    and "ep = Relay \<Longrightarrow> relay \<and> EStatus Pi False \<in> set log"
  shows "permitted relay pend log (ESubmit e ep r)"
  using assms pendingOriginals_find [of jobs "apJobId e"]
  by (auto simp: sync_inv_def awaits_original_def split: option.splits)

lemma drain_loop_inv:
  "sync_inv relay pend jobs (snd wl) \<Longrightarrow> EStatus ep True \<in> set (snd wl) \<Longrightarrow>
   (ep = Relay \<longrightarrow> relay \<and> EStatus Pi False \<in> set (snd wl)) \<Longrightarrow>
   drain_loop (log_client cl) jobs ep ixs changed (ob, summary, wl) = (changed', ob', summary', wl') \<Longrightarrow>
   sync_inv relay pend jobs (snd wl')"
proof (induction ixs arbitrary: changed ob summary wl)
  case (Cons i ixs)
  let ?e = "ob ! i"
  obtain r wl1 where c: "cl_submit (log_client cl) ?e ep wl = (r, wl1)" by (rule prod.exhaust)
  note l1 = log_client_eqD(6) [OF c]
  show ?case
  proof (cases "synced ?e \<or> awaits_original jobs ?e")
    case True
    then have "drain_loop (log_client cl) jobs ep ixs changed (ob, summary, wl) = (changed', ob', summary', wl')"
      using Cons.prems(4) by (auto simp: awaits_original_def Let_def split: if_splits)
    with Cons.prems(1-3) show ?thesis by (rule Cons.IH)
  next
    case False
    have p: "permitted relay pend (snd wl) (ESubmit ?e ep r)"
      by (rule submit_permitted [OF Cons.prems(1)]) (use False Cons.prems(2,3) in simp_all)
    have i1: "sync_inv relay pend jobs (snd wl1)"
      unfolding l1 by (rule sync_inv_event [OF Cons.prems(1) p]) simp
    have s1: "EStatus ep True \<in> set (snd wl1)" "ep = Relay \<longrightarrow> relay \<and> EStatus Pi False \<in> set (snd wl1)"
      using Cons.prems(2,3) by (simp_all add: l1)
    obtain changed2 ob2 summary2 where
      "drain_loop (log_client cl) jobs ep ixs changed2 (ob2, summary2, wl1) = (changed', ob', summary', wl')"
      using Cons.prems(4) False c by (auto simp: awaits_original_def Let_def split: if_splits)
    with i1 s1 show ?thesis by (rule Cons.IH)
  qed
qed simp

lemma drainApprovalOutbox_inv:
  assumes inv: "sync_inv (hasRelay cfg) pend jobs (snd wl)"
    and run: "drainApprovalOutbox (sd_with sd) J (log_client cl) cfg jobs (ob, summary, wl) = (ob', summary', wl')"
  shows "sync_inv (hasRelay cfg) pend jobs (snd wl')"
proof -
  obtain pi wl1 where s: "cl_status (log_client cl) Pi wl = (pi, wl1)" by (rule prod.exhaust)
  note l1 = log_client_eqD(1) [OF s]
  have i1: "sync_inv (hasRelay cfg) pend jobs (snd wl1)" using inv by (simp add: l1 sync_inv_event)
  obtain rl wl2 where q: "(if \<not> pi \<and> hasRelay cfg then cl_status (log_client cl) Relay wl1 else (False, wl1)) = (rl, wl2)"
    by (rule prod.exhaust)
  have l2: "snd wl2 = (if \<not> pi \<and> hasRelay cfg then EStatus Relay rl # snd wl1 else snd wl1)"
    "rl \<Longrightarrow> \<not> pi \<and> hasRelay cfg"
    using q by (auto split: if_splits dest: log_client_eqD)
  have i2: "sync_inv (hasRelay cfg) pend jobs (snd wl2)"
    using i1 by (auto simp: l2(1) l1 intro: sync_inv_event)
  define ep where "ep = (if pi then Pi else Relay)"
  obtain ch ob2 summary2 wl3 where
    d: "drain_loop (log_client cl) jobs ep [0..<length ob] False (ob, summary, wl2) = (ch, ob2, summary2, wl3)"
    by (rule prod_cases4)
  have i3: "sync_inv (hasRelay cfg) pend jobs (snd wl3)" if "pi \<or> rl"
    by (rule drain_loop_inv [OF i2 _ _ d]) (use that l2 in \<open>auto simp: ep_def l1\<close>)
  have "snd wl' = (if ob = [] then snd wl else if pi \<or> rl then snd wl3 else snd wl2)"
  proof (cases "ob = [] \<or> \<not> (pi \<or> rl)")
    case True
    with run s q show ?thesis by (auto simp: drainApprovalOutbox_def)
  next
    case False
    then have "wl' = (if ch then snd (saveApprovalOutbox (sd_with sd) J wl3 (snd (compactSynced ob2))) else wl3)"
      using run s q d by (auto simp: drainApprovalOutbox_def Let_def ep_def split: if_splits)
    with False show ?thesis by simp
  qed
  with inv i2 i3 show ?thesis by (auto split: if_splits)
qed

lemma syncDeviceConfig_log:
  assumes "syncDeviceConfig (sd_with sd) J B mac (log_client cl) (feeds, wifi, wl) = Some (feeds', wifi', wl')"
  shows "snd wl' = EConfig # snd wl"
proof -
  obtain r wl1 where c: "cl_config (log_client cl) wl = (r, wl1)" by (rule prod.exhaust)
  have "snd wl' = snd wl1"
    using assms c by (auto simp: syncDeviceConfig_def Let_def split: option.splits if_splits dest: WifiStore_save_log)
  then show ?thesis by (simp add: log_client_eqD(3) [OF c])
qed

lemma syncDeviceConfig_feeds:
  assumes "syncDeviceConfig sd J B mac cl (feeds, wifi, w) = Some (feeds', wifi', w')" and "length feeds \<le> kMaxCalendars"
  shows "length feeds' \<le> kMaxCalendars"
  using assms by (auto simp: syncDeviceConfig_def Let_def CalendarConfig_replaceAll_take split: option.splits if_splits prod.splits)

lemma log_env_simps [simp]:
  "snd (env_disconnect (log_env env) wl) = EDisconnect # snd wl"
  by (simp_all add: log_env_def split: prod.splits)

lemma log_connect: "env_connect (log_env env) (store, wl) = Some (b, store', wl') \<Longrightarrow> snd wl' = EConnect b # snd wl"
  by (auto simp: log_env_def split: prod.splits)

lemma log_clock: "env_syncClock (log_env env) wl = Some wl' \<Longrightarrow> snd wl' = EClock # snd wl"
  by (auto simp: log_env_def split: prod.splits)

lemma log_calendars: "env_syncCalendars (log_env env) fs (cache, wl) = Some (cache', wl') \<Longrightarrow> snd wl' = ECalendars fs # snd wl"
  by (auto simp: log_env_def split: prod.splits)

lemma sync_inv_start:
  "JobIndex_inv jobs \<Longrightarrow> sync_inv relay (pendingOriginals jobs) jobs [EConnect True]"
  by (simp add: sync_inv_def online_def allowed_def)

text \<open>The tail of the pass, after the queues: configuration, clock, calendars, hanging up.\<close>

lemma obeys_close:
  assumes "sync_inv relay pend jobs log" and "length fs \<le> 4"
  shows "obeys relay pend (EDisconnect # ECalendars fs # EClock # EConfig # log)"
  using assms by (auto simp: sync_inv_def allowed_def online_def)

lemma runFullSync_trace:
  assumes inv: "JobIndex_inv (sJobs st)" and feeds: "length (sFeeds st) \<le> kMaxCalendars"
    and run: "runFullSync (sd_with sd) J B mac (log_env env) (log_client cl) cfg (st, (w, [])) = Some (summary, st', (w', log))"
  shows "obeys (hasRelay cfg) (pendingOriginals (sJobs st)) log \<and>
    (log = [] \<or> log = [EConnect False] \<or> hd log = EDisconnect) \<and> (\<not> loaded cfg \<longrightarrow> log = [] \<and> st' = st)"
proof (cases "loaded cfg")
  case False
  with run show ?thesis by (simp add: runFullSync_def)
next
  case True
  then obtain up store wl0 where c: "env_connect (log_env env) (sWifi st, (w, [])) = Some (up, store, wl0)"
    using run by (auto simp: runFullSync_def split: option.splits)
  note l0 = log_connect [OF c, simplified]
  show ?thesis
  proof (cases up)
    case False
    with run True c l0 show ?thesis by (auto simp: runFullSync_def allowed_def)
  next
    case upT: True
    let ?pend = "pendingOriginals (sJobs st)" let ?R = "hasRelay cfg"
    have i0: "sync_inv ?R ?pend (sJobs st) (snd wl0)" using l0 upT inv by (simp add: sync_inv_start)
    obtain jobs1 sum1 wl1 where d: "downloadPendingJobs (sd_with sd) J (log_client cl)
        (sJobs st, SyncSummary_init\<lparr>wifiConnected := True\<rparr>, wl0) = (jobs1, sum1, wl1)" by (rule prod_cases3)
    note i1 = downloadPendingJobs_inv [OF i0 d]
    obtain jobs2 sum2 wl2 where u: "uploadPendingOriginals (sd_with sd) J (log_client cl) (jobs1, sum1, wl1) = (jobs2, sum2, wl2)"
      by (rule prod_cases3)
    note i2 = uploadPendingOriginals_inv [OF i1 u]
    obtain ob3 sum3 wl3 where dr: "drainApprovalOutbox (sd_with sd) J (log_client cl) cfg jobs2 (sOutbox st, sum2, wl2)
        = (ob3, sum3, wl3)" by (rule prod_cases3)
    note i3 = drainApprovalOutbox_inv [OF i2 dr]
    obtain jobs4 sum4 wl4 where d2: "(if approvalsSynced sum3 > 0 then downloadPendingJobs (sd_with sd) J (log_client cl) (jobs2, sum3, wl3)
        else (jobs2, sum3, wl3)) = (jobs4, sum4, wl4)" by (rule prod_cases3)
    have i4: "sync_inv ?R ?pend jobs4 (snd wl4)"
      using d2 i3 by (auto split: if_splits intro: downloadPendingJobs_inv)
    obtain fs wf wl5 wl5' cache wl6 where cf: "syncDeviceConfig (sd_with sd) J B mac (log_client cl) (sFeeds st, store, wl4) = Some (fs, wf, wl5)"
      and clock: "env_syncClock (log_env env) wl5 = Some wl5'"
      and cal: "env_syncCalendars (log_env env) fs (sCache st, wl5') = Some (cache, wl6)"
      and e: "(w', log) = env_disconnect (log_env env) wl6"
      using run True upT c d u dr d2 by (auto simp: runFullSync_def Let_def split: option.splits)
    have "log = EDisconnect # ECalendars fs # EClock # EConfig # snd wl4"
      using arg_cong [OF e, of snd] log_calendars [OF cal] log_clock [OF clock] syncDeviceConfig_log [OF cf] by simp
    moreover have "length fs \<le> 4" using syncDeviceConfig_feeds [OF cf feeds] by (simp add: kMaxCalendars_def)
    ultimately show ?thesis using obeys_close [OF i4] True by simp
  qed
qed

section \<open>Draining is a filter\<close>

text \<open>
  What is sent, as a walk over the entries: the in-place loop marks entries by id in the array it
  walks, and this list of answers is all that matters about it.
\<close>

fun drain_sends :: "'w sync_client \<Rightarrow> JobIndex \<Rightarrow> Endpoint \<Rightarrow> ApprovalEntry list \<Rightarrow> 'w \<Rightarrow>
    (ApprovalEntry \<times> ApprovalSubmitResult) list \<times> 'w" where
  "drain_sends cl jobs ep [] w = ([], w)"
| "drain_sends cl jobs ep (e # es) w =
     (if synced e \<or> awaits_original jobs e then drain_sends cl jobs ep es w else
      let (r, w) = cl_submit cl e ep w; (sent, w) = drain_sends cl jobs ep es w in ((e, r) # sent, w))"

definition answers :: "(ApprovalEntry \<times> ApprovalSubmitResult) list \<Rightarrow> ApprovalEntry set" where
  "answers sent = {e. \<exists>r. (e, r) \<in> set sent \<and> applied r}"

definition ack_entry :: "ApprovalEntry set \<Rightarrow> ApprovalEntry \<Rightarrow> ApprovalEntry" where
  "ack_entry A e = (if e \<in> A then e\<lparr>synced := True\<rparr> else e)"

definition outbox_ids :: "ApprovalOutboxIndex \<Rightarrow> string list" where
  "outbox_ids ob = map (\<lambda>e. take kApprovalIdLen (approvalId e)) ob"

lemma drain_sends_fst:
  "map fst (fst (drain_sends cl jobs ep es w)) = filter (\<lambda>e. \<not> synced e \<and> \<not> awaits_original jobs e) es"
  by (induction cl jobs ep es w rule: drain_sends.induct) (auto split: prod.splits)

lemma answers_subset: "answers (fst (drain_sends cl jobs ep es w)) \<subseteq> set es"
proof
  fix e assume "e \<in> answers (fst (drain_sends cl jobs ep es w))"
  then have "e \<in> set (map fst (fst (drain_sends cl jobs ep es w)))" by (force simp: answers_def)
  then show "e \<in> set es" unfolding drain_sends_fst by simp
qed

lemma markSynced_at:
  "distinct (outbox_ids ob) \<Longrightarrow> k < length ob \<Longrightarrow>
   snd (markSynced ob (approvalId (ob ! k))) = ob[k := (ob ! k)\<lparr>synced := True\<rparr>]"
proof (induction ob arbitrary: k)
  case (Cons e es)
  show ?case
  proof (cases k)
    case 0
    then show ?thesis by (simp add: approvalIdEquals_def strncmp_eq_0)
  next
    case (Suc m)
    have "take kApprovalIdLen (approvalId (es ! m)) \<in> set (outbox_ids es)"
      using Cons.prems(2) Suc by (simp add: outbox_ids_def)
    then have "\<not> approvalIdEquals e (approvalId (es ! m))"
      using Cons.prems(1) by (auto simp: approvalIdEquals_def strncmp_eq_0 outbox_ids_def)
    then show ?thesis using Cons.IH [of m] Cons.prems Suc
      by (cases "markSynced es (approvalId (es ! m))") (simp add: outbox_ids_def)
  qed
qed simp

lemma outbox_ids_mark: "k < length ob \<Longrightarrow> outbox_ids (ob[k := (ob ! k)\<lparr>synced := True\<rparr>]) = outbox_ids ob"
  by (auto intro!: nth_equalityI simp: outbox_ids_def nth_list_update)

lemma drop_notin:
  "distinct (outbox_ids ob) \<Longrightarrow> k < length ob \<Longrightarrow> ob ! k \<notin> set (drop (Suc k) ob)"
proof -
  assume "distinct (outbox_ids ob)" and k: "k < length ob"
  then have "distinct ob" by (simp add: outbox_ids_def distinct_map)
  with k show ?thesis by (metis Cons_nth_drop_Suc distinct.simps(2) distinct_drop)
qed

definition drain_summary :: "Endpoint \<Rightarrow> (ApprovalEntry \<times> ApprovalSubmitResult) list \<Rightarrow> SyncSummary \<Rightarrow> SyncSummary" where
  "drain_summary ep sent s = s\<lparr>
     approvalsSynced := approvalsSynced s + int (length (filter (\<lambda>(e, r). applied r) sent)),
     approvalsFailedSync := approvalsFailedSync s + int (length (filter (\<lambda>(e, r). \<not> applied r) sent)),
     usedRelay := (if \<exists>(e, r) \<in> set sent. applied r then ep = Relay else usedRelay s)\<rparr>"

lemma drain_summary_simps:
  "drain_summary ep [] s = s"
  "applied r \<Longrightarrow> drain_summary ep sent (s\<lparr>approvalsSynced := approvalsSynced s + 1, usedRelay := (ep = Relay)\<rparr>) =
     drain_summary ep ((e, r) # sent) s"
  "\<not> applied r \<Longrightarrow> drain_summary ep sent (s\<lparr>approvalsFailedSync := approvalsFailedSync s + 1\<rparr>) =
     drain_summary ep ((e, r) # sent) s"
  by (cases s; simp add: drain_summary_def)+

lemma answers_Cons: "answers ((e, r) # sent) = (if applied r then insert e (answers sent) else answers sent)"
  by (auto simp: answers_def)

lemma drain_loop_spec:
  assumes "k \<le> length ob" and "distinct (outbox_ids ob)" and "drain_sends cl jobs ep (drop k ob) w = (sent, w')"
  shows "drain_loop cl jobs ep [k..<length ob] changed (ob, s, w) =
    (changed \<or> answers sent \<noteq> {}, take k ob @ map (ack_entry (answers sent)) (drop k ob), drain_summary ep sent s, w')"
  using assms
proof (induction "length ob - k" arbitrary: k ob w sent changed s)
  case 0
  then have k: "k = length ob" by simp
  with 0 show ?case by (simp add: answers_def drain_summary_simps)
next
  case (Suc n)
  then have k: "k < length ob" by simp
  let ?e = "ob ! k"
  have up: "[k..<length ob] = k # [Suc k..<length ob]" using k by (rule upt_conv_Cons)
  have dr: "drop k ob = ?e # drop (Suc k) ob" using k by (simp add: Cons_nth_drop_Suc)
  have tk: "take (Suc k) ob = take k ob @ [?e]" using k by (rule take_Suc_snoc)
  have n: "n = length ob - Suc k" "Suc k \<le> length ob" using Suc.hyps(2) k by simp_all
  have ne: "?e \<notin> answers (fst (drain_sends cl jobs ep (drop (Suc k) ob) v))" for v
    using answers_subset [of cl jobs ep "drop (Suc k) ob" v] drop_notin [OF Suc.prems(2) k] by blast
  show ?case
  proof (cases "synced ?e \<or> awaits_original jobs ?e")
    case True
    then have s: "drain_sends cl jobs ep (drop (Suc k) ob) w = (sent, w')"
      using Suc.prems(3) by (simp add: dr)
    have "ack_entry (answers sent) ?e = ?e" using ne [of w] s by (simp add: ack_entry_def)
    moreover have "drain_loop cl jobs ep [k..<length ob] changed (ob, s, w)
        = drain_loop cl jobs ep [Suc k..<length ob] changed (ob, s, w)"
      using True by (auto simp: up awaits_original_def Let_def simp del: upt_Suc split: option.splits)
    ultimately show ?thesis
      using Suc.hyps(1) [OF n Suc.prems(2) s, of changed s] by (simp add: tk dr)
  next
    case False
    obtain r w1 where c: "cl_submit cl ?e ep w = (r, w1)" by (rule prod.exhaust)
    obtain sent1 where s: "drain_sends cl jobs ep (drop (Suc k) ob) w1 = (sent1, w')" and sent: "sent = (?e, r) # sent1"
      using Suc.prems(3) False c by (auto simp: dr split: prod.splits)
    have ne1: "?e \<notin> answers sent1" using ne [of w1] s by simp
    have g: "\<not> synced ?e" "\<not> (case JobIndex_find jobs (apJobId ?e) of None \<Rightarrow> False | Some job \<Rightarrow> originalPending (jobs ! job))"
      using False by (simp_all add: awaits_original_def)
    show ?thesis
    proof (cases "applied r")
      case False
      then have "drain_loop cl jobs ep [k..<length ob] changed (ob, s, w) =
          drain_loop cl jobs ep [Suc k..<length ob] changed (ob, s\<lparr>approvalsFailedSync := approvalsFailedSync s + 1\<rparr>, w1)"
        using g c by (simp add: up Let_def del: upt_Suc)
      moreover have "ack_entry (answers sent1) ?e = ?e" using ne1 by (simp add: ack_entry_def)
      ultimately show ?thesis
        using Suc.hyps(1) [OF n Suc.prems(2) s, of changed] False
        by (simp add: tk dr sent answers_Cons drain_summary_simps(3) [OF False, symmetric])
    next
      case True
      let ?ob = "ob[k := ?e\<lparr>synced := True\<rparr>]"
      have "drain_loop cl jobs ep [k..<length ob] changed (ob, s, w) =
          drain_loop cl jobs ep [Suc k..<length ?ob] True
            (?ob, s\<lparr>approvalsSynced := approvalsSynced s + 1, usedRelay := (ep = Relay)\<rparr>, w1)"
        using g c True markSynced_at [OF Suc.prems(2) k] by (simp add: up Let_def del: upt_Suc)
      moreover have "drop (Suc k) ?ob = drop (Suc k) ob" "take (Suc k) ?ob = take k ob @ [?e\<lparr>synced := True\<rparr>]"
        using k by (simp_all add: take_Suc_snoc)
      moreover have "map (ack_entry (answers sent1)) (drop (Suc k) ob) = map (ack_entry (answers sent)) (drop (Suc k) ob)"
        using True drop_notin [OF Suc.prems(2) k] by (auto simp: sent answers_Cons ack_entry_def)
      moreover have "ack_entry (answers sent) ?e = ?e\<lparr>synced := True\<rparr>"
        using True by (simp add: sent answers_Cons ack_entry_def)
      ultimately show ?thesis
        using Suc.hyps(1) [of ?ob "Suc k" w1 sent1 True] n s Suc.prems(2) outbox_ids_mark [OF k] True
        by (simp add: dr sent answers_Cons drain_summary_simps(2) [OF True, symmetric])
    qed
  qed
qed

lemma drain_correct:
  assumes ids: "distinct (outbox_ids ob)"
    and pi: "cl_status cl Pi w = (pi, w1)"
    and rl: "(if \<not> pi \<and> hasRelay cfg then cl_status cl Relay w1 else (False, w1)) = (rl, w2)"
    and up: "pi \<or> rl" and sends: "drain_sends cl jobs (if pi then Pi else Relay) ob w2 = (sent, w3)"
    and run: "drainApprovalOutbox sd J cl cfg jobs (ob, s, w) = (ob', s', w')" and ne: "ob \<noteq> []"
  shows "s' = drain_summary (if pi then Pi else Relay) sent s \<and>
    (if answers sent = {} then ob' = ob \<and> w' = w3
     else ob' = filter (\<lambda>e. \<not> synced e \<and> e \<notin> answers sent) ob \<and>
       w' = snd (saveApprovalOutbox sd J w3 ob'))"
proof -
  define ep where "ep = (if pi then Pi else Relay)"
  have loop: "drain_loop cl jobs ep [0..<length ob] False (ob, s, w2) =
      (answers sent \<noteq> {}, map (ack_entry (answers sent)) ob, drain_summary ep sent s, w3)"
    using drain_loop_spec [of 0 ob cl jobs ep w2 sent w3 False s] ids sends by (simp add: ep_def)
  have f: "filter (\<lambda>e. \<not> synced e) (map (ack_entry A) es) = filter (\<lambda>e. \<not> synced e \<and> e \<notin> A) es" for A es
    by (induction es) (auto simp: ack_entry_def)
  have id: "map (ack_entry {}) ob = ob" by (simp add: ack_entry_def map_idI)
  have "(ob', s', w') = (if answers sent \<noteq> {}
      then (snd (compactSynced (map (ack_entry (answers sent)) ob)), drain_summary ep sent s,
        snd (saveApprovalOutbox sd J w3 (snd (compactSynced (map (ack_entry (answers sent)) ob)))))
      else (map (ack_entry (answers sent)) ob, drain_summary ep sent s, w3))"
  proof -
    have reach: "(\<not> pi \<and> \<not> rl) = False" using up by blast
    show ?thesis
      using run unfolding drainApprovalOutbox_def prod.case if_not_P [OF ne] pi rl Let_def reach
        ep_def [symmetric] loop if_False
      by (simp split: if_splits)
  qed
  then show ?thesis
    by (cases "answers sent = {}") (simp_all add: compactSynced_filter f id ep_def)
qed

section \<open>A batch of downloads\<close>

text \<open>What a batch may do to the index, from \<open>jobs\<close> to \<open>jobs'\<close>, given the log of its calls.\<close>

definition acked_entry :: "JobEntry \<Rightarrow> sync_event list \<Rightarrow> bool" where
  "acked_entry e log \<longleftrightarrow>
     (\<exists>j sha l. EAck j sha l True \<in> set log \<and> jobId e = take 32 j \<and> xtcSha256 e = take 64 sha \<and>
        status e = Downloaded \<and> xtcPath e = take 48 (''/inbox/'' @ j @ ''.xtc''))"

definition batch_ok :: "JobIndex \<Rightarrow> JobIndex \<Rightarrow> sync_event list \<Rightarrow> bool" where
  "batch_ok jobs jobs' log \<longleftrightarrow>
     JobIndex_inv jobs' \<and>
     (\<forall>k. JobIndex_entry jobs k \<noteq> None \<longrightarrow> JobIndex_entry jobs' k \<noteq> None) \<and>
     (\<forall>j sha l. EAck j sha l True \<in> set log \<longrightarrow> JobIndex_entry jobs' j \<noteq> None) \<and>
     (\<forall>k e. JobIndex_entry jobs' k = Some e \<longrightarrow> JobIndex_entry jobs k = Some e \<or> acked_entry e log)"

lemma acked_entry_Cons: "acked_entry e log \<Longrightarrow> acked_entry e (ev # log)"
  unfolding acked_entry_def by (meson list.set_intros(2))

lemma batch_ok_event: "batch_ok jobs jobs' log \<Longrightarrow> \<forall>j sha l. ev \<noteq> EAck j sha l True \<Longrightarrow> batch_ok jobs jobs' (ev # log)"
  unfolding batch_ok_def by (metis acked_entry_Cons set_ConsD)

lemma JobIndex_entry_take32: "JobIndex_entry s (take 32 k) = JobIndex_entry s k"
  by (rule JobIndex_entry_take) (simp add: kJobIdLen_def)

lemma entry_of_manifest_simps:
  "jobId (entry_of_manifest m) = take 32 (mJobId m)"
  "xtcSha256 (entry_of_manifest m) = take 64 (mXtcSha256 m)"
  "status (entry_of_manifest m) = Downloaded"
  "xtcPath (entry_of_manifest m) = take 48 (''/inbox/'' @ mJobId m @ ''.xtc'')"
  by (simp_all add: entry_of_manifest_def Let_def kJobIdLen_def kSha256Len_def kPathLen_def strncpy_def)

text \<open>The room check made before the download still holds at the insertion.\<close>

lemma batch_ok_ack:
  assumes ok: "batch_ok jobs jobs' log" and room: "\<not> (JobIndex_full jobs' \<and> JobIndex_find jobs' (mJobId m) = None)"
    and up: "JobIndex_upsert jobs' (entry_of_manifest m) = (r, jobs2)"
  shows "r \<and> batch_ok jobs jobs2 (EAck (mJobId m) (mXtcSha256 m) l True # log)"
proof -
  let ?e = "entry_of_manifest m"
  have inv: "JobIndex_inv jobs'" using ok by (simp add: batch_ok_def)
  have r: r
    using jobs.ups_ok [OF inv, of ?e] up room
    by (auto simp: entry_of_manifest_simps JobIndex_entry_take32 JobIndex_full_def JobIndex_count_def JobIndex_entry_None)
  have e2: "JobIndex_entry jobs2 k = (if take 32 k = take 32 (mJobId m) then Some ?e else JobIndex_entry jobs' k)" for k
    using jobs.ups_fnd [OF inv, of ?e k] up r by (simp add: entry_of_manifest_simps kJobIdLen_def)
  have "JobIndex_inv jobs2" using JobIndex_inv_upsert [OF inv, of ?e] up by simp
  moreover have "acked_entry ?e (EAck (mJobId m) (mXtcSha256 m) l True # log)"
    unfolding acked_entry_def entry_of_manifest_simps by (intro exI [of _ "mJobId m"] exI) auto
  ultimately show ?thesis
    using ok r unfolding batch_ok_def e2 by (auto; metis acked_entry_Cons)
qed

lemma download_one_batch:
  assumes ok: "batch_ok jobs0 jobs (snd wl)"
    and run: "download_one (sd_with sd) J (log_client cl) m (jobs, summary, wl) = (jobs', summary', wl')"
  shows "batch_ok jobs0 jobs' (snd wl')"
proof (cases "JobIndex_full jobs \<and> JobIndex_find jobs (mJobId m) = None")
  case True
  with ok run show ?thesis by (simp add: download_one_def)
next
  case room: False
  let ?j = "mJobId m" and ?l = "mLandscapeXtcSha256 m"
  obtain ok1 wl1 where d: "cl_download (log_client cl) ?j (''/inbox/'' @ ?j @ ''.xtc'') (mXtcSha256 m) (mXtcBytes m) None wl = (ok1, wl1)"
    by (rule prod.exhaust)
  have i1: "batch_ok jobs0 jobs (snd wl1)" using ok by (simp add: log_client_eqD(4) [OF d] batch_ok_event)
  obtain lok wl2 where d2: "(if ?l \<noteq> [] then cl_download (log_client cl) ?j (''/inbox/'' @ ?j @ ''_l.xtc'') ?l
      (mLandscapeXtcBytes m) (Some ''landscape'') wl1 else (True, wl1)) = (lok, wl2)" by (rule prod.exhaust)
  have i2: "batch_ok jobs0 jobs (snd wl2)"
    using d2 i1 by (auto split: if_splits dest!: log_client_eqD intro: batch_ok_event)
  let ?ls = "if ?l \<noteq> [] then Some ?l else None"
  obtain a wl3 where ak: "cl_ack (log_client cl) ?j (mXtcSha256 m) ?ls wl2 = (a, wl3)" by (rule prod.exhaust)
  note l3 = log_client_eqD(5) [OF ak]
  obtain r jobs2 where up: "JobIndex_upsert jobs (entry_of_manifest m) = (r, jobs2)" by (rule prod.exhaust)
  have st: "(jobs', snd wl') = (if \<not> ok1 then (jobs, snd wl1) else if \<not> lok then (jobs, snd wl2)
      else if a then (jobs2, snd wl3) else (jobs, snd wl3))"
    using run room d d2 ak up
    by (cases ok1; cases lok; cases a; cases r)
      (auto simp: download_one_def Let_def JobIndex_upsert_def split: if_splits option.splits)
  show ?thesis
  proof (cases "ok1 \<and> lok \<and> a")
    case True
    then show ?thesis using st batch_ok_ack [OF i2 room up] by (simp add: l3)
  next
    case False
    then have "ok1 \<and> lok \<Longrightarrow> batch_ok jobs0 jobs (snd wl3)" using i2 by (simp add: l3 batch_ok_event)
    then show ?thesis using st i1 i2 False by (auto split: if_splits)
  qed
qed

lemma download_fold_batch:
  "batch_ok jobs0 jobs (snd wl) \<Longrightarrow>
   fold (download_one (sd_with sd) J (log_client cl)) ms (jobs, summary, wl) = (jobs', summary', wl') \<Longrightarrow>
   batch_ok jobs0 jobs' (snd wl')"
proof (induction ms arbitrary: jobs summary wl)
  case (Cons m ms)
  obtain jobs1 summary1 wl1 where
    one: "download_one (sd_with sd) J (log_client cl) m (jobs, summary, wl) = (jobs1, summary1, wl1)"
    by (rule prod_cases3)
  show ?case
    by (rule Cons.IH [OF download_one_batch [OF Cons.prems(1) one]]) (use Cons.prems(2) one in simp)
qed simp

lemma downloadPendingJobs_batch:
  assumes inv: "JobIndex_inv jobs"
    and run: "downloadPendingJobs (sd_with sd) J (log_client cl) (jobs, summary, (w, [])) = (jobs', summary', (w', log))"
  shows "batch_ok jobs jobs' log"
proof -
  obtain ms wl1 where f: "cl_fetch (log_client cl) kSyncBatchSize (w, []) = (ms, wl1)" by (rule prod.exhaust)
  have b: "batch_ok jobs jobs (snd wl1)"
    using inv by (simp add: log_client_eqD(2) [OF f] batch_ok_def)
  show ?thesis
  proof (cases ms)
    case None
    with run f b show ?thesis by (simp add: downloadPendingJobs_def)
  next
    case (Some l)
    with run f have "fold (download_one (sd_with sd) J (log_client cl)) l (jobs, summary, wl1) = (jobs', summary', (w', log))"
      by (simp add: downloadPendingJobs_def)
    from download_fold_batch [OF b this] show ?thesis by simp
  qed
qed

section \<open>Merging the configuration\<close>

definition trim_cred :: "WifiCredential \<Rightarrow> WifiCredential" where
  "trim_cred n = \<lparr>ssid = take 32 (ssid n), password = take 64 (password n)\<rparr>"

lemma wifi_addOrUpdate_upsert: "wifi_addOrUpdate cs (ssid n) (password n) = wifi_upsert cs (trim_cred n)"
proof -
  have "ssid_pos cs (take 32 (ssid n)) = ssid_pos cs (ssid n)"
    by (simp add: ssid_pos_def strncmp_def kMaxSsidLen_def)
  then show ?thesis
    by (cases "ssid_pos cs (ssid n)")
      (simp_all add: wifi_upsert_def trim_cred_def wifi_addOrUpdate_def strncpy_def kMaxSsidLen_def kMaxWifiPasswordLen_def)
qed

lemma cred_ok_trim [simp]: "cred_ok (trim_cred n)"
  by (simp add: cred_ok_def trim_cred_def kMaxSsidLen_def kMaxWifiPasswordLen_def)

lemma merge_networks:
  "wifi_inv cs \<Longrightarrow> cs' = fold (\<lambda>n cs. snd (wifi_addOrUpdate cs (ssid n) (password n))) (ns :: WifiCredential list) cs \<Longrightarrow>
   wifi_inv cs' \<and> (wifi_find cs s \<noteq> None \<longrightarrow> wifi_find cs' s \<noteq> None) \<and>
   ((\<forall>n \<in> set ns. take 32 (ssid n) \<noteq> take 32 s) \<longrightarrow> wifi_find cs' s = wifi_find cs s)"
proof (induction ns arbitrary: cs)
  case (Cons n ns)
  let ?cs1 = "snd (wifi_addOrUpdate cs (ssid n) (password n))"
  have f: "wifi_find ?cs1 s = (if fst (wifi_addOrUpdate cs (ssid n) (password n)) \<and> take 32 s = take 32 (ssid n)
      then Some (trim_cred n) else wifi_find cs s)"
    using wifi.ups_fnd [OF Cons.prems(1) cred_ok_trim [of n], of s] wifi.ups_fail [OF Cons.prems(1) cred_ok_trim [of n]]
    unfolding wifi_addOrUpdate_upsert
    by (cases "fst (wifi_upsert cs (trim_cred n))") (simp_all add: trim_cred_def kMaxSsidLen_def)
  have "wifi_inv ?cs1"
    unfolding wifi_addOrUpdate_upsert by (rule wifi.ups_inv [OF Cons.prems(1) cred_ok_trim])
  from Cons.IH [OF this] Cons.prems(2) f show ?case by auto
qed simp

lemma json_of_creds_total: "list_all cred_ok cs \<Longrightarrow> json_of_creds B mac cs \<noteq> None"
  by (induction cs) (auto simp: cred_ok_def obfuscateAndEncode_def Let_def split: option.splits)

lemma WifiStore_save_total: "wifi_inv (creds wd) \<Longrightarrow> WifiStore_save sd J B mac w wd \<noteq> None"
  using json_of_creds_total [of "creds wd" B mac] by (auto simp: WifiStore_save_def wifi_inv_def split: option.splits)

section \<open>Properties\<close>

text \<open>C8: The whole pass keeps to the protocol, whatever the network answers, for every event in the log of
  its calls given the events before it: nothing is called before the connection is up or after it is
  closed; a job is acknowledged only after its document, and its landscape variant if it has one, was
  downloaded with the acknowledged hashes; originals are uploaded only after the Pi itself answered;
  an approval is sent only if it is unsynced, to an endpoint that answered, to the relay only if one is
  paired and the Pi did not answer, and never while the server lacks its job's original; calendars come
  after the new configuration and the clock. An unpaired device calls nothing.\<close>

theorem sync_pass_obeys_protocol:
  assumes "JobIndex_inv (sJobs st)" and "length (sFeeds st) \<le> kMaxCalendars"
    and "runFullSync (sd_with sd) J B mac (log_env env) (log_client cl) cfg (st, (w, [])) = Some (summary, st', (w', log))"
  shows "obeys (hasRelay cfg) (pendingOriginals (sJobs st)) log \<and>
    (log = [] \<or> log = [EConnect False] \<or> hd log = EDisconnect) \<and> (\<not> loaded cfg \<longrightarrow> log = [] \<and> st' = st)"
  by (rule runFullSync_trace [OF assms])

text \<open>A server for the witnesses: it has one job, takes everything, and the card is its world.\<close>

definition ex_manifest :: JobManifest where
  "ex_manifest = \<lparr>mJobId = ''b2'', mTitle = ''Scan'', mCreatedAt = 7, mXtcBytes = 100, mXtcSha256 = ''ab'',
     mPageCount = 1, mLandscapeXtcBytes = 0, mLandscapeXtcSha256 = [], mLandscapePageCount = 0\<rparr>"

definition ex_client :: "(string \<rightharpoonup> json_out) sync_client" where
  "ex_client = \<lparr>cl_status = (\<lambda>ep w. (True, w)), cl_fetch = (\<lambda>n w. (Some [ex_manifest], w)), cl_config = (\<lambda>w. (None, w)),
     cl_download = (\<lambda>j p sha n v w. (True, w)), cl_ack = (\<lambda>j sha l w. (True, w)),
     cl_submit = (\<lambda>e ep w. (\<lparr>networkOk = True, applied = True, alreadyApplied = False\<rparr>, w)),
     cl_upload = (\<lambda>j p m t n w. (True, w))\<rparr>"

definition ex_env :: "(string \<rightharpoonup> json_out) sync_env" where
  "ex_env = \<lparr>env_connect = (\<lambda>(store, w). Some (True, store, w)), env_disconnect = (\<lambda>w. w), env_syncClock = Some,
     env_syncCalendars = (\<lambda>fs cw. Some cw)\<rparr>"

definition ex_cfg :: DeviceConfigData where
  "ex_cfg = \<lparr>loaded = True, deviceId = ''d'', deviceToken = ''t'', deviceName = [], piBaseUrl = [], hasRelay = False,
     relayBaseUrl = [], relayAccountId = [], relayAccountToken = [], hasAdminConsole = False, piAdminBaseUrl = []\<rparr>"

lemma sync_pass_obeys_protocol_witness:
  "\<exists>summary st' w' log.
     runFullSync (sd_with mem_card) plain_json plain_b64 [] (log_env ex_env) (log_client ex_client) ex_cfg
       (\<lparr>sJobs = [], sOutbox = [], sFeeds = [], sWifi = \<lparr>creds = [], lastSsid = []\<rparr>,
         sCache = NextEventInfo_init\<rparr>, (Map.empty, [])) =
       Some (summary, st', (w', log)) \<and>
     obeys False {} log \<and> hd log = EDisconnect"
proof -
  let ?st = "\<lparr>sJobs = [], sOutbox = [], sFeeds = [], sWifi = \<lparr>creds = [], lastSsid = []\<rparr>, sCache = NextEventInfo_init\<rparr>"
  let ?run = "runFullSync (sd_with mem_card) plain_json plain_b64 [] (log_env ex_env) (log_client ex_client) ex_cfg
     (?st, (Map.empty, []))"
  have "\<exists>summary st' w' l. ?run = Some (summary, st', (w', EDisconnect # l))"
    by (auto simp: runFullSync_def ex_cfg_def ex_env_def log_env_def logged_def syncDeviceConfig_def log_client_def
        ex_client_def split_def Let_def)
  then obtain summary st' w' l where r: "?run = Some (summary, st', (w', EDisconnect # l))" by blast
  from sync_pass_obeys_protocol [OF _ _ r] r show ?thesis
    by (auto simp: ex_cfg_def pendingOriginals_def)
qed

text \<open>C9: With pairwise different approval ids, draining the outbox in place is a filter: exactly the unsynced
  entries whose job does not wait for its original are sent, in order; if the server applied any of
  them, exactly those and the already synced ones leave the outbox and it is saved, otherwise nothing
  changes; the counters are the numbers of applied and refused entries.\<close>

theorem drain_is_filter:
  assumes "distinct (outbox_ids ob)" and "cl_status cl Pi w = (pi, w1)"
    and "(if \<not> pi \<and> hasRelay cfg then cl_status cl Relay w1 else (False, w1)) = (rl, w2)"
    and "pi \<or> rl" and "drain_sends cl jobs (if pi then Pi else Relay) ob w2 = (sent, w3)"
    and "drainApprovalOutbox sd J cl cfg jobs (ob, s, w) = (ob', s', w')" and "ob \<noteq> []"
  shows "map fst sent = filter (\<lambda>e. \<not> synced e \<and> \<not> awaits_original jobs e) ob \<and>
    s' = drain_summary (if pi then Pi else Relay) sent s \<and>
    (if answers sent = {} then ob' = ob \<and> w' = w3
     else ob' = filter (\<lambda>e. \<not> synced e \<and> e \<notin> answers sent) ob \<and> w' = snd (saveApprovalOutbox sd J w3 ob'))"
  using drain_correct [OF assms] drain_sends_fst [of cl jobs "if pi then Pi else Relay" ob w2] assms(5) by simp

lemma drain_is_filter_witness:
  "let e = ApprovalEntry_init\<lparr>approvalId := ''k1'', apJobId := ''b2'', action := Print\<rparr> in
   fst (drainApprovalOutbox mem_card plain_json ex_client ex_cfg [] ([e], SyncSummary_init, Map.empty)) = []"
proof -
  let ?e = "ApprovalEntry_init\<lparr>approvalId := ''k1'', apJobId := ''b2'', action := Print\<rparr>"
  let ?r = "\<lparr>networkOk = True, applied = True, alreadyApplied = False\<rparr>"
  obtain ob' s' w' where run: "drainApprovalOutbox mem_card plain_json ex_client ex_cfg [] ([?e], SyncSummary_init, Map.empty)
      = (ob', s', w')" by (rule prod_cases3)
  have sends: "drain_sends ex_client [] (if True then Pi else Relay) [?e] Map.empty = ([(?e, ?r)], Map.empty)"
    by (simp add: ApprovalEntry_init_def awaits_original_def JobIndex_find_def ex_client_def)
  have "distinct (outbox_ids [?e])" by (simp add: outbox_ids_def)
  from drain_is_filter [OF this _ _ _ sends run, of Map.empty False] run
  show ?thesis by (simp add: ex_client_def ex_cfg_def answers_def)
qed

text \<open>C10: No acknowledged job is dropped and no known job is lost: after a batch of downloads the index is
  well formed, has every job it had and every job acknowledged to the server, and each entry that
  changed is a freshly downloaded one with the acknowledged id and hash.\<close>

theorem acked_jobs_are_kept:
  assumes "JobIndex_inv jobs"
    and "downloadPendingJobs (sd_with sd) J (log_client cl) (jobs, summary, (w, [])) = (jobs', summary', (w', log))"
  shows "JobIndex_inv jobs' \<and>
    (\<forall>k. JobIndex_entry jobs k \<noteq> None \<longrightarrow> JobIndex_entry jobs' k \<noteq> None) \<and>
    (\<forall>j sha l. EAck j sha l True \<in> set log \<longrightarrow> JobIndex_entry jobs' j \<noteq> None) \<and>
    (\<forall>k e. JobIndex_entry jobs' k = Some e \<longrightarrow> JobIndex_entry jobs k = Some e \<or> acked_entry e log)"
  using downloadPendingJobs_batch [OF assms] by (simp add: batch_ok_def)

lemma acked_jobs_are_kept_witness:
  "JobIndex_entry (fst (downloadPendingJobs (sd_with mem_card) plain_json (log_client ex_client)
     ([], SyncSummary_init, (Map.empty, [])))) ''b2'' \<noteq> None"
proof -
  let ?run = "downloadPendingJobs (sd_with mem_card) plain_json (log_client ex_client) ([], SyncSummary_init, (Map.empty, []))"
  obtain jobs' s' w' log where r: "?run = (jobs', s', (w', log))" by (rule prod_cases4)
  have "snd (snd (snd ?run)) = [EAck ''b2'' ''ab'' None True, EDownload ''b2'' ''ab'' None True, EFetch]"
    by (simp add: downloadPendingJobs_def log_client_def logged_def ex_client_def download_one_def ex_manifest_def
        JobIndex_full_def JobIndex_count_def kMaxInboxJobs_def Let_def JobIndex_upsert_def JobIndex_find_def split_def
        saveJobIndex_def)
  then have "EAck ''b2'' ''ab'' None True \<in> set log" by (simp add: r)
  with acked_jobs_are_kept [OF JobIndex_inv_Nil r, THEN conjunct2, THEN conjunct2, THEN conjunct1]
  have "JobIndex_entry jobs' ''b2'' \<noteq> None" by blast
  then show ?thesis by (simp add: r)
qed

text \<open>C14: Applying the Pi's configuration never overruns the password buffer, leaves everything alone when the
  Pi gave none, replaces the feeds by the first four offered, and only merges the networks: none is
  removed, and a network the Pi does not mention keeps its password.\<close>

theorem syncDeviceConfig_merges:
  assumes "wifi_inv (creds wifi)" and "cl_config cl w = (mo, w1)"
  shows "\<exists>feeds' wifi' w'. syncDeviceConfig sd J B mac cl (feeds, wifi, w) = Some (feeds', wifi', w') \<and>
    wifi_inv (creds wifi') \<and> lastSsid wifi' = lastSsid wifi \<and>
    (case mo of None \<Rightarrow> feeds' = feeds \<and> wifi' = wifi \<and> w' = w1
     | Some m \<Rightarrow> feeds' = take 4 (mCalendars m) \<and>
        (\<forall>s. wifi_find (creds wifi) s \<noteq> None \<longrightarrow> wifi_find (creds wifi') s \<noteq> None) \<and>
        (\<forall>s. (\<forall>n \<in> set (mWifiNetworks m). take 32 (ssid n) \<noteq> take 32 s) \<longrightarrow>
           wifi_find (creds wifi') s = wifi_find (creds wifi) s))"
proof (cases mo)
  case None
  with assms show ?thesis by (simp add: syncDeviceConfig_def)
next
  case (Some m)
  define cs where "cs = fold (\<lambda>n cs. snd (wifi_addOrUpdate cs (ssid n) (password n))) (mWifiNetworks m) (creds wifi)"
  note merged = merge_networks [OF assms(1) cs_def]
  have feeds: "CalendarConfig_replaceAll (mCalendars m) = take 4 (mCalendars m)"
    by (simp add: CalendarConfig_replaceAll_take kMaxCalendars_def)
  obtain b w3 where sv: "WifiStore_save sd J B mac (snd (CalendarConfig_save sd J w1 (take 4 (mCalendars m)))) (wifi\<lparr>creds := cs\<rparr>)
      = Some (b, w3)"
    using WifiStore_save_total [of "wifi\<lparr>creds := cs\<rparr>" sd J B mac] merged by fastforce
  show ?thesis
  proof (cases "mWifiNetworks m = []")
    case True
    with Some assms feeds show ?thesis by (simp add: syncDeviceConfig_def Let_def)
  next
    case False
    have "syncDeviceConfig sd J B mac cl (feeds, wifi, w) = Some (take 4 (mCalendars m), wifi\<lparr>creds := cs\<rparr>, w3)"
      using False Some assms(2) sv by (simp add: syncDeviceConfig_def Let_def feeds cs_def)
    then show ?thesis using Some merged by simp
  qed
qed

lemma syncDeviceConfig_merges_witness:
  "\<exists>feeds' wifi' w'. syncDeviceConfig mem_card plain_json plain_b64 [] ex_client
     ([], \<lparr>creds = [], lastSsid = ''home''\<rparr>, Map.empty) = Some (feeds', wifi', w') \<and> lastSsid wifi' = ''home''"
proof -
  let ?wifi = "\<lparr>creds = [], lastSsid = ''home''\<rparr>"
  have inv: "wifi_inv (creds ?wifi)" using wifi.inv_empty by simp
  have "cl_config ex_client Map.empty = (None, Map.empty)" by (simp add: ex_client_def)
  from syncDeviceConfig_merges [OF inv this, of mem_card plain_json plain_b64 "[]" "[]"] show ?thesis by auto
qed

end
