(* ===== verification/Sync_Keeps.thy ===== *)
theory Sync_Keeps
  imports Sync_Trace
begin

text \<open>
  What a sync pass (src/firmware/src/sync/SyncManager.cpp) keeps of the device it runs on, whatever the network answers:
  the shape of the index, of the outbox and of the list of known networks, and everything in the world that neither
  the card nor the network client touches.
\<close>

section \<open>The outbox through a pass\<close>

text \<open>Capacity and at most one pending approval per job; this half of \<open>outbox_inv\<close> does not speak of the index.\<close>

definition outbox_shape :: "ApprovalOutboxIndex \<Rightarrow> bool" where
  "outbox_shape ob \<longleftrightarrow> length ob \<le> kMaxOutboxEntries \<and> distinct (pendingJobs ob)"

lemma outbox_shape_markSynced: "outbox_shape ob \<Longrightarrow> outbox_shape (snd (markSynced ob aid))"
  by (simp add: outbox_shape_def pendingJobs_markSynced)

lemma outbox_shape_compact: "outbox_shape ob \<Longrightarrow> outbox_shape (snd (compactSynced ob))"
  by (auto simp: outbox_shape_def pendingJobs_compact)
    (auto simp: compactSynced_filter intro: order_trans [OF length_filter_le])

section \<open>What is out of reach of a pass\<close>

text \<open>\<open>g\<close> observes a part of the world that the card and the network client leave alone.\<close>

definition card_keeps :: "('w, 'c) sd_card \<Rightarrow> ('w \<Rightarrow> 'x) \<Rightarrow> bool" where
  "card_keeps sd g \<longleftrightarrow>
     (\<forall>p c w. g (snd (sd_write sd w p c)) = g w) \<and> (\<forall>p w. g (snd (sd_remove sd w p)) = g w) \<and>
     (\<forall>p q w. g (snd (sd_rename sd w p q)) = g w) \<and> (\<forall>p w. g (sd_mkdir sd w p) = g w)"

definition client_keeps :: "'w sync_client \<Rightarrow> ('w \<Rightarrow> 'x) \<Rightarrow> bool" where
  "client_keeps cl g \<longleftrightarrow>
     (\<forall>e w. g (snd (cl_status cl e w)) = g w) \<and> (\<forall>n w. g (snd (cl_fetch cl n w)) = g w) \<and>
     (\<forall>w. g (snd (cl_config cl w)) = g w) \<and> (\<forall>a b c d e w. g (snd (cl_download cl a b c d e w)) = g w) \<and>
     (\<forall>a b c w. g (snd (cl_ack cl a b c w)) = g w) \<and> (\<forall>a e w. g (snd (cl_submit cl a e w)) = g w) \<and>
     (\<forall>a b c d e w. g (snd (cl_upload cl a b c d e w)) = g w)"

text \<open>Of the environment, also that it answers, and that connecting keeps the list of known networks.\<close>

definition env_keeps :: "'w sync_env \<Rightarrow> ('w \<Rightarrow> 'x) \<Rightarrow> bool" where
  "env_keeps env g \<longleftrightarrow>
     (\<forall>store w. wifi_inv (creds store) \<longrightarrow> (\<exists>up store' w'. env_connect env (store, w) = Some (up, store', w') \<and>
        creds store' = creds store \<and> g w' = g w)) \<and>
     (\<forall>w. g (env_disconnect env w) = g w) \<and> (\<forall>w. \<exists>w'. env_syncClock env w = Some w' \<and> g w' = g w) \<and>
     (\<forall>feeds cache w. \<exists>cache' w'. env_syncCalendars env feeds (cache, w) = Some (cache', w') \<and> g w' = g w)"

lemma card_keeps_writeFileAtomic: "card_keeps sd g \<Longrightarrow> g (snd (writeFileAtomic sd w p c)) = g w"
  by (simp add: writeFileAtomic_def card_keeps_def Let_def split_def)

lemma card_keeps_saves:
  assumes "card_keeps sd g"
  shows "g (snd (saveJobIndex sd J w jobs)) = g w" "g (snd (saveApprovalOutbox sd J w ob)) = g w"
    "g (snd (CalendarConfig_save sd J w feeds)) = g w"
  using assms card_keeps_writeFileAtomic [OF assms]
  by (simp_all add: saveJobIndex_def saveApprovalOutbox_def CalendarConfig_save_def card_keeps_def)

lemma card_keeps_wifi:
  assumes "card_keeps sd g" and "WifiStore_save sd J B mac w store = Some (ok, w')"
  shows "g w' = g w"
  using assms(2) card_keeps_writeFileAtomic [OF assms(1), of w] by (auto simp: WifiStore_save_def split: option.splits) (metis snd_conv)

section \<open>Each part of the pass\<close>

lemma download_one_keeps:
  assumes sd: "card_keeps sd g" and cl: "client_keeps cl g" and inv: "JobIndex_inv jobs"
    and run: "download_one sd J cl m (jobs, summary, w) = (jobs', summary', w')"
  shows "JobIndex_inv jobs' \<and> g w' = g w"
  using cl inv run JobIndex_inv_upsert [OF inv, of "entry_of_manifest m"]
  by (auto simp: card_keeps_saves(1) [OF sd] download_one_def client_keeps_def Let_def split_def split: if_splits)

lemma download_fold_keeps:
  assumes sd: "card_keeps sd g" and cl: "client_keeps cl g"
  shows "JobIndex_inv jobs \<Longrightarrow> fold (download_one sd J cl) ms (jobs, summary, w) = (jobs', summary', w') \<Longrightarrow>
    JobIndex_inv jobs' \<and> g w' = g w"
proof (induction ms arbitrary: jobs summary w)
  case (Cons m ms)
  obtain jobs1 summary1 w1 where one: "download_one sd J cl m (jobs, summary, w) = (jobs1, summary1, w1)"
    by (rule prod_cases3)
  with download_one_keeps [OF sd cl Cons.prems(1) one] Cons.IH [of jobs1 summary1 w1] Cons.prems(2) show ?case by simp
qed simp

lemma downloadPendingJobs_keeps:
  assumes sd: "card_keeps sd g" and cl: "client_keeps cl g" and inv: "JobIndex_inv jobs"
    and run: "downloadPendingJobs sd J cl (jobs, summary, w) = (jobs', summary', w')"
  shows "JobIndex_inv jobs' \<and> g w' = g w"
proof -
  obtain ms w1 where f: "cl_fetch cl kSyncBatchSize w = (ms, w1)" by (rule prod.exhaust)
  moreover have "g w1 = g w" using cl f by (metis client_keeps_def snd_conv)
  ultimately show ?thesis
    using run inv download_fold_keeps [OF sd cl inv, of J _ summary w1]
    by (auto simp: downloadPendingJobs_def split: option.splits)
qed

lemma upload_loop_keeps:
  assumes sd: "card_keeps sd g" and cl: "client_keeps cl g"
  shows "JobIndex_inv jobs \<Longrightarrow> upload_loop sd cl ixs changed (jobs, summary, w) = (changed', jobs', summary', w') \<Longrightarrow>
    JobIndex_inv jobs' \<and> g w' = g w"
proof (induction ixs arbitrary: changed jobs summary w)
  case (Cons i ixs)
  let ?s = "jobs ! i" let ?j = "strncpy kJobIdLen (jobId ?s)" let ?p = "strncpy kPathLen (originalPath ?s)"
  obtain ok w1 where u: "cl_upload cl ?j ?p (strncpy 23 (originalMime ?s)) (strncpy kTitleLen (title ?s)) (originalBytes ?s) w = (ok, w1)"
    by (rule prod.exhaust)
  have w1: "g w1 = g w" using cl u by (metis client_keeps_def snd_conv)
  define jobs2 where "jobs2 = (case JobIndex_find jobs ?j of None \<Rightarrow> jobs
    | Some e \<Rightarrow> jobs[e := (jobs ! e)\<lparr>originalPending := False, originalPath := [], originalMime := [], originalBytes := 0\<rparr>])"
  have j2: "JobIndex_inv jobs2" using Cons.prems(1) by (auto simp: jobs2_def JobIndex_inv_update split: option.split)
  show ?case
  proof (cases "originalPending ?s \<and> ok")
    case True
    then have "upload_loop sd cl ixs True (jobs2, summary\<lparr>originalsUploaded := originalsUploaded summary + 1\<rparr>,
        snd (sd_remove sd w1 ?p)) = (changed', jobs', summary', w')"
      using Cons.prems(2) u by (simp add: Let_def jobs2_def)
    from Cons.IH [OF j2 this] w1 sd show ?thesis by (simp add: card_keeps_def)
  next
    case False
    then show ?thesis
      using Cons.prems u w1 Cons.IH [OF Cons.prems(1)] by (auto simp: Let_def split: if_splits)
  qed
qed simp

lemma uploadPendingOriginals_keeps:
  assumes sd: "card_keeps sd g" and cl: "client_keeps cl g" and inv: "JobIndex_inv jobs"
    and run: "uploadPendingOriginals sd J cl (jobs, summary, w) = (jobs', summary', w')"
  shows "JobIndex_inv jobs' \<and> g w' = g w"
proof -
  obtain ok w1 where s: "cl_status cl Pi w = (ok, w1)" by (rule prod.exhaust)
  have w1: "g w1 = g w" using cl s by (metis client_keeps_def snd_conv)
  obtain ch jobs2 summary2 w2 where u: "upload_loop sd cl [0..<length jobs] False (jobs, summary, w1) = (ch, jobs2, summary2, w2)"
    by (rule prod_cases4)
  from upload_loop_keeps [OF sd cl inv u] run s u w1 inv show ?thesis
    by (auto simp: uploadPendingOriginals_def card_keeps_saves [OF sd] split: if_splits)
qed

lemma drain_loop_keeps:
  assumes cl: "client_keeps cl g"
  shows "outbox_shape ob \<Longrightarrow> drain_loop cl jobs ep ixs changed (ob, summary, w) = (changed', ob', summary', w') \<Longrightarrow>
    outbox_shape ob' \<and> g w' = g w"
proof (induction ixs arbitrary: changed ob summary w)
  case (Cons i ixs)
  obtain r w1 where c: "cl_submit cl (ob ! i) ep w = (r, w1)" by (rule prod.exhaust)
  have w1: "g w1 = g w" using cl c by (metis client_keeps_def snd_conv)
  obtain changed2 ob2 summary2 w2 where n: "drain_loop cl jobs ep ixs changed2 (ob2, summary2, w2) = (changed', ob', summary', w')"
    "outbox_shape ob2" "g w2 = g w"
    using Cons.prems c w1 outbox_shape_markSynced [OF Cons.prems(1)] by (auto simp: Let_def split: if_splits)
  from Cons.IH [OF n(2,1)] n(3) show ?case by simp
qed simp

lemma drainApprovalOutbox_keeps:
  assumes sd: "card_keeps sd g" and cl: "client_keeps cl g" and ob: "outbox_shape ob"
    and run: "drainApprovalOutbox sd J cl cfg jobs (ob, summary, w) = (ob', summary', w')"
  shows "outbox_shape ob' \<and> g w' = g w"
proof -
  obtain pi w1 where s: "cl_status cl Pi w = (pi, w1)" by (rule prod.exhaust)
  obtain rl w2 where q: "(if \<not> pi \<and> hasRelay cfg then cl_status cl Relay w1 else (False, w1)) = (rl, w2)" by (rule prod.exhaust)
  have w1: "g w1 = g w" using cl s by (metis client_keeps_def snd_conv)
  have "g (snd (cl_status cl Relay w1)) = g w1" using cl by (simp add: client_keeps_def)
  with q w1 have w2: "g w2 = g w" by (auto split: if_splits)
  obtain ch ob2 summary2 w3 where
    d: "drain_loop cl jobs (if pi then Pi else Relay) [0..<length ob] False (ob, summary, w2) = (ch, ob2, summary2, w3)"
    by (rule prod_cases4)
  note k = drain_loop_keeps [OF cl ob d]
  show ?thesis
    using run s q w2 d k ob outbox_shape_compact [of ob2] card_keeps_saves(2) [OF sd, of J w3]
    by (auto simp: drainApprovalOutbox_def Let_def split: if_splits)
qed

lemma syncDeviceConfig_keeps:
  assumes sd: "card_keeps sd g" and cl: "client_keeps cl g" and wifi: "wifi_inv (creds store)"
  shows "\<exists>feeds' store' w'. syncDeviceConfig sd J B mac cl (feeds, store, w) = Some (feeds', store', w') \<and>
    wifi_inv (creds store') \<and> g w' = g w"
proof -
  obtain m w1 where f: "cl_config cl w = (m, w1)" by (rule prod.exhaust)
  have w1: "g w1 = g w" using cl f by (metis client_keeps_def snd_conv)
  show ?thesis
  proof (cases m)
    case None
    with f w1 wifi show ?thesis by (simp add: syncDeviceConfig_def)
  next
    case (Some manifest)
    let ?feeds = "CalendarConfig_replaceAll (mCalendars manifest)"
    let ?w2 = "snd (CalendarConfig_save sd J w1 ?feeds)"
    let ?store = "store\<lparr>creds := fold (\<lambda>n cs. snd (wifi_addOrUpdate cs (ssid n) (password n))) (mWifiNetworks manifest) (creds store)\<rparr>"
    have wi: "wifi_inv (creds ?store)" using merge_networks [OF wifi refl] by simp
    obtain ok w3 where s: "WifiStore_save sd J B mac ?w2 ?store = Some (ok, w3)"
      using WifiStore_save_total [OF wi, of sd J B mac ?w2] by auto
    have "g w3 = g w" using card_keeps_wifi [OF sd s] w1 by (simp add: card_keeps_saves(3) [OF sd])
    with s f Some w1 wi wifi show ?thesis
      by (simp add: syncDeviceConfig_def Let_def card_keeps_saves(3) [OF sd])
  qed
qed

section \<open>The whole pass\<close>

text \<open>A pass always ends; it keeps what it is run on in shape and does not touch \<open>g\<close>.\<close>

lemma runFullSync_keeps:
  assumes sd: "card_keeps sd g" and cl: "client_keeps cl g" and env: "env_keeps env g"
    and jobs: "JobIndex_inv (sJobs s)" and ob: "outbox_shape (sOutbox s)" and wifi: "wifi_inv (creds (sWifi s))"
  shows "\<exists>summary s' w'. runFullSync sd J B mac env cl cfg (s, w) = Some (summary, s', w') \<and>
    JobIndex_inv (sJobs s') \<and> outbox_shape (sOutbox s') \<and> wifi_inv (creds (sWifi s')) \<and> g w' = g w"
proof (cases "loaded cfg")
  case False
  with assms show ?thesis by (simp add: runFullSync_def)
next
  case True
  obtain up store w1 where c: "env_connect env (sWifi s, w) = Some (up, store, w1)" and same: "creds store = creds (sWifi s)"
    and w1: "g w1 = g w"
    using env wifi unfolding env_keeps_def by blast
  have st: "wifi_inv (creds store)" using wifi by (simp add: same)
  obtain jobs1 sm1 w2 where d: "downloadPendingJobs sd J cl (sJobs s, SyncSummary_init\<lparr>wifiConnected := True\<rparr>, w1) = (jobs1, sm1, w2)"
    by (rule prod_cases3)
  note k1 = downloadPendingJobs_keeps [OF sd cl jobs d]
  obtain jobs2 sm2 w3 where u: "uploadPendingOriginals sd J cl (jobs1, sm1, w2) = (jobs2, sm2, w3)" by (rule prod_cases3)
  note k2 = uploadPendingOriginals_keeps [OF sd cl conjunct1 [OF k1] u]
  obtain ob3 sm3 w4 where a: "drainApprovalOutbox sd J cl cfg jobs2 (sOutbox s, sm2, w3) = (ob3, sm3, w4)" by (rule prod_cases3)
  note k3 = drainApprovalOutbox_keeps [OF sd cl ob a]
  obtain jobs4 sm4 w5 where d2: "(if approvalsSynced sm3 > 0 then downloadPendingJobs sd J cl (jobs2, sm3, w4) else (jobs2, sm3, w4))
      = (jobs4, sm4, w5)" by (rule prod_cases3)
  have k4: "JobIndex_inv jobs4 \<and> g w5 = g w4"
    using d2 k2 downloadPendingJobs_keeps [OF sd cl conjunct1 [OF k2], of J sm3 w4 jobs4 sm4 w5]
    by (auto split: if_splits)
  obtain feeds store' w6 where m: "syncDeviceConfig sd J B mac cl (sFeeds s, store, w5) = Some (feeds, store', w6)"
    and k5: "wifi_inv (creds store')" "g w6 = g w5"
    using syncDeviceConfig_keeps [OF sd cl st] by blast
  obtain w6' where t: "env_syncClock env w6 = Some w6'" "g w6' = g w6" using env unfolding env_keeps_def by blast
  obtain cache w7 where k: "env_syncCalendars env feeds (sCache s, w6') = Some (cache, w7)" and k6: "g w7 = g w6'"
    using env unfolding env_keeps_def by blast
  show ?thesis
  proof (cases up)
    case False
    then have "runFullSync sd J B mac env cl cfg (s, w) = Some (SyncSummary_init, s\<lparr>sWifi := store\<rparr>, w1)"
      using True c by (simp add: runFullSync_def)
    with st jobs ob w1 show ?thesis by simp
  next
    case up: True
    have r: "runFullSync sd J B mac env cl cfg (s, w) = Some (sm4, \<lparr>sJobs = jobs4, sOutbox = ob3, sFeeds = feeds, sWifi = store',
        sCache = cache\<rparr>, env_disconnect env w7)"
      using True by (simp add: runFullSync_def c up d u a d2 m t(1) k)
    have "g (env_disconnect env w7) = g w7" using env by (simp add: env_keeps_def)
    with r k1 k2 k3 k4 k5 k6 t(2) w1 show ?thesis by simp
  qed
qed

end
