(* ===== verification/Ics_Text.thy ===== *)
theory Ics_Text
  imports Civil_Date
begin

unbundle bit_operations_syntax

text \<open>
  The textual half of src/firmware/src/calendar/IcsParser.cpp: the operations of the Arduino
  \<^verbatim>\<open>String\<close> it uses, durations, UTC offsets, recurrence rules, parameters and escapes.
  A \<^verbatim>\<open>String\<close> is the list of its bytes; operations that go through a C string stop at a NUL, so they
  read \<^const>\<open>c_str\<close>. \<^verbatim>\<open>char\<close> is unsigned on the target and \<^verbatim>\<open>int\<close> and \<^verbatim>\<open>long\<close> have 32 bits, where
  arithmetic that may leave them is reduced by \<open>long32\<close>, the wrap-around of its instructions.
\<close>

section \<open>Arduino String\<close>

definition is_space :: "char \<Rightarrow> bool" where
  "is_space c \<longleftrightarrow> c \<in> {CHR 0x20, CHR 0x09, CHR 0x0A, CHR 0x0B, CHR 0x0C, CHR 0x0D}"

definition is_digit :: "char \<Rightarrow> bool" where
  "is_digit c \<longleftrightarrow> (48 :: nat) \<le> of_char c \<and> of_char c \<le> (57 :: nat)"

text \<open>\<open>c - '0'\<close>, also for a character that is no digit.\<close>

definition digit :: "char \<Rightarrow> int" where
  "digit c = of_char c - 48"

definition indexOf :: "string \<Rightarrow> char \<Rightarrow> nat \<Rightarrow> nat option" where
  "indexOf s c from =
     (if from < length s then map_option ((+) from) (first_index ((=) c) (c_str (drop from s))) else None)"

fun str_find :: "string \<Rightarrow> string \<Rightarrow> nat option" where
  "str_find needle s =
     (if take (length needle) s = needle then Some 0
      else case s of [] \<Rightarrow> None | _ # s' \<Rightarrow> map_option Suc (str_find needle s'))"

text \<open>\<^verbatim>\<open>s.substring(l, r)\<close>; every call has \<open>l \<le> r\<close>.\<close>

definition substring :: "string \<Rightarrow> nat \<Rightarrow> nat \<Rightarrow> string" where
  "substring s l r = take (r - l) (drop l s)"

definition trim :: "string \<Rightarrow> string" where
  "trim s = rev (dropWhile is_space (rev (dropWhile is_space s)))"

definition toUpperCase :: "string \<Rightarrow> string" where
  "toUpperCase s = map (\<lambda>c. if (97 :: nat) \<le> of_char c \<and> of_char c \<le> (122 :: nat) then char_of (of_char c - (32 :: nat)) else c) s"

text \<open>\<^verbatim>\<open>strtol(p, &end, 10)\<close>: the value, limited to 32 bits, and the rest; \<open>None\<close> when there are no digits.\<close>

definition digits_value :: "string \<Rightarrow> int" where
  "digits_value ds = foldl (\<lambda>n c. n * 10 + digit c) 0 ds"

definition strtol_digits :: "bool \<Rightarrow> string \<Rightarrow> (int \<times> string) option" where
  "strtol_digits neg s =
     (case takeWhile is_digit s of
        [] \<Rightarrow> None
      | ds \<Rightarrow> let n = (if neg then - digits_value ds else digits_value ds)
          in Some (max (- (2 ^ 31)) (min (2 ^ 31 - 1) n), dropWhile is_digit s))"

definition strtol :: "string \<Rightarrow> (int \<times> string) option" where
  "strtol s =
     (case dropWhile is_space s of
        [] \<Rightarrow> None
      | c # cs \<Rightarrow> if c = CHR ''-'' then strtol_digits True cs
          else if c = CHR ''+'' then strtol_digits False cs
          else strtol_digits False (c # cs))"

text \<open>\<^verbatim>\<open>toInt()\<close> and \<^verbatim>\<open>atoi(s.c_str())\<close>.\<close>

definition toInt :: "string \<Rightarrow> int" where
  "toInt s = (case strtol (c_str s) of None \<Rightarrow> 0 | Some (n, _) \<Rightarrow> n)"

text \<open>\<^verbatim>\<open>String((long long)n)\<close>.\<close>

fun nat_to_string :: "nat \<Rightarrow> string" where
  "nat_to_string n = (if n < 10 then [char_of (48 + n)] else nat_to_string (n div 10) @ [char_of (48 + n mod 10)])"

definition int_to_string :: "int \<Rightarrow> string" where
  "int_to_string n = (if n < 0 then CHR ''-'' # nat_to_string (nat (- n)) else nat_to_string (nat n))"

declare str_find.simps [simp del] nat_to_string.simps [simp del]

text \<open>The loops that cut a value at a separator: \<^verbatim>\<open>while (pos < s.length())\<close>.\<close>

lemma indexOf_ge: "indexOf s c from = Some e \<Longrightarrow> from \<le> e \<and> e < length s \<and> s ! e = c"
proof -
  assume a: "indexOf s c from = Some e"
  then obtain i where i: "first_index ((=) c) (c_str (drop from s)) = Some i" "e = from + i" "from < length s"
    by (auto simp: indexOf_def split: if_splits)
  have "i < length (c_str (drop from s)) \<and> c_str (drop from s) ! i = c"
    using i(1) by (auto dest: first_index_SomeD)
  moreover have "c_str (drop from s) ! i = drop from s ! i" if "i < length (c_str (drop from s))"
    using that by (simp add: c_str_def takeWhile_nth)
  moreover have "length (c_str (drop from s)) \<le> length s - from"
    using length_takeWhile_le [of _ "drop from s"] by (simp add: c_str_def)
  ultimately show ?thesis using i by auto
qed

function split_from :: "char \<Rightarrow> string \<Rightarrow> nat \<Rightarrow> string list" where
  "split_from c s pos =
     (if pos < length s then
        let e = (case indexOf s c pos of None \<Rightarrow> length s | Some e \<Rightarrow> e)
        in substring s pos e # split_from c s (Suc e)
      else [])"
  by pat_completeness auto
termination
  by (relation "measure (\<lambda>(c, s, pos). length s - pos)") (auto split: option.splits dest!: indexOf_ge)

declare split_from.simps [simp del]

section \<open>Offsets and durations\<close>

definition parseUtcOffset :: "string \<Rightarrow> int" where
  "parseUtcOffset value =
     (if length value < 5 then 0
      else let sgn = (if value ! 0 = CHR ''-'' then -1 else 1);
               h = digit (value ! 1) * 10 + digit (value ! 2);
               m = digit (value ! 3) * 10 + digit (value ! 4);
               s = (if length value \<ge> 7 then digit (value ! 5) * 10 + digit (value ! 6) else 0)
           in sgn * (h * 3600 + m * 60 + s))"

lemma strtol_rest: "strtol s = Some (n, r) \<Longrightarrow> length r < length s"
proof -
  have d: "length r < length t" if "strtol_digits neg t = Some (n, r)" for neg t
  proof -
    from that have "takeWhile is_digit t \<noteq> []" "r = dropWhile is_digit t"
      by (auto simp: strtol_digits_def Let_def split: list.splits)
    then show ?thesis using length_dropWhile_le [of is_digit "tl t"] by (cases t) (auto split: if_splits)
  qed
  assume "strtol s = Some (n, r)"
  then have "length r < length (dropWhile is_space s)"
    by (auto simp: strtol_def split: list.splits if_splits dest!: d)
  then show ?thesis using length_dropWhile_le [of is_space s] by linarith
qed

function duration_loop :: "bool \<Rightarrow> int \<Rightarrow> string \<Rightarrow> int" where
  "duration_loop inTime tot p =
     (case p of
        [] \<Rightarrow> tot
      | c # cs \<Rightarrow>
          if c = CHR ''T'' then duration_loop True tot cs
          else case strtol p of
            None \<Rightarrow> tot
          | Some (n, []) \<Rightarrow> tot
          | Some (n, u # p') \<Rightarrow>
              if u = CHR ''W'' then duration_loop inTime (long32 (tot + n * 7 * 86400)) p'
              else if u = CHR ''D'' then duration_loop inTime (long32 (tot + n * 86400)) p'
              else if u = CHR ''H'' then duration_loop inTime (long32 (tot + n * 3600)) p'
              else if u = CHR ''M'' then duration_loop inTime (long32 (tot + (if inTime then n * 60 else 0))) p'
              else if u = CHR ''S'' then duration_loop inTime (long32 (tot + n)) p'
              else tot)"
  by pat_completeness auto
termination
  by (relation "measure (\<lambda>(inTime, tot, p). length p)") (auto dest!: strtol_rest)

declare duration_loop.simps [simp del]

definition parseIcsDuration :: "string \<Rightarrow> int" where
  "parseIcsDuration value =
     (let p = c_str value;
          negative = (p \<noteq> [] \<and> hd p = CHR ''-'');
          p = (if negative then tl p else p)
      in case p of
           [] \<Rightarrow> 0
         | c # p \<Rightarrow>
             if c \<noteq> CHR ''P'' then 0
             else let tot = duration_loop False 0 p in if negative then long32 (- tot) else tot)"

section \<open>Recurrence rules\<close>

datatype Freq = DAILY | WEEKLY | MONTHLY | YEARLY

record Rrule =
  freq :: Freq
  interval :: int
  rcount :: int
  untilTime :: int
  bydayMask :: u8
  bydayOrd :: int
  bymonthday :: int
  rvalid :: bool

definition Rrule_init :: Rrule where
  "Rrule_init = \<lparr>freq = DAILY, interval = 1, rcount = -1, untilTime = 0, bydayMask = 0, bydayOrd = 0,
     bymonthday = 0, rvalid = False\<rparr>"

text \<open>\<^verbatim>\<open>-1\<close> is \<open>None\<close>.\<close>

definition weekday_names :: "string list" where
  "weekday_names = [''MO'', ''TU'', ''WE'', ''TH'', ''FR'', ''SA'', ''SU'']"

definition weekdayBit :: "string \<Rightarrow> nat option" where
  "weekdayBit s = first_index (\<lambda>nm. strncmp s nm 2 = 0) weekday_names"

definition ord_char :: "char \<Rightarrow> bool" where
  "ord_char c \<longleftrightarrow> c = CHR ''+'' \<or> c = CHR ''-'' \<or> is_digit c"

text \<open>One element of a BYDAY list.\<close>

definition byday_item :: "Rrule \<Rightarrow> string \<Rightarrow> Rrule" where
  "byday_item r day =
     (let day = trim day;
          ord = (if day \<noteq> [] \<and> ord_char (hd day) then toInt day else 0);
          rest = dropWhile ord_char day
      in case weekdayBit (c_str rest) of
           None \<Rightarrow> r
         | Some b \<Rightarrow>
             let r = r\<lparr>bydayMask := bydayMask r OR push_bit b 1\<rparr>
             in if ord \<noteq> 0 then r\<lparr>bydayOrd := ord\<rparr> else r)"

fun rrule_parts :: "Rrule \<Rightarrow> string list \<Rightarrow> Rrule" where
  "rrule_parts r [] = r"
| "rrule_parts r (part # parts) =
     (case indexOf part (CHR ''='') 0 of
        None \<Rightarrow> rrule_parts r parts
      | Some eq \<Rightarrow>
          let key = c_str (substring part 0 eq);
              val = substring part (Suc eq) (length part)
          in if key = ''FREQ'' then
               if c_str val = ''DAILY'' then rrule_parts (r\<lparr>freq := DAILY, rvalid := True\<rparr>) parts
               else if c_str val = ''WEEKLY'' then rrule_parts (r\<lparr>freq := WEEKLY, rvalid := True\<rparr>) parts
               else if c_str val = ''MONTHLY'' then rrule_parts (r\<lparr>freq := MONTHLY, rvalid := True\<rparr>) parts
               else if c_str val = ''YEARLY'' then rrule_parts (r\<lparr>freq := YEARLY, rvalid := True\<rparr>) parts
               else r
             else if key = ''INTERVAL'' then rrule_parts (r\<lparr>interval := max 1 (toInt val)\<rparr>) parts
             else if key = ''COUNT'' then rrule_parts (r\<lparr>rcount := toInt val\<rparr>) parts
             else if key = ''BYDAY'' then rrule_parts (foldl byday_item r (split_from (CHR '','') val 0)) parts
             else if key = ''BYMONTHDAY'' then rrule_parts (r\<lparr>bymonthday := toInt val\<rparr>) parts
             else rrule_parts r parts)"

definition parseRrule :: "string \<Rightarrow> Rrule" where
  "parseRrule txt = rrule_parts Rrule_init (split_from (CHR '';'') txt 0)"

definition extractRruleValue :: "string \<Rightarrow> string \<Rightarrow> string" where
  "extractRruleValue rr key =
     (let needle = key @ ''=''
      in case str_find needle (c_str rr) of
           None \<Rightarrow> []
         | Some idx \<Rightarrow>
             if idx > 0 \<and> rr ! (idx - 1) \<noteq> CHR '';'' then []
             else let start = idx + length needle;
                      e = (case indexOf rr (CHR '';'') start of None \<Rightarrow> length rr | Some e \<Rightarrow> e)
                  in substring rr start e)"

section \<open>Parameters and escapes\<close>

fun param_scan :: "bool \<Rightarrow> string \<Rightarrow> string" where
  "param_scan inQuotes [] = []"
| "param_scan inQuotes (c # cs) =
     (if c = CHR 0x22 then param_scan (\<not> inQuotes) cs
      else if (c = CHR '';'' \<or> c = CHR '','') \<and> \<not> inQuotes then []
      else c # param_scan inQuotes cs)"

definition paramValue :: "string \<Rightarrow> string \<Rightarrow> string" where
  "paramValue params key =
     (let needle = '';'' @ key @ ''=''
      in case str_find needle (c_str params) of
           None \<Rightarrow> []
         | Some idx \<Rightarrow> param_scan False (drop (idx + length needle) params))"

fun unescapeText :: "string \<Rightarrow> string" where
  "unescapeText [] = []"
| "unescapeText [c] = [c]"
| "unescapeText (c # n # cs) =
     (if c = CHR 0x5C then (if n = CHR ''n'' \<or> n = CHR ''N'' then CHR '' '' else n) # unescapeText cs
      else c # unescapeText (n # cs))"

fun find_colon :: "bool \<Rightarrow> string \<Rightarrow> nat option" where
  "find_colon inQuotes [] = None"
| "find_colon inQuotes (c # cs) =
     (let inQuotes = (if c = CHR 0x22 then \<not> inQuotes else inQuotes)
      in if c = CHR '':'' \<and> \<not> inQuotes then Some 0 else map_option Suc (find_colon inQuotes cs))"

end
