(* ===== verification/Ics_Parser.thy ===== *)
theory Ics_Parser
  imports Ics_Text
begin

text \<open>
  The calendar feed parser: src/firmware/src/calendar/Event.h, IcsParser.h and the members of
  \<^verbatim>\<open>IcsParser\<close> in IcsParser.cpp. The object is the record \<open>IcsParser\<close>; its vector \<^verbatim>\<open>out_\<close>, a
  reference the caller shares between feeds, is the field \<open>out\<close>. An operation that may read the table
  of month lengths outside its bounds is \<open>None\<close> when it does. \<open>mk\<close> stands for the C library's
  \<^verbatim>\<open>mktime\<close> on the six fields of a \<^verbatim>\<open>struct tm\<close> (years since 1900, month from 0) with
  \<^verbatim>\<open>tm_isdst = -1\<close>. A Monday is day 0 of a week.
\<close>

section \<open>Data\<close>

datatype EventStatus = TENTATIVE | CONFIRMED | CANCELLED

record Event =
  occUid :: string
  occTitle :: string
  occStart :: int
  occEnd :: int
  occAllDay :: bool
  occStatus :: EventStatus
  calIndex :: u8
  isOverride :: bool
  occRecurrenceId :: int

record Civil =
  civY :: int
  civMo :: int
  civD :: int
  civH :: int
  civMi :: int
  civS :: int

definition Civil_init :: Civil where
  "Civil_init = \<lparr>civY = 0, civMo = 0, civD = 0, civH = 0, civMi = 0, civS = 0\<rparr>"

record VtzRule =
  offsetSec :: int
  ruleMonth :: int
  ruleWeek :: int
  ruleWday :: int
  timeSec :: int
  ruleValid :: bool

definition VtzRule_init :: VtzRule where
  "VtzRule_init = \<lparr>offsetSec = 0, ruleMonth = 0, ruleWeek = 0, ruleWday = 0, timeSec = 7200, ruleValid = False\<rparr>"

record Vtz =
  tzid :: string
  stdRule :: VtzRule
  dstRule :: VtzRule
  hasDst :: bool

definition Vtz_init :: Vtz where
  "Vtz_init = \<lparr>tzid = [], stdRule = VtzRule_init, dstRule = VtzRule_init, hasDst = False\<rparr>"

record DtParts =
  civil :: Civil
  vtzIndex :: int
  utc :: bool
  isDatePart :: bool

definition DtParts_init :: DtParts where
  "DtParts_init = \<lparr>civil = Civil_init, vtzIndex = -1, utc = False, isDatePart = False\<rparr>"

record RawEvent =
  rawUid :: string
  summary :: string
  dtStart :: string
  dtStartParams :: string
  dtEnd :: string
  dtEndParams :: string
  duration :: string
  rrule :: string
  recurrenceId :: string
  recurrenceIdParams :: string
  exdates :: "int list"
  rawStatus :: EventStatus

definition RawEvent_init :: RawEvent where
  "RawEvent_init = \<lparr>rawUid = [], summary = [], dtStart = [], dtStartParams = [], dtEnd = [], dtEndParams = [],
     duration = [], rrule = [], recurrenceId = [], recurrenceIdParams = [], exdates = [], rawStatus = CONFIRMED\<rparr>"

record IcsParser =
  out :: "Event list"
  overrides :: "Event list"
  vtimezones :: "Vtz list"
  feedIndex :: u8
  windowStart :: int
  windowEnd :: int
  maxEvents :: nat
  truncated :: bool
  lineBuf :: string
  logical :: string
  havePending :: bool
  inEvent :: bool
  skipDepth :: int
  raw :: RawEvent
  inVtz :: bool
  vtzSection :: nat
  curVtz :: Vtz

definition IcsParser_new :: "Event list \<Rightarrow> u8 \<Rightarrow> int \<Rightarrow> int \<Rightarrow> nat \<Rightarrow> IcsParser" where
  "IcsParser_new evs ci ws we mx = \<lparr>out = evs, overrides = [], vtimezones = [], feedIndex = ci, windowStart = ws,
     windowEnd = we, maxEvents = mx, truncated = False, lineBuf = [], logical = [], havePending = False,
     inEvent = False, skipDepth = 0, raw = RawEvent_init, inVtz = False, vtzSection = 0, curVtz = Vtz_init\<rparr>"

definition MAX_LOGICAL_LINE :: nat where "MAX_LOGICAL_LINE = 4096"
definition MAX_TITLE :: nat where "MAX_TITLE = 120"
definition MAX_UID :: nat where "MAX_UID = 80"
definition MAX_OVERRIDES :: nat where "MAX_OVERRIDES = 200"
definition MAX_VTIMEZONES :: nat where "MAX_VTIMEZONES = 12"
definition MAX_DAY_ITERATIONS :: nat where "MAX_DAY_ITERATIONS = 40000"
definition MAX_MONTH_ITERATIONS :: int where "MAX_MONTH_ITERATIONS = 1200"
definition MAX_YEAR_ITERATIONS :: int where "MAX_YEAR_ITERATIONS = 100"

text \<open>\<^verbatim>\<open>==\<close> on two \<^verbatim>\<open>String\<close>s: the lengths and the C strings.\<close>

definition str_eq :: "string \<Rightarrow> string \<Rightarrow> bool" where
  "str_eq a b \<longleftrightarrow> length a = length b \<and> c_str a = c_str b"

type_synonym mktime = "int \<Rightarrow> int \<Rightarrow> int \<Rightarrow> int \<Rightarrow> int \<Rightarrow> int \<Rightarrow> int"

section \<open>Dates\<close>

definition epochFromLocal :: "mktime \<Rightarrow> int \<Rightarrow> int \<Rightarrow> int \<Rightarrow> int \<Rightarrow> int \<Rightarrow> int \<Rightarrow> int" where
  "epochFromLocal mk y mo d h mi s = mk (y - 1900) (mo - 1) d h mi s"

definition rule_day :: "int \<Rightarrow> VtzRule \<Rightarrow> int option" where
  "rule_day y r = transitionDayNum y (ruleMonth r) (ruleWeek r) (ruleWday r)"

definition tzOffsetFor :: "Vtz \<Rightarrow> Civil \<Rightarrow> int option" where
  "tzOffsetFor z c =
     (if \<not> hasDst z then Some (offsetSec (stdRule z))
      else case rule_day (civY c) (dstRule z) of
        None \<Rightarrow> None
      | Some dstDay \<Rightarrow>
        (case rule_day (civY c) (stdRule z) of
          None \<Rightarrow> None
        | Some stdDay \<Rightarrow>
          let cSec = long32 (daysFromCivil (civY c) (word_of_int (civMo c)) (word_of_int (civD c)) * 86400 +
                civH c * 3600 + civMi c * 60);
              dstStart = long32 (dstDay * 86400 + timeSec (dstRule z));
              stdStart = long32 (stdDay * 86400 + timeSec (stdRule z));
              inDst = (if dstStart < stdStart then cSec \<ge> dstStart \<and> cSec < stdStart
                       else cSec \<ge> dstStart \<or> cSec < stdStart)
          in Some (offsetSec (if inDst then dstRule z else stdRule z))))"

definition civil_utc :: "Civil \<Rightarrow> int" where
  "civil_utc c = epochFromUtc (civY c) (civMo c) (civD c) (civH c) (civMi c) (civS c)"

definition civilToEpoch :: "mktime \<Rightarrow> Vtz list \<Rightarrow> Civil \<Rightarrow> int \<Rightarrow> bool \<Rightarrow> int option" where
  "civilToEpoch mk zones c zi isUtc =
     (if isUtc then Some (civil_utc c)
      else if zi \<ge> 0 \<and> zi < int (length zones) then
        map_option (\<lambda>off. civil_utc c - off) (tzOffsetFor (zones ! nat zi) c)
      else Some (epochFromLocal mk (civY c) (civMo c) (civD c) (civH c) (civMi c) (civS c)))"

text \<open>
  \<^verbatim>\<open>parseDateTime\<close> with both of its out-parameters: the time, \<^verbatim>\<open>isDate\<close> and \<^verbatim>\<open>parts\<close>, which keep the
  caller's initial values on the early returns.
\<close>

definition parseDateTime :: "mktime \<Rightarrow> Vtz list \<Rightarrow> string \<Rightarrow> string \<Rightarrow> (int \<times> bool \<times> DtParts) option" where
  "parseDateTime mk zones value params =
     (let v = c_str value
      in if length v < 8 then Some (0, False, DtParts_init) else
      let c = Civil_init\<lparr>civY := digit (v ! 0) * 1000 + digit (v ! 1) * 100 + digit (v ! 2) * 10 + digit (v ! 3),
                civMo := digit (v ! 4) * 10 + digit (v ! 5),
                civD := digit (v ! 6) * 10 + digit (v ! 7)\<rparr>;
          dateOnly = (c_str (paramValue params ''VALUE'') = ''DATE'' \<or> length v = 8 \<or> v ! 8 \<noteq> CHR ''T'')
      in if dateOnly then
           Some (epochFromLocal mk (civY c) (civMo c) (civD c) 0 0 0, True,
             \<lparr>civil = c, vtzIndex = -1, utc = False, isDatePart = True\<rparr>)
         else if length v < 15 then Some (0, False, DtParts_init) else
      let c = c\<lparr>civH := digit (v ! 9) * 10 + digit (v ! 10), civMi := digit (v ! 11) * 10 + digit (v ! 12),
                civS := digit (v ! 13) * 10 + digit (v ! 14)\<rparr>;
          tz = paramValue params ''TZID'';
          isUtc = (v ! (length v - 1) = CHR ''Z'' \<or> c_str tz = ''UTC'');
          zi = (if \<not> isUtc \<and> tz \<noteq> [] then
                  (case first_index (\<lambda>z. str_eq (tzid z) tz) zones of None \<Rightarrow> -1 | Some i \<Rightarrow> int i)
                else -1)
      in map_option (\<lambda>t. (t, False, \<lparr>civil = c, vtzIndex = zi, utc = isUtc, isDatePart = False\<rparr>))
           (civilToEpoch mk zones c zi isUtc))"

section \<open>Occurrences\<close>

definition overlaps :: "IcsParser \<Rightarrow> int \<Rightarrow> int \<Rightarrow> bool" where
  "overlaps P s e \<longleftrightarrow> e > windowStart P \<and> s < windowEnd P"

definition title_of :: "RawEvent \<Rightarrow> string" where
  "title_of r = (if summary r = [] then ''(untitled)'' else summary r)"

definition occurrence :: "IcsParser \<Rightarrow> RawEvent \<Rightarrow> int \<Rightarrow> int \<Rightarrow> bool \<Rightarrow> Event" where
  "occurrence P r s durationSec allDay =
     \<lparr>occUid = rawUid r, occTitle = title_of r, occStart = s, occEnd = s + durationSec, occAllDay = allDay,
      occStatus = rawStatus r, calIndex = feedIndex P, isOverride = False, occRecurrenceId = 0\<rparr>"

definition emitOccurrence :: "IcsParser \<Rightarrow> RawEvent \<Rightarrow> int \<Rightarrow> int \<Rightarrow> bool \<Rightarrow> IcsParser" where
  "emitOccurrence P r s durationSec allDay =
     (if list_ex ((=) s) (exdates r) then P
      else if \<not> overlaps P s (s + durationSec) then P
      else if length (out P) \<ge> maxEvents P then P\<lparr>truncated := True\<rparr>
      else P\<lparr>out := out P @ [occurrence P r s durationSec allDay]\<rparr>)"

text \<open>\<^verbatim>\<open>emitIfDue\<close>: whether to go on, what remains of COUNT, and the parser.\<close>

definition emitIfDue :: "RawEvent \<Rightarrow> Rrule \<Rightarrow> int \<Rightarrow> bool \<Rightarrow> int \<Rightarrow> int \<Rightarrow> IcsParser \<Rightarrow> bool \<times> int \<times> IcsParser" where
  "emitIfDue r rule durationSec allDay t rem P =
     (if rem = 0 then (False, rem, P)
      else if untilTime rule \<noteq> 0 \<and> t > untilTime rule then (False, rem, P)
      else (True, (if rem > 0 then rem - 1 else rem), emitOccurrence P r t durationSec allDay))"

definition occurrenceAt :: "mktime \<Rightarrow> Vtz list \<Rightarrow> DtParts \<Rightarrow> int \<Rightarrow> int option" where
  "occurrenceAt mk zones parts dayNum =
     (let (y, m, d) = civilFromDays dayNum
      in civilToEpoch mk zones ((civil parts)\<lparr>civY := y, civMo := m, civD := d\<rparr>) (vtzIndex parts) (utc parts))"

definition mask_has :: "u8 \<Rightarrow> int \<Rightarrow> bool" where
  "mask_has wdays dow \<longleftrightarrow> wdays AND push_bit (nat dow) 1 \<noteq> 0"

definition day_due :: "Rrule \<Rightarrow> u8 \<Rightarrow> int \<Rightarrow> int \<Rightarrow> bool" where
  "day_due rule wdays startDow n =
     (if freq rule = DAILY then c_mod n (interval rule) = 0
      else mask_has wdays (c_mod (startDow + n) 7) \<and> c_mod (c_div (n + startDow) 7) (interval rule) = 0)"

fun day_loop :: "mktime \<Rightarrow> RawEvent \<Rightarrow> Rrule \<Rightarrow> DtParts \<Rightarrow> int \<Rightarrow> bool \<Rightarrow> u8 \<Rightarrow> int \<Rightarrow> int \<Rightarrow>
    nat \<Rightarrow> int \<Rightarrow> int \<Rightarrow> IcsParser \<Rightarrow> IcsParser option" where
  "day_loop mk r rule parts durationSec allDay wdays startDow day0 0 n rem P = Some P"
| "day_loop mk r rule parts durationSec allDay wdays startDow day0 (Suc k) n rem P =
     (case occurrenceAt mk (vtimezones P) parts (day0 + n) of
        None \<Rightarrow> None
      | Some occ \<Rightarrow>
          if occ > windowEnd P + 2 * 86400 then Some P
          else if untilTime rule \<noteq> 0 \<and> occ > untilTime rule then Some P
          else if day_due rule wdays startDow n then
            case emitIfDue r rule durationSec allDay occ rem P of
              (go, rem, P) \<Rightarrow>
                if \<not> go then Some P
                else if rem = 0 then Some P
                else day_loop mk r rule parts durationSec allDay wdays startDow day0 k (n + 1) rem P
          else if rem = 0 then Some P
          else day_loop mk r rule parts durationSec allDay wdays startDow day0 k (n + 1) rem P)"

text \<open>Skipping days before the window when COUNT needs no bookkeeping.\<close>

definition fast_forward :: "Rrule \<Rightarrow> int \<Rightarrow> int \<Rightarrow> int" where
  "fast_forward rule ws start =
     (if rcount rule < 0 \<and> ws > start then
        let daysAhead = long32 (c_div (ws - start) 86400 - 2)
        in if daysAhead > 0 then
             let step = (if freq rule = DAILY then interval rule else long32 (7 * interval rule))
             in c_div daysAhead step * step
           else 0
      else 0)"

definition targetWd :: "u8 \<Rightarrow> int" where
  "targetWd wdays = foldl (\<lambda>t i. if wdays AND push_bit i 1 \<noteq> 0 then int i else t) (-1) [0..<7]"

text \<open>The day of a month a monthly rule asks for; \<open>dim\<close> is the length of the month.\<close>

definition month_day :: "Rrule \<Rightarrow> Civil \<Rightarrow> int \<Rightarrow> int \<Rightarrow> int \<Rightarrow> int" where
  "month_day rule base y m dim =
     (let target = (if bydayMask rule \<noteq> 0 then targetWd (bydayMask rule) else -1)
      in if target \<ge> 0 then
           let firstWd = weekdayOfDayNum (daysFromCivil y (word_of_int m) 1)
           in if bydayOrd rule \<ge> 0 then
                let ord = (if bydayOrd rule > 0 then bydayOrd rule else 1)
                in long32 (1 + c_mod (target - firstWd + 7) 7 + (ord - 1) * 7)
              else
                let lastWd = c_mod (firstWd + dim - 1) 7
                in long32 (dim - c_mod (lastWd - target + 7) 7 + (bydayOrd rule + 1) * 7)
         else if bymonthday rule \<noteq> 0 then
           (if bymonthday rule > 0 then bymonthday rule else dim + 1 + bymonthday rule)
         else civD base)"

text \<open>
  The loops over months and years advance by the interval, which \<^const>\<open>parseRrule\<close> keeps positive;
  \<open>k\<close> bounds the number of passes, and a loop that needs more is \<open>None\<close>.
\<close>

fun month_loop :: "mktime \<Rightarrow> RawEvent \<Rightarrow> Rrule \<Rightarrow> DtParts \<Rightarrow> int \<Rightarrow> bool \<Rightarrow> int \<Rightarrow>
    nat \<Rightarrow> int \<Rightarrow> int \<Rightarrow> IcsParser \<Rightarrow> IcsParser option" where
  "month_loop mk r rule parts durationSec allDay start 0 m rem P = (if m < MAX_MONTH_ITERATIONS then None else Some P)"
| "month_loop mk r rule parts durationSec allDay start (Suc k) m rem P =
     (if \<not> m < MAX_MONTH_ITERATIONS then Some P else
      let base = civil parts;
          mon = civMo base + m;
          y = civY base + c_div (mon - 1) 12;
          mon = c_mod (mon - 1) 12 + 1
      in case daysInMonth y mon of
           None \<Rightarrow> None
         | Some dim \<Rightarrow>
             let day = month_day rule base y mon dim
             in if day < 1 \<or> day > dim then
                  month_loop mk r rule parts durationSec allDay start k (m + interval rule) rem P
                else case civilToEpoch mk (vtimezones P) (base\<lparr>civY := y, civMo := mon, civD := day\<rparr>)
                    (vtzIndex parts) (utc parts) of
                  None \<Rightarrow> None
                | Some occ \<Rightarrow>
                    if occ < start then
                      month_loop mk r rule parts durationSec allDay start k (m + interval rule) rem P
                    else if occ > windowEnd P + 2 * 86400 then Some P
                    else if untilTime rule \<noteq> 0 \<and> occ > untilTime rule then Some P
                    else case emitIfDue r rule durationSec allDay occ rem P of
                      (go, rem, P) \<Rightarrow>
                        if \<not> go then Some P
                        else if rem = 0 then Some P
                        else month_loop mk r rule parts durationSec allDay start k (m + interval rule) rem P)"

fun year_loop :: "mktime \<Rightarrow> RawEvent \<Rightarrow> Rrule \<Rightarrow> DtParts \<Rightarrow> int \<Rightarrow> bool \<Rightarrow>
    nat \<Rightarrow> int \<Rightarrow> int \<Rightarrow> IcsParser \<Rightarrow> IcsParser option" where
  "year_loop mk r rule parts durationSec allDay 0 yOff rem P = (if yOff < MAX_YEAR_ITERATIONS then None else Some P)"
| "year_loop mk r rule parts durationSec allDay (Suc k) yOff rem P =
     (if \<not> yOff < MAX_YEAR_ITERATIONS then Some P else
      let base = civil parts; y = civY base + yOff
      in case daysInMonth y (civMo base) of
           None \<Rightarrow> None
         | Some dim \<Rightarrow>
             if civD base > dim then
               year_loop mk r rule parts durationSec allDay k (yOff + interval rule) rem P
             else case civilToEpoch mk (vtimezones P) (base\<lparr>civY := y\<rparr>) (vtzIndex parts) (utc parts) of
               None \<Rightarrow> None
             | Some occ \<Rightarrow>
                 if occ > windowEnd P + 2 * 86400 then Some P
                 else if untilTime rule \<noteq> 0 \<and> occ > untilTime rule then Some P
                 else case emitIfDue r rule durationSec allDay occ rem P of
                   (go, rem, P) \<Rightarrow>
                     if \<not> go then Some P
                     else if rem = 0 then Some P
                     else year_loop mk r rule parts durationSec allDay k (yOff + interval rule) rem P)"

text \<open>The rule with its UNTIL resolved; a date includes its whole day.\<close>

definition with_until :: "mktime \<Rightarrow> Vtz list \<Rightarrow> string \<Rightarrow> Rrule \<Rightarrow> Rrule option" where
  "with_until mk zones rr rule =
     (let untilRaw = extractRruleValue rr ''UNTIL''
      in if untilRaw = [] then Some rule
         else case parseDateTime mk zones untilRaw [] of
           None \<Rightarrow> None
         | Some (u, untilIsDate, _) \<Rightarrow> Some (rule\<lparr>untilTime := (if untilIsDate \<and> u \<noteq> 0 then u + 86399 else u)\<rparr>))"

definition expandRecurrence :: "mktime \<Rightarrow> IcsParser \<Rightarrow> RawEvent \<Rightarrow> int \<Rightarrow> DtParts \<Rightarrow> int \<Rightarrow> bool \<Rightarrow> IcsParser option" where
  "expandRecurrence mk P r start parts durationSec allDay =
     (let rule = parseRrule (rrule r)
      in if \<not> rvalid rule then Some (emitOccurrence P r start durationSec allDay)
      else case with_until mk (vtimezones P) (rrule r) rule of
        None \<Rightarrow> None
      | Some rule \<Rightarrow>
          let base = civil parts;
              day0 = daysFromCivil (civY base) (word_of_int (civMo base)) (word_of_int (civD base));
              startDow = weekdayOfDayNum day0
          in case freq rule of
               MONTHLY \<Rightarrow> month_loop mk r rule parts durationSec allDay start 1200 0 (rcount rule) P
             | YEARLY \<Rightarrow> year_loop mk r rule parts durationSec allDay 100 0 (rcount rule) P
             | _ \<Rightarrow>
                 let wdays = (if freq rule = WEEKLY \<and> bydayMask rule = 0 then push_bit (nat startDow) 1 else bydayMask rule)
                 in day_loop mk r rule parts durationSec allDay wdays startDow day0 MAX_DAY_ITERATIONS
                      (fast_forward rule (windowStart P) start) (rcount rule) P)"

section \<open>Events\<close>

definition default_duration :: "bool \<Rightarrow> int" where
  "default_duration isDate = (if isDate then 86400 else 3600)"

definition event_duration :: "mktime \<Rightarrow> Vtz list \<Rightarrow> RawEvent \<Rightarrow> int \<Rightarrow> bool \<Rightarrow> int option" where
  "event_duration mk zones r start isDate =
     (if dtEnd r \<noteq> [] then
        map_option (\<lambda>(e, _, _). if e > start then long32 (e - start) else default_duration isDate)
          (parseDateTime mk zones (dtEnd r) (dtEndParams r))
      else if duration r \<noteq> [] then
        Some (let d = parseIcsDuration (duration r) in if d \<le> 0 then default_duration isDate else d)
      else Some (default_duration isDate))"

text \<open>The branch of \<^verbatim>\<open>endEvent\<close> for a RECURRENCE-ID.\<close>

definition end_override :: "mktime \<Rightarrow> IcsParser \<Rightarrow> int \<Rightarrow> int \<Rightarrow> bool \<Rightarrow> IcsParser option" where
  "end_override mk P start durationSec isDate =
     (let r = raw P
      in case parseDateTime mk (vtimezones P) (recurrenceId r) (recurrenceIdParams r) of
           None \<Rightarrow> None
         | Some (recId, _, _) \<Rightarrow>
             if recId = 0 then Some P
             else let selfRelevant = overlaps P start (start + durationSec);
                      baseRelevant = (recId > windowStart P - 86400 \<and> recId < windowEnd P + 86400)
               in if \<not> selfRelevant \<and> \<not> baseRelevant then Some P
                  else if length (overrides P) \<ge> MAX_OVERRIDES then Some (P\<lparr>truncated := True\<rparr>)
                  else Some (P\<lparr>overrides := overrides P @
                    [(occurrence P r start durationSec isDate)\<lparr>isOverride := True, occRecurrenceId := recId\<rparr>]\<rparr>))"

text \<open>An event without a UID gets one from its title and start.\<close>

definition with_uid :: "IcsParser \<Rightarrow> int \<Rightarrow> IcsParser" where
  "with_uid P start =
     (if rawUid (raw P) = [] then P\<lparr>raw := (raw P)\<lparr>rawUid := summary (raw P) @ ''@'' @ int_to_string start\<rparr>\<rparr> else P)"

definition dispatch_event :: "mktime \<Rightarrow> IcsParser \<Rightarrow> int \<Rightarrow> DtParts \<Rightarrow> int \<Rightarrow> bool \<Rightarrow> IcsParser option" where
  "dispatch_event mk P start parts durationSec isDate =
     (if recurrenceId (raw P) \<noteq> [] then end_override mk P start durationSec isDate
      else if rawStatus (raw P) = CANCELLED then Some P
      else if rrule (raw P) = [] then Some (emitOccurrence P (raw P) start durationSec isDate)
      else expandRecurrence mk P (raw P) start parts durationSec isDate)"

definition endEvent :: "mktime \<Rightarrow> IcsParser \<Rightarrow> IcsParser option" where
  "endEvent mk P =
     (if dtStart (raw P) = [] then Some P
      else case parseDateTime mk (vtimezones P) (dtStart (raw P)) (dtStartParams (raw P)) of
        None \<Rightarrow> None
      | Some (start, isDate, parts) \<Rightarrow>
          if start = 0 then Some P
          else case event_duration mk (vtimezones P) (raw P) start isDate of
            None \<Rightarrow> None
          | Some durationSec \<Rightarrow> dispatch_event mk (with_uid P start) start parts durationSec isDate)"

text \<open>The EXDATE list of one property.\<close>

fun exdate_loop :: "mktime \<Rightarrow> Vtz list \<Rightarrow> string \<Rightarrow> string list \<Rightarrow> int list \<Rightarrow> int list option" where
  "exdate_loop mk zones params [] xs = Some xs"
| "exdate_loop mk zones params (v # vs) xs =
     (case parseDateTime mk zones v params of
        None \<Rightarrow> None
      | Some (t, _, _) \<Rightarrow> exdate_loop mk zones params vs (if t \<noteq> 0 then xs @ [t] else xs))"

definition handleEventProp :: "mktime \<Rightarrow> IcsParser \<Rightarrow> string \<Rightarrow> string \<Rightarrow> string \<Rightarrow> IcsParser option" where
  "handleEventProp mk P nm params value =
     (let nm = c_str nm; r = raw P
      in if nm = ''UID'' then
           Some (P\<lparr>raw := r\<lparr>rawUid := (if length value > MAX_UID then substring value 0 MAX_UID else value)\<rparr>\<rparr>)
         else if nm = ''SUMMARY'' then
           let s = unescapeText value
           in Some (P\<lparr>raw := r\<lparr>summary := (if length s > MAX_TITLE then substring s 0 MAX_TITLE else s)\<rparr>\<rparr>)
         else if nm = ''DTSTART'' then Some (P\<lparr>raw := r\<lparr>dtStart := value, dtStartParams := params\<rparr>\<rparr>)
         else if nm = ''DTEND'' then Some (P\<lparr>raw := r\<lparr>dtEnd := value, dtEndParams := params\<rparr>\<rparr>)
         else if nm = ''DURATION'' then Some (P\<lparr>raw := r\<lparr>duration := value\<rparr>\<rparr>)
         else if nm = ''RRULE'' then Some (P\<lparr>raw := r\<lparr>rrule := value\<rparr>\<rparr>)
         else if nm = ''EXDATE'' then
           map_option (\<lambda>xs. P\<lparr>raw := r\<lparr>exdates := xs\<rparr>\<rparr>)
             (exdate_loop mk (vtimezones P) params (split_from (CHR '','') value 0) (exdates r))
         else if nm = ''RECURRENCE-ID'' then
           Some (P\<lparr>raw := r\<lparr>recurrenceId := value, recurrenceIdParams := params\<rparr>\<rparr>)
         else if nm = ''STATUS'' then
           Some (P\<lparr>raw := r\<lparr>rawStatus := (if c_str value = ''CANCELLED'' then CANCELLED
             else if c_str value = ''TENTATIVE'' then TENTATIVE else CONFIRMED)\<rparr>\<rparr>)
         else Some P)"

section \<open>Time zones\<close>

definition set_transition :: "VtzRule \<Rightarrow> string \<Rightarrow> VtzRule" where
  "set_transition rule value =
     (let bymonth = extractRruleValue value ''BYMONTH''; byday = extractRruleValue value ''BYDAY''
      in if bymonth \<noteq> [] \<and> byday \<noteq> [] then
           let rule = rule\<lparr>ruleMonth := toInt bymonth\<rparr>;
               ord = toInt byday
           in case weekdayBit (c_str (dropWhile ord_char byday)) of
                Some b \<Rightarrow>
                  if ruleMonth rule \<ge> 1 \<and> ruleMonth rule \<le> 12 then
                    rule\<lparr>ruleWeek := (if ord = 0 then 1 else ord), ruleWday := int b\<rparr>
                  else rule\<lparr>ruleMonth := 0\<rparr>
              | None \<Rightarrow> rule\<lparr>ruleMonth := 0\<rparr>
         else rule)"

definition vtz_rule_prop :: "VtzRule \<Rightarrow> string \<Rightarrow> string \<Rightarrow> VtzRule" where
  "vtz_rule_prop rule nm value =
     (if nm = ''TZOFFSETTO'' then rule\<lparr>offsetSec := parseUtcOffset value, ruleValid := True\<rparr>
      else if nm = ''DTSTART'' then
        if length value \<ge> 15 \<and> value ! 8 = CHR ''T'' then
          rule\<lparr>timeSec := (digit (value ! 9) * 10 + digit (value ! 10)) * 3600 +
            (digit (value ! 11) * 10 + digit (value ! 12)) * 60\<rparr>
        else rule
      else if nm = ''RRULE'' then set_transition rule value
      else rule)"

definition handleVtzProp :: "IcsParser \<Rightarrow> string \<Rightarrow> string \<Rightarrow> IcsParser" where
  "handleVtzProp P nm value =
     (let nm = c_str nm
      in if vtzSection P = 0 then
           if nm = ''TZID'' then P\<lparr>curVtz := (curVtz P)\<lparr>tzid := value\<rparr>\<rparr> else P
         else if vtzSection P = 1 then
           P\<lparr>curVtz := (curVtz P)\<lparr>stdRule := vtz_rule_prop (stdRule (curVtz P)) nm value\<rparr>\<rparr>
         else P\<lparr>curVtz := (curVtz P)\<lparr>dstRule := vtz_rule_prop (dstRule (curVtz P)) nm value\<rparr>\<rparr>)"

section \<open>Lines\<close>

definition begin_block :: "IcsParser \<Rightarrow> string \<Rightarrow> IcsParser" where
  "begin_block P value =
     (if value = ''VEVENT'' then P\<lparr>inEvent := True, skipDepth := 0, raw := RawEvent_init\<rparr>
      else if inEvent P then P\<lparr>skipDepth := skipDepth P + 1\<rparr>
      else if value = ''VTIMEZONE'' then P\<lparr>inVtz := True, vtzSection := 0, curVtz := Vtz_init\<rparr>
      else if inVtz P \<and> value = ''STANDARD'' then P\<lparr>vtzSection := 1\<rparr>
      else if inVtz P \<and> value = ''DAYLIGHT'' then P\<lparr>vtzSection := 2\<rparr>
      else P)"

definition end_vtz :: "IcsParser \<Rightarrow> IcsParser" where
  "end_vtz P =
     (let z = curVtz P; P = P\<lparr>inVtz := False\<rparr>
      in if tzid z \<noteq> [] \<and> ruleValid (stdRule z) \<and> length (vtimezones P) < MAX_VTIMEZONES then
           let z = z\<lparr>hasDst := (ruleValid (dstRule z) \<and> ruleMonth (dstRule z) \<noteq> 0 \<and> ruleMonth (stdRule z) \<noteq> 0)\<rparr>
           in P\<lparr>curVtz := z, vtimezones := vtimezones P @ [z]\<rparr>
         else P)"

definition end_block :: "mktime \<Rightarrow> IcsParser \<Rightarrow> string \<Rightarrow> IcsParser option" where
  "end_block mk P value =
     (if inEvent P \<and> skipDepth P > 0 then Some (P\<lparr>skipDepth := skipDepth P - 1\<rparr>)
      else if value = ''VEVENT'' \<and> inEvent P then map_option (\<lambda>P. P\<lparr>inEvent := False\<rparr>) (endEvent mk P)
      else if inVtz P \<and> (value = ''STANDARD'' \<or> value = ''DAYLIGHT'') then Some (P\<lparr>vtzSection := 0\<rparr>)
      else if value = ''VTIMEZONE'' \<and> inVtz P then Some (end_vtz P)
      else Some P)"

text \<open>NAME, PARAMS (with their leading semicolon) and VALUE of a logical line.\<close>

definition split_line :: "string \<Rightarrow> (string \<times> string \<times> string) option" where
  "split_line line =
     (case find_colon False line of
        None \<Rightarrow> None
      | Some colon \<Rightarrow>
          let head = substring line 0 colon;
              value = substring line (Suc colon) (length line)
          in Some (case indexOf head (CHR '';'') 0 of
               None \<Rightarrow> (toUpperCase head, [], value)
             | Some semi \<Rightarrow> (toUpperCase (substring head 0 semi), substring head semi (length head), value)))"

definition processLogicalLine :: "mktime \<Rightarrow> IcsParser \<Rightarrow> string \<Rightarrow> IcsParser option" where
  "processLogicalLine mk P line =
     (if line = [] then Some P
      else case split_line line of
        None \<Rightarrow> Some P
      | Some (nm, params, value) \<Rightarrow>
          if c_str nm = ''BEGIN'' then Some (begin_block P (c_str value))
          else if c_str nm = ''END'' then end_block mk P (c_str value)
          else if inEvent P \<and> skipDepth P = 0 then handleEventProp mk P nm params value
          else if inVtz P then Some (handleVtzProp P nm value)
          else Some P)"

definition is_fold :: "string \<Rightarrow> bool" where
  "is_fold l \<longleftrightarrow> l \<noteq> [] \<and> (hd l = CHR '' '' \<or> hd l = CHR 0x09)"

definition handlePhysicalLine :: "mktime \<Rightarrow> IcsParser \<Rightarrow> IcsParser option" where
  "handlePhysicalLine mk P =
     (if is_fold (lineBuf P) then
        Some (if havePending P \<and> length (logical P) < MAX_LOGICAL_LINE
              then P\<lparr>logical := logical P @ substring (lineBuf P) 1 (length (lineBuf P))\<rparr> else P)
      else map_option (\<lambda>P. P\<lparr>logical := lineBuf P, havePending := True\<rparr>)
             (if havePending P then processLogicalLine mk P (logical P) else Some P))"

definition feed_char :: "mktime \<Rightarrow> IcsParser \<Rightarrow> char \<Rightarrow> IcsParser option" where
  "feed_char mk P c =
     (if c = CHR 0x0A then map_option (\<lambda>P. P\<lparr>lineBuf := []\<rparr>) (handlePhysicalLine mk P)
      else if c \<noteq> CHR 0x0D then
        Some (if length (lineBuf P) < MAX_LOGICAL_LINE then P\<lparr>lineBuf := lineBuf P @ [c]\<rparr> else P)
      else Some P)"

fun feed :: "mktime \<Rightarrow> IcsParser \<Rightarrow> string \<Rightarrow> IcsParser option" where
  "feed mk P [] = Some P"
| "feed mk P (c # cs) = (case feed_char mk P c of None \<Rightarrow> None | Some P \<Rightarrow> feed mk P cs)"

section \<open>Finishing a feed\<close>

fun erase_base :: "Event \<Rightarrow> Event list \<Rightarrow> Event list" where
  "erase_base ov [] = []"
| "erase_base ov (e # es) =
     (if \<not> isOverride e \<and> str_eq (occUid e) (occUid ov) \<and> occStart e = occRecurrenceId ov then es
      else e # erase_base ov es)"

definition reconcile_one :: "IcsParser \<Rightarrow> Event \<Rightarrow> IcsParser" where
  "reconcile_one P ov =
     (let P = P\<lparr>out := erase_base ov (out P)\<rparr>
      in if occStatus ov = CANCELLED then P
         else if overlaps P (occStart ov) (occEnd ov) then
           if length (out P) < maxEvents P then P\<lparr>out := out P @ [ov]\<rparr> else P\<lparr>truncated := True\<rparr>
         else P)"

definition reconcile :: "IcsParser \<Rightarrow> IcsParser" where
  "reconcile P = (foldl reconcile_one P (overrides P))\<lparr>overrides := []\<rparr>"

definition finish :: "mktime \<Rightarrow> IcsParser \<Rightarrow> IcsParser option" where
  "finish mk P =
     (case handlePhysicalLine mk P of
        None \<Rightarrow> None
      | Some P \<Rightarrow>
          map_option reconcile
            (if havePending P then map_option (\<lambda>P. P\<lparr>havePending := False\<rparr>) (processLogicalLine mk P (logical P))
             else Some P))"

end
