(* ===== verification/Ics_Lines.thy ===== *)
theory Ics_Lines
  imports Ics_Parser
begin

text \<open>
  Line assembly of the feed parser: what \<^verbatim>\<open>feed\<close>, \<^verbatim>\<open>handlePhysicalLine\<close> and \<^verbatim>\<open>finish\<close> do is one
  pass of \<^const>\<open>processLogicalLine\<close> over the unfolded lines of the text (RFC 5545, 3.1), however the
  bytes arrive and wherever the sender folded them.
\<close>

section \<open>Reference: lines of a text\<close>

fun phys_lines :: "string \<Rightarrow> string \<Rightarrow> string list" where
  "phys_lines cur [] = [cur]"
| "phys_lines cur (c # cs) =
     (if c = CHR 0x0A then cur # phys_lines [] cs
      else if c = CHR 0x0D then phys_lines cur cs
      else phys_lines (cur @ [c]) cs)"

fun unfold_lines :: "string option \<Rightarrow> string list \<Rightarrow> string list" where
  "unfold_lines pend [] = (case pend of None \<Rightarrow> [] | Some g \<Rightarrow> [g])"
| "unfold_lines pend (l # ls) =
     (if is_fold l then unfold_lines (map_option (\<lambda>g. g @ tl l) pend) ls
      else (case pend of None \<Rightarrow> [] | Some g \<Rightarrow> [g]) @ unfold_lines (Some l) ls)"

definition logical_lines :: "string \<Rightarrow> string list" where
  "logical_lines ics = unfold_lines None (phys_lines [] ics)"

fun process_lines :: "mktime \<Rightarrow> IcsParser \<Rightarrow> string list \<Rightarrow> IcsParser option" where
  "process_lines mk P [] = Some P"
| "process_lines mk P (l # ls) = (case processLogicalLine mk P l of None \<Rightarrow> None | Some P \<Rightarrow> process_lines mk P ls)"

definition parse :: "mktime \<Rightarrow> IcsParser \<Rightarrow> string \<Rightarrow> IcsParser option" where
  "parse mk P ics = (case feed mk P ics of None \<Rightarrow> None | Some P \<Rightarrow> finish mk P)"

definition fits_buffers :: "string \<Rightarrow> bool" where
  "fits_buffers ics \<longleftrightarrow>
     list_all (\<lambda>l. length l \<le> MAX_LOGICAL_LINE) (phys_lines [] ics) \<and>
     list_all (\<lambda>l. length l \<le> MAX_LOGICAL_LINE) (logical_lines ics)"

section \<open>The handlers do not look at the line buffers\<close>

definition set_lines :: "string \<Rightarrow> string \<Rightarrow> bool \<Rightarrow> IcsParser \<Rightarrow> IcsParser" where
  "set_lines l g h P = P\<lparr>lineBuf := l, logical := g, havePending := h\<rparr>"

lemma set_lines_simps [simp]:
  "out (set_lines l g h P) = out P" "overrides (set_lines l g h P) = overrides P"
  "vtimezones (set_lines l g h P) = vtimezones P" "feedIndex (set_lines l g h P) = feedIndex P"
  "windowStart (set_lines l g h P) = windowStart P" "windowEnd (set_lines l g h P) = windowEnd P"
  "maxEvents (set_lines l g h P) = maxEvents P" "truncated (set_lines l g h P) = truncated P"
  "inEvent (set_lines l g h P) = inEvent P" "skipDepth (set_lines l g h P) = skipDepth P"
  "raw (set_lines l g h P) = raw P" "inVtz (set_lines l g h P) = inVtz P"
  "vtzSection (set_lines l g h P) = vtzSection P" "curVtz (set_lines l g h P) = curVtz P"
  "lineBuf (set_lines l g h P) = l" "logical (set_lines l g h P) = g" "havePending (set_lines l g h P) = h"
  "set_lines l g h (set_lines l' g' h' P) = set_lines l g h P"
  by (simp_all add: set_lines_def)

lemma emitOccurrence_lines:
  "emitOccurrence (set_lines l g h P) r s d a = set_lines l g h (emitOccurrence P r s d a)"
  by (simp add: emitOccurrence_def overlaps_def occurrence_def)

lemma emitIfDue_lines:
  "emitIfDue r rule d a t rem (set_lines l g h P) =
     (case emitIfDue r rule d a t rem P of (go, rem, P) \<Rightarrow> (go, rem, set_lines l g h P))"
  by (simp add: emitIfDue_def emitOccurrence_lines)

lemma day_loop_lines:
  "day_loop mk r rule parts d a m sd d0 k n rem (set_lines l g h P) =
     map_option (set_lines l g h) (day_loop mk r rule parts d a m sd d0 k n rem P)"
  by (induction mk r rule parts d a m sd d0 k n rem P rule: day_loop.induct)
    (auto simp: emitIfDue_lines split: option.splits prod.splits)

lemma month_loop_lines:
  "month_loop mk r rule parts d a s k m rem (set_lines l g h P) =
     map_option (set_lines l g h) (month_loop mk r rule parts d a s k m rem P)"
  by (induction mk r rule parts d a s k m rem P rule: month_loop.induct)
    (auto simp: emitIfDue_lines Let_def split: option.splits prod.splits)

lemma year_loop_lines:
  "year_loop mk r rule parts d a k y rem (set_lines l g h P) =
     map_option (set_lines l g h) (year_loop mk r rule parts d a k y rem P)"
  by (induction mk r rule parts d a k y rem P rule: year_loop.induct)
    (auto simp: emitIfDue_lines Let_def split: option.splits prod.splits)

lemma expandRecurrence_lines:
  "expandRecurrence mk (set_lines l g h P) r s parts d a = map_option (set_lines l g h) (expandRecurrence mk P r s parts d a)"
  by (auto simp: expandRecurrence_def Let_def emitOccurrence_lines day_loop_lines month_loop_lines year_loop_lines
      split: option.splits Freq.splits)

lemma end_override_lines:
  "end_override mk (set_lines l g h P) s d a = map_option (set_lines l g h) (end_override mk P s d a)"
  by (auto simp: end_override_def Let_def overlaps_def occurrence_def split: option.splits)

lemma endEvent_lines: "endEvent mk (set_lines l g h P) = map_option (set_lines l g h) (endEvent mk P)"
proof -
  have u: "with_uid (set_lines l g h P) s = set_lines l g h (with_uid P s)" for s
    by (simp add: with_uid_def)
  have d: "dispatch_event mk (set_lines l g h P) s parts d a = map_option (set_lines l g h) (dispatch_event mk P s parts d a)" for P s parts d a
    by (simp add: dispatch_event_def end_override_lines emitOccurrence_lines expandRecurrence_lines)
  show ?thesis
    by (auto simp: endEvent_def u d split: option.splits)
qed

lemma handleEventProp_lines:
  "handleEventProp mk (set_lines l g h P) nm ps v = map_option (set_lines l g h) (handleEventProp mk P nm ps v)"
proof -
  have r: "(set_lines l g h P)\<lparr>raw := r\<rparr> = set_lines l g h (P\<lparr>raw := r\<rparr>)" for r by (simp add: set_lines_def)
  show ?thesis by (simp add: handleEventProp_def Let_def r option.map_comp comp_def)
qed

lemma process_set_lines:
  "processLogicalLine mk (set_lines l g h P) line = map_option (set_lines l g h) (processLogicalLine mk P line)"
proof -
  have b: "begin_block (set_lines l g h P) v = set_lines l g h (begin_block P v)" for v
    by (simp add: begin_block_def)
  have z: "end_vtz (set_lines l g h P) = set_lines l g h (end_vtz P)"
    by (simp add: end_vtz_def Let_def)
  have v: "handleVtzProp (set_lines l g h P) nm v = set_lines l g h (handleVtzProp P nm v)" for nm v
    by (simp add: handleVtzProp_def Let_def)
  have i: "(set_lines l g h Q)\<lparr>inEvent := x\<rparr> = set_lines l g h (Q\<lparr>inEvent := x\<rparr>)"
    "(set_lines l g h Q)\<lparr>skipDepth := y\<rparr> = set_lines l g h (Q\<lparr>skipDepth := y\<rparr>)"
    "(set_lines l g h Q)\<lparr>vtzSection := s\<rparr> = set_lines l g h (Q\<lparr>vtzSection := s\<rparr>)" for Q x y s
    by (simp_all add: set_lines_def)
  have e: "end_block mk (set_lines l g h P) v = map_option (set_lines l g h) (end_block mk P v)" for v
    by (simp only: end_block_def endEvent_lines z i set_lines_simps if_distrib [of "map_option (set_lines l g h)"]
        option.map option.map_comp comp_def)
  show ?thesis
    by (auto simp: processLogicalLine_def b e v handleEventProp_lines split: option.splits prod.splits)
qed

lemma reconcile_lines: "reconcile (set_lines l g h P) = set_lines l g h (reconcile P)"
proof -
  have "reconcile_one (set_lines l g h P) ov = set_lines l g h (reconcile_one P ov)" for P ov
    by (simp add: reconcile_one_def Let_def overlaps_def)
  then have "foldl reconcile_one (set_lines l g h P) ovs = set_lines l g h (foldl reconcile_one P ovs)" for ovs
    by (induction ovs arbitrary: P) simp_all
  then show ?thesis by (simp add: reconcile_def)
qed

lemma process_lines_set_lines:
  "process_lines mk (set_lines l g h P) ls = map_option (set_lines l g h) (process_lines mk P ls)"
  by (induction ls arbitrary: P) (auto simp: process_set_lines split: option.splits)

section \<open>Assembling the lines\<close>

definition pending :: "IcsParser \<Rightarrow> string option" where
  "pending P = (if havePending P then Some (logical P) else None)"

lemma set_lines_own: "set_lines (lineBuf P) (logical P) (havePending P) P = P"
  by (simp add: set_lines_def)

lemma set_lines_same: "set_lines l g h P = P \<longleftrightarrow> lineBuf P = l \<and> logical P = g \<and> havePending P = h"
  by (cases P) (auto simp: set_lines_def)

lemma set_logical: "P\<lparr>logical := x\<rparr> = set_lines (lineBuf P) x (havePending P) P"
  by (cases P) (simp add: set_lines_def)

lemma process_keeps_lines:
  assumes "processLogicalLine mk P line = Some Q"
  shows "lineBuf Q = lineBuf P \<and> logical Q = logical P \<and> havePending Q = havePending P"
proof -
  have "processLogicalLine mk P line = map_option (set_lines (lineBuf P) (logical P) (havePending P)) (processLogicalLine mk P line)"
    using process_set_lines [of mk "lineBuf P" "logical P" "havePending P" P line] by (simp add: set_lines_own)
  with assms have "Q = set_lines (lineBuf P) (logical P) (havePending P) Q" by simp
  then show ?thesis by (metis set_lines_simps(15-17))
qed

definition fold_fits :: "IcsParser \<Rightarrow> bool" where
  "fold_fits P \<longleftrightarrow> (havePending P \<longrightarrow> is_fold (lineBuf P) \<longrightarrow> length (logical P @ tl (lineBuf P)) \<le> MAX_LOGICAL_LINE)"

lemma phys_lines_first: "\<exists>x rest. phys_lines cur cs = (cur @ x) # rest"
  by (induction cur cs rule: phys_lines.induct) auto

lemma unfold_lines_first: "\<exists>x rest. unfold_lines (Some g) ls = (g @ x) # rest"
  by (induction ls arbitrary: g) (auto, metis append.assoc)

abbreviation no_lines :: "IcsParser \<Rightarrow> IcsParser" where
  "no_lines \<equiv> set_lines [] [] False"

lemma set_pending_False: "no_lines (P\<lparr>havePending := False\<rparr>) = no_lines P"
  "(set_lines l g h P)\<lparr>havePending := False\<rparr> = set_lines l g False P"
  by (simp_all add: set_lines_def)

lemma handlePhysicalLine_fits:
  assumes "fold_fits P"
  shows "handlePhysicalLine mk P =
    (if is_fold (lineBuf P) then
       Some (set_lines (lineBuf P) (if havePending P then logical P @ tl (lineBuf P) else logical P) (havePending P) P)
     else map_option (set_lines (lineBuf P) (lineBuf P) True)
            (if havePending P then processLogicalLine mk P (logical P) else Some P))"
proof (cases "is_fold (lineBuf P)")
  case True
  have t: "substring (lineBuf P) (Suc 0) (length (lineBuf P)) = tl (lineBuf P)"
    by (simp add: substring_def drop_Suc)
  have "tl (lineBuf P) = []" if "havePending P" "\<not> length (logical P) < MAX_LOGICAL_LINE"
    using assms True that by (cases "tl (lineBuf P)") (simp_all add: fold_fits_def)
  then have "set_lines (lineBuf P) (if havePending P then logical P @ tl (lineBuf P) else logical P) (havePending P) P =
      (if havePending P \<and> length (logical P) < MAX_LOGICAL_LINE then P\<lparr>logical := logical P @ tl (lineBuf P)\<rparr> else P)"
    by (simp add: set_lines_same set_logical)
  then show ?thesis using True by (simp add: handlePhysicalLine_def t)
next
  case False
  show ?thesis
  proof (cases "if havePending P then processLogicalLine mk P (logical P) else Some P")
    case None
    with False show ?thesis by (simp add: handlePhysicalLine_def)
  next
    case (Some Q)
    then have "lineBuf Q = lineBuf P" by (auto dest: process_keeps_lines split: if_splits)
    then have "Q\<lparr>logical := lineBuf Q, havePending := True\<rparr> = set_lines (lineBuf P) (lineBuf P) True Q"
      by (simp add: set_lines_def)
    with Some False show ?thesis unfolding handlePhysicalLine_def by simp
  qed
qed

lemma finish_fits:
  assumes "fold_fits P"
  shows "map_option no_lines (finish mk P) =
    map_option (\<lambda>Q. reconcile (no_lines Q)) (process_lines mk P (unfold_lines (pending P) [lineBuf P]))"
proof (cases "is_fold (lineBuf P)")
  case True
  then show ?thesis
    by (cases "havePending P"; cases "processLogicalLine mk P (logical P @ tl (lineBuf P))")
       (simp_all add: finish_def handlePhysicalLine_fits [OF assms] pending_def process_set_lines reconcile_lines set_pending_False)
next
  case False
  have last: "map_option no_lines (map_option reconcile (map_option (\<lambda>P. P\<lparr>havePending := False\<rparr>)
      (processLogicalLine mk (set_lines l g h Q) l))) =
    map_option (\<lambda>Q. reconcile (no_lines Q)) (process_lines mk Q [l])" for l g h Q
    by (cases "processLogicalLine mk Q l") (simp_all add: process_set_lines reconcile_lines set_pending_False)
  show ?thesis
  proof (cases "if havePending P then processLogicalLine mk P (logical P) else Some P")
    case None
    with False show ?thesis
      by (simp add: finish_def handlePhysicalLine_fits [OF assms] pending_def split: if_splits)
  next
    case (Some Q)
    then have "process_lines mk P (unfold_lines (pending P) [lineBuf P]) = process_lines mk Q [lineBuf P]"
      using False by (auto simp: pending_def split: if_splits)
    moreover have "finish mk P = map_option reconcile (map_option (\<lambda>P. P\<lparr>havePending := False\<rparr>)
        (processLogicalLine mk (set_lines (lineBuf P) (lineBuf P) True Q) (lineBuf P)))"
      using Some False by (simp add: finish_def handlePhysicalLine_fits [OF assms])
    ultimately show ?thesis by (simp only: last)
  qed
qed

lemma parse_unfolds:
  assumes "list_all (\<lambda>l. length l \<le> MAX_LOGICAL_LINE) (phys_lines (lineBuf P) ics)"
    and "list_all (\<lambda>l. length l \<le> MAX_LOGICAL_LINE) (unfold_lines (pending P) (phys_lines (lineBuf P) ics))"
  shows "map_option no_lines (parse mk P ics) =
    map_option (\<lambda>Q. reconcile (no_lines Q)) (process_lines mk P (unfold_lines (pending P) (phys_lines (lineBuf P) ics)))"
  using assms
proof (induction ics arbitrary: P)
  case Nil
  have "fold_fits P" using Nil.prems(2) by (auto simp: fold_fits_def pending_def)
  then show ?case by (simp add: parse_def finish_fits)
next
  case (Cons c cs)
  show ?case
  proof (cases "c = CHR 0x0A")
    case True
    show ?thesis
    proof (cases "is_fold (lineBuf P)")
      case fold: True
      define P' where "P' = set_lines [] (if havePending P then logical P @ tl (lineBuf P) else logical P) (havePending P) P"
      obtain x rest where "unfold_lines (Some (logical P @ tl (lineBuf P))) (phys_lines [] cs) =
          ((logical P @ tl (lineBuf P)) @ x) # rest"
        using unfold_lines_first by blast
      with Cons.prems(2) fold True have fits: "fold_fits P"
        by (cases "havePending P") (simp_all add: fold_fits_def pending_def)
      have "feed_char mk P c = Some P'"
        using True fold by (simp add: feed_char_def handlePhysicalLine_fits [OF fits] P'_def)
      moreover have "pending P' = map_option (\<lambda>g. g @ tl (lineBuf P)) (pending P)" "lineBuf P' = []"
        by (simp_all add: pending_def P'_def)
      ultimately show ?thesis
        using Cons.IH [of P'] Cons.prems True fold
        by (simp add: parse_def) (simp add: P'_def process_lines_set_lines option.map_comp comp_def)
    next
      case fold: False
      then have fits: "fold_fits P" by (simp add: fold_fits_def)
      show ?thesis
      proof (cases "if havePending P then processLogicalLine mk P (logical P) else Some P")
        case None
        with fold True show ?thesis
          by (simp add: parse_def feed_char_def handlePhysicalLine_fits [OF fits] pending_def split: if_splits)
      next
        case (Some Q)
        define P' where "P' = set_lines [] (lineBuf P) True Q"
        have "feed_char mk P c = Some P'"
          using True fold Some by (simp add: feed_char_def handlePhysicalLine_fits [OF fits] P'_def)
        moreover have "pending P' = Some (lineBuf P)" "lineBuf P' = []"
          by (simp_all add: pending_def P'_def)
        moreover have "process_lines mk P (unfold_lines (pending P) (lineBuf P # phys_lines [] cs)) =
            process_lines mk Q (unfold_lines (Some (lineBuf P)) (phys_lines [] cs))"
          using Some fold by (auto simp: pending_def split: if_splits)
        ultimately show ?thesis
          using Cons.IH [of P'] Cons.prems True fold
          by (simp add: parse_def) (simp add: P'_def process_lines_set_lines option.map_comp comp_def)
      qed
    qed
  next
    case False
    show ?thesis
    proof (cases "c = CHR 0x0D")
      case True
      with Cons show ?thesis by (simp add: parse_def feed_char_def)
    next
      case cr: False
      obtain x rest where "phys_lines (lineBuf P @ [c]) cs = ((lineBuf P @ [c]) @ x) # rest"
        using phys_lines_first by blast
      with Cons.prems(1) False cr have "length (lineBuf P) < MAX_LOGICAL_LINE" by simp
      moreover have
        "feed_char mk P c = Some (set_lines (lineBuf P @ [c]) (logical P) (havePending P) P)"
        using False cr \<open>length (lineBuf P) < MAX_LOGICAL_LINE\<close> by (simp add: feed_char_def set_lines_def)
      moreover have "pending (set_lines (lineBuf P @ [c]) (logical P) (havePending P) P) = pending P"
        by (simp add: pending_def)
      ultimately show ?thesis
        using Cons.IH [of "set_lines (lineBuf P @ [c]) (logical P) (havePending P) P"] Cons.prems False cr
        by (simp add: parse_def process_lines_set_lines option.map_comp comp_def)
    qed
  qed
qed

text \<open>C36: feeding a text to a new parser and finishing has the same events and the same truncation flag as handing
  the text's unfolded lines one by one to \<^verbatim>\<open>processLogicalLine\<close> and reconciling, and fails on the same texts,
  as long as every physical and every unfolded line fits the 4096 byte buffers.\<close>

theorem feed_unfolds_lines:
  assumes "fits_buffers ics"
  shows "map_option (\<lambda>Q. (out Q, truncated Q)) (parse mk (IcsParser_new evs ci ws we mx) ics) =
    map_option (\<lambda>Q. (out (reconcile Q), truncated (reconcile Q)))
      (process_lines mk (IcsParser_new evs ci ws we mx) (logical_lines ics))"
proof -
  let ?P = "IcsParser_new evs ci ws we mx"
  have new: "lineBuf ?P = []" "pending ?P = None" by (simp_all add: IcsParser_new_def pending_def)
  have "map_option no_lines (parse mk ?P ics) =
      map_option (\<lambda>Q. reconcile (no_lines Q)) (process_lines mk ?P (logical_lines ics))"
    using parse_unfolds [of ?P ics mk] assms new by (simp add: fits_buffers_def logical_lines_def)
  then have "map_option (\<lambda>Q. (out Q, truncated Q)) (map_option no_lines (parse mk ?P ics)) =
      map_option (\<lambda>Q. (out Q, truncated Q)) (map_option (\<lambda>Q. reconcile (no_lines Q)) (process_lines mk ?P (logical_lines ics)))"
    by (rule arg_cong)
  then show ?thesis by (simp add: option.map_comp comp_def reconcile_lines)
qed

section \<open>Folds and chunks\<close>

lemma phys_lines_nonempty [simp]: "phys_lines cur a \<noteq> []"
  using phys_lines_first [of cur a] by auto

lemma phys_lines_append:
  "phys_lines cur (a @ b) = butlast (phys_lines cur a) @ phys_lines (last (phys_lines cur a)) b"
  by (induction cur a rule: phys_lines.induct) simp_all

lemma phys_lines_prefix: "phys_lines (x @ y) b = (x @ hd (phys_lines y b)) # tl (phys_lines y b)"
proof (induction b arbitrary: y)
  case (Cons c b)
  from Cons.IH [of "y @ [c]"] Cons.IH [of y] show ?case by simp
qed simp

definition folded :: "string \<Rightarrow> string \<Rightarrow> string" where
  "folded a b = a @ [CHR 0x0D, CHR 0x0A, CHR '' ''] @ b"

lemma unfold_lines_fold:
  assumes "x \<noteq> []"
  shows "unfold_lines pend (x # (CHR '' '' # y) # ls) = unfold_lines pend ((x @ y) # ls)"
proof -
  have "is_fold (CHR '' '' # y)" "is_fold (x @ y) = is_fold x" "tl (x @ y) = tl x @ y"
    using assms by (simp_all add: is_fold_def)
  then show ?thesis by (cases pend) simp_all
qed

lemma unfold_lines_append_cong:
  "(\<And>p. unfold_lines p b = unfold_lines p c) \<Longrightarrow> unfold_lines pend (a @ b) = unfold_lines pend (a @ c)"
  by (induction a arbitrary: pend) simp_all

lemma logical_lines_folded:
  assumes "last (phys_lines [] a) \<noteq> []"
  shows "logical_lines (folded a b) = logical_lines (a @ b)"
proof -
  let ?x = "last (phys_lines [] a)"
  have "phys_lines ?x ([CHR 0x0D, CHR 0x0A, CHR '' ''] @ b) = ?x # phys_lines ([CHR '' ''] @ []) b" by simp
  also have "\<dots> = ?x # (CHR '' '' # hd (phys_lines [] b)) # tl (phys_lines [] b)"
    unfolding phys_lines_prefix by simp
  finally have f: "phys_lines ?x ([CHR 0x0D, CHR 0x0A, CHR '' ''] @ b) = ?x # (CHR '' '' # hd (phys_lines [] b)) # tl (phys_lines [] b)" .
  have u: "phys_lines ?x b = (?x @ hd (phys_lines [] b)) # tl (phys_lines [] b)"
    using phys_lines_prefix [of ?x "[]" b] by simp
  show ?thesis
    unfolding logical_lines_def folded_def phys_lines_append [of "[]" a] f u
    by (rule unfold_lines_append_cong) (rule unfold_lines_fold [OF assms])
qed

text \<open>where a sender folds its lines does not matter: breaking a text anywhere inside a line with CR, LF and a
  space yields the same events and the same truncation flag.\<close>

theorem folding_irrelevant:
  assumes "last (phys_lines [] a) \<noteq> []" and "fits_buffers (a @ b)" and "fits_buffers (folded a b)"
  shows "map_option (\<lambda>Q. (out Q, truncated Q)) (parse mk (IcsParser_new evs ci ws we mx) (folded a b)) =
    map_option (\<lambda>Q. (out Q, truncated Q)) (parse mk (IcsParser_new evs ci ws we mx) (a @ b))"
  by (simp only: feed_unfolds_lines [OF assms(2)] feed_unfolds_lines [OF assms(3)] logical_lines_folded [OF assms(1)])

end
