(* ===== verification/Ics_Safety.thy ===== *)
theory Ics_Safety
  imports Ics_Lines
begin

text \<open>
  What every run of the feed parser keeps: the sizes of its buffers and tables, the shape of the
  events it hands out, and time zone rules whose transition day always exists. The three
  recurrence loops change the parser only through \<^const>\<open>emitOccurrence\<close>, so each is summarised by the
  list of times it offers.
\<close>

section \<open>Emitting a list of occurrences\<close>

definition emit_all :: "RawEvent \<Rightarrow> int \<Rightarrow> bool \<Rightarrow> int list \<Rightarrow> IcsParser \<Rightarrow> IcsParser" where
  "emit_all r d a ts P = foldl (\<lambda>P t. emitOccurrence P r t d a) P ts"

definition wanted :: "IcsParser \<Rightarrow> RawEvent \<Rightarrow> int \<Rightarrow> int \<Rightarrow> bool" where
  "wanted P r d t \<longleftrightarrow> t \<notin> set (exdates r) \<and> overlaps P t (t + d)"

lemma emit_all_simps [simp]:
  "emit_all r d a [] P = P"
  "emit_all r d a (t # ts) P = emit_all r d a ts (emitOccurrence P r t d a)"
  by (simp_all add: emit_all_def)

lemma emitOccurrence_wanted:
  "emitOccurrence P r t d a =
    (if \<not> wanted P r d t then P
     else if length (out P) \<ge> maxEvents P then P\<lparr>truncated := True\<rparr>
     else P\<lparr>out := out P @ [occurrence P r t d a]\<rparr>)"
  by (auto simp: emitOccurrence_def wanted_def list_ex_iff)

lemma wanted_emit [simp]:
  "wanted (P\<lparr>truncated := b\<rparr>) r d = wanted P r d" "wanted (P\<lparr>out := es\<rparr>) r d = wanted P r d"
  "occurrence (P\<lparr>truncated := b\<rparr>) r t d a = occurrence P r t d a" "occurrence (P\<lparr>out := es\<rparr>) r t d a = occurrence P r t d a"
  by (simp_all add: wanted_def overlaps_def occurrence_def fun_eq_iff)

text \<open>The new events are the first ones that fit, and one that does not fit is reported.\<close>

lemma emit_all_result:
  "emit_all r d a ts P =
    (let new = map (\<lambda>t. occurrence P r t d a) (filter (wanted P r d) ts); room = maxEvents P - length (out P)
     in P\<lparr>out := out P @ take room new, truncated := truncated P \<or> length new > room\<rparr>)"
proof (induction ts arbitrary: P)
  case (Cons t ts)
  have "maxEvents P - Suc (length (out P)) < n \<longleftrightarrow> maxEvents P - length (out P) < Suc n"
    if "\<not> maxEvents P \<le> length (out P)" for n
    using that by linarith
  then show ?case
    by (cases "wanted P r d t"; cases "length (out P) \<ge> maxEvents P")
       (auto simp: Cons.IH emitOccurrence_wanted Let_def take_Cons' min_def)
qed simp

section \<open>The recurrence loops\<close>

text \<open>What a loop offers: at most what is left of COUNT, and nothing after UNTIL.\<close>

definition offers :: "Rrule \<Rightarrow> int \<Rightarrow> RawEvent \<Rightarrow> int \<Rightarrow> bool \<Rightarrow> IcsParser \<Rightarrow> int list \<Rightarrow> IcsParser \<Rightarrow> bool" where
  "offers rule rem r d a P ts Q \<longleftrightarrow> Q = emit_all r d a ts P \<and> (0 \<le> rem \<longrightarrow> int (length ts) \<le> rem) \<and>
     (untilTime rule \<noteq> 0 \<longrightarrow> (\<forall>t \<in> set ts. t \<le> untilTime rule))"

lemma offers_Nil [intro, simp]: "offers rule rem r d a P [] P"
  by (simp add: offers_def)

lemma offers_emit:
  assumes "emitIfDue r rule d a t rem P = (go, rem', P')"
  shows "\<not> go \<Longrightarrow> P' = P"
    and "go \<Longrightarrow> offers rule rem r d a P [t] P'"
    and "go \<Longrightarrow> offers rule rem' r d a P' ts Q \<Longrightarrow> offers rule rem r d a P (t # ts) Q"
  using assms by (auto simp: emitIfDue_def offers_def split: if_splits)

text \<open>The common end of a pass: emit, stop, or go on.\<close>

lemma offers_step:
  assumes "(case emitIfDue r rule d a t rem P of (go, rem', P') \<Rightarrow>
      if \<not> go then Some P' else if rem' = 0 then Some P' else loop rem' P') = Some Q"
    and "\<And>rem' P'. emitIfDue r rule d a t rem P = (True, rem', P') \<Longrightarrow> rem' \<noteq> 0 \<Longrightarrow> loop rem' P' = Some Q \<Longrightarrow>
      \<exists>ts. offers rule rem' r d a P' ts Q"
  shows "\<exists>ts. offers rule rem r d a P ts Q"
proof -
  obtain go rem' P' where e: "emitIfDue r rule d a t rem P = (go, rem', P')" by (rule prod_cases3)
  show ?thesis
  proof (cases "go \<and> rem' \<noteq> 0")
    case True
    with assms(1) e have "loop rem' P' = Some Q" by simp
    moreover from e True have "emitIfDue r rule d a t rem P = (True, rem', P')" "rem' \<noteq> 0" by simp_all
    ultimately obtain ts where "offers rule rem' r d a P' ts Q" using assms(2) by blast
    with offers_emit(3) [OF e] True show ?thesis by blast
  next
    case False
    with assms(1) e have "Q = P'" by (simp split: if_splits)
    with offers_emit(1,2) [OF e] show ?thesis by (cases go) blast+
  qed
qed

lemma day_loop_offers:
  "day_loop mk r rule parts d a m sd d0 k n rem P = Some Q \<Longrightarrow> \<exists>ts. offers rule rem r d a P ts Q"
proof (induction k arbitrary: n rem P)
  case (Suc k)
  note * = Suc.prems [simplified day_loop.simps Let_def]
  then show ?case
    by (auto intro: offers_step [OF _ Suc.IH] Suc.IH split: if_split_asm option.split_asm)
qed auto

lemma month_loop_offers:
  "month_loop mk r rule parts d a s k m rem P = Some Q \<Longrightarrow> \<exists>ts. offers rule rem r d a P ts Q"
proof (induction k arbitrary: m rem P)
  case 0
  then show ?case by (auto split: if_splits)
next
  case (Suc k)
  note * = Suc.prems [simplified month_loop.simps Let_def]
  then show ?case
    by (auto intro: offers_step [OF _ Suc.IH] Suc.IH split: if_split_asm option.split_asm)
qed

lemma year_loop_offers:
  "year_loop mk r rule parts d a k y rem P = Some Q \<Longrightarrow> \<exists>ts. offers rule rem r d a P ts Q"
proof (induction k arbitrary: y rem P)
  case 0
  then show ?case by (auto split: if_splits)
next
  case (Suc k)
  note * = Suc.prems [simplified year_loop.simps Let_def]
  then show ?case
    by (auto intro: offers_step [OF _ Suc.IH] Suc.IH split: if_split_asm option.split_asm)
qed

lemma expandRecurrence_offers:
  assumes "expandRecurrence mk P r s parts d a = Some Q"
  shows "(if rvalid (parseRrule (rrule r)) then
      (\<exists>rule ts. with_until mk (vtimezones P) (rrule r) (parseRrule (rrule r)) = Some rule \<and>
         offers rule (rcount rule) r d a P ts Q)
    else Q = emit_all r d a [s] P)"
proof (cases "rvalid (parseRrule (rrule r))")
  case True
  with assms obtain rule where rule: "with_until mk (vtimezones P) (rrule r) (parseRrule (rrule r)) = Some rule"
    by (auto simp: expandRecurrence_def Let_def split: option.splits)
  then show ?thesis
    using assms True
    by (auto simp: expandRecurrence_def Let_def split: Freq.splits
        dest!: day_loop_offers month_loop_offers year_loop_offers)
next
  case False
  with assms show ?thesis by (simp add: expandRecurrence_def)
qed

lemma offers_new:
  assumes "offers rule rem r d a P ts Q"
  shows "\<exists>new. out Q = out P @ new \<and> (0 \<le> rem \<longrightarrow> int (length new) \<le> rem) \<and>
    (\<forall>e \<in> set new. e = occurrence P r (occStart e) d a \<and> wanted P r d (occStart e) \<and>
       (untilTime rule \<noteq> 0 \<longrightarrow> occStart e \<le> untilTime rule))"
proof -
  let ?new = "map (\<lambda>t. occurrence P r t d a) (filter (wanted P r d) ts)"
  let ?n = "take (maxEvents P - length (out P)) ?new"
  have "out Q = out P @ ?n"
    using assms by (simp add: offers_def emit_all_result Let_def)
  moreover have "length ?n \<le> length ts"
    using length_filter_le [of "wanted P r d" ts] by (simp add: min.coboundedI1)
  then have "0 \<le> rem \<longrightarrow> int (length ?n) \<le> rem" using assms unfolding offers_def by linarith
  moreover have "e = occurrence P r (occStart e) d a \<and> wanted P r d (occStart e) \<and>
      (untilTime rule \<noteq> 0 \<longrightarrow> occStart e \<le> untilTime rule)" if "e \<in> set ?n" for e
  proof -
    from in_set_takeD [OF that] obtain t where "t \<in> set ts" "wanted P r d t" "e = occurrence P r t d a" by auto
    with assms show ?thesis by (simp add: offers_def occurrence_def)
  qed
  ultimately show ?thesis by blast
qed

text \<open>expanding a recurring event only appends occurrences of that event, at most COUNT of them, none starting
  after UNTIL, none on an EXDATE, and each of them overlapping the window.\<close>

theorem expandRecurrence_bounded:
  assumes "expandRecurrence mk P r start parts d a = Some Q"
    and "rvalid (parseRrule (rrule r))" and "with_until mk (vtimezones P) (rrule r) (parseRrule (rrule r)) = Some rule"
  shows "\<exists>new. out Q = out P @ new \<and> (rcount rule \<ge> 0 \<longrightarrow> int (length new) \<le> rcount rule) \<and>
    (\<forall>e \<in> set new. e = occurrence P r (occStart e) d a \<and> occStart e \<notin> set (exdates r) \<and>
       overlaps P (occStart e) (occEnd e) \<and> (untilTime rule \<noteq> 0 \<longrightarrow> occStart e \<le> untilTime rule))"
proof -
  from expandRecurrence_offers [OF assms(1)] assms(2,3) obtain ts where "offers rule (rcount rule) r d a P ts Q"
    by auto
  from offers_new [OF this] obtain new where new: "out Q = out P @ new" "0 \<le> rcount rule \<longrightarrow> int (length new) \<le> rcount rule"
    "\<And>e. e \<in> set new \<Longrightarrow> e = occurrence P r (occStart e) d a \<and> wanted P r d (occStart e) \<and>
       (untilTime rule \<noteq> 0 \<longrightarrow> occStart e \<le> untilTime rule)" by blast
  have "overlaps P (occStart e) (occEnd e)" if "e \<in> set new" for e
  proof -
    have "occEnd e = occStart e + d" using new(3) [OF that] by (metis Event.select_convs(4) occurrence_def)
    then show ?thesis using new(3) [OF that] by (simp add: wanted_def)
  qed
  with new show ?thesis by (auto simp: wanted_def)
qed

section \<open>The end of an event\<close>

lemma end_override_cases:
  assumes "end_override mk P s d a = Some Q"
  shows "Q = P \<or> Q = P\<lparr>truncated := True\<rparr> \<or>
    (\<exists>ov. Q = P\<lparr>overrides := overrides P @ [ov]\<rparr> \<and> length (overrides P) < MAX_OVERRIDES \<and> isOverride ov \<and>
       calIndex ov = feedIndex P \<and> occTitle ov = title_of (raw P))"
  using assms by (auto simp: end_override_def Let_def occurrence_def split: option.splits if_splits)

text \<open>What the end of an event can do to the parser.\<close>

definition event_effect :: "int \<Rightarrow> bool \<Rightarrow> IcsParser \<Rightarrow> IcsParser \<Rightarrow> bool" where
  "event_effect d a P Q \<longleftrightarrow> Q = P \<or> Q = P\<lparr>truncated := True\<rparr> \<or>
    (\<exists>ov. Q = P\<lparr>overrides := overrides P @ [ov]\<rparr> \<and> length (overrides P) < MAX_OVERRIDES \<and> isOverride ov \<and>
       calIndex ov = feedIndex P \<and> occTitle ov = title_of (raw P)) \<or>
    rawStatus (raw P) \<noteq> CANCELLED \<and> (\<exists>ts. Q = emit_all (raw P) d a ts P)"

lemma dispatch_effect:
  assumes "dispatch_event mk P s parts d a = Some Q"
  shows "event_effect d a P Q"
proof -
  consider (override) "recurrenceId (raw P) \<noteq> []" | (cancelled) "recurrenceId (raw P) = []" "rawStatus (raw P) = CANCELLED"
    | (single) "recurrenceId (raw P) = []" "rawStatus (raw P) \<noteq> CANCELLED" "rrule (raw P) = []"
    | (recurring) "recurrenceId (raw P) = []" "rawStatus (raw P) \<noteq> CANCELLED" "rrule (raw P) \<noteq> []"
    by blast
  then show ?thesis
  proof cases
    case override
    with assms have "end_override mk P s d a = Some Q" by (simp add: dispatch_event_def)
    from end_override_cases [OF this] show ?thesis unfolding event_effect_def by blast
  next
    case cancelled
    with assms show ?thesis by (simp add: dispatch_event_def event_effect_def)
  next
    case single
    with assms have "Q = emitOccurrence P (raw P) s d a" by (simp add: dispatch_event_def)
    then show ?thesis using single(2) unfolding event_effect_def
      by (intro disjI2 conjI exI [of _ "[s]"]) simp_all
  next
    case recurring
    with assms have e: "expandRecurrence mk P (raw P) s parts d a = Some Q" by (simp add: dispatch_event_def)
    have "\<exists>ts. Q = emit_all (raw P) d a ts P"
      using expandRecurrence_offers [OF e] by (auto simp only: offers_def split: if_splits)
    with recurring(2) show ?thesis unfolding event_effect_def by (intro disjI2 conjI)
  qed
qed

lemma endEvent_cases:
  assumes "endEvent mk P = Some Q"
  obtains u d a where "event_effect d a (P\<lparr>raw := (raw P)\<lparr>rawUid := u\<rparr>\<rparr>) Q"
proof -
  have "Q = P \<or> (\<exists>s d a parts. dispatch_event mk (with_uid P s) s parts d a = Some Q)"
    using assms by (auto simp only: endEvent_def prod.case option.case split: option.split_asm if_split_asm prod.split_asm)
  then consider "Q = P" | s d a parts where "dispatch_event mk (with_uid P s) s parts d a = Some Q"
    by blast
  then show ?thesis
  proof cases
    case 1
    then show ?thesis using that [of _ _ "rawUid (raw P)"] by (simp add: event_effect_def)
  next
    case (2 s d a parts)
    define u where "u = (if rawUid (raw P) = [] then summary (raw P) @ ''@'' @ int_to_string s else rawUid (raw P))"
    have "with_uid P s = P\<lparr>raw := (raw P)\<lparr>rawUid := u\<rparr>\<rparr>" by (simp add: with_uid_def u_def)
    with dispatch_effect [OF 2] that show ?thesis by simp
  qed
qed

section \<open>Invariant\<close>

definition vrule_ok :: "VtzRule \<Rightarrow> bool" where
  "vrule_ok r \<longleftrightarrow> ruleMonth r = 0 \<or> 1 \<le> ruleMonth r \<and> ruleMonth r \<le> 12 \<and> 0 \<le> ruleWday r \<and> ruleWday r \<le> 6"

definition zone_ok :: "Vtz \<Rightarrow> bool" where
  "zone_ok z \<longleftrightarrow> vrule_ok (stdRule z) \<and> vrule_ok (dstRule z) \<and>
     (hasDst z \<longrightarrow> ruleMonth (stdRule z) \<noteq> 0 \<and> ruleMonth (dstRule z) \<noteq> 0)"

definition title_ok :: "Event \<Rightarrow> bool" where
  "title_ok e \<longleftrightarrow> occTitle e \<noteq> [] \<and> length (occTitle e) \<le> MAX_TITLE"

text \<open>An event the parser may show, and an override it may hold.\<close>

definition shown_ok :: "IcsParser \<Rightarrow> Event \<Rightarrow> bool" where
  "shown_ok P e \<longleftrightarrow> overlaps P (occStart e) (occEnd e) \<and> calIndex e = feedIndex P \<and> occStatus e \<noteq> CANCELLED \<and> title_ok e"

definition override_ok :: "IcsParser \<Rightarrow> Event \<Rightarrow> bool" where
  "override_ok P e \<longleftrightarrow> isOverride e \<and> calIndex e = feedIndex P \<and> title_ok e"

definition buffers_ok :: "IcsParser \<Rightarrow> bool" where
  "buffers_ok P \<longleftrightarrow> length (lineBuf P) \<le> MAX_LOGICAL_LINE \<and> length (logical P) < 2 * MAX_LOGICAL_LINE"

definition tables_ok :: "IcsParser \<Rightarrow> bool" where
  "tables_ok P \<longleftrightarrow> length (overrides P) \<le> MAX_OVERRIDES \<and> length (vtimezones P) \<le> MAX_VTIMEZONES \<and>
     (\<forall>z \<in> set (vtimezones P). zone_ok z) \<and> vrule_ok (stdRule (curVtz P)) \<and> vrule_ok (dstRule (curVtz P)) \<and>
     length (summary (raw P)) \<le> MAX_TITLE"

definition events_ok :: "Event list \<Rightarrow> IcsParser \<Rightarrow> bool" where
  "events_ok evs P \<longleftrightarrow> length (out P) \<le> max (length evs) (maxEvents P) \<and>
     (\<forall>e \<in> set (out P). e \<in> set evs \<or> shown_ok P e) \<and> (\<forall>ov \<in> set (overrides P). override_ok P ov)"

definition feed_setup :: "IcsParser \<Rightarrow> u8 \<times> int \<times> int \<times> nat" where
  "feed_setup P = (feedIndex P, windowStart P, windowEnd P, maxEvents P)"

definition ics_inv :: "Event list \<Rightarrow> u8 \<times> int \<times> int \<times> nat \<Rightarrow> IcsParser \<Rightarrow> bool" where
  "ics_inv evs st P \<longleftrightarrow> feed_setup P = st \<and> tables_ok P \<and> events_ok evs P"

lemma ics_inv_new: "ics_inv evs (ci, ws, we, mx) (IcsParser_new evs ci ws we mx)"
  by (simp add: ics_inv_def feed_setup_def tables_ok_def events_ok_def IcsParser_new_def Vtz_init_def VtzRule_init_def
      vrule_ok_def RawEvent_init_def)

text \<open>Only the fields the invariant speaks of matter to it.\<close>

lemma ics_inv_cong:
  assumes "ics_inv evs st P" and "feed_setup Q = feed_setup P" "out Q = out P" "overrides Q = overrides P" "vtimezones Q = vtimezones P"
    "vrule_ok (stdRule (curVtz Q))" "vrule_ok (dstRule (curVtz Q))" "length (summary (raw Q)) \<le> MAX_TITLE"
  shows "ics_inv evs st Q"
proof -
  have "shown_ok Q = shown_ok P" "override_ok Q = override_ok P"
    using assms(2) by (simp_all add: fun_eq_iff shown_ok_def override_ok_def overlaps_def feed_setup_def)
  moreover have "maxEvents Q = maxEvents P" using assms(2) by (simp add: feed_setup_def)
  ultimately show ?thesis using assms by (simp add: ics_inv_def tables_ok_def events_ok_def)
qed

lemma ics_inv_parts:
  assumes "ics_inv evs st P"
  shows "vrule_ok (stdRule (curVtz P))" "vrule_ok (dstRule (curVtz P))" "length (summary (raw P)) \<le> MAX_TITLE"
    "\<And>z. z \<in> set (vtimezones P) \<Longrightarrow> zone_ok z"
  using assms by (simp_all add: ics_inv_def tables_ok_def)

lemma title_of_ok: "length (summary r) \<le> MAX_TITLE \<Longrightarrow> title_of r \<noteq> [] \<and> length (title_of r) \<le> MAX_TITLE"
  by (simp add: title_of_def MAX_TITLE_def)

lemma emit_all_inv:
  assumes i: "ics_inv evs st P" and s: "rawStatus r \<noteq> CANCELLED" "length (summary r) \<le> MAX_TITLE"
  shows "ics_inv evs st (emit_all r d a ts P)"
proof -
  let ?new = "take (maxEvents P - length (out P)) (map (\<lambda>t. occurrence P r t d a) (filter (wanted P r d) ts))"
  have "shown_ok P e" if "e \<in> set ?new" for e
    using in_set_takeD [OF that] s title_of_ok [OF s(2)]
    by (auto simp: shown_ok_def title_ok_def occurrence_def wanted_def)
  moreover have "length (out P) + length ?new \<le> max (length evs) (maxEvents P)"
    using i by (auto simp: ics_inv_def events_ok_def min_def)
  moreover have "shown_ok (P\<lparr>out := x, truncated := y\<rparr>) = shown_ok P" "override_ok (P\<lparr>out := x, truncated := y\<rparr>) = override_ok P" for x y
    by (simp_all add: fun_eq_iff shown_ok_def override_ok_def overlaps_def)
  ultimately show ?thesis
    using i unfolding emit_all_result Let_def
    by (simp add: ics_inv_def tables_ok_def events_ok_def feed_setup_def) blast
qed

lemma event_effect_inv:
  assumes i: "ics_inv evs st P" and e: "event_effect d a P Q"
  shows "ics_inv evs st Q"
proof -
  consider "Q = P" | "Q = P\<lparr>truncated := True\<rparr>"
    | ov where "Q = P\<lparr>overrides := overrides P @ [ov]\<rparr>" "length (overrides P) < MAX_OVERRIDES" "isOverride ov"
        "calIndex ov = feedIndex P" "occTitle ov = title_of (raw P)"
    | ts where "rawStatus (raw P) \<noteq> CANCELLED" "Q = emit_all (raw P) d a ts P"
    using e unfolding event_effect_def by blast
  then show ?thesis
  proof cases
    case 2
    then show ?thesis by (intro ics_inv_cong [OF i]) (simp_all add: ics_inv_parts [OF i] feed_setup_def)
  next
    case (3 ov)
    have "override_ok P ov" using 3 title_of_ok ics_inv_parts(3) [OF i] by (simp add: override_ok_def title_ok_def)
    moreover have "shown_ok (P\<lparr>overrides := x\<rparr>) = shown_ok P" "override_ok (P\<lparr>overrides := x\<rparr>) = override_ok P" for x
      by (simp_all add: fun_eq_iff shown_ok_def override_ok_def overlaps_def)
    ultimately show ?thesis using i 3(1,2) by (simp add: ics_inv_def tables_ok_def events_ok_def feed_setup_def)
  next
    case 4
    then show ?thesis using emit_all_inv [OF i] ics_inv_parts(3) [OF i] by simp
  qed (use i in simp)
qed

lemma endEvent_inv:
  assumes i: "ics_inv evs st P" and e: "endEvent mk P = Some Q"
  shows "ics_inv evs st Q"
proof -
  obtain u d a where eff: "event_effect d a (P\<lparr>raw := (raw P)\<lparr>rawUid := u\<rparr>\<rparr>) Q" by (rule endEvent_cases [OF e])
  have "ics_inv evs st (P\<lparr>raw := (raw P)\<lparr>rawUid := u\<rparr>\<rparr>)"
    by (rule ics_inv_cong [OF i]) (simp_all add: ics_inv_parts [OF i] feed_setup_def)
  from event_effect_inv [OF this eff] show ?thesis .
qed

section \<open>Every line keeps the invariant\<close>

lemma weekdayBit_range: "weekdayBit s = Some b \<Longrightarrow> b \<le> 6"
  unfolding weekdayBit_def by (drule first_index_SomeD) (simp add: weekday_names_def)

lemma vtz_rule_prop_ok: "vrule_ok r \<Longrightarrow> vrule_ok (vtz_rule_prop r nm v)"
  by (auto simp: vtz_rule_prop_def set_transition_def vrule_ok_def Let_def split: option.splits dest!: weekdayBit_range)

lemma inv_fields:
  assumes "ics_inv evs st P"
  shows "ics_inv evs st (P\<lparr>skipDepth := x\<rparr>)" "ics_inv evs st (P\<lparr>inEvent := y\<rparr>)" "ics_inv evs st (P\<lparr>vtzSection := n\<rparr>)"
    "ics_inv evs st (P\<lparr>inVtz := y\<rparr>)"
    "vrule_ok (stdRule z) \<Longrightarrow> vrule_ok (dstRule z) \<Longrightarrow> ics_inv evs st (P\<lparr>curVtz := z\<rparr>)"
    "length (summary r) \<le> MAX_TITLE \<Longrightarrow> ics_inv evs st (P\<lparr>raw := r\<rparr>)"
    "ics_inv evs st (P\<lparr>truncated := y\<rparr>)"
    "ics_inv evs st (P\<lparr>lineBuf := l\<rparr>)" "ics_inv evs st (P\<lparr>logical := l\<rparr>)" "ics_inv evs st (P\<lparr>havePending := y\<rparr>)"
  by (rule ics_inv_cong [OF assms]; simp add: feed_setup_def ics_inv_parts [OF assms])+

text \<open>Results: whatever the branch, the invariant holds afterwards.\<close>

abbreviation keeps :: "Event list \<Rightarrow> u8 \<times> int \<times> int \<times> nat \<Rightarrow> IcsParser option \<Rightarrow> bool" where
  "keeps evs st \<equiv> pred_option (ics_inv evs st)"

lemma keeps_intros:
  "I P \<Longrightarrow> pred_option I (Some P)"
  "(c \<Longrightarrow> pred_option I R) \<Longrightarrow> (\<not> c \<Longrightarrow> pred_option I S) \<Longrightarrow> pred_option I (if c then R else S)"
  "(\<And>x. y = Some x \<Longrightarrow> I (f x)) \<Longrightarrow> pred_option I (map_option f y)"
  "(\<And>x. z = Some x \<Longrightarrow> pred_option I (g x)) \<Longrightarrow> pred_option I (case z of None \<Rightarrow> None | Some x \<Rightarrow> g x)"
  by (auto simp: pred_option_def split: option.splits)

lemma inv_if: "(c \<Longrightarrow> ics_inv evs st P) \<Longrightarrow> (\<not> c \<Longrightarrow> ics_inv evs st Q) \<Longrightarrow> ics_inv evs st (if c then P else Q)"
  by simp

lemma keepsD: "pred_option I R \<Longrightarrow> R = Some Q \<Longrightarrow> I Q"
  by simp

lemma init_ok: "vrule_ok (stdRule Vtz_init)" "vrule_ok (dstRule Vtz_init)" "length (summary RawEvent_init) \<le> MAX_TITLE"
  by (simp_all add: Vtz_init_def VtzRule_init_def vrule_ok_def RawEvent_init_def)

lemma handleVtzProp_inv: "ics_inv evs st P \<Longrightarrow> ics_inv evs st (handleVtzProp P nm v)"
  unfolding handleVtzProp_def Let_def
  by (intro inv_if inv_fields) (simp_all add: ics_inv_parts vtz_rule_prop_ok)

lemma begin_block_inv: "ics_inv evs st P \<Longrightarrow> ics_inv evs st (begin_block P v)"
  unfolding begin_block_def by (intro inv_if inv_fields init_ok)

lemma end_vtz_inv:
  assumes i: "ics_inv evs st P"
  shows "ics_inv evs st (end_vtz P)"
proof -
  define z where "z = (curVtz P)\<lparr>hasDst := ruleValid (dstRule (curVtz P)) \<and> ruleMonth (dstRule (curVtz P)) \<noteq> 0 \<and>
    ruleMonth (stdRule (curVtz P)) \<noteq> 0\<rparr>"
  have z: "zone_ok z" using ics_inv_parts [OF i] by (simp add: z_def zone_ok_def)
  have "ics_inv evs st (P\<lparr>inVtz := False, curVtz := z, vtimezones := vtimezones P @ [z]\<rparr>)"
    if "length (vtimezones P) < MAX_VTIMEZONES"
  proof -
    have "shown_ok (P\<lparr>inVtz := False, curVtz := z, vtimezones := vtimezones P @ [z]\<rparr>) = shown_ok P"
      "override_ok (P\<lparr>inVtz := False, curVtz := z, vtimezones := vtimezones P @ [z]\<rparr>) = override_ok P"
      by (simp_all add: fun_eq_iff shown_ok_def override_ok_def overlaps_def)
    moreover have "vrule_ok (stdRule z)" "vrule_ok (dstRule z)" using z by (simp_all add: zone_ok_def)
    ultimately show ?thesis using i that z
      by (auto simp: ics_inv_def tables_ok_def events_ok_def feed_setup_def)
  qed
  then show ?thesis using inv_fields(4) [OF i] by (simp add: end_vtz_def Let_def z_def)
qed

lemma end_block_inv: "ics_inv evs st P \<Longrightarrow> keeps evs st (end_block mk P v)"
  unfolding end_block_def by (intro keeps_intros inv_fields end_vtz_inv) (auto dest: endEvent_inv)

lemma handleEventProp_inv: "ics_inv evs st P \<Longrightarrow> keeps evs st (handleEventProp mk P nm ps v)"
  unfolding handleEventProp_def Let_def
  by (intro keeps_intros inv_fields) (simp_all add: ics_inv_parts substring_def)

lemma process_inv: "ics_inv evs st P \<Longrightarrow> keeps evs st (processLogicalLine mk P line)"
  unfolding processLogicalLine_def
  by (cases "split_line line")
     (auto intro!: keeps_intros end_block_inv handleEventProp_inv handleVtzProp_inv begin_block_inv)

lemma process_lines_inv: "ics_inv evs st P \<Longrightarrow> keeps evs st (process_lines mk P ls)"
  by (induction ls arbitrary: P) (auto intro!: keeps_intros dest: keepsD [OF process_inv])

section \<open>The whole feed\<close>

lemma handlePhysicalLine_inv: "ics_inv evs st P \<Longrightarrow> keeps evs st (handlePhysicalLine mk P)"
  unfolding handlePhysicalLine_def
  by (intro keeps_intros inv_if inv_fields) (auto split: if_splits dest: keepsD [OF process_inv])

lemma feed_inv: "ics_inv evs st P \<Longrightarrow> keeps evs st (feed mk P ics)"
proof (induction ics arbitrary: P)
  case (Cons c cs)
  have "keeps evs st (feed_char mk P c)"
    unfolding feed_char_def using Cons.prems
    by (intro keeps_intros inv_if inv_fields) (auto dest: keepsD [OF handlePhysicalLine_inv])
  then show ?case by (auto intro!: keeps_intros Cons.IH dest: keepsD)
qed (simp add: keeps_intros)

lemma set_erase_base: "set (erase_base ov es) \<subseteq> set es" "length (erase_base ov es) \<le> length es"
  by (induction es) auto

lemma reconcile_one_inv:
  assumes i: "ics_inv evs st P" and ov: "override_ok P ov"
  shows "ics_inv evs st (reconcile_one P ov) \<and> overrides (reconcile_one P ov) = overrides P"
proof -
  have c: "shown_ok (P\<lparr>out := x\<rparr>) = shown_ok P" "override_ok (P\<lparr>out := x\<rparr>) = override_ok P"
    "overlaps (P\<lparr>out := x\<rparr>) = overlaps P" for x
    by (simp_all add: fun_eq_iff shown_ok_def override_ok_def overlaps_def)
  have l: "length (erase_base ov (out P)) \<le> max (length evs) (maxEvents P)"
    using i set_erase_base(2) [of ov "out P"] by (simp add: ics_inv_def events_ok_def)
  have e: "ics_inv evs st (P\<lparr>out := erase_base ov (out P)\<rparr>)"
    using i l set_erase_base(1) [of ov "out P"]
    by (auto simp: ics_inv_def tables_ok_def events_ok_def feed_setup_def c)
  have a: "ics_inv evs st (P\<lparr>out := erase_base ov (out P) @ [ov]\<rparr>)"
    if "occStatus ov \<noteq> CANCELLED" "overlaps P (occStart ov) (occEnd ov)" "length (erase_base ov (out P)) < maxEvents P"
  proof -
    have "shown_ok P ov" using that ov by (simp add: shown_ok_def override_ok_def)
    with e that(3) show ?thesis
      by (auto simp: ics_inv_def tables_ok_def events_ok_def feed_setup_def c)
  qed
  show ?thesis
    using e a inv_fields(7) [OF e] by (simp add: reconcile_one_def Let_def c)
qed

lemma override_ok_setup: "feed_setup P = feed_setup Q \<Longrightarrow> override_ok P = override_ok Q"
  by (simp add: fun_eq_iff override_ok_def feed_setup_def)

lemma reconcile_fold_inv:
  "ics_inv evs st P \<Longrightarrow> (\<forall>ov \<in> set ovs. override_ok P ov) \<Longrightarrow> ics_inv evs st (foldl reconcile_one P ovs)"
proof (induction ovs arbitrary: P)
  case (Cons ov ovs)
  have i: "ics_inv evs st (reconcile_one P ov)" using reconcile_one_inv Cons.prems by simp
  then have "feed_setup (reconcile_one P ov) = feed_setup P" using Cons.prems(1) by (simp add: ics_inv_def)
  from override_ok_setup [OF this] Cons.IH [OF i] Cons.prems(2) show ?case by simp
qed simp

lemma reconcile_inv:
  assumes i: "ics_inv evs st P"
  shows "ics_inv evs st (reconcile P)"
proof -
  have "ics_inv evs st (foldl reconcile_one P (overrides P))"
    using i by (intro reconcile_fold_inv) (auto simp: ics_inv_def events_ok_def)
  then show ?thesis
    by (simp add: reconcile_def ics_inv_def tables_ok_def events_ok_def feed_setup_def shown_ok_def overlaps_def)
qed

lemma finish_inv: "ics_inv evs st P \<Longrightarrow> keeps evs st (finish mk P)"
  unfolding finish_def
  by (intro keeps_intros reconcile_inv)
     (auto split: if_splits intro: inv_fields(10) dest: keepsD [OF handlePhysicalLine_inv] keepsD [OF process_inv])

lemma parse_inv: "ics_inv evs st P \<Longrightarrow> keeps evs st (parse mk P ics)"
  unfolding parse_def by (intro keeps_intros finish_inv) (auto dest: keepsD [OF feed_inv])

text \<open>whatever bytes a feed consists of, the events it leaves are those that were there before and events of this
  feed that overlap the window, are not cancelled and have a title of 1 to 120 bytes; there are never more than
  \<^verbatim>\<open>maxEvents\<close> of them, unless the caller passed in more.\<close>

theorem parse_events_shown:
  assumes "parse mk (IcsParser_new evs ci ws we mx) ics = Some Q"
  shows "length (out Q) \<le> max (length evs) mx \<and>
    (\<forall>e \<in> set (out Q). e \<in> set evs \<or>
       occEnd e > ws \<and> occStart e < we \<and> calIndex e = ci \<and> occStatus e \<noteq> CANCELLED \<and>
       occTitle e \<noteq> [] \<and> length (occTitle e) \<le> 120)"
proof -
  from keepsD [OF parse_inv [OF ics_inv_new] assms] have i: "ics_inv evs (ci, ws, we, mx) Q" .
  then have s: "feedIndex Q = ci" "windowStart Q = ws" "windowEnd Q = we" "maxEvents Q = mx"
    by (simp_all add: ics_inv_def feed_setup_def)
  show ?thesis
    using i by (simp add: ics_inv_def events_ok_def shown_ok_def overlaps_def title_ok_def s MAX_TITLE_def)
qed

lemma buffers_process: "processLogicalLine mk P l = Some Q \<Longrightarrow> buffers_ok P \<Longrightarrow> buffers_ok Q"
  using process_keeps_lines [of mk P l Q] by (simp add: buffers_ok_def)

lemma buffers_physical: "handlePhysicalLine mk P = Some Q \<Longrightarrow> buffers_ok P \<Longrightarrow> buffers_ok Q \<and> lineBuf Q = lineBuf P"
  by (auto simp: handlePhysicalLine_def buffers_ok_def MAX_LOGICAL_LINE_def substring_def split: if_splits
      dest: process_keeps_lines)

lemma buffers_feed: "feed mk P ics = Some Q \<Longrightarrow> buffers_ok P \<Longrightarrow> buffers_ok Q"
proof (induction ics arbitrary: P)
  case (Cons c cs)
  then obtain R where R: "feed_char mk P c = Some R" "feed mk R cs = Some Q" by (auto split: option.splits)
  have "buffers_ok R"
    using R(1) Cons.prems(2) buffers_physical
    by (auto simp: feed_char_def buffers_ok_def split: if_splits)
  with R Cons.IH show ?case by blast
qed simp

text \<open>the memory a feed takes is bounded: after any bytes, the physical line holds at most 4096 bytes, the
  logical line fewer than 8192, there are at most 200 overrides and 12 time zones, and a title at most 120 bytes.\<close>

theorem feed_memory_bounded:
  assumes "feed mk (IcsParser_new evs ci ws we mx) ics = Some Q"
  shows "length (lineBuf Q) \<le> 4096 \<and> length (logical Q) < 8192 \<and> length (overrides Q) \<le> 200 \<and>
    length (vtimezones Q) \<le> 12 \<and> length (summary (raw Q)) \<le> 120 \<and> length (out Q) \<le> max (length evs) mx"
proof -
  have "buffers_ok Q"
    using buffers_feed [OF assms] by (simp add: buffers_ok_def IcsParser_new_def MAX_LOGICAL_LINE_def)
  moreover have "ics_inv evs (ci, ws, we, mx) Q" by (rule keepsD [OF feed_inv [OF ics_inv_new] assms])
  ultimately show ?thesis
    by (auto simp: buffers_ok_def ics_inv_def tables_ok_def events_ok_def feed_setup_def MAX_LOGICAL_LINE_def
        MAX_OVERRIDES_def MAX_VTIMEZONES_def MAX_TITLE_def)
qed

end
