(* ===== verification/Ics_Total.thy ===== *)
theory Ics_Total
  imports Ics_Safety
begin

text \<open>
  Every feed with sensible DTSTART months is parsed to its end: the loops terminate within their
  bounds and the table of month lengths is only read inside its twelve entries. A month outside
  1 to 12 in a recurring event's DTSTART does reach the table.
\<close>

section \<open>Dates\<close>

lemma transitionDayNum_Some: "1 \<le> m \<Longrightarrow> m \<le> 12 \<Longrightarrow> \<exists>z. transitionDayNum y m w d = Some z"
  using daysInMonth_None [of y m] by (cases "daysInMonth y m") (simp_all add: transitionDayNum_def Let_def)

lemma tzOffsetFor_Some: "zone_ok z \<Longrightarrow> \<exists>off. tzOffsetFor z c = Some off"
proof (cases "hasDst z")
  case True
  assume "zone_ok z"
  with True have "1 \<le> ruleMonth (dstRule z)" "ruleMonth (dstRule z) \<le> 12" "1 \<le> ruleMonth (stdRule z)" "ruleMonth (stdRule z) \<le> 12"
    by (auto simp: zone_ok_def vrule_ok_def)
  then obtain a b where "rule_day (civY c) (dstRule z) = Some a" "rule_day (civY c) (stdRule z) = Some b"
    unfolding rule_day_def using transitionDayNum_Some by meson
  with True show ?thesis by (simp add: tzOffsetFor_def Let_def)
qed (simp add: tzOffsetFor_def)

definition zones_ok :: "Vtz list \<Rightarrow> bool" where
  "zones_ok zones \<longleftrightarrow> (\<forall>z \<in> set zones. zone_ok z)"

lemma civilToEpoch_Some: "zones_ok zones \<Longrightarrow> \<exists>t. civilToEpoch mk zones c zi u = Some t"
proof -
  assume z: "zones_ok zones"
  show ?thesis
  proof (cases "\<not> u \<and> zi \<ge> 0 \<and> zi < int (length zones)")
    case True
    then have "zones ! nat zi \<in> set zones" by (intro nth_mem) linarith
    with z obtain off where "tzOffsetFor (zones ! nat zi) c = Some off" using tzOffsetFor_Some unfolding zones_ok_def by blast
    with True show ?thesis by (simp add: civilToEpoch_def)
  qed (auto simp: civilToEpoch_def)
qed

text \<open>The month field of a date value, and values whose month, if they have one, is a month.\<close>

definition month_field :: "string \<Rightarrow> int" where
  "month_field v = digit (c_str v ! 4) * 10 + digit (c_str v ! 5)"

definition good_start :: "string \<Rightarrow> bool" where
  "good_start v \<longleftrightarrow> (length (c_str v) \<ge> 8 \<longrightarrow> 1 \<le> month_field v \<and> month_field v \<le> 12)"

lemma parseDateTime_Some:
  assumes "zones_ok zones"
  shows "\<exists>t isD parts. parseDateTime mk zones v ps = Some (t, isD, parts) \<and>
    (t = 0 \<or> length (c_str v) \<ge> 8 \<and> civMo (civil parts) = month_field v)"
proof -
  have c: "\<exists>t isD parts. map_option (\<lambda>t. (t, False, \<lparr>civil = c, vtzIndex = zi, utc = u, isDatePart = False\<rparr>))
        (civilToEpoch mk zones c zi u) = Some (t, isD, parts) \<and> civMo (civil parts) = civMo c" for c zi u
    using civilToEpoch_Some [OF assms, of mk c zi u] by auto
  show ?thesis
    unfolding parseDateTime_def Let_def
    by (auto simp: month_field_def split: if_splits intro: c [THEN exE])
qed


lemma exdate_loop_Some: "zones_ok zones \<Longrightarrow> \<exists>xs'. exdate_loop mk zones ps vs xs = Some xs'"
proof (induction vs arbitrary: xs)
  case (Cons v vs)
  obtain t isD parts where "parseDateTime mk zones v ps = Some (t, isD, parts)"
    using parseDateTime_Some [OF Cons.prems] by blast
  with Cons show ?case by simp
qed simp

lemma event_duration_Some: "zones_ok zones \<Longrightarrow> \<exists>d. event_duration mk zones r s isD = Some d"
proof -
  assume z: "zones_ok zones"
  obtain t isD parts where "parseDateTime mk zones (dtEnd r) (dtEndParams r) = Some (t, isD, parts)"
    using parseDateTime_Some [OF z] by blast
  then show ?thesis by (simp add: event_duration_def)
qed

lemma with_until_Some: "zones_ok zones \<Longrightarrow> \<exists>r. with_until mk zones rr rule = Some r \<and> interval r = interval rule"
proof -
  assume z: "zones_ok zones"
  obtain t isD parts where "parseDateTime mk zones (extractRruleValue rr ''UNTIL'') [] = Some (t, isD, parts)"
    using parseDateTime_Some [OF z] by blast
  then show ?thesis by (simp add: with_until_def Let_def)
qed

section \<open>The loops end\<close>

lemma byday_interval: "interval (byday_item r d) = interval r"
  by (simp add: byday_item_def Let_def split: option.splits)

lemma foldl_byday_interval: "interval (foldl byday_item r ds) = interval r"
  by (induction ds arbitrary: r) (simp_all add: byday_interval)

lemma if_interval: "(c \<Longrightarrow> 1 \<le> interval x) \<Longrightarrow> (\<not> c \<Longrightarrow> 1 \<le> interval y) \<Longrightarrow> 1 \<le> interval (if c then x else y)"
  by simp

lemma rrule_parts_interval: "1 \<le> interval r \<Longrightarrow> 1 \<le> interval (rrule_parts r ps)"
proof (induction ps arbitrary: r)
  case (Cons part parts)
  show ?case
  proof (cases "indexOf part (CHR ''='') 0")
    case None
    with Cons show ?thesis by simp
  next
    case (Some eq)
    show ?thesis
      unfolding rrule_parts.simps Let_def Some option.case
      by (intro if_interval Cons.IH) (use Cons.prems in \<open>simp_all add: foldl_byday_interval\<close>)
  qed
qed simp

lemma parseRrule_interval: "1 \<le> interval (parseRrule s)"
  unfolding parseRrule_def by (rule rrule_parts_interval) (simp add: Rrule_init_def)

lemma emitIfDue_zones: "emitIfDue r rule d a t rem P = (go, rem', P') \<Longrightarrow> vtimezones P' = vtimezones P"
  by (auto simp: emitIfDue_def emitOccurrence_def split: if_splits)

lemma emit_then:
  assumes "\<And>rem' P'. vtimezones P' = vtimezones P \<Longrightarrow> \<exists>Q. loop rem' P' = Some Q"
  shows "\<exists>Q. (case emitIfDue r rule d a t rem P of (go, rem', P') \<Rightarrow>
      if \<not> go then Some P' else if rem' = 0 then Some P' else loop rem' P') = Some Q"
proof -
  obtain go rem' P' where e: "emitIfDue r rule d a t rem P = (go, rem', P')" by (rule prod_cases3)
  from assms [OF emitIfDue_zones [OF e]] e show ?thesis by auto
qed

lemma occurrenceAt_Some: "zones_ok zones \<Longrightarrow> \<exists>t. occurrenceAt mk zones parts n = Some t"
  using civilToEpoch_Some by (cases "civilFromDays n") (simp add: occurrenceAt_def)

lemma day_loop_Some:
  "zones_ok (vtimezones P) \<Longrightarrow> \<exists>Q. day_loop mk r rule parts d a m sd d0 k n rem P = Some Q"
proof (induction k arbitrary: n rem P)
  case (Suc k)
  obtain occ where occ: "occurrenceAt mk (vtimezones P) parts (d0 + n) = Some occ"
    using occurrenceAt_Some [OF Suc.prems] by blast
  have "\<exists>Q. day_loop mk r rule parts d a m sd d0 k (n + 1) rem' P' = Some Q" if "vtimezones P' = vtimezones P" for rem' P'
    using Suc that by simp
  note step = emit_then [of P "\<lambda>rem' P'. day_loop mk r rule parts d a m sd d0 k (n + 1) rem' P'", OF this]
  show ?case using occ step Suc.IH [OF Suc.prems] by simp
qed simp

lemma month_loop_Some:
  "zones_ok (vtimezones P) \<Longrightarrow> 1 \<le> civMo (civil parts) \<Longrightarrow> 1 \<le> interval rule \<Longrightarrow> 0 \<le> m \<Longrightarrow>
   MAX_MONTH_ITERATIONS - m \<le> int k \<Longrightarrow> \<exists>Q. month_loop mk r rule parts d a s k m rem P = Some Q"
proof (induction k arbitrary: m rem P)
  case (Suc k)
  define mon where "mon = c_mod (civMo (civil parts) + m - 1) 12 + 1"
  define y where "y = civY (civil parts) + c_div (civMo (civil parts) + m - 1) 12"
  have "0 \<le> civMo (civil parts) + m - 1" using Suc.prems by linarith
  then have "1 \<le> mon" "mon \<le> 12" by (simp_all add: mon_def)
  then obtain dim where dim: "daysInMonth y mon = Some dim" using daysInMonth_None by blast
  have next_pass: "\<exists>Q. month_loop mk r rule parts d a s k (m + interval rule) rem' P' = Some Q"
    if "vtimezones P' = vtimezones P" for rem' P'
    using Suc.prems that by (intro Suc.IH) simp_all
  have epoch: "\<exists>t. civilToEpoch mk (vtimezones P) c zi u = Some t" for c zi u
    by (rule civilToEpoch_Some [OF Suc.prems(1)])
  note step = emit_then [of P "\<lambda>rem' P'. month_loop mk r rule parts d a s k (m + interval rule) rem' P'", OF next_pass]
  show ?case
    using dim next_pass [of P] epoch [THEN exE] step
    by (auto simp: Let_def mon_def [symmetric] y_def [symmetric] split: option.splits) (metis option.distinct(1))
qed simp

lemma year_loop_Some:
  "zones_ok (vtimezones P) \<Longrightarrow> 1 \<le> civMo (civil parts) \<Longrightarrow> civMo (civil parts) \<le> 12 \<Longrightarrow> 1 \<le> interval rule \<Longrightarrow>
   MAX_YEAR_ITERATIONS - y \<le> int k \<Longrightarrow> \<exists>Q. year_loop mk r rule parts d a k y rem P = Some Q"
proof (induction k arbitrary: y rem P)
  case (Suc k)
  obtain dim where dim: "daysInMonth (civY (civil parts) + y) (civMo (civil parts)) = Some dim"
    using daysInMonth_None Suc.prems by blast
  have next_pass: "\<exists>Q. year_loop mk r rule parts d a k (y + interval rule) rem' P' = Some Q"
    if "vtimezones P' = vtimezones P" for rem' P'
    using Suc.prems that by (intro Suc.IH) simp_all
  have epoch: "\<exists>t. civilToEpoch mk (vtimezones P) c zi u = Some t" for c zi u
    by (rule civilToEpoch_Some [OF Suc.prems(1)])
  note step = emit_then [of P "\<lambda>rem' P'. year_loop mk r rule parts d a k (y + interval rule) rem' P'", OF next_pass]
  show ?case
    using dim next_pass [of P] epoch [THEN exE] step
    by (auto simp: Let_def split: option.splits) (metis option.distinct(1))
qed simp

lemma expandRecurrence_defined:
  assumes z: "zones_ok (vtimezones P)" and m: "1 \<le> civMo (civil parts)" "civMo (civil parts) \<le> 12"
  shows "\<exists>Q. expandRecurrence mk P r start parts d a = Some Q"
proof (cases "rvalid (parseRrule (rrule r))")
  case True
  obtain rule where rule: "with_until mk (vtimezones P) (rrule r) (parseRrule (rrule r)) = Some rule" "1 \<le> interval rule"
    using with_until_Some [OF z, of mk "rrule r" "parseRrule (rrule r)"] parseRrule_interval by metis
  have "\<exists>Q. month_loop mk r rule parts d a start 1200 0 (rcount rule) P = Some Q"
    using z m rule(2) by (intro month_loop_Some) (simp_all add: MAX_MONTH_ITERATIONS_def)
  moreover have "\<exists>Q. year_loop mk r rule parts d a 100 0 (rcount rule) P = Some Q"
    using z m rule(2) by (intro year_loop_Some) (simp_all add: MAX_YEAR_ITERATIONS_def)
  ultimately show ?thesis
    using True rule(1) day_loop_Some [OF z]
    by (cases "freq rule") (simp_all add: expandRecurrence_def Let_def)
qed (simp add: expandRecurrence_def)

text \<open>C38: expanding a recurring event always ends, without reading the month table out of bounds, if the months of the
  time zone rules in use and of DTSTART are months: the passes of each loop suffice for every interval.\<close>

theorem expandRecurrence_terminates:
  assumes "zones_ok (vtimezones P)" and "1 \<le> civMo (civil parts)" "civMo (civil parts) \<le> 12"
  shows "\<exists>Q. expandRecurrence mk P r start parts d a = Some Q"
  by (rule expandRecurrence_defined [OF assms])

section \<open>The whole feed\<close>

definition line_ok :: "string \<Rightarrow> bool" where
  "line_ok line = (case split_line line of None \<Rightarrow> True | Some (nm, _, v) \<Rightarrow> c_str nm = ''DTSTART'' \<longrightarrow> good_start v)"

definition total_inv :: "Event list \<Rightarrow> u8 \<times> int \<times> int \<times> nat \<Rightarrow> IcsParser \<Rightarrow> bool" where
  "total_inv evs st P \<longleftrightarrow> ics_inv evs st P \<and> good_start (dtStart (raw P))"

lemma total_zones: "total_inv evs st P \<Longrightarrow> zones_ok (vtimezones P)"
  by (simp add: total_inv_def ics_inv_def tables_ok_def zones_ok_def)

lemma good_start_Nil: "good_start []"
  by (simp add: good_start_def c_str_def)

lemma end_override_Some: "zones_ok (vtimezones P) \<Longrightarrow> \<exists>Q. end_override mk P s d a = Some Q"
  using parseDateTime_Some [of "vtimezones P" mk "recurrenceId (raw P)" "recurrenceIdParams (raw P)"]
  by (auto simp: end_override_def Let_def)

lemma with_uid_simps [simp]:
  "vtimezones (with_uid P s) = vtimezones P" "dtStart (raw (with_uid P s)) = dtStart (raw P)"
  by (simp_all add: with_uid_def)

lemma dispatch_Some:
  assumes "zones_ok (vtimezones P)" "1 \<le> civMo (civil parts)" "civMo (civil parts) \<le> 12"
  shows "\<exists>Q. dispatch_event mk P s parts d a = Some Q"
  using expandRecurrence_defined [OF assms] end_override_Some [OF assms(1)]
  by (simp add: dispatch_event_def)

lemma endEvent_Some:
  assumes "total_inv evs st P"
  shows "\<exists>Q. endEvent mk P = Some Q"
proof -
  note z = total_zones [OF assms]
  obtain t isD parts where p: "parseDateTime mk (vtimezones P) (dtStart (raw P)) (dtStartParams (raw P)) = Some (t, isD, parts)"
    "t = 0 \<or> length (c_str (dtStart (raw P))) \<ge> 8 \<and> civMo (civil parts) = month_field (dtStart (raw P))"
    using parseDateTime_Some [OF z] by blast
  obtain d where d: "event_duration mk (vtimezones P) (raw P) t isD = Some d" using event_duration_Some [OF z] by blast
  show ?thesis
  proof (cases "t = 0")
    case True
    with p(1) show ?thesis by (simp add: endEvent_def)
  next
    case False
    with p(2) assms have "1 \<le> civMo (civil parts)" "civMo (civil parts) \<le> 12"
      by (auto simp: total_inv_def good_start_def)
    with z have "\<exists>Q. dispatch_event mk (with_uid P t) t parts d isD = Some Q" by (intro dispatch_Some) simp_all
    with p(1) d False show ?thesis by (simp add: endEvent_def)
  qed
qed

text \<open>The stored DTSTART only changes to the value of such a line, or is cleared.\<close>

lemma event_effect_raw: "event_effect d a P Q \<Longrightarrow> raw Q = raw P"
  by (auto simp: event_effect_def emit_all_result Let_def)

lemma endEvent_dtStart:
  assumes "endEvent mk P = Some Q"
  shows "dtStart (raw Q) = dtStart (raw P)"
proof -
  obtain u d a where "event_effect d a (P\<lparr>raw := (raw P)\<lparr>rawUid := u\<rparr>\<rparr>) Q" by (rule endEvent_cases [OF assms])
  from event_effect_raw [OF this] show ?thesis by simp
qed

abbreviation start_ok :: "IcsParser \<Rightarrow> bool" where
  "start_ok P \<equiv> good_start (dtStart (raw P))"

lemma start_ok_cong: "raw Q = raw P \<Longrightarrow> start_ok P \<Longrightarrow> start_ok Q"
  by simp

lemma start_ok_if: "(c \<Longrightarrow> start_ok P) \<Longrightarrow> (\<not> c \<Longrightarrow> start_ok Q) \<Longrightarrow> start_ok (if c then P else Q)"
  by simp

lemma handleEventProp_start:
  "start_ok P \<Longrightarrow> (c_str nm = ''DTSTART'' \<Longrightarrow> good_start v) \<Longrightarrow> pred_option start_ok (handleEventProp mk P nm ps v)"
  unfolding handleEventProp_def Let_def
  by (intro keeps_intros) (simp_all del: good_start_def)

lemma begin_block_start: "start_ok P \<Longrightarrow> start_ok (begin_block P v)"
  unfolding begin_block_def by (intro start_ok_if) (simp_all add: RawEvent_init_def good_start_Nil)

lemma handleVtzProp_start: "start_ok P \<Longrightarrow> start_ok (handleVtzProp P nm v)"
  unfolding handleVtzProp_def Let_def by (intro start_ok_if) simp_all

lemma end_block_start: "start_ok P \<Longrightarrow> pred_option start_ok (end_block mk P v)"
  unfolding end_block_def by (intro keeps_intros) (auto simp: end_vtz_def Let_def dest!: endEvent_dtStart)

lemma process_start:
  assumes "start_ok P" and "line_ok line"
  shows "pred_option start_ok (processLogicalLine mk P line)"
proof (cases "split_line line")
  case None
  with assms(1) show ?thesis by (simp add: processLogicalLine_def)
next
  case (Some x)
  obtain nm ps v where x: "x = (nm, ps, v)" by (rule prod_cases3)
  have "c_str nm = ''DTSTART'' \<Longrightarrow> good_start v" using assms(2) Some x by (simp add: line_ok_def)
  then show ?thesis
    unfolding processLogicalLine_def Some x option.case prod.case
    by (intro keeps_intros handleEventProp_start begin_block_start handleVtzProp_start end_block_start assms(1))
qed

lemma process_total:
  assumes i: "total_inv evs st P" and l: "line_ok line"
  shows "\<exists>Q. processLogicalLine mk P line = Some Q \<and> total_inv evs st Q"
proof -
  note z = total_zones [OF i]
  have h: "\<exists>Q. handleEventProp mk P nm ps v = Some Q" for nm ps v
    using exdate_loop_Some [OF z] by (auto simp: handleEventProp_def Let_def)
  have e: "\<exists>Q. end_block mk P v = Some Q" for v
    using endEvent_Some [OF i] by (auto simp: end_block_def)
  have "\<exists>Q. processLogicalLine mk P line = Some Q"
    unfolding processLogicalLine_def by (cases "split_line line") (simp_all add: h e split: prod.split)
  then obtain Q where Q: "processLogicalLine mk P line = Some Q" by blast
  moreover have "ics_inv evs st P" "start_ok P" using i by (simp_all add: total_inv_def)
  ultimately show ?thesis
    using keepsD [OF process_inv Q] keepsD [OF process_start [OF _ l] Q] by (simp add: total_inv_def)
qed

lemma process_lines_total:
  "total_inv evs st P \<Longrightarrow> list_all line_ok ls \<Longrightarrow> \<exists>Q. process_lines mk P ls = Some Q"
proof (induction ls arbitrary: P)
  case (Cons l ls)
  then obtain Q where "processLogicalLine mk P l = Some Q" "total_inv evs st Q" using process_total [of evs st P l mk] by auto
  with Cons show ?case by simp
qed simp

text \<open>C37: a feed whose DTSTART lines have months from 1 to 12 is parsed to its end, whatever else it contains, if its
  lines fit the buffers.\<close>

theorem parse_completes:
  assumes "fits_buffers ics" and "list_all line_ok (logical_lines ics)"
  shows "\<exists>Q. parse mk (IcsParser_new evs ci ws we mx) ics = Some Q"
proof -
  have "total_inv evs (ci, ws, we, mx) (IcsParser_new evs ci ws we mx)"
    using ics_inv_new good_start_Nil by (simp add: total_inv_def IcsParser_new_def RawEvent_init_def)
  from process_lines_total [OF this assms(2), of mk] feed_unfolds_lines [OF assms(1), of mk evs ci ws we mx]
  show ?thesis by (cases "parse mk (IcsParser_new evs ci ws we mx) ics") auto
qed

lemma with_until_freq: "with_until mk zones rr rule = Some rule' \<Longrightarrow> freq rule' = freq rule"
  by (auto simp: with_until_def Let_def split: if_splits option.splits)

text \<open>C39: the month is not checked: with a rule the parser accepts, a yearly event whose start has a month outside 1 to 12, and a monthly event that starts in
  month 0, makes the parser read the table of month lengths out of bounds, whatever else its rule says.\<close>

theorem bad_month_reads_out_of_bounds:
  assumes "rvalid (parseRrule (rrule r))"
    and "freq (parseRrule (rrule r)) = YEARLY \<and> (civMo (civil parts) < 1 \<or> civMo (civil parts) > 12) \<or>
      freq (parseRrule (rrule r)) = MONTHLY \<and> civMo (civil parts) = 0"
  shows "expandRecurrence mk P r start parts d a = None"
proof -
  have "year_loop mk r rule parts d a 100 0 rem P = None" if "civMo (civil parts) < 1 \<or> civMo (civil parts) > 12" for rule rem
  proof -
    have "daysInMonth y (civMo (civil parts)) = None" for y using that by (auto simp: daysInMonth_None)
    then show ?thesis by (simp add: numeral_eq_Suc MAX_YEAR_ITERATIONS_def)
  qed
  moreover have "month_loop mk r rule parts d a start 1200 0 rem P = None" if "civMo (civil parts) = 0" for rule rem
  proof -
    have mon: "c_mod (civMo (civil parts) + 0 - 1) 12 + 1 = 0" by (simp add: that c_mod_def c_div_def)
    have "daysInMonth y 0 = None" for y by (simp add: daysInMonth_None)
    moreover have "(1200 :: nat) = Suc 1199" by simp
    ultimately show ?thesis by (simp only: month_loop.simps mon Let_def option.case) (simp add: MAX_MONTH_ITERATIONS_def)
  qed
  ultimately show ?thesis
    using assms by (auto simp: expandRecurrence_def Let_def dest: with_until_freq split: option.split)
qed

section \<open>Witnesses\<close>

definition no_clock :: mktime where
  "no_clock y mo d h mi s = ((y * 12 + mo) * 31 + d) * 86400 + h * 3600 + mi * 60 + s"

lemma parse_total_example: "\<exists>Q. parse no_clock (IcsParser_new [] 0 0 100 64) ''BEGIN:VEVENT'' = Some Q"
proof -
  have "parse no_clock (IcsParser_new [] 0 0 100 64) ''BEGIN:VEVENT'' \<noteq> None" by code_simp
  then show ?thesis by blast
qed

theorem parse_completes_witness:
  "\<exists>Q. parse no_clock (IcsParser_new [] 0 0 100 64) ''BEGIN:VEVENT'' = Some Q"
proof (rule parse_completes)
  show "fits_buffers ''BEGIN:VEVENT''" "list_all line_ok (logical_lines ''BEGIN:VEVENT'')" by code_simp+
qed

theorem expandRecurrence_terminates_witness:
  "\<exists>Q. expandRecurrence no_clock (IcsParser_new [] 0 0 100 64) (RawEvent_init\<lparr>rrule := ''FREQ=MONTHLY;INTERVAL=2''\<rparr>)
     0 (DtParts_init\<lparr>civil := Civil_init\<lparr>civY := 2026, civMo := 1, civD := 31\<rparr>\<rparr>) 3600 False = Some Q"
  by (rule expandRecurrence_terminates) (simp_all add: IcsParser_new_def zones_ok_def DtParts_init_def Civil_init_def)

theorem bad_month_reads_out_of_bounds_witness:
  "expandRecurrence no_clock (IcsParser_new [] 0 0 100 64) (RawEvent_init\<lparr>rrule := ''FREQ=MONTHLY''\<rparr>)
     0 (DtParts_init\<lparr>civil := Civil_init\<lparr>civY := 2026, civMo := 0, civD := 1\<rparr>\<rparr>) 3600 False = None \<and>
   expandRecurrence no_clock (IcsParser_new [] 0 0 100 64) (RawEvent_init\<lparr>rrule := ''FREQ=YEARLY;UNTIL=20300101''\<rparr>)
     0 (DtParts_init\<lparr>civil := Civil_init\<lparr>civY := 2026, civMo := 13, civD := 1\<rparr>\<rparr>) 3600 False = None"
proof -
  have rules: "rvalid (parseRrule ''FREQ=MONTHLY'')" "freq (parseRrule ''FREQ=MONTHLY'') = MONTHLY"
    "rvalid (parseRrule ''FREQ=YEARLY;UNTIL=20300101'')" "freq (parseRrule ''FREQ=YEARLY;UNTIL=20300101'') = YEARLY"
    by code_simp+
  show ?thesis
    by (intro conjI; rule bad_month_reads_out_of_bounds) (simp_all add: RawEvent_init_def DtParts_init_def Civil_init_def rules)
qed

theorem feed_unfolds_lines_witness:
  "map_option (\<lambda>Q. (out Q, truncated Q)) (parse no_clock (IcsParser_new [] 0 0 100 64) ''BEGIN:VEVENT'') =
    map_option (\<lambda>Q. (out (reconcile Q), truncated (reconcile Q)))
      (process_lines no_clock (IcsParser_new [] 0 0 100 64) (logical_lines ''BEGIN:VEVENT''))"
  by (rule feed_unfolds_lines) code_simp

theorem folding_irrelevant_witness:
  "map_option (\<lambda>Q. (out Q, truncated Q)) (parse no_clock (IcsParser_new [] 0 0 100 64) (folded ''BEGIN:VE'' ''VENT'')) =
    map_option (\<lambda>Q. (out Q, truncated Q)) (parse no_clock (IcsParser_new [] 0 0 100 64) (''BEGIN:VE'' @ ''VENT''))"
  by (rule folding_irrelevant) code_simp+

theorem parse_events_shown_witness:
  "\<exists>Q. parse no_clock (IcsParser_new [] 0 0 100 64) ''BEGIN:VEVENT'' = Some Q \<and> length (out Q) \<le> 64"
proof -
  obtain Q where Q: "parse no_clock (IcsParser_new [] 0 0 100 64) ''BEGIN:VEVENT'' = Some Q"
    using parse_total_example by blast
  from parse_events_shown [OF Q] have "length (out Q) \<le> 64" by simp
  with Q show ?thesis by blast
qed

theorem feed_memory_bounded_witness:
  "\<exists>Q. feed no_clock (IcsParser_new [] 0 0 100 64) ''BEGIN:VEVENT'' = Some Q \<and> length (lineBuf Q) \<le> 4096"
proof -
  obtain Q where Q: "feed no_clock (IcsParser_new [] 0 0 100 64) ''BEGIN:VEVENT'' = Some Q"
    using parse_total_example by (auto simp: parse_def split: option.splits)
  from feed_memory_bounded [OF Q] have "length (lineBuf Q) \<le> 4096" by simp
  with Q show ?thesis by blast
qed

theorem expandRecurrence_bounded_witness:
  "\<exists>Q new. expandRecurrence no_clock (IcsParser_new [] 0 0 1000000 64) (RawEvent_init\<lparr>rrule := ''FREQ=DAILY;COUNT=3''\<rparr>)
     0 (DtParts_init\<lparr>civil := Civil_init\<lparr>civY := 1970, civMo := 1, civD := 1\<rparr>, utc := True\<rparr>) 3600 False = Some Q \<and>
     out Q = new \<and> length new \<le> 3"
proof -
  let ?r = "RawEvent_init\<lparr>rrule := ''FREQ=DAILY;COUNT=3''\<rparr>"
  let ?p = "DtParts_init\<lparr>civil := Civil_init\<lparr>civY := 1970, civMo := 1, civD := 1\<rparr>, utc := True\<rparr>"
  let ?rule = "Rrule_init\<lparr>rcount := 3, rvalid := True\<rparr>"
  have v: "vtimezones (IcsParser_new [] 0 0 1000000 64) = []" by (simp add: IcsParser_new_def)
  obtain Q where Q: "expandRecurrence no_clock (IcsParser_new [] 0 0 1000000 64) ?r 0 ?p 3600 False = Some Q"
    using expandRecurrence_defined [of "IcsParser_new [] 0 0 1000000 64" ?p no_clock ?r 0 3600 False]
    by (auto simp: v zones_ok_def DtParts_init_def Civil_init_def)
  have r: "rvalid (parseRrule (rrule ?r))" "with_until no_clock [] (rrule ?r) (parseRrule (rrule ?r)) = Some ?rule"
    by code_simp+
  from expandRecurrence_bounded [OF Q r(1)] r(2) v obtain new where "out Q = out (IcsParser_new [] 0 0 1000000 64) @ new" "length new \<le> 3"
    by (fastforce simp: Rrule_init_def)
  with Q show ?thesis by (simp add: IcsParser_new_def)
qed

end
