(* ===== verification/Ics_Expand.thy ===== *)
theory Ics_Expand
  imports Ics_Total
begin

text \<open>
  Daily and weekly recurrence against the set of days the rule denotes. For events whose times are
  UTC every day of the civil calendar is 86400 seconds after the one before, so the day loop visits an
  arithmetic progression; its cuts (the fast-forward, the end of the window, UNTIL, COUNT) drop no day
  that would be shown.
\<close>

section \<open>The day loop as a list\<close>

definition day_seconds :: "Civil \<Rightarrow> int" where
  "day_seconds c = civH c * 3600 + civMi c * 60 + civS c"

lemma occurrenceAt_utc:
  assumes "utc parts"
  shows "occurrenceAt mk zones parts dn = Some (dn * 86400 + day_seconds (civil parts))"
proof -
  obtain y m d where c: "civilFromDays dn = (y, m, d)" by (rule prod_cases3)
  from days_civil_days [OF c] have "daysFromCivil y (word_of_int m) (word_of_int d) = dn" by simp
  with assms c show ?thesis
    by (simp add: occurrenceAt_def civilToEpoch_def civil_utc_def epochFromUtc_def day_seconds_def)
qed

definition cut_off :: "int \<Rightarrow> Rrule \<Rightarrow> int \<Rightarrow> bool" where
  "cut_off we rule t \<longleftrightarrow> t > we + 2 * 86400 \<or> untilTime rule \<noteq> 0 \<and> t > untilTime rule"

definition count_take :: "int \<Rightarrow> 'a list \<Rightarrow> 'a list" where
  "count_take rem xs = (if rem < 0 then xs else take (nat rem) xs)"

lemma count_take_simps [simp]:
  "count_take rem [] = []" "count_take 0 xs = []"
  "rem \<noteq> 0 \<Longrightarrow> count_take rem (x # xs) = x # count_take (if rem > 0 then rem - 1 else rem) xs"
  by (auto simp: count_take_def take_Cons' nat_diff_distrib')

definition day_list :: "Rrule \<Rightarrow> u8 \<Rightarrow> int \<Rightarrow> (int \<Rightarrow> int) \<Rightarrow> int \<Rightarrow> nat \<Rightarrow> int \<Rightarrow> int list" where
  "day_list rule wdays sd T we k n =
     filter (day_due rule wdays sd) (takeWhile (\<lambda>i. \<not> cut_off we rule (T i)) [n..n + int k - 1])"

lemma day_list_simps:
  "day_list rule wdays sd T we 0 n = []"
  "day_list rule wdays sd T we (Suc k) n =
    (if cut_off we rule (T n) then []
     else (if day_due rule wdays sd n then [n] else []) @ day_list rule wdays sd T we k (n + 1))"
  by (simp_all add: day_list_def upto_rec1)

lemma emit_setup [simp]:
  "windowEnd (emitOccurrence P r t d a) = windowEnd P" "vtimezones (emitOccurrence P r t d a) = vtimezones P"
  by (simp_all add: emitOccurrence_def)

lemma day_loop_list:
  assumes occ: "\<And>n. occurrenceAt mk (vtimezones P) parts (d0 + n) = Some (T n)"
  shows "day_loop mk r rule parts d a wdays sd d0 k n rem P =
    Some (emit_all r d a (map T (count_take rem (day_list rule wdays sd T (windowEnd P) k n))) P)"
  using occ
proof (induction k arbitrary: n rem P)
  case 0
  show ?case by (simp add: day_list_simps)
next
  case (Suc k)
  let ?we = "windowEnd P"
  consider "cut_off ?we rule (T n)" | "\<not> cut_off ?we rule (T n)" "rem = 0"
    | "\<not> cut_off ?we rule (T n)" "rem \<noteq> 0" "day_due rule wdays sd n"
    | "\<not> cut_off ?we rule (T n)" "rem \<noteq> 0" "\<not> day_due rule wdays sd n" by blast
  then show ?case
  proof cases
    case 1
    then show ?thesis using Suc.prems by (auto simp: day_list_simps cut_off_def)
  next
    case 2
    then show ?thesis using Suc.prems by (auto simp: cut_off_def emitIfDue_def)
  next
    case 3
    let ?P = "emitOccurrence P r (T n) d a" and ?rem = "if rem > 0 then rem - 1 else rem"
    have e: "emitIfDue r rule d a (T n) rem P = (True, ?rem, ?P)"
      using 3 by (auto simp: emitIfDue_def cut_off_def)
    have "day_loop mk r rule parts d a wdays sd d0 k (n + 1) ?rem ?P =
        Some (emit_all r d a (map T (count_take ?rem (day_list rule wdays sd T ?we k (n + 1)))) ?P)"
      using Suc.IH [of ?P "n + 1" ?rem] Suc.prems by simp
    then show ?thesis using 3 Suc.prems e
      by (auto simp: day_list_simps cut_off_def simp del: emit_setup)
  next
    case 4
    then show ?thesis using Suc.prems Suc.IH [of P "n + 1" rem] by (auto simp: day_list_simps cut_off_def)
  qed
qed

section \<open>No shown day is lost\<close>

text \<open>The days (counted from DTSTART) a daily or weekly rule denotes.\<close>

definition rfc_due :: "Rrule \<Rightarrow> int \<Rightarrow> int \<Rightarrow> bool" where
  "rfc_due rule day0 n \<longleftrightarrow> n \<ge> 0 \<and>
     (if freq rule = DAILY then interval rule dvd n
      else let startDow = weekdayOfDayNum day0; dow = weekdayOfDayNum (day0 + n)
        in (if bydayMask rule = 0 then dow = startDow else mask_has (bydayMask rule) dow) \<and>
           interval rule dvd (n + startDow) div 7)"

lemma weekday_range: "0 \<le> weekdayOfDayNum z \<and> weekdayOfDayNum z \<le> 6"
  by (simp add: weekdayOfDayNum_mod)

lemma weekday_step: "0 \<le> n \<Longrightarrow> c_mod (weekdayOfDayNum z + n) 7 = weekdayOfDayNum (z + n)"
  using weekday_range [of z] mod_add_right_eq [of n "z + 3" 7]
  by (simp add: weekdayOfDayNum_mod add.assoc [symmetric]) (simp add: add.commute add.left_commute)

lemma mask_single: "0 \<le> a \<Longrightarrow> a \<le> 6 \<Longrightarrow> 0 \<le> b \<Longrightarrow> b \<le> 6 \<Longrightarrow> mask_has (push_bit (nat a) 1) b \<longleftrightarrow> b = a"
proof -
  assume ab: "0 \<le> a" "a \<le> 6" "0 \<le> b" "b \<le> 6"
  have "a \<in> {0, 1, 2, 3, 4, 5, 6}" "b \<in> {0, 1, 2, 3, 4, 5, 6}" using ab by simp_all presburger+
  then show ?thesis by (elim insertE emptyE) (simp_all add: mask_has_def)
qed

lemma day_due_rfc:
  assumes "0 \<le> n" "1 \<le> interval rule" "freq rule = DAILY \<or> freq rule = WEEKLY"
  shows "day_due rule (if freq rule = WEEKLY \<and> bydayMask rule = 0 then push_bit (nat (weekdayOfDayNum day0)) 1 else bydayMask rule)
    (weekdayOfDayNum day0) n \<longleftrightarrow> rfc_due rule day0 n"
proof -
  let ?sd = "weekdayOfDayNum day0"
  note r = weekday_range [of day0] weekday_range [of "day0 + n"]
  have i: "0 < interval rule" using assms(2) by simp
  have pos: "0 \<le> n + ?sd" using assms(1) r by linarith
  then have q: "0 \<le> (n + ?sd) div 7" by (simp add: pos_imp_zdiv_nonneg_iff)
  have m: "c_mod n (interval rule) = n mod interval rule" "c_mod (c_div (n + ?sd) 7) (interval rule) = (n + ?sd) div 7 mod interval rule"
    using assms(1) i pos q by simp_all
  show ?thesis
  proof (cases "freq rule = DAILY")
    case True
    then show ?thesis unfolding day_due_def rfc_due_def m using assms(1) by (simp add: dvd_eq_mod_eq_0)
  next
    case False
    with assms(3) have w: "freq rule = WEEKLY" by simp
    have single: "mask_has (push_bit (nat ?sd) 1) (weekdayOfDayNum (day0 + n)) \<longleftrightarrow> weekdayOfDayNum (day0 + n) = ?sd"
      using r by (intro mask_single) simp_all
    show ?thesis
      unfolding day_due_def rfc_due_def Let_def weekday_step [OF assms(1)] m
      using assms(1) w single by (simp only: Freq.distinct if_True if_False dvd_eq_mod_eq_0 split: if_split) blast
  qed
qed

lemma c_div_mult_le: "0 < a \<Longrightarrow> 0 \<le> c_div a s * s \<and> c_div a s * s \<le> a"
proof -
  assume "0 < a"
  then have e: "c_div a s * s = (a div \<bar>s\<bar>) * \<bar>s\<bar>" by (simp add: c_div_def sgn_if)
  show ?thesis
  proof (cases "s = 0")
    case True
    with \<open>0 < a\<close> show ?thesis by simp
  next
    case False
    then have "0 < \<bar>s\<bar>" by simp
    with \<open>0 < a\<close> have "0 \<le> a div \<bar>s\<bar>" by (simp add: pos_imp_zdiv_nonneg_iff)
    moreover have "(a div \<bar>s\<bar>) * \<bar>s\<bar> \<le> a"
      using div_mult_mod_eq [of a "\<bar>s\<bar>"] pos_mod_sign [OF \<open>0 < \<bar>s\<bar>\<close>, of a] by linarith
    ultimately show ?thesis unfolding e by simp
  qed
qed

text \<open>The fast-forward stops at least three days before the window.\<close>

lemma fast_forward_bounds:
  assumes "ws - start \<le> 40000 * 86400"
  shows "0 \<le> fast_forward rule ws start"
    and "0 \<le> n \<Longrightarrow> n < fast_forward rule ws start \<Longrightarrow> start + n * 86400 \<le> ws - 3 * 86400"
proof -
  let ?q = "(ws - start) div 86400"
  have "0 \<le> fast_forward rule ws start \<and> (fast_forward rule ws start = 0 \<or> fast_forward rule ws start \<le> ?q - 2)"
  proof (cases "rcount rule < 0 \<and> ws > start")
    case True
    then have q: "c_div (ws - start) 86400 = ?q" "0 \<le> ?q" "?q \<le> 40000"
      using assms by (simp_all add: pos_imp_zdiv_nonneg_iff)
    then have l: "long32 (?q - 2) = ?q - 2" by (simp add: long32_id)
    show ?thesis
      using True c_div_mult_le [of "?q - 2"] by (simp add: fast_forward_def Let_def q(1) l)
  next
    case False
    then show ?thesis by (auto simp: fast_forward_def)
  qed
  then show "0 \<le> fast_forward rule ws start"
    and "0 \<le> n \<Longrightarrow> n < fast_forward rule ws start \<Longrightarrow> start + n * 86400 \<le> ws - 3 * 86400"
    by auto
qed

lemma set_takeWhile_upto:
  assumes "\<And>i j. i \<le> j \<Longrightarrow> p j \<Longrightarrow> p i"
  shows "set (takeWhile p [a..b :: int]) = {i. a \<le> i \<and> i \<le> b \<and> p i}"
proof (induction a b rule: upto.induct)
  case (1 a b)
  show ?case
  proof (cases "a \<le> b")
    case True
    then have "set (takeWhile p [a..b]) = (if p a then insert a {i. a + 1 \<le> i \<and> i \<le> b \<and> p i} else {})"
      using 1 by (auto simp: upto.simps [of a b])
    also have "\<dots> = {i. a \<le> i \<and> i \<le> b \<and> p i}" using assms True by (auto simp: order.order_iff_strict)
    finally show ?thesis .
  qed simp
qed

lemma cut_off_mono: "s \<le> t \<Longrightarrow> \<not> cut_off we rule t \<Longrightarrow> \<not> cut_off we rule s"
  by (auto simp: cut_off_def)

lemma with_until_interval: "with_until mk zones rr rule = Some rule' \<Longrightarrow> interval rule' = interval rule"
  by (auto simp: with_until_def Let_def split: if_splits option.splits)

text \<open>The starts the loop offers, when COUNT does not limit them.\<close>

lemma shown_days:
  assumes rule: "1 \<le> interval rule" "freq rule = DAILY \<or> freq rule = WEEKLY"
    and window: "windowEnd P - start \<le> 40000 * 86400" "windowStart P \<le> windowEnd P" and d: "d \<le> 3 * 86400"
    and T: "\<And>n. T n = start + n * 86400"
    and m: "m = (if freq rule = WEEKLY \<and> bydayMask rule = 0 then push_bit (nat (weekdayOfDayNum day0)) 1 else bydayMask rule)"
  shows "T ` {n \<in> set (day_list rule m (weekdayOfDayNum day0) T (windowEnd P) 40000 (fast_forward rule (windowStart P) start)).
       wanted P r d (T n)} =
    {t. \<exists>n. rfc_due rule day0 n \<and> t = start + n * 86400 \<and> (untilTime rule \<noteq> 0 \<longrightarrow> t \<le> untilTime rule) \<and> wanted P r d t}"
proof -
  let ?n0 = "fast_forward rule (windowStart P) start"
  have ws: "windowStart P - start \<le> 40000 * 86400" using window by linarith
  note ff = fast_forward_bounds [OF ws, where rule = rule]
  have taken: "set (takeWhile (\<lambda>i. \<not> cut_off (windowEnd P) rule (T i)) [?n0..?n0 + int 40000 - 1]) =
      {i. ?n0 \<le> i \<and> i \<le> ?n0 + int 40000 - 1 \<and> \<not> cut_off (windowEnd P) rule (T i)}"
  proof (rule set_takeWhile_upto)
    fix i j :: int
    assume "i \<le> j" "\<not> cut_off (windowEnd P) rule (T j)"
    then show "\<not> cut_off (windowEnd P) rule (T i)" using cut_off_mono [of "T i" "T j"] by (simp add: T)
  qed
  have due: "day_due rule m (weekdayOfDayNum day0) n \<longleftrightarrow> rfc_due rule day0 n" if "?n0 \<le> n" for n
    unfolding m by (rule day_due_rfc) (use ff(1) that rule in simp_all)
  have days: "set (day_list rule m (weekdayOfDayNum day0) T (windowEnd P) 40000 ?n0) =
      {n. ?n0 \<le> n \<and> n \<le> ?n0 + 39999 \<and> \<not> cut_off (windowEnd P) rule (T n) \<and> rfc_due rule day0 n}"
    unfolding day_list_def set_filter taken using due by auto
  have "n \<in> set (day_list rule m (weekdayOfDayNum day0) T (windowEnd P) 40000 ?n0)"
    if n: "rfc_due rule day0 n" "untilTime rule \<noteq> 0 \<longrightarrow> T n \<le> untilTime rule" "wanted P r d (T n)" for n
  proof -
    have pos: "0 \<le> n" using n(1) by (simp add: rfc_due_def)
    have in_window: "T n + d > windowStart P" "T n < windowEnd P" using n(3) by (simp_all add: wanted_def overlaps_def)
    have "\<not> n < ?n0" using ff(2) [OF pos] in_window(1) d by (auto simp: T)
    moreover have "n < 40000" using in_window(2) window(1) unfolding T by linarith
    moreover have "\<not> cut_off (windowEnd P) rule (T n)" using n(2) in_window(2) by (auto simp: cut_off_def)
    ultimately show ?thesis using days n(1) ff(1) by simp
  qed
  moreover have "rfc_due rule day0 n \<and> (untilTime rule \<noteq> 0 \<longrightarrow> T n \<le> untilTime rule)"
    if "n \<in> set (day_list rule m (weekdayOfDayNum day0) T (windowEnd P) 40000 ?n0)" for n
    using that unfolding days by (auto simp: cut_off_def)
  ultimately show ?thesis unfolding T [symmetric] by blast
qed

definition start_day :: "DtParts \<Rightarrow> int" where
  "start_day parts = daysFromCivil (civY (civil parts)) (word_of_int (civMo (civil parts))) (word_of_int (civD (civil parts)))"

definition rule_days :: "Rrule \<Rightarrow> int \<Rightarrow> u8" where
  "rule_days rule day0 =
     (if freq rule = WEEKLY \<and> bydayMask rule = 0 then push_bit (nat (weekdayOfDayNum day0)) 1 else bydayMask rule)"

lemma expandRecurrence_list:
  assumes v: "rvalid (parseRrule (rrule r))"
    and rule: "with_until mk (vtimezones P) (rrule r) (parseRrule (rrule r)) = Some rule"
    and f: "freq rule = DAILY \<or> freq rule = WEEKLY" and u: "utc parts" and start: "start = civil_utc (civil parts)"
    and T: "\<And>n. T n = start + n * 86400"
  shows "expandRecurrence mk P r start parts d a =
    Some (emit_all r d a (map T (count_take (rcount rule) (day_list rule (rule_days rule (start_day parts))
      (weekdayOfDayNum (start_day parts)) T (windowEnd P) 40000 (fast_forward rule (windowStart P) start)))) P)"
proof -
  have occ: "occurrenceAt mk (vtimezones P) parts (start_day parts + n) = Some (T n)" for n
    unfolding occurrenceAt_utc [OF u]
    by (simp add: T start civil_utc_def epochFromUtc_def day_seconds_def start_day_def algebra_simps)
  show ?thesis
    using v rule f
    by (auto simp: expandRecurrence_def Let_def start_day_def [symmetric] rule_days_def MAX_DAY_ITERATIONS_def
        day_loop_list [where T = T, OF occ])
qed

text \<open>C33: a daily or weekly event in UTC without COUNT is shown on exactly the days its rule denotes: an occurrence
  appears if and only if it is a due day counted from DTSTART (the interval divides the number of days, or the
  week number on one of the BYDAY weekdays), not after UNTIL, not on an EXDATE and overlapping the window. This
  holds for events of at most three days that began at most 40000 days before the end of the window, when
  nothing was dropped for lack of room.\<close>

theorem daily_weekly_expansion_exact:
  assumes v: "rvalid (parseRrule (rrule r))"
    and rule: "with_until mk (vtimezones P) (rrule r) (parseRrule (rrule r)) = Some rule"
    and f: "freq rule = DAILY \<or> freq rule = WEEKLY" and c: "rcount rule < 0" and u: "utc parts"
    and start: "start = civil_utc (civil parts)"
    and window: "windowEnd P - start \<le> 40000 * 86400" "windowStart P \<le> windowEnd P" and d: "d \<le> 3 * 86400"
    and Q: "expandRecurrence mk P r start parts d a = Some Q" and room: "\<not> truncated Q"
  shows "\<exists>new. out Q = out P @ new \<and> occStart ` set new =
    {t. \<exists>n. rfc_due rule (start_day parts) n \<and> t = start + n * 86400 \<and> (untilTime rule \<noteq> 0 \<longrightarrow> t \<le> untilTime rule) \<and> t \<notin> set (exdates r) \<and> overlaps P t (t + d)}"
proof -
  define T where "T n = start + n * 86400" for n
  define ts where "ts = map T (day_list rule (rule_days rule (start_day parts)) (weekdayOfDayNum (start_day parts)) T
    (windowEnd P) 40000 (fast_forward rule (windowStart P) start))"
  have int: "1 \<le> interval rule"
    using with_until_interval [OF rule] parseRrule_interval by simp
  have Q': "Q = emit_all r d a ts P"
    using Q expandRecurrence_list [OF v rule f u start T_def, of d a] c by (simp add: ts_def count_take_def)
  let ?new = "map (\<lambda>t. occurrence P r t d a) (filter (wanted P r d) ts)"
  have "\<not> length ?new > maxEvents P - length (out P)" using room by (simp add: Q' emit_all_result Let_def)
  then have "out Q = out P @ ?new" by (simp add: Q' emit_all_result Let_def)
  moreover have "occStart ` set ?new = {t \<in> set ts. wanted P r d t}" by (auto simp: occurrence_def image_iff)
  moreover have "{t \<in> set ts. wanted P r d t} = {t. \<exists>n. rfc_due rule (start_day parts) n \<and> t = start + n * 86400 \<and>
      (untilTime rule \<noteq> 0 \<longrightarrow> t \<le> untilTime rule) \<and> wanted P r d t}"
    unfolding shown_days [OF int f window d T_def rule_days_def, symmetric] ts_def by auto
  ultimately show ?thesis by (auto simp: wanted_def)
qed


text \<open>A daily event with interval 2 from 1970-01-01, shown in a window of one day.\<close>

theorem daily_weekly_expansion_exact_witness:
  "\<exists>Q new. expandRecurrence no_clock (IcsParser_new [] 0 0 86400 64) (RawEvent_init\<lparr>rrule := ''FREQ=DAILY;INTERVAL=2''\<rparr>) 3600
     (DtParts_init\<lparr>civil := Civil_init\<lparr>civY := 1970, civMo := 1, civD := 1, civH := 1\<rparr>, utc := True\<rparr>) 3600 False = Some Q \<and>
     out Q = new \<and> occStart ` set new =
     {t. \<exists>n. 0 \<le> n \<and> 2 dvd n \<and> t = 3600 + n * 86400 \<and> overlaps (IcsParser_new [] 0 0 86400 64) t (t + 3600)}"
proof -
  let ?P = "IcsParser_new [] 0 0 86400 64"
  let ?r = "RawEvent_init\<lparr>rrule := ''FREQ=DAILY;INTERVAL=2''\<rparr>"
  let ?p = "DtParts_init\<lparr>civil := Civil_init\<lparr>civY := 1970, civMo := 1, civD := 1, civH := 1\<rparr>, utc := True\<rparr>"
  let ?rule = "Rrule_init\<lparr>interval := 2, rvalid := True\<rparr>"
  have P: "vtimezones ?P = []" "out ?P = []" "windowEnd ?P = 86400" "windowStart ?P = 0" "maxEvents ?P = 64" "truncated ?P = False"
    by (simp_all add: IcsParser_new_def)
  have v: "rvalid (parseRrule (rrule ?r))" by code_simp
  have rule: "with_until no_clock (vtimezones ?P) (rrule ?r) (parseRrule (rrule ?r)) = Some ?rule" unfolding P by code_simp
  have f: "freq ?rule = DAILY \<or> freq ?rule = WEEKLY" by (simp add: Rrule_init_def)
  have c: "rcount ?rule < 0" by (simp add: Rrule_init_def)
  have u: "utc ?p" by simp
  have start: "3600 = civil_utc (civil ?p)" by code_simp
  define T where "T n = 3600 + n * (86400 :: int)" for n
  have ff: "fast_forward ?rule (windowStart ?P) 3600 = 0" by (simp add: P fast_forward_def)
  have fuel: "(40000 :: nat) = Suc (Suc (Suc (Suc (Suc 39995))))" by simp
  have days: "day_list ?rule w sd T (windowEnd ?P) 40000 0 = [0, 2]" for w sd
    unfolding fuel day_list_simps by (simp add: cut_off_def T_def P Rrule_init_def day_due_def)
  note Q = expandRecurrence_list [OF v rule f u start T_def, of 3600 False]
  let ?Q = "emit_all ?r 3600 False (map T [0, 2]) ?P"
  from Q have Q': "expandRecurrence no_clock ?P ?r 3600 ?p 3600 False = Some ?Q"
    unfolding ff days using c by (simp add: count_take_def)
  have room: "\<not> truncated ?Q"
    by (simp add: emitOccurrence_def IcsParser_new_def)
  from daily_weekly_expansion_exact [OF v rule f c u start _ _ _ Q' room]
  obtain new where "out ?Q = new" "occStart ` set new = {t. \<exists>n. rfc_due ?rule (start_day ?p) n \<and> t = 3600 + n * 86400 \<and>
       (untilTime ?rule \<noteq> 0 \<longrightarrow> t \<le> untilTime ?rule) \<and> t \<notin> set (exdates ?r) \<and> overlaps ?P t (t + 3600)}"
    by (auto simp: P)
  with Q' show ?thesis by (auto simp: rfc_due_def Rrule_init_def RawEvent_init_def)
qed

end
