(* ===== verification/Sync_Client.thy ===== *)
theory Sync_Client
  imports Sync_Trace
begin

unbundle bit_operations_syntax

text \<open>
  The HTTPS client: src/firmware/src/net/SyncClient.h and SyncClient.cpp. The HTTP and TLS
  libraries and SHA-256 (mbedTLS) are parameters. A request is what the code configures before it
  sends: the trust it asks TLS for, method, URL, headers in order and body; a response is what it
  reads back. The two function-local static certificate caches are part of the state.
\<close>

section \<open>The libraries\<close>

datatype 'c tls_trust = Pinned 'c | Insecure

datatype http_method = GET | POST

datatype 'c http_body = NoBody | TextBody 'c | FileBody string u32

record 'c http_request =
  rqTrust :: "'c tls_trust"
  rqMethod :: http_method
  rqUrl :: string
  rqHeaders :: "(string \<times> string) list"
  rqBody :: "'c http_body"

text \<open>
  The body of a download is read while the connection is up. \<open>rsPolls\<close> is what each turn of the read
  loop finds, up to the end of the connection: the bytes \<^verbatim>\<open>available()\<close>, those \<^verbatim>\<open>read()\<close> then gives
  (none for a result of 0 or less) and the \<^verbatim>\<open>millis()\<close> of that turn.
\<close>

record poll =
  pAvailable :: nat
  pBytes :: "u8 list"
  pNow :: u32

record 'c http_response =
  rsCode :: int
  rsSize :: int
  rsText :: 'c
  rsStart :: u32
  rsPolls :: "poll list"

record ('w, 'c) http_lib =
  h_begin :: "'w \<Rightarrow> string \<Rightarrow> bool"
  h_send :: "'c http_request \<Rightarrow> 'w \<Rightarrow> 'c http_response \<times> 'w"

text \<open>\<open>of_bytes\<close> is the content of a file that was written byte by byte; \<open>sha256\<close> gives 32 bytes.\<close>

record 'c sha_lib =
  of_bytes :: "u8 list \<Rightarrow> 'c"
  sha256 :: "u8 list \<Rightarrow> u8 list"

record 'c ca_cache =
  piCa :: "'c option"
  relayCa :: "'c option"

type_synonym ('w, 'c) client_world = "'w \<times> 'c ca_cache"

section \<open>Helpers\<close>

definition kStreamChunkBytes :: nat where "kStreamChunkBytes = 2048"
definition kHttpTimeoutMs :: u32 where "kHttpTimeoutMs = 15000"
definition kPiCaPath :: string where "kPiCaPath = ''/system/pi_ca.pem''"
definition kRelayCaPath :: string where "kRelayCaPath = ''/system/relay_ca.pem''"

definition piConfigured :: "DeviceConfigData \<Rightarrow> bool" where
  "piConfigured cfg \<longleftrightarrow> loaded cfg \<and> piBaseUrl cfg \<noteq> []"

definition relayConfigured :: "DeviceConfigData \<Rightarrow> bool" where
  "relayConfigured cfg \<longleftrightarrow> loaded cfg \<and> hasRelay cfg"

definition loadCaCert :: "('w, 'c) sd_card \<Rightarrow> ('c, 'v) json_lib \<Rightarrow> 'w \<Rightarrow> string \<Rightarrow> 'c option" where
  "loadCaCert sd J w path =
     (if \<not> sd_exists sd w path then None
      else let out = sd_read sd w path in if j_isEmpty J out then None else Some out)"

text \<open>The trust TLS is configured with, or \<open>None\<close> for the code's \<^verbatim>\<open>false\<close>.\<close>

definition configureClientForEndpoint :: "('w, 'c) sd_card \<Rightarrow> ('c, 'v) json_lib \<Rightarrow> Endpoint \<Rightarrow> ('w, 'c) client_world \<Rightarrow>
    'c tls_trust option \<times> ('w, 'c) client_world" where
  "configureClientForEndpoint sd J endpoint wc =
     (case wc of (w, ca) \<Rightarrow>
      if endpoint = Pi then
        let c = (if piCa ca = None then loadCaCert sd J w kPiCaPath else piCa ca)
        in (map_option Pinned c, (w, ca\<lparr>piCa := c\<rparr>))
      else
        let c = (if relayCa ca = None then loadCaCert sd J w kRelayCaPath else relayCa ca)
        in (Some (case c of Some pem \<Rightarrow> Pinned pem | None \<Rightarrow> Insecure), (w, ca\<lparr>relayCa := c\<rparr>)))"

definition buildAuthHeader :: "string \<Rightarrow> string" where
  "buildAuthHeader token = ''Bearer '' @ token"

definition isalnum :: "u8 \<Rightarrow> bool" where
  "isalnum c \<longleftrightarrow> 48 \<le> c \<and> c \<le> 57 \<or> 65 \<le> c \<and> c \<le> 90 \<or> 97 \<le> c \<and> c \<le> 122"

definition hex_digit :: "string \<Rightarrow> u8 \<Rightarrow> char" where
  "hex_digit digits n = digits ! unat (n AND 0x0F)"

fun urlEncode :: "string \<Rightarrow> string" where
  "urlEncode [] = []"
| "urlEncode (p # ps) =
     (let c = byte_of p
      in if isalnum c \<or> p = CHR ''-'' \<or> p = CHR ''_'' \<or> p = CHR ''.'' \<or> p = CHR ''~''
         then p # urlEncode ps
         else CHR ''%'' # hex_digit ''0123456789ABCDEF'' (drop_bit 4 c) # hex_digit ''0123456789ABCDEF'' c # urlEncode ps)"

definition sha256HexOf :: "u8 list \<Rightarrow> string" where
  "sha256HexOf digest =
     concat (map (\<lambda>b. [hex_digit ''0123456789abcdef'' (drop_bit 4 b), hex_digit ''0123456789abcdef'' b]) digest)"

section \<open>Requests\<close>

text \<open>
  The shared prologue: configure TLS for the endpoint, \<^verbatim>\<open>http.begin\<close>, then send the request that
  \<open>mk\<close> makes of the trust. \<open>None\<close> when either step fails and nothing is sent.
\<close>

definition http_exchange :: "('w, 'c) sd_card \<Rightarrow> ('c, 'v) json_lib \<Rightarrow> ('w, 'c) http_lib \<Rightarrow> Endpoint \<Rightarrow>
    ('c tls_trust \<Rightarrow> 'c http_request) \<Rightarrow> ('w, 'c) client_world \<Rightarrow> 'c http_response option \<times> ('w, 'c) client_world" where
  "http_exchange sd J H endpoint mk wc =
     (case configureClientForEndpoint sd J endpoint wc of
        (None, wc) \<Rightarrow> (None, wc)
      | (Some trust, (w, ca)) \<Rightarrow>
          let rq = mk trust
          in if \<not> h_begin H w (rqUrl rq) then (None, (w, ca))
             else let (rs, w) = h_send H rq w in (Some rs, (w, ca)))"

definition pi_headers :: "DeviceConfigData \<Rightarrow> (string \<times> string) list" where
  "pi_headers cfg = [(''Authorization'', buildAuthHeader (deviceToken cfg)), (''X-Device-Id'', deviceId cfg)]"

definition status_request :: "DeviceConfigData \<Rightarrow> Endpoint \<Rightarrow> 'c tls_trust \<Rightarrow> 'c http_request" where
  "status_request cfg endpoint trust = \<lparr>rqTrust = trust, rqMethod = GET,
     rqUrl = (if endpoint = Pi then piBaseUrl cfg @ ''/devices/'' @ deviceId cfg @ ''/status''
              else relayBaseUrl cfg @ ''/accounts/'' @ relayAccountId cfg @ ''/approvals/pending''),
     rqHeaders = (if endpoint = Pi then pi_headers cfg
                  else [(''Authorization'', buildAuthHeader (relayAccountToken cfg))]),
     rqBody = NoBody\<rparr>"

definition statusCheck :: "('w, 'c) sd_card \<Rightarrow> ('c, 'v) json_lib \<Rightarrow> ('w, 'c) http_lib \<Rightarrow> DeviceConfigData \<Rightarrow>
    Endpoint \<Rightarrow> ('w, 'c) client_world \<Rightarrow> bool \<times> ('w, 'c) client_world" where
  "statusCheck sd J H cfg endpoint wc =
     (if endpoint = Pi \<and> \<not> piConfigured cfg then (False, wc)
      else if endpoint = Relay \<and> \<not> relayConfigured cfg then (False, wc)
      else case http_exchange sd J H endpoint (status_request cfg endpoint) wc of
        (None, wc) \<Rightarrow> (False, wc)
      | (Some rs, wc) \<Rightarrow> (rsCode rs = 200, wc))"

definition get_request :: "DeviceConfigData \<Rightarrow> string \<Rightarrow> 'c tls_trust \<Rightarrow> 'c http_request" where
  "get_request cfg path trust = \<lparr>rqTrust = trust, rqMethod = GET, rqUrl = piBaseUrl cfg @ path,
     rqHeaders = pi_headers cfg, rqBody = NoBody\<rparr>"

definition manifest_of_json :: "('c, 'v) json_lib \<Rightarrow> 'v \<Rightarrow> JobManifest" where
  "manifest_of_json J job = \<lparr>
     mJobId = strncpy 32 (json_or_str J job ''job_id'' []),
     mTitle = strncpy 64 (json_or_str J job ''title'' []),
     mCreatedAt = word_of_int (json_or_int J job ''created_at'' 0),
     mXtcBytes = word_of_int (json_or_int J job ''xtc_bytes'' 0),
     mXtcSha256 = strncpy 64 (json_or_str J job ''xtc_sha256'' []),
     mPageCount = word_of_int (json_or_int J job ''page_count'' 0),
     mLandscapeXtcBytes = word_of_int (json_or_int J job ''landscape_xtc_bytes'' 0),
     mLandscapeXtcSha256 = strncpy 64 (json_or_str J job ''landscape_xtc_sha256'' []),
     mLandscapePageCount = word_of_int (json_or_int J job ''landscape_page_count'' 0)\<rparr>"

fun manifest_loop :: "('c, 'v) json_lib \<Rightarrow> nat \<Rightarrow> 'v list \<Rightarrow> JobManifest list \<Rightarrow> JobManifest list" where
  "manifest_loop J maxCount [] out = out"
| "manifest_loop J maxCount (job # jobs) out =
     (if length out \<ge> maxCount then out else manifest_loop J maxCount jobs (out @ [manifest_of_json J job]))"

definition fetchPendingJobs :: "('w, 'c) sd_card \<Rightarrow> ('c, 'v) json_lib \<Rightarrow> ('w, 'c) http_lib \<Rightarrow> DeviceConfigData \<Rightarrow>
    nat \<Rightarrow> ('w, 'c) client_world \<Rightarrow> JobManifest list option \<times> ('w, 'c) client_world" where
  "fetchPendingJobs sd J H cfg maxCount wc =
     (if \<not> piConfigured cfg then (None, wc)
      else case http_exchange sd J H Pi (get_request cfg (''/devices/'' @ deviceId cfg @ ''/jobs?status=pending'')) wc of
        (None, wc) \<Rightarrow> (None, wc)
      | (Some rs, wc) \<Rightarrow>
          if rsCode rs \<noteq> 200 then (None, wc)
          else case j_deserialize J (rsText rs) of
            None \<Rightarrow> (None, wc)
          | Some doc \<Rightarrow> (Some (manifest_loop J maxCount (j_array J (j_get J doc ''jobs'')) []), wc))"

fun config_feeds :: "('c, 'v) json_lib \<Rightarrow> 'v list \<Rightarrow> CalendarFeed list \<Rightarrow> CalendarFeed list" where
  "config_feeds J [] feeds = feeds"
| "config_feeds J (cal # cals) feeds =
     (if length feeds \<ge> kMaxCalendars then feeds
      else let url2 = json_or_str J cal ''url'' []
        in if url2 = [] then config_feeds J cals feeds
           else config_feeds J cals (feeds @ [\<lparr>feedUrl = strncpy kMaxCalendarUrlLen url2,
             feedLabel = strncpy kMaxCalendarLabelLen (json_or_str J cal ''label'' [])\<rparr>]))"

fun config_networks :: "('c, 'v) json_lib \<Rightarrow> 'v list \<Rightarrow> WifiCredential list \<Rightarrow> WifiCredential list" where
  "config_networks J [] cs = cs"
| "config_networks J (net # nets) cs =
     (if length cs \<ge> kMaxWifiNetworks then cs
      else let s = json_or_str J net ''ssid'' []
        in if s = [] then config_networks J nets cs
           else config_networks J nets (cs @ [\<lparr>ssid = strncpy kMaxSsidLen s,
             password = strncpy kMaxWifiPasswordLen (json_or_str J net ''password'' [])\<rparr>]))"

definition fetchDeviceConfig :: "('w, 'c) sd_card \<Rightarrow> ('c, 'v) json_lib \<Rightarrow> ('w, 'c) http_lib \<Rightarrow> DeviceConfigData \<Rightarrow>
    ('w, 'c) client_world \<Rightarrow> DeviceConfigManifest option \<times> ('w, 'c) client_world" where
  "fetchDeviceConfig sd J H cfg wc =
     (if \<not> piConfigured cfg then (None, wc)
      else case http_exchange sd J H Pi (get_request cfg (''/devices/'' @ deviceId cfg @ ''/config'')) wc of
        (None, wc) \<Rightarrow> (None, wc)
      | (Some rs, wc) \<Rightarrow>
          if rsCode rs \<noteq> 200 then (None, wc)
          else case j_deserialize J (rsText rs) of
            None \<Rightarrow> (None, wc)
          | Some doc \<Rightarrow> (Some \<lparr>mCalendars = config_feeds J (j_array J (j_get J doc ''calendars'')) [],
              mWifiNetworks = config_networks J (j_array J (j_get J doc ''wifi_networks'')) []\<rparr>, wc))"

section \<open>Downloading a document\<close>

text \<open>
  The read loop: the answer is \<open>ioError\<close>, \<open>totalRead\<close>, the bytes hashed so far (they are also
  the file's content) and the card. Reading is not capped by what is still expected, so more may come.
\<close>

fun download_loop :: "('w, 'c) sd_card \<Rightarrow> 'c sha_lib \<Rightarrow> string \<Rightarrow> u32 \<Rightarrow> poll list \<Rightarrow> u32 \<Rightarrow> u8 list \<Rightarrow> u32 \<Rightarrow> 'w \<Rightarrow>
    bool \<times> u32 \<times> u8 list \<times> 'w" where
  "download_loop sd S tmp expectedBytes [] totalRead bytes lastByteAt w = (False, totalRead, bytes, w)"
| "download_loop sd S tmp expectedBytes (p # ps) totalRead bytes lastByteAt w =
     (if \<not> totalRead < expectedBytes then (False, totalRead, bytes, w) else
      if pAvailable p = 0 then
        if pNow p - lastByteAt > kHttpTimeoutMs then (True, totalRead, bytes, w)
        else download_loop sd S tmp expectedBytes ps totalRead bytes lastByteAt w
      else
        let toRead = (if pAvailable p > kStreamChunkBytes then kStreamChunkBytes else pAvailable p);
            buf = take toRead (pBytes p)
        in if buf = [] then (True, totalRead, bytes, w) else
        let (ok, w) = sd_write sd w tmp (of_bytes S (bytes @ buf))
        in if \<not> ok then (True, totalRead, bytes, w)
           else download_loop sd S tmp expectedBytes ps (totalRead + of_nat (length buf)) (bytes @ buf) (pNow p) w)"

definition part_path :: "string \<Rightarrow> string" where
  "part_path destPath = destPath @ ''.part''"

definition downloadJobToSd :: "('w, 'c) sd_card \<Rightarrow> ('c, 'v) json_lib \<Rightarrow> ('w, 'c) http_lib \<Rightarrow> 'c sha_lib \<Rightarrow> DeviceConfigData \<Rightarrow>
    string \<Rightarrow> string \<Rightarrow> string \<Rightarrow> u32 \<Rightarrow> string option \<Rightarrow> ('w, 'c) client_world \<Rightarrow> bool \<times> ('w, 'c) client_world" where
  "downloadJobToSd sd J H S cfg jid destPath expectedSha256Hex expectedBytes variant wc =
     (if \<not> piConfigured cfg then (False, wc) else
      case http_exchange sd J H Pi (get_request cfg (''/jobs/'' @ jid @ ''/xtc'' @
          (case variant of None \<Rightarrow> [] | Some v \<Rightarrow> ''?variant='' @ v))) wc of
        (None, wc) \<Rightarrow> (False, wc)
      | (Some rs, (w, ca)) \<Rightarrow>
          if rsCode rs \<noteq> 200 then (False, (w, ca)) else
          if rsSize rs > 0 \<and> (word_of_int (rsSize rs) :: u32) \<noteq> expectedBytes then (False, (w, ca)) else
          let tmpPath = part_path destPath;
              (opened, w) = sd_write sd w tmpPath (of_bytes S [])
          in if \<not> opened then (False, (w, ca)) else
          let (ioError, totalRead, bytes, w) =
                download_loop sd S tmpPath expectedBytes (rsPolls rs) 0 [] (rsStart rs) w
          in if ioError \<or> totalRead \<noteq> expectedBytes then (False, (snd (sd_remove sd w tmpPath), ca)) else
          if strncmp (sha256HexOf (sha256 S bytes)) expectedSha256Hex 64 \<noteq> 0
          then (False, (snd (sd_remove sd w tmpPath), ca)) else
          let w = (if sd_exists sd w destPath then snd (sd_remove sd w destPath) else w);
              (renamed, w) = sd_rename sd w tmpPath destPath
          in if \<not> renamed then (False, (snd (sd_remove sd w tmpPath), ca)) else (True, (w, ca)))"

section \<open>Acknowledgements, uploads and approvals\<close>

definition ack_request :: "('c, 'v) json_lib \<Rightarrow> DeviceConfigData \<Rightarrow> string \<Rightarrow> string \<Rightarrow> string option \<Rightarrow> 'c tls_trust \<Rightarrow>
    'c http_request" where
  "ack_request J cfg jid sha landscapeSha trust = \<lparr>rqTrust = trust, rqMethod = POST,
     rqUrl = piBaseUrl cfg @ ''/jobs/'' @ jid @ ''/ack'',
     rqHeaders = pi_headers cfg @ [(''Content-Type'', ''application/json'')],
     rqBody = TextBody (j_serialize J (JObj ((''sha256'', JStr sha) #
       (case landscapeSha of None \<Rightarrow> [] | Some s \<Rightarrow> [(''landscape_sha256'', JStr s)]))))\<rparr>"

definition ackJob :: "('w, 'c) sd_card \<Rightarrow> ('c, 'v) json_lib \<Rightarrow> ('w, 'c) http_lib \<Rightarrow> DeviceConfigData \<Rightarrow>
    string \<Rightarrow> string \<Rightarrow> string option \<Rightarrow> ('w, 'c) client_world \<Rightarrow> bool \<times> ('w, 'c) client_world" where
  "ackJob sd J H cfg jid sha landscapeSha wc =
     (if \<not> piConfigured cfg then (False, wc)
      else case http_exchange sd J H Pi (ack_request J cfg jid sha landscapeSha) wc of
        (None, wc) \<Rightarrow> (False, wc)
      | (Some rs, wc) \<Rightarrow> (rsCode rs = 200, wc))"

definition upload_request :: "DeviceConfigData \<Rightarrow> string \<Rightarrow> string \<Rightarrow> string \<Rightarrow> string \<Rightarrow> u32 \<Rightarrow> 'c tls_trust \<Rightarrow> 'c http_request" where
  "upload_request cfg jid path mime ttl bytes trust = \<lparr>rqTrust = trust, rqMethod = POST,
     rqUrl = piBaseUrl cfg @ ''/devices/'' @ deviceId cfg @ ''/jobs/'' @ jid @ ''?title='' @ urlEncode ttl,
     rqHeaders = pi_headers cfg @ [(''Content-Type'', mime)],
     rqBody = FileBody path bytes\<rparr>"

definition uploadOriginal :: "('w, 'c) sd_card \<Rightarrow> ('c, 'v) json_lib \<Rightarrow> ('w, 'c) http_lib \<Rightarrow> DeviceConfigData \<Rightarrow>
    string \<Rightarrow> string \<Rightarrow> string \<Rightarrow> string \<Rightarrow> u32 \<Rightarrow> ('w, 'c) client_world \<Rightarrow> bool \<times> ('w, 'c) client_world" where
  "uploadOriginal sd J H cfg jid path mime ttl bytes wc =
     (if \<not> piConfigured cfg then (False, wc)
      else if \<not> sd_exists sd (fst wc) path then (False, wc)
      else case http_exchange sd J H Pi (upload_request cfg jid path mime ttl bytes) wc of
        (None, wc) \<Rightarrow> (False, wc)
      | (Some rs, wc) \<Rightarrow> (rsCode rs = 200 \<or> rsCode rs = 201, wc))"

definition approval_request :: "('c, 'v) json_lib \<Rightarrow> DeviceConfigData \<Rightarrow> ApprovalEntry \<Rightarrow> bool \<Rightarrow> 'c tls_trust \<Rightarrow> 'c http_request" where
  "approval_request J cfg entry useRelay trust = \<lparr>rqTrust = trust, rqMethod = POST,
     rqUrl = (if useRelay then relayBaseUrl cfg @ ''/accounts/'' @ relayAccountId cfg @ ''/approvals''
              else piBaseUrl cfg @ ''/approvals''),
     rqHeaders = (''Content-Type'', ''application/json'') #
       (if useRelay then [(''Authorization'', buildAuthHeader (relayAccountToken cfg))] else pi_headers cfg),
     rqBody = TextBody (j_serialize J (JObj [
       (''approval_id'', JStr (approvalId entry)),
       (''device_id'', JStr (deviceId cfg)),
       (''job_id'', JStr (apJobId entry)),
       (''action'', JStr (approvalActionName (action entry))),
       (''created_at'', JInt (uint (apCreatedAt entry)))]))\<rparr>"

definition approval_result :: "('c, 'v) json_lib \<Rightarrow> 'c \<Rightarrow> ApprovalSubmitResult" where
  "approval_result J body =
     (let result = ApprovalSubmitResult_init\<lparr>networkOk := True\<rparr>
      in case j_deserialize J body of
        None \<Rightarrow> result
      | Some doc \<Rightarrow>
          let st = json_or_str J doc ''status'' []
          in if strcmp st ''applied'' = 0 \<or> strcmp st ''queued'' = 0 then result\<lparr>applied := True\<rparr>
             else if strcmp st ''already_applied'' = 0 then result\<lparr>applied := True, alreadyApplied := True\<rparr>
             else if strcmp st ''superseded'' = 0 then result\<lparr>applied := True\<rparr>
             else result)"

definition submitApproval :: "('w, 'c) sd_card \<Rightarrow> ('c, 'v) json_lib \<Rightarrow> ('w, 'c) http_lib \<Rightarrow> DeviceConfigData \<Rightarrow>
    ApprovalEntry \<Rightarrow> Endpoint \<Rightarrow> ('w, 'c) client_world \<Rightarrow> ApprovalSubmitResult \<times> ('w, 'c) client_world" where
  "submitApproval sd J H cfg entry endpoint wc =
     (let useRelay = (endpoint = Relay)
      in if useRelay \<and> \<not> relayConfigured cfg then (ApprovalSubmitResult_init, wc)
         else if \<not> useRelay \<and> \<not> piConfigured cfg then (ApprovalSubmitResult_init, wc)
         else case http_exchange sd J H endpoint (approval_request J cfg entry useRelay) wc of
           (None, wc) \<Rightarrow> (ApprovalSubmitResult_init, wc)
         | (Some rs, wc) \<Rightarrow>
             if rsCode rs \<noteq> 200 then (ApprovalSubmitResult_init, wc) else (approval_result J (rsText rs), wc))"

text \<open>The client that \<open>runFullSync\<close> uses.\<close>

definition SyncClient :: "('w, 'c) sd_card \<Rightarrow> ('c, 'v) json_lib \<Rightarrow> ('w, 'c) http_lib \<Rightarrow> 'c sha_lib \<Rightarrow> DeviceConfigData \<Rightarrow>
    ('w, 'c) client_world sync_client" where
  "SyncClient sd J H S cfg = \<lparr>
     cl_status = statusCheck sd J H cfg,
     cl_fetch = fetchPendingJobs sd J H cfg,
     cl_config = fetchDeviceConfig sd J H cfg,
     cl_download = downloadJobToSd sd J H S cfg,
     cl_ack = ackJob sd J H cfg,
     cl_submit = submitApproval sd J H cfg,
     cl_upload = uploadOriginal sd J H cfg\<rparr>"

section \<open>Percent encoding\<close>

definition unreserved :: "char \<Rightarrow> bool" where
  "unreserved c \<longleftrightarrow> isalnum (byte_of c) \<or> c \<in> {CHR ''-'', CHR ''_'', CHR ''.'', CHR ''~''}"

definition hex_value :: "char \<Rightarrow> nat" where
  "hex_value c = the (first_index (\<lambda>d. d = c) ''0123456789ABCDEF'')"

fun urlDecode :: "string \<Rightarrow> string" where
  "urlDecode [] = []"
| "urlDecode (c # cs) =
     (if c = CHR ''%'' then
        (case cs of a # b # rest \<Rightarrow> char_of (16 * hex_value a + hex_value b) # urlDecode rest | _ \<Rightarrow> [])
      else c # urlDecode cs)"

lemma and_0x0F: "unat (n AND 0x0F :: u8) = unat n mod 16"
proof -
  have "n AND 0x0F = take_bit 4 n" by (simp add: take_bit_eq_mask mask_numeral)
  show ?thesis unfolding \<open>n AND 0x0F = take_bit 4 n\<close> unsigned_take_bit_eq by (simp add: take_bit_eq_mod)
qed

lemma hex_value_digit: "k < 16 \<Longrightarrow> hex_value (''0123456789ABCDEF'' ! k) = k"
proof -
  assume "k < 16"
  then have "k \<in> set [0..<16]" by simp
  then show ?thesis by (simp add: upt_rec) (elim disjE; simp add: hex_value_def)
qed

lemma nibbles: "16 * unat (drop_bit 4 c AND 0x0F) + unat (c AND 0x0F) = unat (c :: u8)"
proof -
  have "unat c < 2 ^ LENGTH(8)" by (rule unsigned_less)
  moreover have "unat (drop_bit 4 c) = unat c div 16" unfolding unat_drop_bit_eq by (simp add: drop_bit_eq_div)
  ultimately show ?thesis unfolding and_0x0F by simp
qed

lemma hex_roundtrip: "16 * hex_value (hex_digit ''0123456789ABCDEF'' (drop_bit 4 c)) + hex_value (hex_digit ''0123456789ABCDEF'' c) = unat c"
proof -
  have "hex_value (hex_digit ''0123456789ABCDEF'' n) = unat (n AND 0x0F)" for n
    unfolding hex_digit_def by (rule hex_value_digit) (simp add: and_0x0F)
  then show ?thesis by (simp only: nibbles)
qed
lemma hex_digit_alnum: "isalnum (byte_of (hex_digit ''0123456789ABCDEF'' n))"
proof -
  have "unat (n AND 0x0F) \<in> set [0..<16]" by (simp add: and_0x0F)
  then show ?thesis unfolding hex_digit_def
   by (simp add: upt_rec) (elim disjE; simp add: isalnum_def byte_of_def)
qed

lemma percent_reserved: "\<not> unreserved CHR ''%''"
  by (simp add: unreserved_def isalnum_def byte_of_def)

lemma urlEncode_Cons:
  "urlEncode (p # ps) = (if unreserved p then p # urlEncode ps
     else CHR ''%'' # hex_digit ''0123456789ABCDEF'' (drop_bit 4 (byte_of p)) #
       hex_digit ''0123456789ABCDEF'' (byte_of p) # urlEncode ps)"
  by (simp add: unreserved_def Let_def)

lemma urlDecode_urlEncode: "urlDecode (urlEncode s) = s"
proof (induction s)
  case (Cons p ps)
  show ?case
  proof (cases "unreserved p")
    case True
    then have "p \<noteq> CHR ''%''" using percent_reserved by auto
    with Cons.IH True show ?thesis by (simp add: urlEncode_Cons del: urlEncode.simps)
  next
    case False
    have "char_of (unat (byte_of p)) = p" using char_byte [of p] by (simp add: char_of_byte_def)
    with Cons.IH False show ?thesis by (simp add: urlEncode_Cons hex_roundtrip del: urlEncode.simps)
  qed
qed simp

lemma urlEncode_chars: "c \<in> set (urlEncode s) \<Longrightarrow> unreserved c \<or> c = CHR ''%''"
proof (induction s)
  case (Cons p ps)
  then show ?case
    unfolding urlEncode_Cons by (auto simp: unreserved_def hex_digit_alnum split: if_splits)
qed simp

section \<open>What a download leaves on the card\<close>

text \<open>The network touches no file.\<close>

definition http_frame :: "('w, 'c) sd_card \<Rightarrow> ('w, 'c) http_lib \<Rightarrow> bool" where
  "http_frame sd H \<longleftrightarrow> (\<forall>rq w. sd_files sd (snd (h_send H rq w)) = sd_files sd w)"

lemma http_exchange_files:
  assumes "http_frame sd H" and "http_exchange sd J H ep mk (w, ca) = (r, (w', ca'))"
  shows "sd_files sd w' = sd_files sd w"
proof -
  have "sd_files sd v' = sd_files sd v" if "h_send H rq v = (rs, v')" for rq v rs v'
    using assms(1) that by (metis http_frame_def snd_conv)
  with assms(2) show ?thesis
    by (auto simp: http_exchange_def configureClientForEndpoint_def Let_def split: option.splits if_splits prod.splits)
qed

lemma sd_write_frame: "sd_laws sd \<Longrightarrow> sd_write sd w p c = (b, w') \<Longrightarrow> q \<noteq> p \<Longrightarrow> sd_files sd w' q = sd_files sd w q"
  using sd_write_okD [of sd w p c w'] sd_write_failD [of sd w p c w' q] by (cases b) simp_all

lemma sd_remove_files:
  assumes "sd_laws sd"
  shows "sd_files sd (snd (sd_remove sd w p)) q = sd_files sd w q \<or> q = p \<and> sd_files sd (snd (sd_remove sd w p)) q = None"
proof -
  obtain b w' where "sd_remove sd w p = (b, w')" by (rule prod.exhaust)
  then show ?thesis
    using sd_remove_okD [OF assms, of w p w'] sd_remove_failD [OF assms, of w p w'] by (cases b) auto
qed

lemma download_loop_files:
  assumes laws: "sd_laws sd"
  shows "download_loop sd S tmp expected ps n_read bytes since w = (err, n_read', bytes', w') \<Longrightarrow>
    sd_files sd w tmp = Some (of_bytes S bytes) \<Longrightarrow> n_read = of_nat (length bytes) \<Longrightarrow>
    (\<forall>q. q \<noteq> tmp \<longrightarrow> sd_files sd w' q = sd_files sd w q) \<and>
    (\<not> err \<longrightarrow> sd_files sd w' tmp = Some (of_bytes S bytes') \<and> n_read' = of_nat (length bytes'))"
proof (induction ps arbitrary: n_read bytes since w)
  case (Cons p ps)
  let ?buf = "take (if pAvailable p > kStreamChunkBytes then kStreamChunkBytes else pAvailable p) (pBytes p)"
  obtain ok w1 where wr: "sd_write sd w tmp (of_bytes S (bytes @ ?buf)) = (ok, w1)" by force
  consider (stop) "err \<and> w' = w \<or> (err, n_read', bytes', w') = (False, n_read, bytes, w)"
    | (wait) "download_loop sd S tmp expected ps n_read bytes since w = (err, n_read', bytes', w')"
    | (failed) "err" "w' = w1"
    | (read) ok "download_loop sd S tmp expected ps (n_read + of_nat (length ?buf)) (bytes @ ?buf) (pNow p) w1
        = (err, n_read', bytes', w')"
    using Cons.prems(1) wr by (auto simp: Let_def split: if_splits)
  then show ?case
  proof cases
    case stop
    with Cons.prems show ?thesis by auto
  next
    case wait
    then show ?thesis using Cons.prems(2,3) by (rule Cons.IH)
  next
    case failed
    with sd_write_frame [OF laws wr] show ?thesis by simp
  next
    case read
    have f1: "sd_files sd w1 = (sd_files sd w)(tmp \<mapsto> of_bytes S (bytes @ ?buf))"
      by (rule sd_write_okD [OF laws]) (use wr read(1) in simp)
    have "sd_files sd w1 tmp = Some (of_bytes S (bytes @ ?buf))"
      "n_read + of_nat (length ?buf) = (of_nat (length (bytes @ ?buf)) :: u32)"
      using Cons.prems(3) by (simp_all add: f1)
    from Cons.IH [OF read(2) this] show ?thesis by (simp add: f1)
  qed
qed simp

lemma part_path_neq [simp]: "part_path p \<noteq> p" "p \<noteq> part_path p"
  by (simp_all add: part_path_def)

definition verified :: "'c sha_lib \<Rightarrow> string \<Rightarrow> u32 \<Rightarrow> 'c option \<Rightarrow> bool" where
  "verified S sha n file_content \<longleftrightarrow>
     (\<exists>bytes. file_content = Some (of_bytes S bytes) \<and> of_nat (length bytes) = n \<and>
        take 64 (sha256HexOf (sha256 S bytes)) = take 64 sha)"

text \<open>What the end of a download may have done to the files.\<close>

definition download_outcome :: "'c sha_lib \<Rightarrow> string \<Rightarrow> string \<Rightarrow> u32 \<Rightarrow> bool \<Rightarrow> (string \<rightharpoonup> 'c) \<Rightarrow> (string \<rightharpoonup> 'c) \<Rightarrow> bool" where
  "download_outcome S dest sha n ok f f' \<longleftrightarrow>
     (ok \<longrightarrow> verified S sha n (f' dest) \<and> f' (part_path dest) = None) \<and>
     (\<not> ok \<longrightarrow> f' dest = f dest \<or> f' dest = None) \<and>
     (\<forall>q. q \<noteq> dest \<and> q \<noteq> part_path dest \<longrightarrow> f' q = f q)"

lemma download_outcome_failed:
  "(\<And>q. q \<noteq> part_path dest \<Longrightarrow> f' q = f q) \<Longrightarrow> download_outcome S dest sha n False f f'"
  by (simp add: download_outcome_def)

lemma download_finish:
  assumes laws: "sd_laws sd" and tmp: "sd_files sd w (part_path dest) = Some (of_bytes S bytes)"
    and v: "of_nat (length bytes) = n" "strncmp (sha256HexOf (sha256 S bytes)) sha 64 = 0"
    and w1: "w1 = (if sd_exists sd w dest then snd (sd_remove sd w dest) else w)"
    and ren: "sd_rename sd w1 (part_path dest) dest = (r, w2)"
  shows "download_outcome S dest sha n r (sd_files sd w)
    (sd_files sd (if r then w2 else snd (sd_remove sd w2 (part_path dest))))"
proof -
  let ?t = "part_path dest"
  have f1: "\<And>q. q \<noteq> dest \<Longrightarrow> sd_files sd w1 q = sd_files sd w q"
    using sd_remove_files [OF laws, of w dest] by (auto simp: w1)
  have f2: "sd_files sd w1 dest = sd_files sd w dest \<or> sd_files sd w1 dest = None"
    using sd_remove_files [OF laws, of w dest dest] by (simp add: w1)
  show ?thesis
  proof (cases r)
    case True
    then have "sd_files sd w2 = (sd_files sd w1)(?t := None, dest := sd_files sd w1 ?t)"
      by (intro sd_rename_okD [OF laws]) (use ren in simp)
    with True f1 tmp v show ?thesis by (auto simp: download_outcome_def verified_def strncmp_eq_0)
  next
    case False
    then have "sd_files sd w2 = sd_files sd w1"
      by (intro sd_rename_failD [OF laws]) (use ren in simp)
    moreover have "sd_files sd (snd (sd_remove sd w2 ?t)) q = sd_files sd w2 q" if "q \<noteq> ?t" for q
      using sd_remove_files [OF laws, of w2 ?t q] that by blast
    ultimately show ?thesis using False f1 f2 by (simp add: download_outcome_def)
  qed
qed

lemma downloadJobToSd_outcome:
  assumes laws: "sd_laws sd" and frame: "http_frame sd H"
    and run: "downloadJobToSd sd J H S cfg jid dest sha n variant (w, ca) = (ok, (w', ca'))"
  shows "download_outcome S dest sha n ok (sd_files sd w) (sd_files sd w')"
proof (cases "piConfigured cfg")
  case False
  with run show ?thesis by (simp add: downloadJobToSd_def download_outcome_failed)
next
  case True
  let ?t = "part_path dest"
  let ?mk = "get_request cfg (''/jobs/'' @ jid @ ''/xtc'' @ (case variant of None \<Rightarrow> [] | Some v \<Rightarrow> ''?variant='' @ v))"
  obtain r w1 ca1 where x: "http_exchange sd J H Pi ?mk (w, ca) = (r, (w1, ca1))" by (rule prod_cases3)
  have f1: "sd_files sd w1 = sd_files sd w" by (rule http_exchange_files [OF frame x])
  show ?thesis
  proof (cases "\<exists>rs. r = Some rs \<and> rsCode rs = 200 \<and> \<not> (rsSize rs > 0 \<and> (word_of_int (rsSize rs) :: u32) \<noteq> n)")
    case False
    then have "ok = False \<and> w' = w1"
      using run True x by (auto simp: downloadJobToSd_def split: option.splits if_splits)
    with f1 show ?thesis by (simp add: download_outcome_failed)
  next
    case g: True
    then obtain rs where rs: "r = Some rs" "rsCode rs = 200" "\<not> (rsSize rs > 0 \<and> (word_of_int (rsSize rs) :: u32) \<noteq> n)" by blast
    obtain opened w2 where op: "sd_write sd w1 ?t (of_bytes S []) = (opened, w2)" by (rule prod.exhaust)
    have fo: "\<And>q. q \<noteq> ?t \<Longrightarrow> sd_files sd w2 q = sd_files sd w q" using sd_write_frame [OF laws op] f1 by simp
    obtain err n_read bytes w3 where lp: "download_loop sd S ?t n (rsPolls rs) 0 [] (rsStart rs) w2 = (err, n_read, bytes, w3)"
      by (rule prod_cases4)
    show ?thesis
    proof (cases opened)
      case False
      then have "ok = False \<and> w' = w2"
        using run True x rs op by (auto simp: downloadJobToSd_def Let_def split: if_splits)
      with fo show ?thesis by (simp add: download_outcome_failed)
    next
      case opT: True
      have l: "\<And>q. q \<noteq> ?t \<Longrightarrow> sd_files sd w3 q = sd_files sd w2 q"
        "\<not> err \<Longrightarrow> sd_files sd w3 ?t = Some (of_bytes S bytes) \<and> n_read = of_nat (length bytes)"
        using download_loop_files [OF laws lp] sd_write_okD [OF laws, of w1 ?t "of_bytes S []" w2] op opT by auto
      let ?good = "\<not> err \<and> n_read = n \<and> strncmp (sha256HexOf (sha256 S bytes)) sha 64 = 0"
      define w4 where "w4 = (if sd_exists sd w3 dest then snd (sd_remove sd w3 dest) else w3)"
      obtain rn w5 where ren: "sd_rename sd w4 ?t dest = (rn, w5)" by (rule prod.exhaust)
      have res: "(ok, w') = (if ?good then (rn, if rn then w5 else snd (sd_remove sd w5 ?t)) else (False, snd (sd_remove sd w3 ?t)))"
        using run True x rs op opT lp ren
        unfolding downloadJobToSd_def Let_def w4_def [symmetric] by (auto simp: w4_def [symmetric] split: if_splits)
      show ?thesis
      proof (cases ?good)
        case True
        with l have t: "sd_files sd w3 ?t = Some (of_bytes S bytes)" "of_nat (length bytes) = n" by auto
        have "download_outcome S dest sha n rn (sd_files sd w3) (sd_files sd (if rn then w5 else snd (sd_remove sd w5 ?t)))"
          by (rule download_finish [OF laws t _ w4_def ren]) (use True in simp)
        with res True l(1) fo show ?thesis by (auto simp: download_outcome_def split: if_splits)
      next
        case False
        then have "ok = False" "w' = snd (sd_remove sd w3 ?t)" using res by (auto split: if_splits)
        then show ?thesis
          using sd_remove_files [OF laws, of w3 ?t] l(1) fo by (auto intro!: download_outcome_failed) metis
      qed
    qed
  qed
qed

section \<open>The read loop ends\<close>

text \<open>
  The clock as the loop sees it: a turn never takes more than \<open>2 ^ 31\<close> ms, and a turn that found
  nothing ends with \<^verbatim>\<open>delay(10)\<close>, so the next one is at least 10 ms later.
\<close>

fun ticks :: "bool \<Rightarrow> u32 \<Rightarrow> poll list \<Rightarrow> bool" where
  "ticks waited prev [] = True"
| "ticks waited prev (p # ps) =
     (pNow p - prev \<le> 2 ^ 31 \<and> (waited \<longrightarrow> 10 \<le> pNow p - prev) \<and> ticks (pAvailable p = 0) (pNow p) ps)"

lemma uint_diff_add:
  fixes a b c :: u32
  assumes "uint (a - b) + uint (b - c) < 2 ^ 32"
  shows "uint (a - c) = uint (a - b) + uint (b - c)"
proof -
  have "a - c = (a - b) + (b - c)" by simp
  moreover have "uint ((a - b) + (b - c)) = uint (a - b) + uint (b - c)"
    by (rule uint_add_lem [THEN iffD1]) (use assms in simp)
  ultimately show ?thesis by simp
qed

lemma download_loop_append:
  assumes small: "unat expected + 2048 < 2 ^ 32"
  shows "ticks (k > 0) prev ps \<Longrightarrow> (k = 0 \<longrightarrow> prev = since) \<Longrightarrow> k \<le> 1501 \<Longrightarrow>
    (k > 0 \<longrightarrow> 10 * (int k - 1) \<le> uint (prev - since)) \<Longrightarrow> uint (prev - since) \<le> 15000 \<Longrightarrow>
    (unat n_read < unat expected \<longrightarrow> 1502 * (unat expected - unat n_read) \<le> length ps + k) \<Longrightarrow>
    download_loop sd S tmp expected (ps @ later) n_read bytes since w = download_loop sd S tmp expected ps n_read bytes since w"
proof (induction ps arbitrary: k prev n_read bytes since w)
  case Nil
  then have "\<not> unat n_read < unat expected" by auto
  then have "\<not> n_read < expected" by (simp add: word_less_nat_alt)
  then show ?case by (cases later) simp_all
next
  case (Cons p ps)
  show ?case
  proof (cases "n_read < expected")
    case False
    then show ?thesis by simp
  next
    case lt: True
    then have ltn: "unat n_read < unat expected" by (simp add: word_less_nat_alt)
    have step: "uint (pNow p - prev) \<le> 2 ^ 31" "k > 0 \<Longrightarrow> 10 \<le> uint (pNow p - prev)"
      using Cons.prems(1) by (simp_all add: word_le_def)
    have add: "uint (pNow p - since) = uint (pNow p - prev) + uint (prev - since)"
      by (rule uint_diff_add) (use step(1) Cons.prems(5) in simp)
    show ?thesis
    proof (cases "pAvailable p = 0")
      case True
      show ?thesis
      proof (cases "pNow p - since > kHttpTimeoutMs")
        case False
        then have le: "uint (pNow p - since) \<le> 15000" by (simp add: kHttpTimeoutMs_def word_less_def)
        have k1: "10 * int k \<le> uint (pNow p - since)"
        proof (cases "k = 0")
          case False
          with Cons.prems(4) step(2) add show ?thesis by simp
        qed simp
        have "download_loop sd S tmp expected (ps @ later) n_read bytes since w = download_loop sd S tmp expected ps n_read bytes since w"
          by (rule Cons.IH [of "Suc k" "pNow p"]) (use Cons.prems(1,6) True le k1 ltn in auto)
        with True lt show ?thesis by simp
      qed (use True lt in simp)
    next
      case False
      let ?buf = "take (if pAvailable p > kStreamChunkBytes then kStreamChunkBytes else pAvailable p) (pBytes p)"
      obtain ok w1 where wr: "sd_write sd w tmp (of_bytes S (bytes @ ?buf)) = (ok, w1)" by (rule prod.exhaust)
      show ?thesis
      proof (cases "?buf = [] \<or> \<not> ok")
        case True
        with False wr lt show ?thesis by (auto simp: Let_def)
      next
        case go: False
        then have ne: "?buf \<noteq> []" and ok: ok by auto
        define m where "m = length ?buf"
        have b: "0 < m" "m \<le> 2048" using ne by (auto simp: m_def kStreamChunkBytes_def)
        have "unat (of_nat m :: u32) = m" using b by (simp add: unat_of_nat)
        then have un: "unat (n_read + of_nat m) = unat n_read + m"
          using unat_add_lem [of n_read "of_nat m", THEN iffD1] b ltn small by simp
        have left: "1502 * (unat expected - unat (n_read + of_nat m)) \<le> length ps"
        proof -
          have "1502 * (unat expected - (unat n_read + m)) + 1502 \<le> 1502 * (unat expected - unat n_read) \<or>
              unat expected \<le> unat n_read + m" using b by auto
          with Cons.prems(3,6) ltn show ?thesis unfolding un by auto
        qed
        have "download_loop sd S tmp expected (ps @ later) (n_read + of_nat m) (bytes @ ?buf) (pNow p) w1
            = download_loop sd S tmp expected ps (n_read + of_nat m) (bytes @ ?buf) (pNow p) w1"
          by (rule Cons.IH [of 0 "pNow p"]) (use Cons.prems(1) False left in simp_all)
        with False wr lt ne ok show ?thesis by (simp add: Let_def m_def)
      qed
    qed
  qed
qed

section \<open>Who is told what\<close>

text \<open>The calls of a client, in any order, and an HTTP library whose requests are recorded.\<close>

datatype client_op =
    Status Endpoint
  | FetchJobs nat
  | FetchConfig
  | Download string string string u32 "string option"
  | Ack string string "string option"
  | Submit ApprovalEntry Endpoint
  | Upload string string string string u32

fun client_step :: "'w sync_client \<Rightarrow> client_op \<Rightarrow> 'w \<Rightarrow> 'w" where
  "client_step cl (Status ep) w = snd (cl_status cl ep w)"
| "client_step cl (FetchJobs n) w = snd (cl_fetch cl n w)"
| "client_step cl FetchConfig w = snd (cl_config cl w)"
| "client_step cl (Download j p sha n v) w = snd (cl_download cl j p sha n v w)"
| "client_step cl (Ack j sha l) w = snd (cl_ack cl j sha l w)"
| "client_step cl (Submit e ep) w = snd (cl_submit cl e ep w)"
| "client_step cl (Upload j p m t n) w = snd (cl_upload cl j p m t n w)"

definition log_http :: "('w, 'c) http_lib \<Rightarrow> ('w \<times> 'c http_request list, 'c) http_lib" where
  "log_http H = \<lparr>
     h_begin = (\<lambda>(w, _) url. h_begin H w url),
     h_send = (\<lambda>rq (w, log). let (rs, w') = h_send H rq w in (rs, (w', rq # log)))\<rparr>"

text \<open>
  Every request has one of two forms. To the Pi's URL, with the device token, over a connection pinned to the
  certificate \<open>pem\<close> of its file; or to the approval queue of a paired relay, pinned to the relay's certificate if
  that file has one: the relay's token is the only header besides the content type, and the body is empty or
  the five fields of an approval.
\<close>

definition provisioned :: "('c, 'v) json_lib \<Rightarrow> 'c option \<Rightarrow> 'c option" where
  "provisioned J content = (case content of None \<Rightarrow> None | Some c \<Rightarrow> if j_isEmpty J c then None else Some c)"

definition pi_form :: "('c, 'v) json_lib \<Rightarrow> DeviceConfigData \<Rightarrow> 'c option \<Rightarrow> 'c http_request \<Rightarrow> bool" where
  "pi_form J cfg cert rq \<longleftrightarrow>
     piConfigured cfg \<and> (\<exists>pem. provisioned J cert = Some pem \<and> rqTrust rq = Pinned pem) \<and>
     (\<exists>x. rqUrl rq = piBaseUrl cfg @ x) \<and>
     (''Authorization'', buildAuthHeader (deviceToken cfg)) \<in> set (rqHeaders rq)"

definition relay_form :: "('c, 'v) json_lib \<Rightarrow> DeviceConfigData \<Rightarrow> 'c option \<Rightarrow> 'c http_request \<Rightarrow> bool" where
  "relay_form J cfg cert rq \<longleftrightarrow>
     relayConfigured cfg \<and>
     rqTrust rq = (case provisioned J cert of Some pem \<Rightarrow> Pinned pem | None \<Rightarrow> Insecure) \<and>
     (\<exists>x. rqUrl rq = relayBaseUrl cfg @ ''/accounts/'' @ relayAccountId cfg @ ''/approvals'' @ x) \<and>
     set (rqHeaders rq) \<subseteq> {(''Content-Type'', ''application/json''), (''Authorization'', buildAuthHeader (relayAccountToken cfg))} \<and>
     (rqBody rq = NoBody \<or> (\<exists>e :: ApprovalEntry. rqBody rq = TextBody (j_serialize J (JObj [
       (''approval_id'', JStr (approvalId e)), (''device_id'', JStr (deviceId cfg)), (''job_id'', JStr (apJobId e)),
       (''action'', JStr (approvalActionName (action e))), (''created_at'', JInt (uint (apCreatedAt e)))]))))"

text \<open>
  The certificates a run may use: the files \<open>pc\<close> and \<open>rc\<close>, which it leaves alone, and what the caches hold of them.
\<close>

definition certs_ok :: "('w, 'c) sd_card \<Rightarrow> ('c, 'v) json_lib \<Rightarrow> 'c option \<Rightarrow> 'c option \<Rightarrow> ('w, 'c) client_world \<Rightarrow> bool" where
  "certs_ok sd J pc rc wc \<longleftrightarrow>
     sd_files sd (fst wc) kPiCaPath = pc \<and> sd_files sd (fst wc) kRelayCaPath = rc \<and>
     (piCa (snd wc) = None \<or> piCa (snd wc) = provisioned J pc) \<and>
     (relayCa (snd wc) = None \<or> relayCa (snd wc) = provisioned J rc)"

lemma loadCaCert_file: "sd_laws sd \<Longrightarrow> loadCaCert sd J w path = provisioned J (sd_files sd w path)"
  by (cases "sd_files sd w path") (simp_all add: loadCaCert_def provisioned_def sd_existsD sd_readD Let_def)

lemma configured_trust:
  assumes "sd_laws sd" and "certs_ok sd J pc rc wc" and "configureClientForEndpoint sd J ep wc = (t, wc')"
  shows "certs_ok sd J pc rc wc'" "fst wc' = fst wc"
    "t = Some x \<Longrightarrow> if ep = Pi then \<exists>pem. provisioned J pc = Some pem \<and> x = Pinned pem
       else x = (case provisioned J rc of Some pem \<Rightarrow> Pinned pem | None \<Rightarrow> Insecure)"
  using assms by (auto simp: configureClientForEndpoint_def certs_ok_def loadCaCert_file Let_def split: if_splits prod.splits)

text \<open>What one exchange may send, given what it makes of the trust.\<close>

definition request_safe :: "('c, 'v) json_lib \<Rightarrow> DeviceConfigData \<Rightarrow> Endpoint \<Rightarrow> ('c tls_trust \<Rightarrow> 'c http_request) \<Rightarrow> bool" where
  "request_safe J cfg ep mk \<longleftrightarrow>
     (if ep = Pi then \<forall>cert pem. provisioned J cert = Some pem \<longrightarrow> pi_form J cfg cert (mk (Pinned pem))
      else \<forall>cert. relay_form J cfg cert (mk (case provisioned J cert of Some pem \<Rightarrow> Pinned pem | None \<Rightarrow> Insecure)))"

definition log_of :: "('w \<times> 'c http_request list) \<times> 'c ca_cache \<Rightarrow> 'c http_request list" where
  "log_of wc = snd (fst wc)"

definition safe_log :: "('c, 'v) json_lib \<Rightarrow> DeviceConfigData \<Rightarrow> 'c option \<Rightarrow> 'c option \<Rightarrow> 'c http_request list \<Rightarrow> bool" where
  "safe_log J cfg pc rc log \<longleftrightarrow> (\<forall>rq \<in> set log. pi_form J cfg pc rq \<or> relay_form J cfg rc rq)"

definition client_inv :: "('w, 'c) sd_card \<Rightarrow> ('c, 'v) json_lib \<Rightarrow> DeviceConfigData \<Rightarrow> 'c option \<Rightarrow> 'c option \<Rightarrow>
    ('w \<times> 'c http_request list) \<times> 'c ca_cache \<Rightarrow> bool" where
  "client_inv sd J cfg pc rc wc \<longleftrightarrow> certs_ok (sd_with sd) J pc rc wc \<and> safe_log J cfg pc rc (log_of wc)"

lemma log_http_frame: "http_frame sd H \<Longrightarrow> http_frame (sd_with sd) (log_http H)"
  by (auto simp: http_frame_def log_http_def sd_with_def split: prod.splits) (metis snd_conv)

lemma http_exchange_safe:
  assumes laws: "sd_laws sd" and frame: "http_frame sd H" and inv: "client_inv sd J cfg pc rc wc"
    and safe: "request_safe J cfg ep mk"
  shows "client_inv sd J cfg pc rc (snd (http_exchange (sd_with sd) J (log_http H) ep mk wc))"
proof -
  obtain t wl ca where c: "configureClientForEndpoint (sd_with sd) J ep wc = (t, (wl, ca))" by (rule prod_cases3)
  have cert: "certs_ok (sd_with sd) J pc rc wc" and log: "safe_log J cfg pc rc (log_of wc)"
    using inv by (simp_all add: client_inv_def)
  note k = configured_trust [OF sd_with_laws [OF laws] cert c]
  have same: "client_inv sd J cfg pc rc (wl, ca)" using k(1,2) log by (simp add: client_inv_def log_of_def)
  show ?thesis
  proof (cases t)
    case None
    with c same show ?thesis by (simp add: http_exchange_def)
  next
    case (Some x)
    obtain w0 log0 where wl: "wl = (w0, log0)" by (rule prod.exhaust)
    obtain rs w1 where s: "h_send H (mk x) w0 = (rs, w1)" by (rule prod.exhaust)
    have "pi_form J cfg pc (mk x) \<or> relay_form J cfg rc (mk x)"
      using k(3) [OF Some] safe by (cases ep) (auto simp: request_safe_def)
    moreover have "sd_files sd w1 = sd_files sd w0" using frame s by (metis http_frame_def snd_conv)
    ultimately have "client_inv sd J cfg pc rc ((w1, mk x # log0), ca)"
      using same by (simp add: wl client_inv_def certs_ok_def safe_log_def log_of_def sd_with_def)
    with c Some same wl s show ?thesis by (simp add: http_exchange_def log_http_def Let_def)
  qed
qed

lemma download_loop_log:
  "download_loop (sd_with sd) S tmp expected ps n_read bytes since wl = (e, n', b', wl') \<Longrightarrow> snd wl' = snd wl"
proof (induction ps arbitrary: n_read bytes since wl)
  case (Cons p ps)
  obtain ok w1 where wr: "sd_write (sd_with sd) wl tmp (of_bytes S
      (bytes @ take (if pAvailable p > kStreamChunkBytes then kStreamChunkBytes else pAvailable p) (pBytes p))) = (ok, w1)"
    by (rule prod.exhaust)
  from Cons.prems wr show ?case
    by (auto simp: Let_def dest!: sd_with_eqD(1) split: if_splits dest: Cons.IH)
qed simp

lemma download_log:
  "log_of (snd (downloadJobToSd (sd_with sd) J (log_http H) S cfg jid dest sha n v wc)) =
   (if piConfigured cfg then log_of (snd (http_exchange (sd_with sd) J (log_http H) Pi (get_request cfg (''/jobs/'' @ jid @ ''/xtc'' @
          (case v of None \<Rightarrow> [] | Some v \<Rightarrow> ''?variant='' @ v))) wc)) else log_of wc)"
proof -
  obtain r w1 ca1 where x: "http_exchange (sd_with sd) J (log_http H) Pi (get_request cfg (''/jobs/'' @ jid @ ''/xtc'' @
          (case v of None \<Rightarrow> [] | Some v \<Rightarrow> ''?variant='' @ v))) wc = (r, (w1, ca1))" by (rule prod_cases3)
  show ?thesis
  proof (cases r)
    case None
    with x show ?thesis by (simp add: downloadJobToSd_def)
  next
    case (Some rs)
    obtain o2 w2 where op: "sd_write (sd_with sd) w1 (part_path dest) (of_bytes S []) = (o2, w2)" by (rule prod.exhaust)
    obtain e k b w3 where lp: "download_loop (sd_with sd) S (part_path dest) n (rsPolls rs) 0 [] (rsStart rs) w2 = (e, k, b, w3)"
      by (rule prod_cases4)
    define w4 where "w4 = (if sd_exists (sd_with sd) w3 dest then snd (sd_remove (sd_with sd) w3 dest) else w3)"
    obtain rn w5 where ren: "sd_rename (sd_with sd) w4 (part_path dest) dest = (rn, w5)" by (rule prod.exhaust)
    have "snd w2 = snd w1" "snd w3 = snd w2" "snd w4 = snd w3" "snd w5 = snd w4"
      using op lp ren by (auto simp: sd_with_eqD w4_def dest: download_loop_log)
    then show ?thesis
      unfolding downloadJobToSd_def Let_def x Some prod.case option.case op lp w4_def [symmetric] ren
      by (simp add: log_of_def)
  qed
qed

lemma requests_safe:
  "piConfigured cfg \<Longrightarrow> request_safe J cfg Pi (status_request cfg Pi)"
  "relayConfigured cfg \<Longrightarrow> request_safe J cfg Relay (status_request cfg Relay)"
  "piConfigured cfg \<Longrightarrow> request_safe J cfg Pi (get_request cfg path)"
  "piConfigured cfg \<Longrightarrow> request_safe J cfg Pi (ack_request J cfg jid sha l)"
  "piConfigured cfg \<Longrightarrow> request_safe J cfg Pi (upload_request cfg jid path mime ttl n)"
  "piConfigured cfg \<Longrightarrow> request_safe J cfg Pi (approval_request J cfg e False)"
  "relayConfigured cfg \<Longrightarrow> request_safe J cfg Relay (approval_request J cfg e True)"
  by (auto simp: request_safe_def pi_form_def relay_form_def status_request_def get_request_def ack_request_def
      upload_request_def approval_request_def pi_headers_def)

text \<open>A download touches its own two files and sends one request; the rest is not its business.\<close>

lemma download_safe:
  assumes laws: "sd_laws sd" and frame: "http_frame sd H" and inv: "client_inv sd J cfg pc rc wc"
    and dest: "take 7 dest = ''/inbox/''"
  shows "client_inv sd J cfg pc rc (snd (downloadJobToSd (sd_with sd) J (log_http H) S cfg jid dest sha n v wc))"
proof (cases "piConfigured cfg")
  case True
  let ?mk = "get_request cfg (''/jobs/'' @ jid @ ''/xtc'' @ (case v of None \<Rightarrow> [] | Some v \<Rightarrow> ''?variant='' @ v))"
  let ?x = "snd (http_exchange (sd_with sd) J (log_http H) Pi ?mk wc)"
  obtain ok w' ca' where d: "downloadJobToSd (sd_with sd) J (log_http H) S cfg jid dest sha n v wc = (ok, (w', ca'))"
    by (rule prod_cases3)
  have x: "client_inv sd J cfg pc rc ?x" by (rule http_exchange_safe [OF laws frame inv requests_safe(3) [OF True]])
  have "7 \<le> length dest" using dest arg_cong [OF dest, of length] by (cases "7 \<le> length dest") simp_all
  with dest have len: "take 7 (part_path dest) = ''/inbox/''" by (simp add: part_path_def)
  have ne: "kPiCaPath \<notin> {dest, part_path dest}" "kRelayCaPath \<notin> {dest, part_path dest}"
    using dest len by (auto simp: kPiCaPath_def kRelayCaPath_def dest: sym)
  have "sd_files (sd_with sd) w' q = sd_files (sd_with sd) (fst wc) q" if "q \<notin> {dest, part_path dest}" for q
    using downloadJobToSd_outcome [OF sd_with_laws [OF laws] log_http_frame [OF frame], of J S cfg jid dest sha n v "fst wc" "snd wc" ok w' ca']
      d that by (simp add: download_outcome_def)
  with ne have "sd_files (sd_with sd) w' kPiCaPath = pc" "sd_files (sd_with sd) w' kRelayCaPath = rc"
    using inv by (simp_all add: client_inv_def certs_ok_def)
  moreover have "ca' = snd ?x"
    using d by (auto simp: downloadJobToSd_def True Let_def split: option.splits if_splits prod.splits)
  moreover have "log_of (w', ca') = log_of ?x" using download_log [of sd J H S cfg jid dest sha n v wc] d True by simp
  ultimately show ?thesis using x d by (simp add: client_inv_def certs_ok_def)
qed (use inv in \<open>simp add: downloadJobToSd_def\<close>)

text \<open>Downloads go into the inbox, as the sync manager's do.\<close>

fun inbox_op :: "client_op \<Rightarrow> bool" where
  "inbox_op (Download j p sha n v) = (take 7 p = ''/inbox/'')"
| "inbox_op _ = True"

lemma client_step_safe:
  assumes laws: "sd_laws sd" and frame: "http_frame sd H" and inv: "client_inv sd J cfg pc rc wc" and op: "inbox_op op1"
  shows "client_inv sd J cfg pc rc (client_step (SyncClient (sd_with sd) J (log_http H) S cfg) op1 wc)"
proof -
  let ?x = "http_exchange (sd_with sd) J (log_http H)"
  have x: "client_inv sd J cfg pc rc wc'" if "?x ep mk wc = (r, wc')" "request_safe J cfg ep mk" for ep mk r wc'
    using http_exchange_safe [OF laws frame inv that(2)] that(1) by simp
  show ?thesis
  proof (cases op1)
    case (Status ep)
    then show ?thesis using inv
      by (cases ep) (auto simp: SyncClient_def statusCheck_def requests_safe split: prod.splits option.splits dest!: x)
  next
    case (FetchJobs k)
    then show ?thesis using inv
      by (auto simp: SyncClient_def fetchPendingJobs_def requests_safe split: prod.splits option.splits dest!: x)
  next
    case FetchConfig
    then show ?thesis using inv
      by (auto simp: SyncClient_def fetchDeviceConfig_def requests_safe split: prod.splits option.splits dest!: x)
  next
    case (Download j p sha k v)
    with op download_safe [OF laws frame inv] show ?thesis by (simp add: SyncClient_def)
  next
    case (Ack j sha l)
    then show ?thesis using inv
      by (auto simp: SyncClient_def ackJob_def requests_safe split: prod.splits option.splits dest!: x)
  next
    case (Submit e ep)
    then show ?thesis using inv
      by (cases ep) (auto simp: SyncClient_def submitApproval_def requests_safe Let_def split: prod.splits option.splits dest!: x)
  next
    case (Upload j p m t k)
    then show ?thesis using inv
      by (auto simp: SyncClient_def uploadOriginal_def requests_safe split: prod.splits option.splits dest!: x)
  qed
qed

section \<open>From the server's list to a stored entry\<close>

lemma manifest_loop_take: "manifest_loop J n js out = (if length out \<ge> n then out else take n (out @ map (manifest_of_json J) js))"
  by (induction J n js out rule: manifest_loop.induct) (auto simp: take_Cons split: nat.split)

definition manifest_buffers :: "JobManifest \<Rightarrow> bool" where
  "manifest_buffers m \<longleftrightarrow>
     length (mJobId m) \<le> 32 \<and> length (mTitle m) \<le> 64 \<and> length (mXtcSha256 m) \<le> 64 \<and> length (mLandscapeXtcSha256 m) \<le> 64"

lemma manifest_buffers_json [simp]: "manifest_buffers (manifest_of_json J j)"
  by (simp add: manifest_buffers_def manifest_of_json_def)

lemma fetchPendingJobs_manifests:
  "fetchPendingJobs sd J H cfg n wc = (Some ms, wc') \<Longrightarrow> length ms \<le> n \<and> (\<forall>m \<in> set ms. manifest_buffers m)"
  by (auto simp: fetchPendingJobs_def manifest_loop_take split: if_splits option.splits prod.splits dest!: in_set_takeD)

lemma entry_of_manifest_fits:
  assumes "manifest_buffers m"
  shows "JobEntry_buffers (entry_of_manifest m)"
    and "jobId (entry_of_manifest m) = mJobId m"
    and "xtcSha256 (entry_of_manifest m) = mXtcSha256 m"
    and "xtcPath (entry_of_manifest m) = ''/inbox/'' @ mJobId m @ ''.xtc''"
    and "mLandscapeXtcSha256 m \<noteq> [] \<Longrightarrow> landscapeXtcPath (entry_of_manifest m) = ''/inbox/'' @ mJobId m @ ''_l.xtc''"
    and "landscapeXtcSha256 (entry_of_manifest m) = mLandscapeXtcSha256 m"
  using assms
  by (auto simp: manifest_buffers_def entry_of_manifest_def Let_def JobEntry_buffers_def JobEntry_init_def
      kJobIdLen_def kTitleLen_def kPathLen_def kSha256Len_def strncpy_def)

section \<open>A visible job is a verified job\<close>

text \<open>The card as the client's world sees it: the certificate cache is no file.\<close>

abbreviation world_files :: "('w, 'c) sd_card \<Rightarrow> ('w, 'c) client_world \<Rightarrow> string \<rightharpoonup> 'c" where
  "world_files sd wc \<equiv> sd_files sd (fst wc)"

lemma sd_with_files: "sd_files (sd_with sd) wc = sd_files sd (fst wc)"
  by (simp add: sd_with_def split: prod.splits)

lemma saveJobIndex_frame:
  assumes "sd_laws sd" and "p \<noteq> kJobIndexPath" and "p \<noteq> tmp_path kJobIndexPath"
  shows "world_files sd (snd (saveJobIndex (sd_with sd) J wc jobs)) p = world_files sd wc p"
proof -
  note laws = sd_with_laws [OF assms(1)]
  have "sd_files (sd_with sd) (snd (saveJobIndex (sd_with sd) J wc jobs)) p = sd_files (sd_with sd) wc p"
    unfolding saveJobIndex_def Let_def
    by (subst writeFileAtomic_frame [OF laws assms(2,3)]) (simp add: sd_mkdirD [OF laws])
  then show ?thesis by (simp add: sd_with_files)
qed

text \<open>The index file and its temporary are not among the document files.\<close>

lemma document_paths:
  "''/inbox/'' @ j @ ''.xtc'' \<noteq> kJobIndexPath" "''/inbox/'' @ j @ ''.xtc'' \<noteq> tmp_path kJobIndexPath"
  "''/inbox/'' @ j @ ''_l.xtc'' \<noteq> kJobIndexPath" "''/inbox/'' @ j @ ''_l.xtc'' \<noteq> tmp_path kJobIndexPath"
  by (rule notI, drule arg_cong [of _ _ last], simp add: kJobIndexPath_def tmp_path_def)+

lemma variant_paths:
  "''/inbox/'' @ j @ ''.xtc'' \<noteq> ''/inbox/'' @ j @ ''_l.xtc''"
  "''/inbox/'' @ j @ ''.xtc'' \<noteq> part_path (''/inbox/'' @ j @ ''_l.xtc'')"
  by (simp_all add: part_path_def)

lemma ackJob_files:
  "http_frame sd H \<Longrightarrow> ackJob sd J H cfg jid sha l wc = (b, wc') \<Longrightarrow> world_files sd wc' = world_files sd wc"
  using http_exchange_files [of sd H J Pi "ack_request J cfg jid sha l" "fst wc" "snd wc"]
  by (cases wc') (auto simp: ackJob_def split: if_splits option.splits prod.splits)

lemma SyncClient_simps:
  "cl_download (SyncClient sd J H S cfg) = downloadJobToSd sd J H S cfg"
  "cl_ack (SyncClient sd J H S cfg) = ackJob sd J H cfg"
  by (simp_all add: SyncClient_def)

text \<open>The only way a manifest counts as a new job.\<close>

lemma download_one_counted:
  assumes run: "download_one sd J cl m (jobs, summary, w) = (jobs', summary', w')"
    and cnt: "newJobsDownloaded summary' > newJobsDownloaded summary"
  obtains w1 w2 w3 where
    "cl_download cl (mJobId m) (''/inbox/'' @ mJobId m @ ''.xtc'') (mXtcSha256 m) (mXtcBytes m) None w = (True, w1)"
    "if mLandscapeXtcSha256 m = [] then w2 = w1 else
       cl_download cl (mJobId m) (''/inbox/'' @ mJobId m @ ''_l.xtc'') (mLandscapeXtcSha256 m) (mLandscapeXtcBytes m)
         (Some ''landscape'') w1 = (True, w2)"
    "cl_ack cl (mJobId m) (mXtcSha256 m) (if mLandscapeXtcSha256 m = [] then None else Some (mLandscapeXtcSha256 m)) w2 = (True, w3)"
    "JobIndex_upsert jobs (entry_of_manifest m) = (True, jobs')"
    "w' = snd (saveJobIndex sd J w3 jobs')"
proof -
  let ?l = "mLandscapeXtcSha256 m"
  obtain ok w1 where d: "cl_download cl (mJobId m) (''/inbox/'' @ mJobId m @ ''.xtc'') (mXtcSha256 m) (mXtcBytes m) None w = (ok, w1)"
    by (rule prod.exhaust)
  obtain lok w2 where d2: "(if ?l \<noteq> [] then cl_download cl (mJobId m) (''/inbox/'' @ mJobId m @ ''_l.xtc'') ?l
      (mLandscapeXtcBytes m) (Some ''landscape'') w1 else (True, w1)) = (lok, w2)" by (rule prod.exhaust)
  obtain a w3 where ak: "cl_ack cl (mJobId m) (mXtcSha256 m) (if ?l \<noteq> [] then Some ?l else None) w2 = (a, w3)"
    by (rule prod.exhaust)
  obtain r jobs2 where up: "JobIndex_upsert jobs (entry_of_manifest m) = (r, jobs2)" by (rule prod.exhaust)
  have "ok \<and> lok \<and> a \<and> r \<and> jobs' = jobs2 \<and> w' = snd (saveJobIndex sd J w3 jobs2)"
    using run cnt unfolding download_one_def Let_def prod.case d d2 ak up by (auto split: if_splits)
  then show ?thesis
    using d d2 ak up by (intro that [of w1 w2 w3]) (auto split: if_splits)
qed

lemma new_job_files:
  assumes laws: "sd_laws sd" and frame: "http_frame sd H"
    and run: "download_one (sd_with sd) J (SyncClient sd J H S cfg) m (jobs, summary, wc) = (jobs', summary', wc')"
    and cnt: "newJobsDownloaded summary' > newJobsDownloaded summary"
  shows "verified S (mXtcSha256 m) (mXtcBytes m) (world_files sd wc' (''/inbox/'' @ mJobId m @ ''.xtc''))"
    and "mLandscapeXtcSha256 m \<noteq> [] \<Longrightarrow> verified S (mLandscapeXtcSha256 m) (mLandscapeXtcBytes m)
      (world_files sd wc' (''/inbox/'' @ mJobId m @ ''_l.xtc''))"
    and "JobIndex_upsert jobs (entry_of_manifest m) = (True, jobs')"
    and "\<exists>w3. wc' = snd (saveJobIndex (sd_with sd) J w3 jobs') \<and>
      world_files sd w3 (''/inbox/'' @ mJobId m @ ''.xtc'') = world_files sd wc' (''/inbox/'' @ mJobId m @ ''.xtc'') \<and>
      world_files sd w3 (''/inbox/'' @ mJobId m @ ''_l.xtc'') = world_files sd wc' (''/inbox/'' @ mJobId m @ ''_l.xtc'')"
proof -
  let ?p = "''/inbox/'' @ mJobId m @ ''.xtc''" and ?q = "''/inbox/'' @ mJobId m @ ''_l.xtc''"
  from run cnt obtain w1 w2 w3 where s:
    "downloadJobToSd sd J H S cfg (mJobId m) ?p (mXtcSha256 m) (mXtcBytes m) None wc = (True, w1)"
    "if mLandscapeXtcSha256 m = [] then w2 = w1 else downloadJobToSd sd J H S cfg (mJobId m) ?q (mLandscapeXtcSha256 m)
       (mLandscapeXtcBytes m) (Some ''landscape'') w1 = (True, w2)"
    "ackJob sd J H cfg (mJobId m) (mXtcSha256 m) (if mLandscapeXtcSha256 m = [] then None else Some (mLandscapeXtcSha256 m)) w2 = (True, w3)"
    "JobIndex_upsert jobs (entry_of_manifest m) = (True, jobs')" "wc' = snd (saveJobIndex (sd_with sd) J w3 jobs')"
    by (rule download_one_counted [of "sd_with sd" J "SyncClient sd J H S cfg", unfolded SyncClient_simps])
  have out: "downloadJobToSd sd J H S cfg j d h n v a = (b, a') \<Longrightarrow> download_outcome S d h n b (world_files sd a) (world_files sd a')"
    for j d h n v a b a'
    using downloadJobToSd_outcome [OF laws frame, of J S cfg j d h n v "fst a" "snd a" b "fst a'" "snd a'"] by simp
  have o1: "verified S (mXtcSha256 m) (mXtcBytes m) (world_files sd w1 ?p)"
    using out [OF s(1)] by (simp add: download_outcome_def)
  have f3: "world_files sd wc' x = world_files sd w3 x" if "x = ?p \<or> x = ?q" for x
  proof -
    have "x \<noteq> kJobIndexPath \<and> x \<noteq> tmp_path kJobIndexPath" using that
      by (elim disjE; hypsubst; intro conjI document_paths)
    then show ?thesis using saveJobIndex_frame [OF laws, of x J w3 jobs'] s(5) by simp
  qed
  then have f: "world_files sd wc' x = world_files sd w2 x" if "x = ?p \<or> x = ?q" for x
    using ackJob_files [OF frame s(3)] that by simp
  show "\<exists>w3. wc' = snd (saveJobIndex (sd_with sd) J w3 jobs') \<and>
      world_files sd w3 ?p = world_files sd wc' ?p \<and> world_files sd w3 ?q = world_files sd wc' ?q"
    using s(5) f3 [of ?p] f3 [of ?q] by (intro exI [of _ w3] conjI) simp_all
  have o2: "world_files sd w2 ?p = world_files sd w1 ?p"
  proof (cases "mLandscapeXtcSha256 m = []")
    case False
    with s(2) have "download_outcome S ?q (mLandscapeXtcSha256 m) (mLandscapeXtcBytes m) True (world_files sd w1) (world_files sd w2)"
      by (intro out) simp
    then show ?thesis
      unfolding download_outcome_def
      by (elim conjE, elim allE [of _ ?p], elim mp) (intro conjI variant_paths)
  qed (use s(2) in simp)
  show "verified S (mXtcSha256 m) (mXtcBytes m) (world_files sd wc' ?p)" using o1 o2 f by simp
  show "JobIndex_upsert jobs (entry_of_manifest m) = (True, jobs')" by (rule s(4))
  assume l: "mLandscapeXtcSha256 m \<noteq> []"
  with s(2) have "download_outcome S ?q (mLandscapeXtcSha256 m) (mLandscapeXtcBytes m) True (world_files sd w1) (world_files sd w2)"
    by (intro out) simp
  with f show "verified S (mLandscapeXtcSha256 m) (mLandscapeXtcBytes m) (world_files sd wc' ?q)"
    by (simp add: download_outcome_def)
qed

section \<open>Properties\<close>

text \<open>C13: A download either reports success, and then the target file holds exactly the expected number of
  bytes (modulo 2^32) with the expected SHA-256 and no partial file is left, or it reports failure,
  and then the target has its old content or is absent; no other file changes.\<close>

theorem download_verified:
  assumes "sd_laws sd" and "http_frame sd H"
    and "downloadJobToSd sd J H S cfg jid dest sha n variant (w, ca) = (ok, (w', ca'))"
  shows "(ok \<longrightarrow> verified S sha n (sd_files sd w' dest) \<and> sd_files sd w' (dest @ ''.part'') = None) \<and>
    (\<not> ok \<longrightarrow> sd_files sd w' dest = sd_files sd w dest \<or> sd_files sd w' dest = None) \<and>
    (\<forall>q. q \<noteq> dest \<and> q \<noteq> dest @ ''.part'' \<longrightarrow> sd_files sd w' q = sd_files sd w q)"
  using downloadJobToSd_outcome [OF assms] by (simp add: download_outcome_def part_path_def)

text \<open>A server with one one-byte document, for the witnesses. The hash is a stand-in.\<close>

definition ex_http :: "(string \<rightharpoonup> u8 list, u8 list) http_lib" where
  "ex_http = \<lparr>h_begin = (\<lambda>w url. True), h_send = (\<lambda>rq w.
     (\<lparr>rsCode = 200, rsSize = 1, rsText = [], rsStart = 0,
       rsPolls = [\<lparr>pAvailable = 0, pBytes = [], pNow = 5\<rparr>, \<lparr>pAvailable = 1, pBytes = [7], pNow = 15\<rparr>]\<rparr>, w))\<rparr>"

definition ex_sha :: "u8 list sha_lib" where
  "ex_sha = \<lparr>of_bytes = (\<lambda>bs. bs), sha256 = (\<lambda>bs. bs)\<rparr>"

definition ex_json :: "(u8 list, json_out) json_lib" where
  "ex_json = \<lparr>j_serialize = (\<lambda>_. []), j_deserialize = (\<lambda>_. None), j_isEmpty = (\<lambda>c. c = []), j_get = plain_get,
     j_array = (\<lambda>_. []), j_str = (\<lambda>_. None), j_int = (\<lambda>_. None), j_bool = (\<lambda>_. None), j_val = (\<lambda>d. d)\<rparr>"

definition ex_pi_cfg :: DeviceConfigData where
  "ex_pi_cfg = ex_cfg\<lparr>piBaseUrl := ''https://pi''\<rparr>"

definition ex_card :: "string \<rightharpoonup> u8 list" where
  "ex_card = [kPiCaPath \<mapsto> [1]]"

lemma ex_download:
  "downloadJobToSd mem_card ex_json ex_http ex_sha ex_pi_cfg ''b2'' ''/inbox/b2.xtc'' ''07'' 1 None (ex_card, \<lparr>piCa = None, relayCa = None\<rparr>)
   = (True, (ex_card(''/inbox/b2.xtc'' \<mapsto> [7]), \<lparr>piCa = Some [1], relayCa = None\<rparr>))"
proof -
  have hx: "http_exchange mem_card ex_json ex_http Pi mk (ex_card, \<lparr>piCa = None, relayCa = None\<rparr>) =
    (Some (fst (h_send ex_http (mk (Pinned [1])) ex_card)), (ex_card, \<lparr>piCa = Some [1], relayCa = None\<rparr>))" for mk
    by (simp add: http_exchange_def configureClientForEndpoint_def loadCaCert_def mem_card_def ex_card_def ex_json_def ex_http_def
        Let_def)
  have hex: "strncmp (sha256HexOf [7]) ''07'' 64 = 0"
    by (simp add: sha256HexOf_def hex_digit_def strncmp_def drop_bit_eq_div)
  show ?thesis
    unfolding downloadJobToSd_def hx
    by (simp add: piConfigured_def ex_pi_cfg_def ex_cfg_def ex_http_def mem_card_def Let_def kHttpTimeoutMs_def
        kStreamChunkBytes_def hex ex_sha_def part_path_def fun_eq_iff ex_card_def kPiCaPath_def)
qed

lemma ex_http_frame: "http_frame mem_card ex_http"
  by (simp add: http_frame_def ex_http_def mem_card_def)

lemma download_verified_witness:
  "verified ex_sha ''07'' 1 (Some [7])"
  using download_verified [OF mem_card_laws ex_http_frame ex_download] by (simp add: mem_card_def)

text \<open>The read loop of a download ends even if the server never closes the connection: after 1502 turns
  per expected byte its answer no longer depends on what else would come, given a clock that moves at
  least 10 ms per waiting turn.\<close>

theorem download_loop_terminates:
  assumes "unat expected + 2048 < 2 ^ 32" and "ticks False start ps" and "1502 * unat expected \<le> length ps"
  shows "download_loop sd S tmp expected (ps @ later) 0 [] start w = download_loop sd S tmp expected ps 0 [] start w"
  using download_loop_append [OF assms(1), of 0 start ps start 0 sd S tmp later "[]" w] assms(2,3) by simp

fun quiet :: "nat \<Rightarrow> u32 \<Rightarrow> poll list" where
  "quiet 0 t = []"
| "quiet (Suc n) t = \<lparr>pAvailable = 0, pBytes = [], pNow = t + 10\<rparr> # quiet n (t + 10)"

lemma ticks_quiet_run: "ticks b t (quiet n t)" and length_quiet: "length (quiet n t) = n"
  by (induction n arbitrary: b t) auto

lemma download_loop_terminates_witness:
  "download_loop mem_card ex_sha ''t'' 1 (quiet 1502 0 @ quiet 5 0) 0 [] 0 Map.empty
   = download_loop mem_card ex_sha ''t'' 1 (quiet 1502 0) 0 [] 0 (Map.empty :: string \<rightharpoonup> u8 list)"
  by (rule download_loop_terminates) (simp_all add: ticks_quiet_run length_quiet)

text \<open>C12: Whatever calls are made in whatever order, every request the sync client sends either goes to the Pi's URL with the
  device token over a connection pinned to the certificate in the Pi's own file, or to the approval queue of a
  paired relay, pinned to the relay's certificate if its file has one, with the relay's token as the only
  credential among its headers and a body that is empty or the five fields of an approval: without the Pi's certificate
  the device token is never sent, and the relay never gets a document. (The calls download into the inbox, as the sync manager's
  do, and the certificate caches are empty or of those files, as after a boot. Calendars are fetched by other code,
  without a header, and are not among these requests.)\<close>

theorem client_requests_safe:
  assumes "sd_laws sd" and "http_frame sd H" and "list_all inbox_op ops"
    and "piCa ca \<in> {None, provisioned J (sd_files sd w kPiCaPath)}"
    and "relayCa ca \<in> {None, provisioned J (sd_files sd w kRelayCaPath)}"
  shows "\<forall>rq \<in> set (log_of (fold (client_step (SyncClient (sd_with sd) J (log_http H) S cfg)) ops ((w, []), ca))).
     pi_form J cfg (sd_files sd w kPiCaPath) rq \<or> relay_form J cfg (sd_files sd w kRelayCaPath) rq"
proof -
  let ?pc = "sd_files sd w kPiCaPath" and ?rc = "sd_files sd w kRelayCaPath"
  have "client_inv sd J cfg ?pc ?rc (fold (client_step (SyncClient (sd_with sd) J (log_http H) S cfg)) ops wc)"
    if "client_inv sd J cfg ?pc ?rc wc" for wc
    using that assms(3)
    by (induction ops arbitrary: wc) (simp_all add: client_step_safe [OF assms(1,2)])
  moreover have "client_inv sd J cfg ?pc ?rc ((w, []), ca)"
    using assms(4,5) by (auto simp: client_inv_def certs_ok_def safe_log_def log_of_def sd_with_def)
  ultimately show ?thesis by (simp add: client_inv_def safe_log_def)
qed

lemma client_requests_safe_witness:
  "pi_form ex_json ex_pi_cfg (Some [1]) (status_request ex_pi_cfg Pi (Pinned [1 :: u8]))"
proof -
  let ?wc = "((ex_card, []), \<lparr>piCa = None, relayCa = None\<rparr>)"
  let ?run = "fold (client_step (SyncClient (sd_with mem_card) ex_json (log_http ex_http) ex_sha ex_pi_cfg)) [Status Pi] ?wc"
  have "log_of ?run = [status_request ex_pi_cfg Pi (Pinned [1])]"
    by (simp add: SyncClient_def statusCheck_def http_exchange_def configureClientForEndpoint_def loadCaCert_def log_of_def
        log_http_def sd_with_def mem_card_def ex_card_def ex_json_def ex_http_def piConfigured_def ex_pi_cfg_def ex_cfg_def Let_def)
  moreover have "sd_files mem_card ex_card kPiCaPath = Some [1]" by (simp add: mem_card_def ex_card_def)
  ultimately show ?thesis
    using client_requests_safe [OF mem_card_laws ex_http_frame, where J = ex_json and S = ex_sha and cfg = ex_pi_cfg
      and ops = "[Status Pi]" and w = ex_card and ca = "\<lparr>piCa = None, relayCa = None\<rparr>"]
    by (simp add: relay_form_def relayConfigured_def ex_pi_cfg_def ex_cfg_def)
qed

text \<open>A server whose every answer is the same JSON document.\<close>

definition doc_http :: "json_out \<Rightarrow> (string \<rightharpoonup> json_out, json_out) http_lib" where
  "doc_http d = \<lparr>h_begin = (\<lambda>w url. True), h_send = (\<lambda>rq w.
     (\<lparr>rsCode = 200, rsSize = 0, rsText = d, rsStart = 0, rsPolls = []\<rparr>, w))\<rparr>"

definition doc_card :: "string \<rightharpoonup> json_out" where
  "doc_card = [kPiCaPath \<mapsto> JStr ''pem'']"

lemma doc_exchange:
  "http_exchange mem_card plain_json (doc_http d) Pi mk (doc_card, \<lparr>piCa = None, relayCa = None\<rparr>) =
   (Some \<lparr>rsCode = 200, rsSize = 0, rsText = d, rsStart = 0, rsPolls = []\<rparr>,
    (doc_card, \<lparr>piCa = Some (JStr ''pem''), relayCa = None\<rparr>))"
  by (simp add: http_exchange_def configureClientForEndpoint_def loadCaCert_def mem_card_def doc_card_def plain_json_def
      doc_http_def Let_def)

text \<open>The jobs a batch lists are at most as many as asked for, and each fits the stored entry without any
  truncation: its id, its hashes and the paths it is downloaded to are exactly those in the index.\<close>

theorem fetched_jobs_storable:
  assumes "fetchPendingJobs sd J H cfg n wc = (Some ms, wc')"
  shows "length ms \<le> n \<and> (\<forall>m \<in> set ms. let e = entry_of_manifest m in
     JobEntry_buffers e \<and> jobId e = mJobId m \<and> xtcSha256 e = mXtcSha256 m \<and>
     xtcPath e = ''/inbox/'' @ mJobId m @ ''.xtc'' \<and> landscapeXtcSha256 e = mLandscapeXtcSha256 m \<and>
     (mLandscapeXtcSha256 m \<noteq> [] \<longrightarrow> landscapeXtcPath e = ''/inbox/'' @ mJobId m @ ''_l.xtc''))"
  using fetchPendingJobs_manifests [OF assms] entry_of_manifest_fits unfolding Let_def by blast

lemma fetched_jobs_storable_witness:
  "\<exists>m. fst (fetchPendingJobs mem_card plain_json (doc_http (JObj [(''jobs'', JArr [JObj [(''job_id'', JStr ''b2'')]])])) ex_pi_cfg 16
      (doc_card, \<lparr>piCa = None, relayCa = None\<rparr>)) = Some [m] \<and> xtcPath (entry_of_manifest m) = ''/inbox/b2.xtc''"
proof -
  let ?doc = "JObj [(''jobs'', JArr [JObj [(''job_id'', JStr ''b2'')]])]"
  obtain r wc' where f: "fetchPendingJobs mem_card plain_json (doc_http ?doc) ex_pi_cfg 16
      (doc_card, \<lparr>piCa = None, relayCa = None\<rparr>) = (r, wc')" by (rule prod.exhaust)
  have "r = Some [manifest_of_json plain_json (JObj [(''job_id'', JStr ''b2'')])]"
    using f unfolding fetchPendingJobs_def doc_exchange
    by (simp add: piConfigured_def ex_pi_cfg_def ex_cfg_def plain_json_def plain_get_def split: if_splits)
  moreover have "mJobId (manifest_of_json plain_json (JObj [(''job_id'', JStr ''b2'')])) = ''b2''"
    by (simp add: manifest_of_json_def json_or_str_def plain_json_def plain_get_def strncpy_def)
  ultimately show ?thesis using fetched_jobs_storable [of mem_card plain_json "doc_http ?doc" ex_pi_cfg 16] f
    by (auto simp: Let_def)
qed

text \<open>What it means that the files an entry names are those its manifest announced.\<close>

definition job_verified :: "'c sha_lib \<Rightarrow> (string \<rightharpoonup> 'c) \<Rightarrow> JobManifest \<Rightarrow> JobEntry \<Rightarrow> bool" where
  "job_verified S files m e \<longleftrightarrow>
     verified S (mXtcSha256 m) (mXtcBytes m) (files (xtcPath e)) \<and>
     (if mLandscapeXtcSha256 m = [] then landscapeXtcPath e = []
      else landscapeXtcPath e \<noteq> xtcPath e \<and>
        verified S (mLandscapeXtcSha256 m) (mLandscapeXtcBytes m) (files (landscapeXtcPath e)))"

text \<open>C11: A manifest whose strings fit its struct, as those of every fetched one do, counts as a new job only when its entry is in
  the index and the files that entry names, the document and the landscape variant if there is one, lie on the card
  complete and with the right hash: already when the index is saved, and after it. When that save succeeds (its result
  is ignored), the index file holds the index with the entry.\<close>

theorem new_job_is_verified:
  assumes "sd_laws sd" and "http_frame sd H" and "JobIndex_inv jobs" and "manifest_buffers m"
    and "download_one (sd_with sd) J (SyncClient sd J H S cfg) m (jobs, summary, wc) = (jobs', summary', wc')"
    and "newJobsDownloaded summary' > newJobsDownloaded summary"
  shows "JobIndex_inv jobs' \<and> (\<exists>e before saved.
    JobIndex_entry jobs' (mJobId m) = Some e \<and> job_verified S (sd_files sd (fst before)) m e \<and>
    saveJobIndex (sd_with sd) J before jobs' = (saved, wc') \<and> job_verified S (sd_files sd (fst wc')) m e \<and>
    (saved \<longrightarrow> sd_files sd (fst wc') kJobIndexPath = Some (j_serialize J (jobs_doc jobs'))))"
proof -
  note f = new_job_files [OF assms(1,2,5,6)]
  note e = entry_of_manifest_fits [OF assms(4)]
  have inv: "JobIndex_inv jobs'" using JobIndex_inv_upsert [OF assms(3), of "entry_of_manifest m"] f(3) by simp
  have found: "JobIndex_entry jobs' (mJobId m) = Some (entry_of_manifest m)"
    using jobs.ups_fnd [OF assms(3), of "entry_of_manifest m" "mJobId m"] f(3) e(2) by simp
  obtain before saved where sv: "saveJobIndex (sd_with sd) J before jobs' = (saved, wc')"
    and same: "world_files sd before (''/inbox/'' @ mJobId m @ ''.xtc'') = world_files sd wc' (''/inbox/'' @ mJobId m @ ''.xtc'')"
      "world_files sd before (''/inbox/'' @ mJobId m @ ''_l.xtc'') = world_files sd wc' (''/inbox/'' @ mJobId m @ ''_l.xtc'')"
    using f(4) by (metis prod.collapse)
  have none: "landscapeXtcPath (entry_of_manifest m) = []" if "mLandscapeXtcSha256 m = []"
    using that by (simp add: entry_of_manifest_def JobEntry_init_def Let_def)
  have after: "job_verified S (sd_files sd (fst wc')) m (entry_of_manifest m)"
    using f(1,2) e(4,5) none by (simp add: job_verified_def)
  moreover have "job_verified S (sd_files sd (fst before)) m (entry_of_manifest m)"
    using after e(4,5) none same unfolding job_verified_def by (cases "mLandscapeXtcSha256 m = []") simp_all
  moreover have "saved \<longrightarrow> sd_files sd (fst wc') kJobIndexPath = Some (j_serialize J (jobs_doc jobs'))"
    using saveJobIndex_ok_file [OF sd_with_laws [OF assms(1)], of J before jobs' wc'] sv by (simp add: sd_with_files)
  ultimately show ?thesis using inv found sv by blast
qed

text \<open>The witness downloads the one-byte document for a job without a landscape variant.\<close>

lemma new_job_is_verified_witness:
  "let m = \<lparr>mJobId = ''b2'', mTitle = ''Scan'', mCreatedAt = 7, mXtcBytes = 1, mXtcSha256 = ''07'', mPageCount = 1,
     mLandscapeXtcBytes = 0, mLandscapeXtcSha256 = [], mLandscapePageCount = 0\<rparr> in
   \<exists>e jobs' s' wc'. download_one (sd_with mem_card) ex_json (SyncClient mem_card ex_json ex_http ex_sha ex_pi_cfg) m
     ([], SyncSummary_init, (ex_card, \<lparr>piCa = None, relayCa = None\<rparr>)) = (jobs', s', wc') \<and>
     JobIndex_entry jobs' ''b2'' = Some e \<and> verified ex_sha ''07'' 1 (fst wc' (xtcPath e))"
proof -
  let ?m = "\<lparr>mJobId = ''b2'', mTitle = ''Scan'', mCreatedAt = 7, mXtcBytes = 1, mXtcSha256 = ''07'', mPageCount = 1,
     mLandscapeXtcBytes = 0, mLandscapeXtcSha256 = [], mLandscapePageCount = 0\<rparr>"
  let ?cl = "SyncClient mem_card ex_json ex_http ex_sha ex_pi_cfg"
  let ?wc1 = "(ex_card(''/inbox/b2.xtc'' \<mapsto> [7]), \<lparr>piCa = Some [1 :: u8], relayCa = None\<rparr>)"
  have ack: "fst (cl_ack ?cl ''b2'' ''07'' None ?wc1)"
    by (simp add: SyncClient_def ackJob_def http_exchange_def configureClientForEndpoint_def piConfigured_def
        ex_pi_cfg_def ex_cfg_def ex_http_def Let_def)
  obtain jobs' s' wc' where run: "download_one (sd_with mem_card) ex_json ?cl ?m
      ([], SyncSummary_init, (ex_card, \<lparr>piCa = None, relayCa = None\<rparr>)) = (jobs', s', wc')" by (rule prod_cases3)
  have d: "cl_download ?cl ''b2'' ''/inbox/b2.xtc'' ''07'' 1 None (ex_card, \<lparr>piCa = None, relayCa = None\<rparr>) = (True, ?wc1)"
    by (simp add: SyncClient_simps ex_download)
  have cnt: "newJobsDownloaded s' > newJobsDownloaded SyncSummary_init"
    using run d ack
    by (auto simp: download_one_def Let_def JobIndex_full_def JobIndex_count_def kMaxInboxJobs_def JobIndex_upsert_def
        JobIndex_find_def split: prod.splits if_splits)
  have fits: "manifest_buffers ?m" by (simp add: manifest_buffers_def)
  have files: "sd_files mem_card = (\<lambda>c. c)" by (simp add: mem_card_def)
  from new_job_is_verified [OF mem_card_laws ex_http_frame JobIndex_inv_Nil fits run cnt]
  obtain e where "JobIndex_entry jobs' ''b2'' = Some e" "verified ex_sha ''07'' 1 (fst wc' (xtcPath e))"
    by (auto simp: job_verified_def files)
  with run show ?thesis unfolding Let_def by blast
qed

text \<open>The outbox may drop an approval exactly when the endpoint answered 200 with one of the four statuses
  that settle it; a result never claims to be applied without a completed request.\<close>

theorem submitApproval_applied_iff:
  assumes "http_exchange sd J H ep (approval_request J cfg e (ep = Relay)) wc = (r, wc1)"
    and "ep = Pi \<longrightarrow> piConfigured cfg" and "ep = Relay \<longrightarrow> relayConfigured cfg"
  shows "(applied (fst (submitApproval sd J H cfg e ep wc)) \<longleftrightarrow>
     (\<exists>rs doc. r = Some rs \<and> rsCode rs = 200 \<and> j_deserialize J (rsText rs) = Some doc \<and>
        json_or_str J doc ''status'' [] \<in> {''applied'', ''queued'', ''already_applied'', ''superseded''})) \<and>
    (applied (fst (submitApproval sd J H cfg e ep wc)) \<longrightarrow> networkOk (fst (submitApproval sd J H cfg e ep wc)))"
proof -
  have "submitApproval sd J H cfg e ep wc = (case r of None \<Rightarrow> (ApprovalSubmitResult_init, wc1)
      | Some rs \<Rightarrow> if rsCode rs \<noteq> 200 then (ApprovalSubmitResult_init, wc1) else (approval_result J (rsText rs), wc1))"
    using assms by (cases ep) (simp_all add: submitApproval_def)
  then show ?thesis
    by (auto simp: approval_result_def ApprovalSubmitResult_init_def Let_def split: option.splits if_splits)
qed

lemma submitApproval_applied_iff_witness:
  "applied (fst (submitApproval mem_card plain_json (doc_http (JObj [(''status'', JStr ''queued'')])) ex_pi_cfg
     ApprovalEntry_init Pi (doc_card, \<lparr>piCa = None, relayCa = None\<rparr>)))"
  using submitApproval_applied_iff [OF doc_exchange [of "JObj [(''status'', JStr ''queued'')]"
      "approval_request plain_json ex_pi_cfg ApprovalEntry_init (Pi = Relay)"]]
  by (simp add: piConfigured_def ex_pi_cfg_def ex_cfg_def json_or_str_def plain_json_def plain_get_def)

text \<open>A title is percent-encoded so that it can be read back, in characters that are safe in a query.\<close>

theorem urlEncode_roundtrip:
  "urlDecode (urlEncode s) = s \<and> (\<forall>c \<in> set (urlEncode s). unreserved c \<or> c = CHR ''%'')"
  using urlDecode_urlEncode urlEncode_chars by blast

end
