(* ===== verification/Calendar_Sync.thy ===== *)
theory Calendar_Sync
  imports Ics_Expand Sync_Client
begin

text \<open>
  From the feeds to the next event: src/firmware/src/net/IcsFetch.h and .cpp, and
  src/firmware/src/calendar/CalendarSync.h and .cpp. The HTTPS client is the parameter \<open>H\<close>: whether
  \<^verbatim>\<open>begin\<close> succeeds, and for a GET the status code, the \<^verbatim>\<open>millis()\<close> before the read loop and what each
  turn of it finds while the connection is up.
\<close>

section \<open>Fetching a feed\<close>

datatype IcsFetchResult = FetchOk | ConnectFailed | HttpError | ParseAborted

record ics_poll = poll +
  pConnected :: bool

record 'w ics_http =
  ic_begin :: "'w \<Rightarrow> string \<Rightarrow> bool"
  ic_get :: "string \<Rightarrow> 'w \<Rightarrow> (int \<times> u32 \<times> ics_poll list) \<times> 'w"

definition chars_of :: "u8 list \<Rightarrow> string" where
  "chars_of bs = map char_of_byte bs"

fun fetch_loop :: "mktime \<Rightarrow> ics_poll list \<Rightarrow> u32 \<Rightarrow> IcsParser \<Rightarrow> IcsParser option" where
  "fetch_loop mk [] lastByteAt P = Some P"
| "fetch_loop mk (p # ps) lastByteAt P =
     (if pAvailable p = 0 then
        if \<not> pConnected p then Some P
        else if pNow p - lastByteAt > kHttpTimeoutMs then Some P
        else fetch_loop mk ps lastByteAt P
      else
        let toRead = (if pAvailable p > kStreamChunkBytes then kStreamChunkBytes else pAvailable p);
            buf = take toRead (pBytes p)
        in if buf = [] then Some P
           else case feed mk P (chars_of buf) of
             None \<Rightarrow> None
           | Some P \<Rightarrow> fetch_loop mk ps (pNow p) P)"

definition fetchIcs :: "mktime \<Rightarrow> 'w ics_http \<Rightarrow> string \<Rightarrow> IcsParser \<Rightarrow> 'w \<Rightarrow> (IcsFetchResult \<times> IcsParser \<times> 'w) option" where
  "fetchIcs mk H url P w =
     (if \<not> ic_begin H w url then Some (ConnectFailed, P, w)
      else case ic_get H url w of ((code, t0, polls), w) \<Rightarrow>
        if code < 200 \<or> code \<ge> 300 then Some (HttpError, P, w)
        else case fetch_loop mk polls t0 P of
          None \<Rightarrow> None
        | Some P \<Rightarrow> map_option (\<lambda>P. (FetchOk, P, w)) (finish mk P))"

section \<open>The sync pass over the feeds\<close>

definition kLookaheadSeconds :: int where "kLookaheadSeconds = 60 * 86400"
definition kMinPlausibleNow :: int where "kMinPlausibleNow = 1700000000"

definition kDefaultMaxEvents :: nat where "kDefaultMaxEvents = 64"

fun feeds_loop :: "mktime \<Rightarrow> 'w ics_http \<Rightarrow> int \<Rightarrow> CalendarFeed list \<Rightarrow> nat \<Rightarrow>
    bool \<times> Event list \<times> 'w \<Rightarrow> (bool \<times> Event list \<times> 'w) option" where
  "feeds_loop mk H now [] i st = Some st"
| "feeds_loop mk H now (fd # fds) i (anyFeedOk, events, w) =
     (if c_str (feedUrl fd) = [] then feeds_loop mk H now fds (Suc i) (anyFeedOk, events, w)
      else case fetchIcs mk H (feedUrl fd)
          (IcsParser_new events (of_nat i) now (now + kLookaheadSeconds) kDefaultMaxEvents) w of
        None \<Rightarrow> None
      | Some (result, P, w) \<Rightarrow> feeds_loop mk H now fds (Suc i) (anyFeedOk \<or> result = FetchOk, out P, w))"

fun soonest_loop :: "int \<Rightarrow> Event list \<Rightarrow> Event option \<Rightarrow> Event option" where
  "soonest_loop now [] best = best"
| "soonest_loop now (ev # evs) best =
     (if occEnd ev \<le> now then soonest_loop now evs best
      else case best of
        None \<Rightarrow> soonest_loop now evs (Some ev)
      | Some b \<Rightarrow> soonest_loop now evs (if occStart ev < occStart b then Some ev else best))"

definition next_info :: "int \<Rightarrow> NextEventInfo \<Rightarrow> Event option \<Rightarrow> NextEventInfo" where
  "next_info now previous soonest =
     (let info = (case soonest of
            None \<Rightarrow> NextEventInfo_init
          | Some e \<Rightarrow> NextEventInfo_init\<lparr>hasEvent := True, evTitle := strncpy kCalendarEventTitleLen (c_str (occTitle e)),
              evStart := occStart e, evEnd := occEnd e, evAllDay := occAllDay e\<rparr>)
      in info\<lparr>lastSyncedAt := now, alertedForStart := alertedForStart previous, alertedForEnd := alertedForEnd previous\<rparr>)"

definition syncCalendars :: "('w, 'c) sd_card \<Rightarrow> ('c, 'v) json_lib \<Rightarrow> mktime \<Rightarrow> 'w ics_http \<Rightarrow> CalendarFeed list \<Rightarrow> int \<Rightarrow>
    NextEventInfo \<times> 'w \<Rightarrow> (NextEventInfo \<times> 'w) option" where
  "syncCalendars sd J mk H feeds now st =
     (case st of (cache, w) \<Rightarrow>
      if feeds = [] then Some (cache, w)
      else if now < kMinPlausibleNow then Some (cache, w)
      else case feeds_loop mk H now feeds 0 (False, [], w) of
        None \<Rightarrow> None
      | Some (anyFeedOk, events, w) \<Rightarrow>
          if \<not> anyFeedOk then Some (cache, w)
          else let info = next_info now cache (soonest_loop now events None)
            in Some (info, snd (CalendarCache_save sd J w info)))"

section \<open>What was received\<close>

text \<open>The bytes the read loop hands to the parser.\<close>

fun received :: "ics_poll list \<Rightarrow> u32 \<Rightarrow> string" where
  "received [] lastByteAt = []"
| "received (p # ps) lastByteAt =
     (if pAvailable p = 0 then
        if \<not> pConnected p \<or> pNow p - lastByteAt > kHttpTimeoutMs then [] else received ps lastByteAt
      else let buf = take (min kStreamChunkBytes (pAvailable p)) (pBytes p)
        in if buf = [] then [] else chars_of buf @ received ps (pNow p))"

lemma feed_append: "feed mk P (a @ b) = (case feed mk P a of None \<Rightarrow> None | Some Q \<Rightarrow> feed mk Q b)"
  by (induction a arbitrary: P) (auto split: option.splits)

lemma fetch_loop_received: "fetch_loop mk ps t P = feed mk P (received ps t)"
  by (induction mk ps t P rule: fetch_loop.induct)
     (auto simp: Let_def feed_append min_def split: option.splits)

lemma fetchIcs_received:
  assumes "ic_begin H w url" and "ic_get H url w = ((code, t0, polls), w')" and "200 \<le> code" "code < 300"
  shows "fetchIcs mk H url P w = map_option (\<lambda>Q. (FetchOk, Q, w')) (parse mk P (received polls t0))"
  using assms by (auto simp: fetchIcs_def fetch_loop_received parse_def split: option.splits)

text \<open>fetching a feed parses the text received, whatever chunks it came in: two exchanges that deliver the same
  bytes leave the same events.\<close>

theorem fetchIcs_parses_received:
  assumes "ic_begin H w url" and "ic_get H url w = ((code, t0, polls), w')" and "200 \<le> code" "code < 300"
  shows "fetchIcs mk H url P w = map_option (\<lambda>Q. (FetchOk, Q, w')) (parse mk P (received polls t0))"
  by (rule fetchIcs_received [OF assms])

lemma fetchIcs_cases:
  assumes "fetchIcs mk H url P w = Some (res, Q, w')"
  obtains "res \<noteq> FetchOk" "Q = P" | ics where "res = FetchOk" "parse mk P ics = Some Q"
proof -
  have "res \<noteq> FetchOk \<and> Q = P \<or> res = FetchOk \<and> (\<exists>ics. parse mk P ics = Some Q)"
    using assms unfolding fetchIcs_def fetch_loop_received parse_def
    by (auto split: if_splits option.splits prod.splits intro: exI [of _ "received _ _"])
  with that show ?thesis by blast
qed

section \<open>The soonest event\<close>

lemma soonest_loop_correct:
  assumes "\<And>b. best = Some b \<Longrightarrow> occEnd b > now"
  shows "(case soonest_loop now evs best of
      None \<Rightarrow> best = None \<and> (\<forall>e \<in> set evs. occEnd e \<le> now)
    | Some e \<Rightarrow> occEnd e > now \<and> (best = Some e \<or> e \<in> set evs) \<and> (\<forall>b. best = Some b \<longrightarrow> occStart e \<le> occStart b) \<and>
        (\<forall>e' \<in> set evs. occEnd e' > now \<longrightarrow> occStart e \<le> occStart e'))"
  using assms
proof (induction now evs best rule: soonest_loop.induct)
  case (2 now ev evs best)
  show ?case
  proof (cases "occEnd ev \<le> now")
    case True
    then show ?thesis using 2 by (auto split: option.splits)
  next
    case False
    then show ?thesis
      using 2 by (cases best) (fastforce split: option.splits if_splits)+
  qed
qed (auto split: option.splits)

text \<open>What every feed of one pass leaves in the shared list.\<close>

definition upcoming :: "int \<Rightarrow> Event \<Rightarrow> bool" where
  "upcoming now e \<longleftrightarrow> occEnd e > now \<and> occStart e < now + kLookaheadSeconds \<and> occStatus e \<noteq> CANCELLED \<and> title_ok e"

lemma parse_upcoming:
  assumes "parse mk (IcsParser_new evs ci now (now + kLookaheadSeconds) kDefaultMaxEvents) ics = Some Q"
    and "list_all (upcoming now) evs \<and> length evs \<le> kDefaultMaxEvents"
  shows "list_all (upcoming now) (out Q) \<and> length (out Q) \<le> kDefaultMaxEvents"
proof -
  have i: "ics_inv evs (ci, now, now + kLookaheadSeconds, kDefaultMaxEvents) Q"
    by (rule keepsD [OF parse_inv [OF ics_inv_new] assms(1)])
  then have st: "windowStart Q = now" "windowEnd Q = now + kLookaheadSeconds" "maxEvents Q = kDefaultMaxEvents"
    by (simp_all add: ics_inv_def feed_setup_def)
  show ?thesis
    using i assms(2) by (auto simp: ics_inv_def events_ok_def shown_ok_def overlaps_def upcoming_def st list_all_iff)
qed

lemma feeds_loop_upcoming:
  "feeds_loop mk H now fds i (ok, evs, w) = Some (ok', evs', w') \<Longrightarrow>
   list_all (upcoming now) evs \<and> length evs \<le> kDefaultMaxEvents \<Longrightarrow>
   list_all (upcoming now) evs' \<and> length evs' \<le> kDefaultMaxEvents"
proof (induction fds arbitrary: i ok evs w)
  case (Cons fd fds)
  let ?new = "IcsParser_new evs (of_nat i) now (now + kLookaheadSeconds) kDefaultMaxEvents"
  show ?case
  proof (cases "c_str (feedUrl fd) = []")
    case True
    with Cons show ?thesis by simp
  next
    case False
    then obtain res Q w1 where f: "fetchIcs mk H (feedUrl fd) ?new w = Some (res, Q, w1)"
      and rest: "feeds_loop mk H now fds (Suc i) (ok \<or> res = FetchOk, out Q, w1) = Some (ok', evs', w')"
      using Cons.prems(1) by (auto split: option.splits prod.splits)
    have "list_all (upcoming now) (out Q) \<and> length (out Q) \<le> kDefaultMaxEvents"
    proof (rule fetchIcs_cases [OF f])
      assume "res \<noteq> FetchOk" "Q = ?new"
      then show ?thesis using Cons.prems(2) by (simp add: IcsParser_new_def)
    next
      fix ics
      assume "parse mk ?new ics = Some Q"
      from parse_upcoming [OF this Cons.prems(2)] show ?thesis .
    qed
    from Cons.IH [OF rest this] show ?thesis .
  qed
qed simp

text \<open>C34: a calendar pass either leaves the cached event and the card's file as they were or replaces both by a record
  made at this moment: it is the soonest of at most 64 collected events, each of which has not ended, starts within
  60 days, is not cancelled and has a title (or \<open>hasEvent\<close> is false and there is none), and the reminders already
  given are carried over.\<close>

theorem syncCalendars_soonest:
  assumes "syncCalendars sd J mk H feeds now (cache, w) = Some (cache', w')"
  shows "(cache' = cache \<and> (w' = w \<and> (feeds = [] \<or> now < kMinPlausibleNow) \<or>
      (\<exists>evs. feeds_loop mk H now feeds 0 (False, [], w) = Some (False, evs, w')))) \<or>
    (\<exists>evs w1. feeds_loop mk H now feeds 0 (False, [], w) = Some (True, evs, w1) \<and>
      w' = snd (CalendarCache_save sd J w1 cache') \<and> length evs \<le> 64 \<and> list_all (upcoming now) evs \<and>
      lastSyncedAt cache' = now \<and> alertedForStart cache' = alertedForStart cache \<and> alertedForEnd cache' = alertedForEnd cache \<and>
      (if evs = [] then \<not> hasEvent cache'
       else hasEvent cache' \<and> (\<exists>e \<in> set evs. evStart cache' = occStart e \<and> evEnd cache' = occEnd e \<and>
         evTitle cache' = take 80 (c_str (occTitle e)) \<and> evAllDay cache' = occAllDay e \<and>
         (\<forall>e' \<in> set evs. occStart e \<le> occStart e'))))"
proof (cases "feeds = [] \<or> now < kMinPlausibleNow")
  case True
  with assms have "cache' = cache \<and> w' = w" by (auto simp: syncCalendars_def split: if_split_asm)
  with True show ?thesis by (intro disjI1) simp
next
  case False
  then obtain ok evs w1 where l: "feeds_loop mk H now feeds 0 (False, [], w) = Some (ok, evs, w1)"
    using assms by (cases "feeds_loop mk H now feeds 0 (False, [], w)") (auto simp: syncCalendars_def)
  show ?thesis
  proof (cases ok)
    case no: False
    with assms False l have "cache' = cache \<and> w' = w1" by (simp add: syncCalendars_def)
    with l no show ?thesis by (intro disjI1) simp
  next
    case True
    have evs: "list_all (upcoming now) evs" "length evs \<le> 64"
      using feeds_loop_upcoming [OF l] by (simp_all add: kDefaultMaxEvents_def)
    then have live: "\<forall>e \<in> set evs. occEnd e > now" by (simp add: list_all_iff upcoming_def)
    have c: "cache' = next_info now cache (soonest_loop now evs None)" "w' = snd (CalendarCache_save sd J w1 cache')"
      using assms False l True by (auto simp: syncCalendars_def Let_def)
    have "if evs = [] then \<not> hasEvent cache'
       else hasEvent cache' \<and> (\<exists>e \<in> set evs. evStart cache' = occStart e \<and> evEnd cache' = occEnd e \<and>
         evTitle cache' = take 80 (c_str (occTitle e)) \<and> evAllDay cache' = occAllDay e \<and>
         (\<forall>e' \<in> set evs. occStart e \<le> occStart e'))"
    proof (cases "soonest_loop now evs None")
      case None
      with soonest_loop_correct [of None now evs] live have "evs = []" by (cases evs) auto
      then show ?thesis by (simp add: c next_info_def NextEventInfo_init_def)
    next
      case (Some e)
      with soonest_loop_correct [of None now evs] live have "e \<in> set evs" "\<forall>e' \<in> set evs. occStart e \<le> occStart e'" by auto
      with Some show ?thesis
        by (auto simp: c next_info_def Let_def strncpy_def kCalendarEventTitleLen_def)
    qed
    moreover have "lastSyncedAt cache' = now" "alertedForStart cache' = alertedForStart cache" "alertedForEnd cache' = alertedForEnd cache"
      by (simp_all add: c next_info_def Let_def)
    ultimately show ?thesis using l True evs c(2)
      by (intro disjI2 exI [of _ evs] exI [of _ w1] conjI) simp_all
  qed
qed

section \<open>Reconciling overrides\<close>

definition replaces :: "Event \<Rightarrow> Event \<Rightarrow> bool" where
  "replaces ov e \<longleftrightarrow> \<not> isOverride e \<and> str_eq (occUid e) (occUid ov) \<and> occStart e = occRecurrenceId ov"

definition live_override :: "IcsParser \<Rightarrow> Event \<Rightarrow> bool" where
  "live_override P ov \<longleftrightarrow> occStatus ov \<noteq> CANCELLED \<and> overlaps P (occStart ov) (occEnd ov)"

lemma erase_base_filter:
  "length (filter (replaces ov) es) \<le> 1 \<Longrightarrow> erase_base ov es = filter (\<lambda>e. \<not> replaces ov e) es"
proof (induction es)
  case (Cons e es)
  show ?case
  proof (cases "replaces ov e")
    case True
    with Cons.prems have "filter (replaces ov) es = []" by simp
    then have "filter (\<lambda>e. \<not> replaces ov e) es = es" by (auto simp: filter_empty_conv)
    with True show ?thesis by (simp add: replaces_def)
  next
    case False
    with Cons show ?thesis by (auto simp: replaces_def)
  qed
qed simp

lemma reconcile_one_result:
  assumes "length (filter (replaces ov) (out P)) \<le> 1" and "\<not> truncated (reconcile_one P ov)"
  shows "reconcile_one P ov = P\<lparr>out := filter (\<lambda>e. \<not> replaces ov e) (out P) @ (if live_override P ov then [ov] else [])\<rparr>"
  using assms(2) unfolding reconcile_one_def Let_def erase_base_filter [OF assms(1)]
  by (auto simp: live_override_def overlaps_def split: if_splits)

lemma truncated_fold: "truncated P \<Longrightarrow> truncated (foldl reconcile_one P ovs)"
proof (induction ovs arbitrary: P)
  case (Cons ov ovs)
  have "truncated (reconcile_one P ov)" using Cons.prems by (simp add: reconcile_one_def Let_def)
  with Cons.IH show ?case by simp
qed simp

lemma length_filter_twice: "length (filter p (filter q xs)) \<le> length (filter p xs)"
  by (induction xs) auto

lemma reconcile_fold:
  "\<forall>ov \<in> set ovs. isOverride ov \<and> length (filter (replaces ov) (out P)) \<le> 1 \<Longrightarrow> \<not> truncated (foldl reconcile_one P ovs) \<Longrightarrow>
   out (foldl reconcile_one P ovs) = filter (\<lambda>e. \<forall>ov \<in> set ovs. \<not> replaces ov e) (out P) @ filter (live_override P) ovs"
proof (induction ovs arbitrary: P)
  case (Cons ov ovs)
  have nt: "\<not> truncated (reconcile_one P ov)" using Cons.prems(2) truncated_fold by auto
  have r: "reconcile_one P ov = P\<lparr>out := filter (\<lambda>e. \<not> replaces ov e) (out P) @ (if live_override P ov then [ov] else [])\<rparr>"
    using reconcile_one_result [OF _ nt] Cons.prems(1) by simp
  have never: "\<not> replaces ov' ov" for ov' using Cons.prems(1) by (simp add: replaces_def)
  have "length (filter (replaces ov') (out (reconcile_one P ov))) \<le> 1" if "ov' \<in> set ovs" for ov'
  proof -
    have "length (filter (replaces ov') (filter (\<lambda>e. \<not> replaces ov e) (out P))) \<le> length (filter (replaces ov') (out P))"
      by (rule length_filter_twice)
    also have "\<dots> \<le> 1" using Cons.prems(1) that by simp
    finally show ?thesis by (simp add: r never)
  qed
  moreover have "live_override (reconcile_one P ov) = live_override P" by (simp add: fun_eq_iff live_override_def overlaps_def r)
  ultimately have "out (foldl reconcile_one (reconcile_one P ov) ovs) =
      filter (\<lambda>e. \<forall>ov \<in> set ovs. \<not> replaces ov e) (out (reconcile_one P ov)) @ filter (live_override P) ovs"
    using Cons.IH [of "reconcile_one P ov"] Cons.prems by simp
  moreover have "filter (\<lambda>e. \<forall>ov \<in> set ovs. \<not> replaces ov e) (out (reconcile_one P ov)) =
      filter (\<lambda>e. \<forall>ov \<in> set (ov # ovs). \<not> replaces ov e) (out P) @ (if live_override P ov then [ov] else [])"
    by (simp add: r never)
  ultimately show ?case by simp
qed simp

text \<open>C35: finishing a feed replaces each overridden occurrence: when every override names at most one of the collected
  occurrences and nothing had to be dropped, the events are the collected ones that no override names, followed by the
  overrides that are not cancelled and overlap the window, in the order of the feed.\<close>

theorem reconcile_replaces:
  assumes "\<forall>ov \<in> set (overrides P). isOverride ov \<and> length (filter (replaces ov) (out P)) \<le> 1"
    and "\<not> truncated (reconcile P)"
  shows "out (reconcile P) =
    filter (\<lambda>e. \<forall>ov \<in> set (overrides P). \<not> replaces ov e) (out P) @ filter (live_override P) (overrides P)"
proof -
  have "\<not> truncated (foldl reconcile_one P (overrides P))" using assms(2) by (simp add: reconcile_def)
  from reconcile_fold [OF assms(1) this] show ?thesis by (simp add: reconcile_def)
qed


section \<open>Witnesses\<close>

text \<open>A client that delivers one text in chunks of one byte, then waits for the connection to close.\<close>

definition byte_poll :: "char \<Rightarrow> ics_poll" where
  "byte_poll c = \<lparr>pAvailable = 1, pBytes = [byte_of c], pNow = 0, pConnected = True\<rparr>"

definition toy_http :: "string \<Rightarrow> 'w ics_http" where
  "toy_http s = \<lparr>ic_begin = (\<lambda>w url. True), ic_get = (\<lambda>url w. ((200, 0, map byte_poll s), w))\<rparr>"

theorem fetchIcs_parses_received_witness:
  "fetchIcs no_clock (toy_http ''BEGIN:VEVENT'') ''u'' (IcsParser_new [] 0 0 100 64) () =
   map_option (\<lambda>Q. (FetchOk, Q, ())) (parse no_clock (IcsParser_new [] 0 0 100 64)
     (received (map byte_poll ''BEGIN:VEVENT'') 0))"
  by (rule fetchIcs_parses_received [where code = 200]) (simp_all add: toy_http_def)

theorem reconcile_replaces_witness:
  "\<exists>P. overrides P \<noteq> [] \<and> out (reconcile P) =
    filter (\<lambda>e. \<forall>ov \<in> set (overrides P). \<not> replaces ov e) (out P) @ filter (live_override P) (overrides P)"
proof -
  define e :: Event where "e = \<lparr>occUid = ''a'', occTitle = ''t'', occStart = 5, occEnd = 6, occAllDay = False,
    occStatus = CONFIRMED, calIndex = 0, isOverride = False, occRecurrenceId = 0\<rparr>"
  define ov where "ov = e\<lparr>isOverride := True, occStart := 7, occEnd := 8, occRecurrenceId := 5\<rparr>"
  define P where "P = (IcsParser_new [e] 0 0 100 64)\<lparr>overrides := [ov]\<rparr>"
  have "overrides P = [ov]" "out P = [e]" by (simp_all add: P_def IcsParser_new_def)
  moreover have "\<not> truncated (reconcile P)"
    by (simp add: reconcile_def reconcile_one_def Let_def P_def IcsParser_new_def ov_def e_def overlaps_def)
  moreover have "isOverride ov" by (simp add: ov_def)
  ultimately show ?thesis using reconcile_replaces [of P] by (intro exI [of _ P]) simp
qed

definition toy_feed :: string where
  "toy_feed = concat (map (\<lambda>l. l @ [CHR 0x0A])
     [''BEGIN:VEVENT'', ''UID:a'', ''SUMMARY:hi'', ''DTSTART:20231115T000000Z'', ''END:VEVENT''])"

definition toy_event :: Event where
  "toy_event = \<lparr>occUid = ''a'', occTitle = ''hi'', occStart = 1700006400, occEnd = 1700010000, occAllDay = False,
     occStatus = CONFIRMED, calIndex = 0, isOverride = False, occRecurrenceId = 0\<rparr>"

lemma received_byte_polls: "received (map byte_poll s) t = s"
  by (induction s arbitrary: t) (simp_all add: byte_poll_def chars_of_def kStreamChunkBytes_def char_byte)

lemma toy_feed_parsed:
  "map_option out (parse no_clock (IcsParser_new [] 0 1700000000 (1700000000 + kLookaheadSeconds) kDefaultMaxEvents)
     (received (map byte_poll toy_feed) 0)) = Some [toy_event]"
proof -
  let ?P = "IcsParser_new [] 0 1700000000 (1700000000 + kLookaheadSeconds) kDefaultMaxEvents"
  have new: "lineBuf ?P = []" "pending ?P = None" by (simp_all add: IcsParser_new_def pending_def)
  have fits: "fits_buffers toy_feed" by code_simp
  have "map_option no_lines (parse no_clock ?P toy_feed) =
      map_option (\<lambda>Q. reconcile (no_lines Q)) (process_lines no_clock ?P (logical_lines toy_feed))"
    using parse_unfolds [of ?P toy_feed no_clock] fits new by (simp add: fits_buffers_def logical_lines_def)
  moreover have "map_option (\<lambda>Q. out (reconcile (no_lines Q))) (process_lines no_clock ?P (logical_lines toy_feed)) = Some [toy_event]"
    by code_simp
  ultimately have "map_option out (map_option no_lines (parse no_clock ?P toy_feed)) = Some [toy_event]"
    by (simp add: option.map_comp comp_def)
  then show ?thesis by (simp add: received_byte_polls option.map_comp comp_def)
qed

lemma toy_feed_event:
  "feeds_loop no_clock (toy_http toy_feed) 1700000000 [\<lparr>feedUrl = ''u'', feedLabel = []\<rparr>] 0 (False, [], w) =
     Some (True, [toy_event], w)"
proof -
  obtain Q where "parse no_clock (IcsParser_new [] 0 1700000000 (1700000000 + kLookaheadSeconds) kDefaultMaxEvents)
      (received (map byte_poll toy_feed) 0) = Some Q" "out Q = [toy_event]"
    using toy_feed_parsed by auto
  moreover have "fetchIcs no_clock (toy_http toy_feed) ''u'' P w =
      map_option (\<lambda>Q. (FetchOk, Q, w)) (parse no_clock P (received (map byte_poll toy_feed) 0))" for P
    by (rule fetchIcs_received [where code = 200]) (simp_all add: toy_http_def)
  ultimately show ?thesis by (simp add: c_str_def)
qed

theorem syncCalendars_soonest_witness:
  "\<exists>cache' w'. syncCalendars mem_card plain_json no_clock (toy_http toy_feed) [\<lparr>feedUrl = ''u'', feedLabel = []\<rparr>] 1700000000
     (NextEventInfo_init, Map.empty) = Some (cache', w') \<and> hasEvent cache' \<and> evStart cache' = 1700006400"
proof -
  let ?fds = "[\<lparr>feedUrl = ''u'', feedLabel = []\<rparr>]"
  have now: "\<not> (1700000000 :: int) < kMinPlausibleNow" by (simp add: kMinPlausibleNow_def)
  obtain cache' w' where s: "syncCalendars mem_card plain_json no_clock (toy_http toy_feed) ?fds 1700000000
      (NextEventInfo_init, Map.empty) = Some (cache', w')"
    unfolding syncCalendars_def toy_feed_event using now by (simp del: feeds_loop.simps add: toy_feed_event Let_def)
  from syncCalendars_soonest [OF s] now have "hasEvent cache' \<and> evStart cache' = 1700006400"
    by (auto simp del: feeds_loop.simps simp add: toy_feed_event toy_event_def)
  with s show ?thesis by blast
qed

end
