(* ===== verification/Device.thy ===== *)
theory Device
  imports Ui_Invariant Sync_Keeps Calendar_Sync
begin

text \<open>
  The whole device: src/firmware/src/main.cpp over the screens, the web server and the sync pass of the other theories.
  The state is that of the interface (which the globals of main.cpp are wired into) with the calendar feeds and the time
  of the last activity; a wake is \<open>device_setup\<close>, then \<open>loop_step\<close>s, then \<open>device_sleep\<close>.
\<close>

section \<open>State\<close>

record ('s, 'f) device =
  dvUi :: "('s, 'f) ui_state"
  dvFeeds :: "CalendarFeed list"
  dvActivity :: u32

text \<open>
  The network a sync runs on: HTTP to the servers and to the calendars, the hash, \<^verbatim>\<open>mktime\<close>, NTP with the clocks
  its wait reads, and the time after it.
\<close>

record ('s, 'c) network =
  nwHttp :: "('s, 'c) http_lib"
  nwSha :: "'c sha_lib"
  nwIcs :: "'s ics_http"
  nwMktime :: mktime
  nwNtp :: "'s ntp"
  nwTime :: "'s \<Rightarrow> int"

text \<open>The globals the functions of Main_Loop work on; \<open>None\<close> while a pointer is not wired.\<close>

definition device_app :: "('s, 'f) device \<Rightarrow> AppState option" where
  "device_app d =
     (let u = dvUi d; web = uWeb u in
      case (wJobs web, wOutbox web, wTasks web, wConfig web) of
        (Some jobs, Some ob, Some tasks, Some cfg) \<Rightarrow>
          (case (uPomodoro u, uSettings u) of
             (Some session, Some settings) \<Rightarrow>
               Some \<lparr>jobIndex = jobs, outboxIndex = ob, plannerTaskIndex = tasks, pomodoroSession = session,
                 deviceConfig = cfg, wifiStore = wWifi web, appSettings = settings, calendarFeeds = dvFeeds d,
                 nextEvent = wEvent web\<rparr>
           | _ \<Rightarrow> None)
      | _ \<Rightarrow> None)"

section \<open>Waking up\<close>

text \<open>The display as \<^verbatim>\<open>setup()\<close> finds it, and \<^verbatim>\<open>millis()\<close> at its start.\<close>

record boot_hw =
  hwFramebuffer :: "u8 list"
  hwSize :: nat
  hwWidth :: u16
  hwHeight :: u16
  hwWake :: u32

definition WebUiServer_init :: "NextEventInfo \<Rightarrow> WifiStoreData \<Rightarrow> 's \<Rightarrow> 's web_state" where
  "WebUiServer_init ev store w = \<lparr>wWorld = w, wJobs = None, wOutbox = None, wConfig = None, wTasks = None, wEvent = ev,
     wWifi = store, panelWidth = 0, panelHeight = 0, wakeMillis = 0, natBridge = NatBridge_init, webMode = Off,
     activityFlag = False, routesRegistered = False, webSsid = [], webPassword = [], webPin = [], sessionToken = [],
     upXtc = upload_init, upOriginal = upload_init, rngPos = 0\<rparr>"

definition InboxUiState_init :: "'s web_state \<Rightarrow> ('s, 'f) ui_state" where
  "InboxUiState_init web = \<lparr>uWeb = web, uMode = Inbox, uSettings = None, uPomodoro = None, webUiStartError = None,
     selectedJobIndex = -1, uPage = 0, uReader = XtcReader_init, readerOpenForSelected = False, landscapeView = False,
     lastSyncSummary = SyncSummary_init, hasSyncedOnce = False, settingsTab = TabWifi, settingsWifiRemoveIndex = -1,
     reminderAtEnd = False, uFramebuffer = None, uFramebufferSize = 0, uPanelWidth = 0, uPanelHeight = 0,
     uRequestSyncNow = False\<rparr>"

text \<open>The wiring of \<^verbatim>\<open>setup()\<close>; the pointers the web server shares are given to it by \<open>initApp\<close>.\<close>

definition device_wire :: "boot_hw \<Rightarrow> AppState \<Rightarrow> 's \<Rightarrow> ('s, 'f) device" where
  "device_wire hw st w =
     (let u = InboxUiState_init (WebUiServer_init (nextEvent st) (wifiStore st) w);
          u = u\<lparr>uPomodoro := Some (pomodoroSession st), uSettings := Some (appSettings st),
            uFramebuffer := Some (hwFramebuffer hw), uFramebufferSize := hwSize hw,
            uPanelWidth := hwWidth hw, uPanelHeight := hwHeight hw\<rparr>;
          u = initApp (Some (jobIndex st)) (Some (outboxIndex st)) (Some (deviceConfig st))
            (Some (plannerTaskIndex st)) (hwWake hw) u
      in \<lparr>dvUi = u, dvFeeds = calendarFeeds st, dvActivity = 0\<rparr>)"

text \<open>
  What \<open>runFullSync\<close> calls besides the client, whose world also has the client's certificates: \<^verbatim>\<open>connect()\<close> with its default
  time-out, \<^verbatim>\<open>disconnect()\<close>, the clock and the calendar pass.
\<close>

definition kConnectTimeoutMs :: u32 where "kConnectTimeoutMs = 15000"

definition device_env :: "('s, 'c, 'v, 'f) web_env \<Rightarrow> ('s, 'c) network \<Rightarrow> ('s, 'c) client_world sync_env" where
  "device_env E N = \<lparr>
     env_connect = (\<lambda>(store, (w, ca)). map_option (\<lambda>(up, store, w). (up, store, (w, ca)))
       (WifiManager_connect (weRadio E) (weSd E) (weJson E) (weB64 E) (weMac E) kConnectTimeoutMs (store, w))),
     env_disconnect = (\<lambda>(w, ca). (WifiManager_disconnect (weRadio E) w, ca)),
     env_syncClock = (\<lambda>(w, ca). map_option (\<lambda>w. (w, ca)) (syncClock (nwNtp N) w)),
     env_syncCalendars = (\<lambda>feeds (cache, (w, ca)). map_option (\<lambda>(cache, w). (cache, (w, ca)))
       (syncCalendars (weSd E) (weJson E) (nwMktime N) (nwIcs N) feeds (nwTime N w) (cache, w)))\<rparr>"

definition runSyncPass :: "('s, 'c, 'v, 'f) web_env \<Rightarrow> ('s, 'c) network \<Rightarrow> ('s, 'f) device \<Rightarrow> ('s, 'f) device option" where
  "runSyncPass E N d =
     (let u = dvUi d; web = uWeb u in
      case (wJobs web, wOutbox web, wConfig web) of
        (Some jobs, Some ob, Some cfg) \<Rightarrow>
          (case runFullSync (sd_with (weSd E)) (weJson E) (weB64 E) (weMac E) (device_env E N)
              (SyncClient (weSd E) (weJson E) (nwHttp N) (nwSha N) cfg) cfg
              (\<lparr>sJobs = jobs, sOutbox = ob, sFeeds = dvFeeds d, sWifi = wWifi web, sCache = wEvent web\<rparr>,
               (wWorld web, \<lparr>piCa = None, relayCa = None\<rparr>)) of
             None \<Rightarrow> None
           | Some (sm, s, (w, ca)) \<Rightarrow>
               let web = web\<lparr>wJobs := Some (sJobs s), wOutbox := Some (sOutbox s), wWifi := sWifi s, wWorld := w,
                     wEvent := sCache s\<rparr>
               in Some (d\<lparr>dvUi := u\<lparr>uWeb := web, lastSyncSummary := sm, hasSyncedOnce := True\<rparr>, dvFeeds := sFeeds s\<rparr>))
      | _ \<Rightarrow> None)"

text \<open>A wake by the button, by USB or from cold: load, wire, sync once, and the user's time starts.\<close>

definition device_setup :: "('s, 'c, 'v, 'f) web_env \<Rightarrow> ('s, 'c) network \<Rightarrow> boot_hw \<Rightarrow> 's \<Rightarrow> int \<Rightarrow> u32 \<Rightarrow> ('s, 'f) device option" where
  "device_setup E N hw w now mBoot =
     (case runSyncPass E N (device_wire hw (boot_load (weSd E) (weJson E) (weB64 E) (weMac E) w now) w) of
        None \<Rightarrow> None
      | Some d \<Rightarrow> Some (d\<lparr>dvActivity := mBoot\<rparr>))"

text \<open>
  A wake by the timer: the same, then at most one frame and back to sleep (\<open>setup_timer\<close>, whose own sync is done here).
  The web server has not been started, so there is none to stop.
\<close>

definition device_timer :: "('s, 'c, 'v, 'f) web_env \<Rightarrow> ('s, 'c) network \<Rightarrow> boot_hw \<Rightarrow> 's \<Rightarrow> int \<Rightarrow> int \<Rightarrow> int \<Rightarrow> int \<Rightarrow> int \<Rightarrow>
    (Frame \<times> AppState \<times> 's \<times> u64 option) option" where
  "device_timer E N hw w now tDecide tCheck t1 t2 =
     (case runSyncPass E N (device_wire hw (boot_load (weSd E) (weJson E) (weB64 E) (weMac E) w now) w) of
        None \<Rightarrow> None
      | Some d \<Rightarrow> map_option (\<lambda>st. setup_timer (weSd E) (weJson E) (\<lambda>sw. sw) (st, wWorld (uWeb (dvUi d))) tDecide tCheck t1 t2)
          (device_app d))"

section \<open>One pass of the loop\<close>

definition pass_advance :: "int \<Rightarrow> ('s, 'f) device \<Rightarrow> ('s, 'f) device" where
  "pass_advance now d =
     (let u = dvUi d in d\<lparr>dvUi := u\<lparr>uPomodoro := map_option (\<lambda>p. snd (advance p now)) (uPomodoro u)\<rparr>\<rparr>)"

text \<open>
  \<^verbatim>\<open>app->render(input)\<close>: one frame and at most one action, after which the SDK may draw the new screen at once.
\<close>

inductive ui_render :: "('s, 'c, 'v, 'f) web_env \<Rightarrow> ('s, 'f) ui_state \<Rightarrow> ('s, 'f) ui_state \<Rightarrow> bool" for E where
  once: "ui_step E st st' \<Longrightarrow> ui_render E st st'"
| redrawn: "ui_step E st st1 \<Longrightarrow> screenRouter E fe st1 = Some (sc, st') \<Longrightarrow> ui_render E st st'"

definition pass_input :: "bool \<Rightarrow> u32 \<Rightarrow> ('s, 'f) device \<Rightarrow> ('s, 'f) device" where
  "pass_input anyInput mInput d = (if anyInput then d\<lparr>dvActivity := mInput\<rparr> else d)"

definition pass_sync :: "('s, 'c, 'v, 'f) web_env \<Rightarrow> ('s, 'c) network \<Rightarrow> u32 \<Rightarrow> ('s, 'f) device \<Rightarrow> ('s, 'f) device option" where
  "pass_sync E N mSync d =
     (if \<not> uRequestSyncNow (dvUi d) then Some d
      else case runSyncPass E N (d\<lparr>dvUi := (dvUi d)\<lparr>uRequestSyncNow := False\<rparr>\<rparr>) of
        None \<Rightarrow> None
      | Some d \<Rightarrow> Some (d\<lparr>dvActivity := mSync\<rparr>))"

text \<open>\<open>waiting\<close> is the request that waits, if one does.\<close>

definition pass_web :: "('s, 'c, 'v, 'f) web_env \<Rightarrow> 'c web_request option \<Rightarrow> u32 \<Rightarrow> ('s, 'f) device \<Rightarrow> ('s, 'f) device option" where
  "pass_web E waiting mWeb d =
     (let u = dvUi d; web = uWeb u in
      if \<not> (uMode u = WebUi \<and> webMode web \<noteq> Off) then Some d
      else case (case waiting of None \<Rightarrow> Some web | Some rq \<Rightarrow> map_option snd (handleClient E rq web)) of
        None \<Rightarrow> None
      | Some web \<Rightarrow>
          let (activity, web) = consumeActivityFlag web;
              d = d\<lparr>dvUi := u\<lparr>uWeb := web\<rparr>\<rparr>
          in Some (if activity then d\<lparr>dvActivity := mWeb\<rparr> else d))"

inductive loop_step :: "('s, 'c, 'v, 'f) web_env \<Rightarrow> ('s, 'c) network \<Rightarrow> ('s, 'f) device \<Rightarrow> ('s, 'f) device \<Rightarrow> bool" for E N where
  pass: "ui_render E (dvUi (pass_advance now d)) u \<Longrightarrow> pred_option small_chunks waiting \<Longrightarrow>
     pass_sync E N mSync (pass_input anyInput mInput ((pass_advance now d)\<lparr>dvUi := u\<rparr>)) = Some d2 \<Longrightarrow>
     pass_web E waiting mWeb d2 = Some d' \<Longrightarrow> loop_step E N d d'"

section \<open>Going to sleep\<close>

definition idle :: "u32 \<Rightarrow> ('s, 'f) device \<Rightarrow> bool" where
  "idle mIdle d \<longleftrightarrow> mIdle - dvActivity d > kIdleSleepTimeoutMs"

text \<open>
  \<^verbatim>\<open>goToSleep(nextWakeIntervalSeconds())\<close>: what is left of the world and the timer that is armed. The web server
  is stopped before the saves of \<open>goToSleep\<close>.
\<close>

definition device_sleep :: "('s, 'c, 'v, 'f) web_env \<Rightarrow> int \<Rightarrow> int \<Rightarrow> ('s, 'f) device \<Rightarrow> ('s web_state \<times> 's \<times> u64 option) option" where
  "device_sleep E t1 t2 d =
     (case device_app d of
        None \<Rightarrow> None
      | Some st \<Rightarrow>
          let web = uWeb (dvUi d);
              web = (if webMode web \<noteq> Off then web_stop E web else web)
          in Some (web, goToSleep (weSd E) (weJson E) (wWorld web) st (nextWakeIntervalSeconds st t1 t2)))"

end
