(* ===== verification/Device_Network.thy ===== *)
theory Device_Network
  imports Device
begin

text \<open>
  The network as a sync of the device uses it (Device): what each part of it keeps, from what the libraries under it keep.
\<close>

section \<open>The client\<close>

definition network_keeps :: "('s, 'c) network \<Rightarrow> ('s \<Rightarrow> 'x) \<Rightarrow> bool" where
  "network_keeps N g \<longleftrightarrow> (\<forall>rq w. g (snd (h_send (nwHttp N) rq w)) = g w) \<and> (\<forall>url w. g (snd (ic_get (nwIcs N) url w)) = g w) \<and>
     (\<forall>w. g (nt_config (nwNtp N) w) = g w) \<and> (\<forall>w n. g (nt_after (nwNtp N) w n) = g w)"

lemma card_keeps_napt: "napt_laws R sd napt \<Longrightarrow> card_keeps sd napt"
  by (simp add: napt_laws_def card_keeps_def)

lemma card_keeps_with: "card_keeps sd g \<Longrightarrow> card_keeps (sd_with sd) (\<lambda>wc. g (fst wc))"
  by (auto simp: card_keeps_def sd_with_def split: prod.splits) (metis snd_conv)+

lemma http_exchange_keeps:
  assumes "\<And>rq w. g (snd (h_send H rq w)) = g w" and "http_exchange sd J H ep mk wc = (r, wc')"
  shows "g (fst wc') = g (fst wc)"
  using assms(2) assms(1) [of "mk x" "fst wc" for x]
  by (auto simp: http_exchange_def configureClientForEndpoint_def Let_def split_def split: if_splits option.splits prod.splits)

lemma download_loop_keeps:
  "card_keeps sd g \<Longrightarrow> g (snd (snd (snd (download_loop sd S tmp n ps tot bytes t w)))) = g w"
  by (induction sd S tmp n ps tot bytes t w rule: download_loop.induct)
    (auto simp: Let_def card_keeps_def split: prod.splits, (metis snd_conv)+)

lemma downloadJobToSd_keeps:
  assumes H: "\<And>rq w. g (snd (h_send H rq w)) = g w" and sd: "card_keeps sd g"
  shows "g (fst (snd (downloadJobToSd sd J H S cfg j p sha n v wc))) = g (fst wc)"
proof -
  have sd': "g (snd (sd_write sd w p c)) = g w" "g (snd (sd_remove sd w p)) = g w" "g (snd (sd_rename sd w p q)) = g w" for w p q c
    using sd by (simp_all add: card_keeps_def)
  obtain r w ca where x: "http_exchange sd J H Pi (get_request cfg (''/jobs/'' @ j @ ''/xtc'' @
      (case v of None \<Rightarrow> [] | Some v \<Rightarrow> ''?variant='' @ v))) wc = (r, (w, ca))" by (rule prod_cases3)
  have w: "g w = g (fst wc)" using http_exchange_keeps [where g = g, OF H x] by simp
  show ?thesis
    unfolding downloadJobToSd_def x Let_def split_def
    by (simp add: w sd' download_loop_keeps [OF sd] split: option.split)
qed

lemma client_keeps_SyncClient:
  assumes H: "\<And>rq w. g (snd (h_send H rq w)) = g w" and sd: "card_keeps sd g"
  shows "client_keeps (SyncClient sd J H S cfg) (\<lambda>wc. g (fst wc))"
  by (auto simp: client_keeps_def SyncClient_def downloadJobToSd_keeps [OF H sd] statusCheck_def fetchPendingJobs_def fetchDeviceConfig_def
      ackJob_def submitApproval_def uploadOriginal_def Let_def dest: http_exchange_keeps [where g = g, OF H]
      split: prod.splits option.splits)

section \<open>The calendars\<close>

text \<open>What the calendar servers send is text the parser gets through (Ics_Total).\<close>

definition feeds_readable :: "'w ics_http \<Rightarrow> bool" where
  "feeds_readable H \<longleftrightarrow> (\<forall>url w. case ic_get H url w of ((code, t0, polls), w') \<Rightarrow>
     fits_buffers (received polls t0) \<and> list_all line_ok (logical_lines (received polls t0)))"

lemma fetchIcs_total:
  assumes ok: "feeds_readable H" and g: "\<And>url w. g (snd (ic_get H url w)) = g w"
  shows "\<exists>r P' w'. fetchIcs mk H url (IcsParser_new evs i now until mx) w = Some (r, P', w') \<and> g w' = g w"
proof -
  obtain code t0 polls w' where e: "ic_get H url w = ((code, t0, polls), w')" by (metis prod.collapse)
  have w': "g w' = g w" using g [of url w] e by simp
  have "fits_buffers (received polls t0)" "list_all line_ok (logical_lines (received polls t0))"
    using ok [unfolded feeds_readable_def, rule_format, of url w] e by simp_all
  from parse_completes [OF this, of mk evs i now until mx] obtain Q where
    p: "parse mk (IcsParser_new evs i now until mx) (received polls t0) = Some Q" by auto
  show ?thesis
  proof (cases "ic_begin H w url \<and> 200 \<le> code \<and> code < 300")
    case True
    with fetchIcs_received [OF _ e, of mk "IcsParser_new evs i now until mx"] p w' show ?thesis by simp
  next
    case False
    with e w' show ?thesis by (auto simp: fetchIcs_def)
  qed
qed

lemma feeds_loop_total:
  assumes ok: "feeds_readable H" and g: "\<And>url w. g (snd (ic_get H url w)) = g w"
  shows "\<exists>b evs' w'. feeds_loop mk H now fds i (any, evs, w) = Some (b, evs', w') \<and> g w' = g w"
proof (induction fds arbitrary: i any evs w)
  case (Cons fd fds)
  obtain r P w1 where f: "fetchIcs mk H (feedUrl fd) (IcsParser_new evs (of_nat i) now (now + kLookaheadSeconds) kDefaultMaxEvents) w
      = Some (r, P, w1)" "g w1 = g w"
    using fetchIcs_total [where g = g, OF ok g] by blast
  show ?case
    using Cons.IH [of "Suc i" any evs w] Cons.IH [of "Suc i" "any \<or> r = FetchOk" "out P" w1] f
    by (cases "c_str (feedUrl fd) = []") simp_all
qed simp

lemma syncCalendars_total:
  assumes ok: "feeds_readable H" and g: "\<And>url w. g (snd (ic_get H url w)) = g w" and sd: "card_keeps sd g"
  shows "\<exists>cache' w'. syncCalendars sd J mk H feeds now (cache, w) = Some (cache', w') \<and> g w' = g w"
proof -
  obtain b evs w1 where f: "feeds_loop mk H now feeds 0 (False, [], w) = Some (b, evs, w1)" "g w1 = g w"
    using feeds_loop_total [where g = g, OF ok g] by blast
  have "g (snd (CalendarCache_save sd J w1 info)) = g w1" for info
    using card_keeps_writeFileAtomic [OF sd] by (simp add: CalendarCache_save_def)
  with f show ?thesis by (simp add: syncCalendars_def Let_def)
qed

section \<open>The whole network\<close>

definition network_ok :: "('s, 'c, 'v, 'f) web_env \<Rightarrow> ('s, 'c) network \<Rightarrow> ('s \<Rightarrow> u32 set) \<Rightarrow> bool" where
  "network_ok E N napt \<longleftrightarrow> network_keeps N napt \<and> feeds_readable (nwIcs N) \<and> ntp_ends (nwNtp N) \<and>
     clock_passes (weRadio E) kConnectTimeoutMs"

lemma device_env_keeps:
  assumes L: "napt_laws (weRadio E) (weSd E) napt" and sd: "card_keeps (weSd E) napt" and N: "network_ok E N napt"
  shows "env_keeps (device_env E N) (\<lambda>wc. napt (fst wc))"
proof -
  have connect: "\<exists>up store' w'. WifiManager_connect (weRadio E) (weSd E) (weJson E) (weB64 E) (weMac E) kConnectTimeoutMs (store, w) =
      Some (up, store', w') \<and> creds store' = creds store \<and> napt w' = napt w" if "wifi_inv (creds store)" for store w
  proof -
    have "\<forall>c \<in> set (creds store). cred_ok c" using that by (simp add: wifi_inv_def list_all_iff)
    from connect_Some [OF this, of "weRadio E" kConnectTimeoutMs "weSd E" "weJson E" "weB64 E" "weMac E" WIFI_STA w] N
    obtain up store' w' where c: "connectWithMode (weRadio E) (weSd E) (weJson E) (weB64 E) (weMac E) WIFI_STA kConnectTimeoutMs (store, w)
        = Some (up, store', w')" by (auto simp: network_ok_def)
    then show ?thesis using connect_creds [OF c] napt_connect [OF L c] by (simp add: WifiManager_connect_def)
  qed
  have calendars: "\<exists>cache' w'. syncCalendars (weSd E) (weJson E) (nwMktime N) (nwIcs N) feeds now (cache, w) = Some (cache', w') \<and>
      napt w' = napt w" for feeds now cache w
    using N by (intro syncCalendars_total [OF _ _ sd]) (simp_all add: network_ok_def network_keeps_def)
  have clock: "\<exists>w'. syncClock (nwNtp N) w = Some w' \<and> napt w' = napt w" for w
    using syncClock_total [of "nwNtp N" w] N by (auto simp: network_ok_def network_keeps_def)
  show ?thesis
    unfolding env_keeps_def
  proof (intro conjI allI impI)
    fix store :: WifiStoreData and wc
    assume "wifi_inv (creds store)"
    from connect [OF this, of "fst wc"] show "\<exists>up store' w'. env_connect (device_env E N) (store, wc) = Some (up, store', w') \<and>
        creds store' = creds store \<and> napt (fst w') = napt (fst wc)"
      by (auto simp: device_env_def split_def)
  next
    fix wc
    from clock [of "fst wc"] show "\<exists>w'. env_syncClock (device_env E N) wc = Some w' \<and> napt (fst w') = napt (fst wc)"
      by (auto simp: device_env_def split_def)
  next
    fix feeds cache wc
    from calendars [of feeds "nwTime N (fst wc)" cache "fst wc"]
    show "\<exists>cache' w'. env_syncCalendars (device_env E N) feeds (cache, wc) = Some (cache', w') \<and> napt (fst w') = napt (fst wc)"
      by (auto simp: device_env_def split_def)
  qed (use L N in \<open>auto simp: device_env_def split_def WifiManager_disconnect_def napt_laws_def network_ok_def network_keeps_def\<close>)
qed

end
