(* ===== verification/Device_Frame.thy ===== *)
theory Device_Frame
  imports Ui_Invariant Sync_Keeps
begin

text \<open>
  What the interface and the web server leave alone of the device they run on (src/firmware/src/ui/InboxUI.cpp and
  WebUiServer.cpp): the frame conditions that let their invariants hold together in one loop (Device_Invariant).
\<close>

section \<open>What the screens and handlers leave alone\<close>

text \<open>The settings of the device, the tasks, the uploads, and that the session and the settings are wired.\<close>

definition ui_rest :: "('s, 'f) ui_state \<Rightarrow> DeviceConfigData option \<times> TaskIndex option \<times> upload_state \<times> upload_state \<times> bool \<times> bool" where
  "ui_rest u = (wConfig (uWeb u), wTasks (uWeb u), upXtc (uWeb u), upOriginal (uWeb u), uSettings u = None, uPomodoro u = None)"

definition web_fixed :: "'s web_state \<Rightarrow> DeviceConfigData option \<times> TaskIndex option \<times> upload_state \<times> upload_state" where
  "web_fixed web = (wConfig web, wTasks web, upXtc web, upOriginal web)"

lemma ui_rest_web: "ui_rest u = (case web_fixed (uWeb u) of (c, t, x, y) \<Rightarrow> (c, t, x, y, uSettings u = None, uPomodoro u = None))"
  by (simp add: ui_rest_def web_fixed_def)

lemma web_fixed_updates [simp]:
  "web_fixed (web\<lparr>wWorld := w\<rparr>) = web_fixed web" "web_fixed (web\<lparr>wJobs := j\<rparr>) = web_fixed web"
  "web_fixed (web\<lparr>wOutbox := ob\<rparr>) = web_fixed web" "web_fixed (web\<lparr>wWifi := s\<rparr>) = web_fixed web"
  "web_fixed (web\<lparr>wEvent := ev\<rparr>) = web_fixed web" "web_fixed (web\<lparr>rngPos := n\<rparr>) = web_fixed web"
  "web_fixed (web\<lparr>webMode := m\<rparr>) = web_fixed web" "web_fixed (web\<lparr>natBridge := nb\<rparr>) = web_fixed web"
  "web_fixed (web\<lparr>webSsid := s1\<rparr>) = web_fixed web" "web_fixed (web\<lparr>webPassword := s2\<rparr>) = web_fixed web"
  "web_fixed (web\<lparr>webPin := s3\<rparr>) = web_fixed web" "web_fixed (web\<lparr>sessionToken := s4\<rparr>) = web_fixed web"
  "web_fixed (web\<lparr>routesRegistered := b\<rparr>) = web_fixed web"
  by (simp_all add: web_fixed_def)

lemma web_fixed_parts [simp]:
  "web_fixed (web_stop E web) = web_fixed web" "web_fixed (generateSessionSecrets E web) = web_fixed web"
  "web_fixed (beginCommon web) = web_fixed web" "web_fixed (hotspot_secrets E web) = web_fixed web"
  by (simp_all add: web_stop_def generateSessionSecrets_def beginCommon_def hotspot_secrets_def randomPin_def randomHex_def
      randomPassword_def random_chars_def Let_def split_def)

lemma web_fixed_start:
  "startStation E t web = Some (up, web') \<Longrightarrow> web_fixed web' = web_fixed web"
  "startHotspot E b web = Some (up, web') \<Longrightarrow> web_fixed web' = web_fixed web"
  by (auto simp: startStation_def startHotspot_def Let_def split_def split: option.splits if_splits)

lemma save_settings_rest: "uSettings u \<noteq> None \<Longrightarrow> ui_rest (save_settings E s u) = ui_rest u"
  by (simp add: ui_rest_def save_settings_def Let_def)

lemma save_session_rest: "uPomodoro u \<noteq> None \<Longrightarrow> ui_rest (save_session E s u) = ui_rest u"
  by (simp add: ui_rest_def save_session_def Let_def)

lemma ui_rest_updates [simp]:
  "ui_rest (u\<lparr>uMode := m\<rparr>) = ui_rest u" "ui_rest (u\<lparr>selectedJobIndex := i\<rparr>) = ui_rest u"
  "ui_rest (u\<lparr>webUiStartError := e\<rparr>) = ui_rest u" "ui_rest (u\<lparr>uReader := r\<rparr>) = ui_rest u"
  "ui_rest (u\<lparr>readerOpenForSelected := b\<rparr>) = ui_rest u" "ui_rest (u\<lparr>uPage := p\<rparr>) = ui_rest u"
  "ui_rest (u\<lparr>landscapeView := l\<rparr>) = ui_rest u" "ui_rest (u\<lparr>uFramebuffer := fb\<rparr>) = ui_rest u"
  "ui_rest (u\<lparr>settingsTab := t\<rparr>) = ui_rest u" "ui_rest (u\<lparr>settingsWifiRemoveIndex := i\<rparr>) = ui_rest u"
  "ui_rest (u\<lparr>uRequestSyncNow := q\<rparr>) = ui_rest u"
  by (simp_all add: ui_rest_def)

lemma ui_rest_new_web: "web_fixed web = web_fixed (uWeb u) \<Longrightarrow> ui_rest (u\<lparr>uWeb := web\<rparr>) = ui_rest u"
  by (simp add: ui_rest_web)

lemma screenRouter_rest:
  assumes "screenRouter E fe u = Some (sc, u')"
  shows "ui_rest u' = ui_rest u" "uRequestSyncNow u' = uRequestSyncNow u" "uWeb u' = uWeb u"
  using assms
  by (auto simp: screenRouter_def homeScreen_def readerScreen_def actionMenuScreen_def webUiChoiceScreen_def reader_draw_def
      reader_open_selected_def Let_def split_def split: ScreenMode.splits option.splits if_splits prod.splits)

lemma ui_enqueue_rest:
  assumes "ui_enqueue E act now u = Some u'"
  shows "ui_rest u' = ui_rest u" "uRequestSyncNow u' = uRequestSyncNow u"
  using assms
  by (auto simp: ui_enqueue_def randomHex_def random_chars_def Let_def split_def ui_rest_new_web split: option.splits if_splits)

lemma web_choice_row_rest:
  assumes "web_choice_row E v u = Some u'"
  shows "ui_rest u' = ui_rest u" "uRequestSyncNow u' = uRequestSyncNow u"
  using assms
  by (auto simp: web_choice_row_def Let_def ui_rest_new_web dest: web_fixed_start split: option.splits if_splits)

lemma wifi_confirm_remove_rest:
  assumes "wifi_confirm_remove E u = Some u'"
  shows "ui_rest u' = ui_rest u" "uRequestSyncNow u' = uRequestSyncNow u"
  using assms by (auto simp: wifi_confirm_remove_def Let_def ui_rest_new_web split: option.splits if_splits)

lemma save_request [simp]:
  "uRequestSyncNow (save_settings E s u) = uRequestSyncNow u" "uRequestSyncNow (save_session E p u) = uRequestSyncNow u"
  by (simp_all add: save_settings_def save_session_def Let_def)

lemma inbox_handler_rest:
  assumes "inbox_handler E a v now u = Some u'"
  shows "ui_rest u' = ui_rest u" "a \<noteq> ActionSyncNow \<Longrightarrow> uRequestSyncNow u' = uRequestSyncNow u" "a = ActionSyncNow \<Longrightarrow> u' = u\<lparr>uRequestSyncNow := True\<rparr>"
proof -
  show "ui_rest u' = ui_rest u"
    using assms
    by (cases a) (auto simp: inbox_handler_def open_job_def reader_back_def next_page_def prev_page_def menu_row_def tab_move_def
      wifi_row_select_def display_row_def calendar_row_def save_settings_rest ui_rest_new_web ui_enqueue_rest web_choice_row_rest
      wifi_confirm_remove_rest split: if_splits option.splits)
  show "a \<noteq> ActionSyncNow \<Longrightarrow> uRequestSyncNow u' = uRequestSyncNow u"
    using assms
    by (cases a) (auto simp: inbox_handler_def open_job_def reader_back_def next_page_def prev_page_def menu_row_def tab_move_def
      wifi_row_select_def display_row_def calendar_row_def ui_enqueue_rest web_choice_row_rest
      wifi_confirm_remove_rest split: if_splits option.splits)
  show "a = ActionSyncNow \<Longrightarrow> u' = u\<lparr>uRequestSyncNow := True\<rparr>"
    using assms by (simp add: inbox_handler_def)
qed

lemma ui_handler_rest:
  assumes "ui_handler E a v now u = Some u'"
  shows "ui_rest u' = ui_rest u" "a \<noteq> InboxAction ActionSyncNow \<Longrightarrow> uRequestSyncNow u' = uRequestSyncNow u"
    "a = InboxAction ActionSyncNow \<Longrightarrow> u' = u\<lparr>uRequestSyncNow := True\<rparr>"
proof -
  show "ui_rest u' = ui_rest u"
  proof (cases a)
    case (InboxAction b)
    with assms inbox_handler_rest(1) show ?thesis by (simp add: ui_handler_def)
  next
    case (PlannerAction b)
    with assms show ?thesis
      by (cases b) (auto simp: ui_handler_def planner_handler_def toggle_orientation_def save_settings_rest split: option.splits)
  next
    case (PomodoroAction b)
    with assms show ?thesis
      by (cases b) (auto simp: ui_handler_def pomodoro_handler_def save_session_rest split: option.splits)
  qed
  show "a \<noteq> InboxAction ActionSyncNow \<Longrightarrow> uRequestSyncNow u' = uRequestSyncNow u"
  proof (cases a)
    case (InboxAction b)
    then show "a \<noteq> InboxAction ActionSyncNow \<Longrightarrow> ?thesis" using assms inbox_handler_rest(2) by (simp add: ui_handler_def)
  next
    case (PlannerAction b)
    with assms show ?thesis
      by (cases b) (auto simp: ui_handler_def planner_handler_def toggle_orientation_def split: option.splits)
  next
    case (PomodoroAction b)
    with assms show ?thesis
      by (cases b) (auto simp: ui_handler_def pomodoro_handler_def split: option.splits)
  qed
  show "a = InboxAction ActionSyncNow \<Longrightarrow> u' = u\<lparr>uRequestSyncNow := True\<rparr>"
    using assms by (simp add: ui_handler_def inbox_handler_def)
qed

lemma offers_sync:
  assumes "screenRouter E fe u = Some (sc, u')" and "(InboxAction ActionSyncNow, v) \<in> set (offers fe sc)"
  shows "uMode u \<in> {Inbox, Status}"
proof (cases "uMode u")
  case Reader
  with assms show ?thesis
    by (auto simp: screenRouter_def readerScreen_def reader_draw_def offers_def reader_footer_def Let_def split: if_splits option.splits)
next
  case ActionMenu
  with assms show ?thesis by (auto simp: screenRouter_def actionMenuScreen_def offers_def Let_def split: if_splits option.splits)
next
  case Settings
  with assms show ?thesis
    by (auto simp: screenRouter_def settingsScreen_def offers_def settings_footer_def settingsWifiTab_def settingsSyncRelayTab_def
      settingsDisplayTab_def settingsCalendarTab_def settingsPlannerTab_def settingsPomodoroTab_def settingsDeviceInfoTab_def Let_def
      split: SettingsTab.splits option.splits if_splits)
next
  case Timeline
  with assms show ?thesis
    by (auto simp: screenRouter_def timelineScreen_def offers_def renderHorizontal_def renderVertical_def Let_def split: if_splits)
next
  case PomodoroScreen
  with assms show ?thesis by (auto simp: screenRouter_def pomodoroScreen_def offers_def Let_def split: if_splits)
qed (use assms in \<open>auto simp: screenRouter_def webUiChoiceScreen_def webUiScreen_def calendarReminderScreen_def offers_def Let_def\<close>)

lemma ui_step_rest:
  assumes "ui_step E u u'"
  shows "ui_rest u' = ui_rest u" "uRequestSyncNow u' \<Longrightarrow> uRequestSyncNow u \<or> uMode u' \<in> {Inbox, Status}"
proof -
  from assms have "ui_rest u' = ui_rest u \<and> (uRequestSyncNow u' \<longrightarrow> uRequestSyncNow u \<or> uMode u' \<in> {Inbox, Status})"
  proof (cases rule: ui_step.cases)
    case (Redraw fe sc)
    then show ?thesis by (simp add: screenRouter_rest)
  next
    case (Press fe sc st1 a v now)
    show ?thesis
    proof (cases "a = InboxAction ActionSyncNow")
      case True
      with offers_sync [OF Press(1)] Press(4) have "uMode u \<in> {Inbox, Status}" by blast
      then have "uMode st1 = uMode u"
        using Press(1) by (auto simp: screenRouter_def homeScreen_def Let_def split_def split: option.splits if_splits)
      with True Press ui_handler_rest [OF Press(5)] \<open>uMode u \<in> {Inbox, Status}\<close> show ?thesis by (simp add: screenRouter_rest)
    next
      case False
      with Press ui_handler_rest [OF Press(5)] show ?thesis by (simp add: screenRouter_rest)
    qed
  qed
  then show "ui_rest u' = ui_rest u" "uRequestSyncNow u' \<Longrightarrow> uRequestSyncNow u \<or> uMode u' \<in> {Inbox, Status}" by auto
qed

section \<open>What the web server leaves alone\<close>

definition web_rest :: "('s \<Rightarrow> u32 set) \<Rightarrow> 's web_state \<Rightarrow>
    DeviceConfigData option \<times> TaskIndex option \<times> WifiStoreData \<times> NatBridge \<times> WebUiMode \<times> u32 set" where
  "web_rest napt web = (wConfig web, wTasks web, wWifi web, natBridge web, webMode web, napt (wWorld web))"

text \<open>A request keeps all that, and of index and outbox it keeps \<open>queue_inv\<close>.\<close>

definition web_keeps :: "('s \<Rightarrow> u32 set) \<Rightarrow> 's web_state \<Rightarrow> 's web_state \<Rightarrow> bool" where
  "web_keeps napt a b \<longleftrightarrow> web_rest napt b = web_rest napt a \<and> (wJobs a \<noteq> None \<longrightarrow> wJobs b \<noteq> None) \<and>
     (\<forall>ob. wOutbox a = Some ob \<longrightarrow> outbox_shape ob \<longrightarrow> (\<exists>ob'. wOutbox b = Some ob' \<and> outbox_shape ob'))"

lemma web_keeps_refl [simp]: "web_keeps napt a a"
  by (simp add: web_keeps_def)

lemma web_keeps_trans: "web_keeps napt a b \<Longrightarrow> web_keeps napt b c \<Longrightarrow> web_keeps napt a c"
  by (auto simp: web_keeps_def)

lemma web_keeps_updates [simp]:
  "web_keeps napt a (b\<lparr>upXtc := x\<rparr>) = web_keeps napt a b" "web_keeps napt a (b\<lparr>upOriginal := x\<rparr>) = web_keeps napt a b"
  "web_keeps napt a (b\<lparr>rngPos := n\<rparr>) = web_keeps napt a b" "web_keeps napt a (markActivity b) = web_keeps napt a b"
  "web_keeps napt a b \<Longrightarrow> web_keeps napt a (b\<lparr>wJobs := Some j\<rparr>)"
  by (simp_all add: web_keeps_def web_rest_def markActivity_def)

lemma web_keeps_world: "napt w = napt (wWorld b) \<Longrightarrow> web_keeps napt a (b\<lparr>wWorld := w\<rparr>) = web_keeps napt a b"
  by (simp add: web_keeps_def web_rest_def)

lemma upload_parts_world:
  assumes "card_keeps (weSd E) g"
  shows "g (snd (upload_write E m buf up w)) = g w" "g (snd (upload_open E up w)) = g w"
  using assms by (simp_all add: upload_write_def upload_open_def card_keeps_def Let_def split_def split: option.split)

lemma xtc_event_keeps:
  assumes "card_keeps (weSd E) napt"
  shows "web_keeps napt st (handleUploadXtcData E rq ev st)"
  by (cases ev) (auto simp: handleUploadXtcData_def Let_def split_def web_keeps_world upload_parts_world [OF assms] split: option.split)

lemma original_event_keeps:
  assumes "card_keeps (weSd E) napt"
  shows "web_keeps napt st (handleUploadOriginalData E rq ev st)"
  by (cases ev) (auto simp: handleUploadOriginalData_def Let_def split_def web_keeps_world upload_parts_world [OF assms] split: option.split)

lemma fold_keeps:
  assumes "\<And>x st. web_keeps napt st (h x st)"
  shows "web_keeps napt st (fold h xs st)"
proof (induction xs arbitrary: st)
  case (Cons x xs)
  from web_keeps_trans [OF assms Cons.IH] show ?case by simp
qed simp

lemma upload_events_keeps:
  assumes "card_keeps (weSd E) napt"
  shows "web_keeps napt st (upload_events E route rq st)"
  by (simp add: upload_events_def fold_keeps xtc_event_keeps [OF assms] original_event_keeps [OF assms])

lemma upload_refuse_keeps:
  assumes "card_keeps (weSd E) napt" and "upload_refuse E a path st = (rp, st')"
  shows "web_keeps napt st st'"
  using assms by (auto simp: upload_refuse_def web_keeps_world card_keeps_def)

lemma complete_keeps:
  assumes "card_keeps (weSd E) napt"
  shows "handleUploadXtcComplete E rq st = Some (rp, st') \<Longrightarrow> web_keeps napt st st'"
    and "handleUploadOriginalComplete E rq st = Some (rp, st') \<Longrightarrow> web_keeps napt st st'"
  by (auto simp: handleUploadXtcComplete_def handleUploadOriginalComplete_def Let_def split_def web_keeps_world
      card_keeps_saves [OF assms] dest: upload_refuse_keeps [OF assms] split: option.splits if_splits)

lemma outbox_shape_enqueue:
  assumes "outbox_shape ob" shows "outbox_shape (snd (snd (enqueueApproval jobs ob jid act aid t)))"
proof (cases rule: enqueueApproval_cases [of jobs jid ob act aid t])
  case (queued j)
  then show ?thesis
    using assms by (simp add: outbox_shape_def hasPending_pendingJobs) (simp add: pendingJobs_def)
qed (use assms in simp_all)

lemma post_keeps:
  assumes "card_keeps (weSd E) napt"
  shows "web_keeps napt st (snd (handleApiJobsPost E rq st))"
proof -
  have one: "web_keeps napt st (st\<lparr>rngPos := n, wJobs := j, wOutbox := Some (snd (snd (enqueueApproval jobs ob jid act aid t)))\<rparr>)"
    if "wOutbox st = Some ob" "j \<noteq> None" for n j jobs ob jid act aid t
    using that outbox_shape_enqueue [of ob jobs jid act aid t] by (simp add: web_keeps_def web_rest_def)
  then show ?thesis
    by (auto simp: handleApiJobsPost_def Let_def split_def web_keeps_world card_keeps_saves [OF assms] split: option.split)
qed

lemma handleClient_keeps:
  assumes sd: "card_keeps (weSd E) napt" and h: "handleClient E rq st = Some (rp, st')"
  shows "web_keeps napt st st'"
proof (cases "webMode st = Off")
  case True
  with h show ?thesis by (simp add: handleClient_def)
next
  case False
  let ?route = "find_route st rq"
  define st1 where "st1 = markActivity (upload_events E ?route rq st)"
  have st1: "web_keeps napt st st1" by (simp add: st1_def upload_events_keeps [OF sd])
  have "web_keeps napt st1 st2" if "run_route E ?route rq st1 = Some (a, st2)" for a st2
    using that complete_keeps [OF sd, where st = st1] post_keeps [OF sd, of st1 rq]
    by (auto simp: run_route_def split: option.splits web_route.splits)
  with web_keeps_trans [OF st1] h False upload_events_keeps [OF sd, of st ?route rq] show ?thesis
    by (auto simp: handleClient_def Let_def st1_def [symmetric] split: if_splits option.splits)
qed

end
