(* ===== verification/Device_Invariant.thy ===== *)
theory Device_Invariant
  imports Device_Network Device_Frame
begin

text \<open>
  What holds of the device between two passes of its loop, and that every part of a pass keeps it: frames, presses, the
  sync pass and the requests of a phone together.
\<close>

section \<open>The invariant of the device\<close>

text \<open>The pointers are wired; the tasks, which nothing on the device changes, are as they were loaded.\<close>

definition wired :: "('s, 'f) ui_state \<Rightarrow> bool" where
  "wired u \<longleftrightarrow> wConfig (uWeb u) \<noteq> None \<and> (\<exists>ts. wTasks (uWeb u) = Some ts \<and> TaskIndex_inv ts \<and> list_all TaskEntry_ok ts) \<and>
     uSettings u \<noteq> None \<and> uPomodoro u \<noteq> None"

definition core_inv :: "('s \<Rightarrow> u32 set) \<Rightarrow> ('s, 'f) ui_state \<Rightarrow> bool" where
  "core_inv napt u \<longleftrightarrow> ui_inv queue_inv napt u \<and> web_inv (uWeb u) \<and> wired u"

definition dev_inv :: "('s \<Rightarrow> u32 set) \<Rightarrow> ('s, 'f) device \<Rightarrow> bool" where
  "dev_inv napt d \<longleftrightarrow> core_inv napt (dvUi d) \<and> \<not> uRequestSyncNow (dvUi d)"

lemma queue_inv_parts: "queue_inv (jobs, ob) \<longleftrightarrow> JobIndex_inv jobs \<and> outbox_shape ob"
  by (simp add: queue_inv_def outbox_shape_def)

lemma web_inv_stores:
  assumes "stores_ok queue_inv web" and "upXtc web = upXtc web0" "upOriginal web = upOriginal web0" and "web_inv web0"
  shows "web_inv web"
  using assms by (auto simp: stores_ok_def web_inv_def queue_inv_parts)

lemma wired_rest: "ui_rest u' = ui_rest u \<Longrightarrow> wired u' = wired u"
  by (simp add: ui_rest_def wired_def)

lemma core_inv_rest:
  assumes "core_inv napt u" and "ui_inv queue_inv napt u'" and "ui_rest u' = ui_rest u"
  shows "core_inv napt u'"
proof -
  have "web_inv (uWeb u')"
    by (rule web_inv_stores [where ?web0.0 = "uWeb u"]) (use assms in \<open>simp_all add: core_inv_def ui_inv_def ui_rest_def\<close>)
  with assms wired_rest [OF assms(3)] show ?thesis by (simp add: core_inv_def)
qed

lemma core_inv_off: "core_inv napt u \<Longrightarrow> uMode u \<in> {Inbox, ScreenMode.Status} \<Longrightarrow> webMode (uWeb u) = Off"
  by (auto simp: core_inv_def ui_inv_def web_mode_ok_def)

subsection \<open>Drawing\<close>

lemma core_advance: "core_inv napt (dvUi d) \<Longrightarrow> core_inv napt (dvUi (pass_advance now d))"
  by (simp add: pass_advance_def Let_def core_inv_def ui_inv_defs wired_def)

lemma core_step:
  assumes L: "napt_laws (weRadio E) (weSd E) napt" and F: "\<And>w. file_laws (weFiles E w)"
    and u: "core_inv napt u" and s: "ui_step E u u'"
  shows "core_inv napt u'"
proof -
  have "ui_inv queue_inv napt u'" using u by (intro ui_queue.ui_step_kept [OF L F s]) (simp add: core_inv_def)
  with core_inv_rest [OF u] ui_step_rest [OF s] show ?thesis by blast
qed

lemma core_frame:
  assumes F: "\<And>w. file_laws (weFiles E w)" and u: "core_inv napt u" and r: "screenRouter E fe u = Some (sc, u')"
  shows "core_inv napt u'" "uMode u \<in> {Inbox, ScreenMode.Status} \<Longrightarrow> uMode u' \<in> {Inbox, ScreenMode.Status}"
proof -
  have i: "ui_inv queue_inv napt u" using u by (simp add: core_inv_def)
  note k = ui_queue.screenRouter_kept [OF i F r]
  show "core_inv napt u'" by (rule core_inv_rest [OF u k(1) screenRouter_rest(1) [OF r]])
  show "uMode u' \<in> {Inbox, ScreenMode.Status}" if "uMode u \<in> {Inbox, ScreenMode.Status}" using k(2) that by auto
qed

lemma core_render:
  assumes L: "napt_laws (weRadio E) (weSd E) napt" and F: "\<And>w. file_laws (weFiles E w)"
    and u: "core_inv napt u" and no: "\<not> uRequestSyncNow u" and r: "ui_render E u u'"
  shows "core_inv napt u'" "uRequestSyncNow u' \<Longrightarrow> uMode u' \<in> {Inbox, ScreenMode.Status}"
proof -
  from r have "core_inv napt u' \<and> (uRequestSyncNow u' \<longrightarrow> uMode u' \<in> {Inbox, ScreenMode.Status})"
  proof cases
    case once
    with core_step [OF L F u] ui_step_rest(2) no show ?thesis by blast
  next
    case (redrawn st1 fe sc)
    with core_step [OF L F u] have "core_inv napt st1" by blast
    with core_frame [OF F this redrawn(2)] ui_step_rest(2) [OF redrawn(1)] no screenRouter_rest(2) [OF redrawn(2)]
    show ?thesis by auto
  qed
  then show "core_inv napt u'" "uRequestSyncNow u' \<Longrightarrow> uMode u' \<in> {Inbox, ScreenMode.Status}" by auto
qed

subsection \<open>Syncing\<close>

lemma core_sync:
  assumes L: "napt_laws (weRadio E) (weSd E) napt" and N: "network_ok E N napt" and d: "core_inv napt (dvUi d)"
  shows "\<exists>d'. runSyncPass E N d = Some d' \<and> core_inv napt (dvUi d') \<and> uRequestSyncNow (dvUi d') = uRequestSyncNow (dvUi d) \<and>
    dvActivity d' = dvActivity d \<and> napt (wWorld (uWeb (dvUi d'))) = napt (wWorld (uWeb (dvUi d)))"
proof -
  let ?web = "uWeb (dvUi d)"
  from d obtain jobs ob cfg where parts: "wJobs ?web = Some jobs" "wOutbox ?web = Some ob" "wConfig ?web = Some cfg"
    and inv: "JobIndex_inv jobs" "outbox_shape ob" "wifi_inv (creds (wWifi ?web))"
    by (auto simp: core_inv_def ui_inv_def stores_ok_def wired_def queue_inv_parts)
  let ?s = "\<lparr>sJobs = jobs, sOutbox = ob, sFeeds = dvFeeds d, sWifi = wWifi ?web, sCache = wEvent ?web\<rparr>"
  have sd: "card_keeps (weSd E) napt" by (rule card_keeps_napt [OF L])
  have http: "napt (snd (h_send (nwHttp N) rq w)) = napt w" for rq w using N by (simp add: network_ok_def network_keeps_def)
  have cl: "client_keeps (SyncClient (weSd E) (weJson E) (nwHttp N) (nwSha N) cfg) (\<lambda>wc. napt (fst wc))"
    by (rule client_keeps_SyncClient [where g = napt, OF http sd])
  obtain sm s w ca where r: "runFullSync (sd_with (weSd E)) (weJson E) (weB64 E) (weMac E) (device_env E N)
      (SyncClient (weSd E) (weJson E) (nwHttp N) (nwSha N) cfg) cfg (?s, (wWorld ?web, \<lparr>piCa = None, relayCa = None\<rparr>)) = Some (sm, s, (w, ca))"
    and s: "JobIndex_inv (sJobs s)" "outbox_shape (sOutbox s)" "wifi_inv (creds (sWifi s))" "napt w = napt (wWorld ?web)"
    using runFullSync_keeps [OF card_keeps_with [OF sd] cl device_env_keeps [OF L sd N],
      where s = ?s and w = "(wWorld ?web, \<lparr>piCa = None, relayCa = None\<rparr>)" and cfg = cfg and J = "weJson E" and B = "weB64 E" and
      mac = "weMac E"] inv
    by auto
  define u' where "u' = (dvUi d)\<lparr>uWeb := ?web\<lparr>wJobs := Some (sJobs s), wOutbox := Some (sOutbox s), wWifi := sWifi s, wWorld := w,
      wEvent := sCache s\<rparr>, lastSyncSummary := sm, hasSyncedOnce := True\<rparr>"
  have run: "runSyncPass E N d = Some (d\<lparr>dvUi := u', dvFeeds := sFeeds s\<rparr>)"
    by (simp add: runSyncPass_def Let_def parts r u'_def)
  have "ui_inv queue_inv napt u'"
    using d s by (simp add: u'_def core_inv_def ui_inv_defs stores_ok_def queue_inv_parts web_radio_inv_def nat_inv_def)
  moreover have "ui_rest u' = ui_rest (dvUi d)" by (simp add: u'_def ui_rest_def)
  ultimately have "core_inv napt u'" by (rule core_inv_rest [OF d])
  with run s(4) show ?thesis by (simp add: u'_def)
qed

lemma core_request [simp]: "core_inv napt (u\<lparr>uRequestSyncNow := b\<rparr>) = core_inv napt u"
  by (simp add: core_inv_def ui_inv_defs wired_def)

lemma core_pass_sync:
  assumes L: "napt_laws (weRadio E) (weSd E) napt" and N: "network_ok E N napt" and d: "core_inv napt (dvUi d)"
  shows "\<exists>d'. pass_sync E N m d = Some d' \<and> dev_inv napt d'"
proof -
  let ?d = "d\<lparr>dvUi := (dvUi d)\<lparr>uRequestSyncNow := False\<rparr>\<rparr>"
  obtain d' where "runSyncPass E N ?d = Some d'" "core_inv napt (dvUi d')" "\<not> uRequestSyncNow (dvUi d')"
    using core_sync [OF L N, of ?d] d by auto
  with d show ?thesis by (auto simp: pass_sync_def dev_inv_def)
qed

subsection \<open>Serving a phone\<close>

lemma core_web:
  assumes u: "core_inv napt u" and k: "web_keeps napt (uWeb u) web" and inv: "web_inv web"
  shows "core_inv napt (u\<lparr>uWeb := web\<rparr>)"
proof -
  from u obtain jobs ob where q: "wJobs (uWeb u) = Some jobs" "wOutbox (uWeb u) = Some ob" "outbox_shape ob"
    by (auto simp: core_inv_def ui_inv_def stores_ok_def queue_inv_parts)
  with k obtain ob' where ob': "wOutbox web = Some ob'" "outbox_shape ob'" by (auto simp: web_keeps_def)
  from q k inv obtain jobs' where jobs': "wJobs web = Some jobs'" "JobIndex_inv jobs'" by (auto simp: web_keeps_def web_inv_def)
  have r: "wConfig web = wConfig (uWeb u)" "wTasks web = wTasks (uWeb u)" "wWifi web = wWifi (uWeb u)"
    "natBridge web = natBridge (uWeb u)" "webMode web = webMode (uWeb u)" "napt (wWorld web) = napt (wWorld (uWeb u))"
    using k by (simp_all add: web_keeps_def web_rest_def)
  show ?thesis
    using u inv ob' jobs' by (simp add: core_inv_def ui_inv_defs wired_def stores_ok_def web_radio_inv_def nat_inv_def queue_inv_parts r)
qed

lemma core_activity: "core_inv napt (u\<lparr>uWeb := (uWeb u)\<lparr>activityFlag := False\<rparr>\<rparr>) = core_inv napt u"
  by (simp add: core_inv_def ui_inv_defs wired_def stores_ok_def web_radio_inv_def nat_inv_def web_inv_def)

lemma core_pass_web:
  assumes L: "napt_laws (weRadio E) (weSd E) napt" and read: "read_laws E" and d: "dev_inv napt d"
    and small: "pred_option small_chunks waiting"
  shows "\<exists>d'. pass_web E waiting m d = Some d' \<and> dev_inv napt d'"
proof (cases "uMode (dvUi d) = WebUi \<and> webMode (uWeb (dvUi d)) \<noteq> Off")
  case False
  with d show ?thesis by (auto simp: pass_web_def Let_def)
next
  case True
  let ?u = "dvUi d"
  have core: "core_inv napt ?u" using d by (simp add: dev_inv_def)
  have "\<exists>web. (case waiting of None \<Rightarrow> Some (uWeb ?u) | Some rq \<Rightarrow> map_option snd (handleClient E rq (uWeb ?u))) = Some web \<and>
      core_inv napt (?u\<lparr>uWeb := web\<rparr>)"
  proof (cases waiting)
    case None
    with core show ?thesis by simp
  next
    case (Some rq)
    have "web_inv (uWeb ?u)" using core by (simp add: core_inv_def)
    from web_inv_request [OF this read, of rq] small Some obtain rp web where
      h: "handleClient E rq (uWeb ?u) = Some (rp, web)" "web_inv web" by auto
    with core_web [OF core handleClient_keeps [OF card_keeps_napt [OF L] h(1)]] Some show ?thesis by simp
  qed
  then obtain web where
    w: "(case waiting of None \<Rightarrow> Some (uWeb ?u) | Some rq \<Rightarrow> map_option snd (handleClient E rq (uWeb ?u))) = Some web"
      "core_inv napt (?u\<lparr>uWeb := web\<rparr>)" by blast
  from core_activity [of napt "?u\<lparr>uWeb := web\<rparr>"] w True d show ?thesis
    by (simp add: pass_web_def Let_def consumeActivityFlag_def dev_inv_def)
qed

section \<open>Passes\<close>

lemma loop_step_parts:
  assumes L: "napt_laws (weRadio E) (weSd E) napt" and F: "\<And>w. file_laws (weFiles E w)" and read: "read_laws E"
    and N: "network_ok E N napt" and d: "dev_inv napt d" and r: "ui_render E (dvUi (pass_advance now d)) u"
    and small: "pred_option small_chunks waiting"
  shows "uRequestSyncNow u \<Longrightarrow> webMode (uWeb u) = Off"
    and "\<exists>d2. pass_sync E N mSync (pass_input anyInput mInput ((pass_advance now d)\<lparr>dvUi := u\<rparr>)) = Some d2 \<and> dev_inv napt d2 \<and>
      (\<exists>d'. pass_web E waiting mWeb d2 = Some d' \<and> dev_inv napt d')"
proof -
  let ?d = "pass_input anyInput mInput ((pass_advance now d)\<lparr>dvUi := u\<rparr>)"
  have "core_inv napt (dvUi (pass_advance now d))" "\<not> uRequestSyncNow (dvUi (pass_advance now d))"
    using d core_advance [of napt d now] by (simp_all add: dev_inv_def pass_advance_def Let_def)
  note k = core_render [OF L F this r]
  show "uRequestSyncNow u \<Longrightarrow> webMode (uWeb u) = Off" using k core_inv_off by blast
  have "core_inv napt (dvUi ?d)" using k(1) by (simp add: pass_input_def)
  then obtain d2 where "pass_sync E N mSync ?d = Some d2" "dev_inv napt d2" using core_pass_sync [OF L N] by blast
  with core_pass_web [OF L read _ small] show "\<exists>d2. pass_sync E N mSync ?d = Some d2 \<and> dev_inv napt d2 \<and>
      (\<exists>d'. pass_web E waiting mWeb d2 = Some d' \<and> dev_inv napt d')" by blast
qed

lemma loop_step_draws:
  assumes F: "\<And>w. file_laws (weFiles E w)" and d: "dev_inv napt d"
    and fits: "uMode (dvUi d) \<in> {Inbox, ScreenMode.Status} \<longrightarrow>
      (\<forall>jobs. wJobs (uWeb (dvUi d)) = Some jobs \<longrightarrow> length (inbox_rows jobs) \<le> kMaxInboxJobs + 1)"
  shows "\<exists>u. ui_render E (dvUi (pass_advance now d)) u"
proof -
  obtain fe :: ui_frame where fe: "0 \<le> fnFooterValue fe" "fnFooterValue fe < int kMaxInboxJobs"
    by (rule that [of "undefined\<lparr>fnFooterValue := 0\<rparr>"]) (simp_all add: kMaxInboxJobs_def)
  let ?u = "dvUi (pass_advance now d)"
  have "core_inv napt ?u" using d by (simp add: dev_inv_def core_advance)
  then have "ui_inv queue_inv napt ?u" by (simp add: core_inv_def)
  from ui_queue.screenRouter_draws [OF this F, of fe] fits obtain sc u where "screenRouter E fe ?u = Some (sc, u)"
    by (auto simp: pass_advance_def Let_def)
  then have "ui_step E ?u u" using fe by (rule ui_step.Redraw)
  then show ?thesis by (auto intro: ui_render.once)
qed

lemma loop_step_handles:
  assumes F: "\<And>w. file_laws (weFiles E w)" and d: "dev_inv napt d"
    and clock: "clock_passes (weRadio E) kStationTimeoutMs" "clock_passes (weRadio E) kNatTimeoutMs"
    and r: "screenRouter E fe (dvUi (pass_advance now d)) = Some (sc, u)"
  shows "ui_handler E a v t u \<noteq> None"
proof -
  have "core_inv napt (dvUi (pass_advance now d))" using d by (simp add: dev_inv_def core_advance)
  then have "ui_inv queue_inv napt u" using core_frame(1) [OF F _ r] by (simp add: core_inv_def)
  from ui_queue.ui_handler_defined [OF this clock] show ?thesis .
qed

lemma loop_step_kept:
  assumes L: "napt_laws (weRadio E) (weSd E) napt" and F: "\<And>w. file_laws (weFiles E w)" and read: "read_laws E"
    and N: "network_ok E N napt" and d: "dev_inv napt d" and s: "loop_step E N d d'"
  shows "dev_inv napt d'"
  using s
proof cases
  case (pass now u waiting mSync anyInput mInput d2 mWeb)
  from loop_step_parts(2) [OF L F read N d pass(1,2), of mSync anyInput mInput mWeb] pass(3,4) show ?thesis by auto
qed

lemma loop_run_kept:
  assumes L: "napt_laws (weRadio E) (weSd E) napt" and F: "\<And>w. file_laws (weFiles E w)" and read: "read_laws E"
    and N: "network_ok E N napt" and s: "(loop_step E N)\<^sup>*\<^sup>* d d'" and d: "dev_inv napt d"
  shows "dev_inv napt d'"
  using s d by (induction rule: rtranclp_induct) (auto intro: loop_step_kept [OF L F read N])

section \<open>The first state\<close>

text \<open>What a card must hold for it: no two networks of one name, no two pending approvals of one job.\<close>

definition card_in_shape :: "('s, 'c, 'v, 'f) web_env \<Rightarrow> 's \<Rightarrow> bool" where
  "card_in_shape E w \<longleftrightarrow> wifi_inv (creds (snd (WifiStore_load (weSd E) (weJson E) (weB64 E) (weMac E) w))) \<and>
     distinct (pendingJobs (snd (loadApprovalOutbox (weSd E) (weJson E) w)))"

definition hw_ok :: "boot_hw \<Rightarrow> bool" where
  "hw_ok hw \<longleftrightarrow> hwSize hw \<le> length (hwFramebuffer hw) \<and>
     unat (rowBytesOf (hwWidth hw)) * unat (hwHeight hw) \<le> length (hwFramebuffer hw)"

lemma wire_core:
  assumes "card_in_shape E w" and "hw_ok hw" and "napt w = {}"
  shows "dev_inv napt (device_wire hw (boot_load (weSd E) (weJson E) (weB64 E) (weMac E) w now) w)"
  using assms loadApprovalOutbox_inv [of "weSd E" "weJson E" w]
  by (simp add: loadJobIndex_inv loadPlannerIndex_inv device_wire_def Let_def dev_inv_def core_inv_def wired_def ui_inv_defs stores_ok_def
      queue_inv_def boot_load_def
      initApp_def attach_def InboxUiState_init_def WebUiServer_init_def card_in_shape_def hw_ok_def web_radio_inv_def nat_inv_def
      NatBridge_init_def web_inv_def upload_ok_def upload_init_def kMaxInboxJobs_def)

lemma setup_kept:
  assumes L: "napt_laws (weRadio E) (weSd E) napt" and N: "network_ok E N napt"
    and w: "card_in_shape E w" "hw_ok hw" "napt w = {}"
  shows "\<exists>d. device_setup E N hw w now m = Some d \<and> dev_inv napt d"
proof -
  let ?d = "device_wire hw (boot_load (weSd E) (weJson E) (weB64 E) (weMac E) w now) w"
  have i: "dev_inv napt ?d" using w by (rule wire_core)
  from i core_sync [OF L N, of ?d] obtain d where "runSyncPass E N ?d = Some d" "core_inv napt (dvUi d)" "\<not> uRequestSyncNow (dvUi d)"
    by (auto simp: dev_inv_def)
  then show ?thesis by (simp add: device_setup_def dev_inv_def)
qed

end
