(* ===== verification/Device_Sleep.thy ===== *)
theory Device_Sleep
  imports Device_Invariant
begin

text \<open>
  Going to sleep and waking up again (src/firmware/src/main.cpp): the four saves touch their own files only, and what the
  next wake loads is what was saved.
\<close>

section \<open>A load reads one file\<close>

lemma load_same_file:
  assumes "sd_laws sd"
  shows "sd_files sd s' kJobIndexPath = sd_files sd s kJobIndexPath \<Longrightarrow> loadJobIndex sd J s' = loadJobIndex sd J s"
    "sd_files sd s' kOutboxPath = sd_files sd s kOutboxPath \<Longrightarrow> loadApprovalOutbox sd J s' = loadApprovalOutbox sd J s"
    "sd_files sd s' kPlannerIndexPath = sd_files sd s kPlannerIndexPath \<Longrightarrow> loadPlannerIndex sd J s' = loadPlannerIndex sd J s"
    "sd_files sd s' kPomodoroStatePath = sd_files sd s kPomodoroStatePath \<Longrightarrow>
       loadPomodoroSession sd J s' p = loadPomodoroSession sd J s p"
proof -
  have r: "sd_exists sd s' path = sd_exists sd s path \<and> (sd_exists sd s path \<longrightarrow> sd_read sd s' path = sd_read sd s path)"
    if "sd_files sd s' path = sd_files sd s path" for path
    using that sd_existsD [OF assms] sd_readD [OF assms] by (cases "sd_files sd s path") simp_all
  show "sd_files sd s' kJobIndexPath = sd_files sd s kJobIndexPath \<Longrightarrow> loadJobIndex sd J s' = loadJobIndex sd J s"
    by (drule r) (simp add: loadJobIndex_def Let_def)
  show "sd_files sd s' kOutboxPath = sd_files sd s kOutboxPath \<Longrightarrow> loadApprovalOutbox sd J s' = loadApprovalOutbox sd J s"
    by (drule r) (simp add: loadApprovalOutbox_def Let_def)
  show "sd_files sd s' kPlannerIndexPath = sd_files sd s kPlannerIndexPath \<Longrightarrow> loadPlannerIndex sd J s' = loadPlannerIndex sd J s"
    by (drule r) (simp add: loadPlannerIndex_def Let_def)
  show "sd_files sd s' kPomodoroStatePath = sd_files sd s kPomodoroStatePath \<Longrightarrow>
      loadPomodoroSession sd J s' p = loadPomodoroSession sd J s p"
    by (drule r) (simp add: loadPomodoroSession_def Let_def)
qed

section \<open>The four saves\<close>

definition saves_work :: "('s, 'c) sd_card \<Rightarrow> bool" where
  "saves_work sd \<longleftrightarrow> (\<forall>s p c. fst (writeFileAtomic sd s p c))"

lemmas save_defs = saveJobIndex_def saveApprovalOutbox_def savePlannerIndex_def savePomodoroSession_def

lemma saves_frame:
  assumes "sd_laws sd"
  shows "q \<noteq> kJobIndexPath \<Longrightarrow> q \<noteq> tmp_path kJobIndexPath \<Longrightarrow> sd_files sd (snd (saveJobIndex sd J s jobs)) q = sd_files sd s q"
    "q \<noteq> kOutboxPath \<Longrightarrow> q \<noteq> tmp_path kOutboxPath \<Longrightarrow> sd_files sd (snd (saveApprovalOutbox sd J s ob)) q = sd_files sd s q"
    "q \<noteq> kPlannerIndexPath \<Longrightarrow> q \<noteq> tmp_path kPlannerIndexPath \<Longrightarrow>
       sd_files sd (snd (savePlannerIndex sd J s tasks)) q = sd_files sd s q"
    "q \<noteq> kPomodoroStatePath \<Longrightarrow> q \<noteq> tmp_path kPomodoroStatePath \<Longrightarrow>
       sd_files sd (snd (savePomodoroSession sd J s p)) q = sd_files sd s q"
  by (simp_all add: save_defs writeFileAtomic_frame [OF assms] sd_mkdirD [OF assms])

lemma saves_done:
  assumes "saves_work sd"
  shows "saveJobIndex sd J s jobs = (True, snd (saveJobIndex sd J s jobs))"
    "saveApprovalOutbox sd J s ob = (True, snd (saveApprovalOutbox sd J s ob))"
    "savePlannerIndex sd J s tasks = (True, snd (savePlannerIndex sd J s tasks))"
    "savePomodoroSession sd J s p = (True, snd (savePomodoroSession sd J s p))"
  using assms by (simp_all add: save_defs saves_work_def prod_eq_iff)

lemma saved_paths_differ:
  "kJobIndexPath \<noteq> kOutboxPath" "kJobIndexPath \<noteq> tmp_path kOutboxPath"
  "kJobIndexPath \<noteq> kPlannerIndexPath" "kJobIndexPath \<noteq> tmp_path kPlannerIndexPath"
  "kJobIndexPath \<noteq> kPomodoroStatePath" "kJobIndexPath \<noteq> tmp_path kPomodoroStatePath"
  "kOutboxPath \<noteq> kPlannerIndexPath" "kOutboxPath \<noteq> tmp_path kPlannerIndexPath"
  "kOutboxPath \<noteq> kPomodoroStatePath" "kOutboxPath \<noteq> tmp_path kPomodoroStatePath"
  "kPlannerIndexPath \<noteq> kPomodoroStatePath" "kPlannerIndexPath \<noteq> tmp_path kPomodoroStatePath"
  by (simp_all add: tmp_path_def kJobIndexPath_def kOutboxPath_def kPlannerIndexPath_def kPomodoroStatePath_def)

text \<open>What the stores hold between passes.\<close>

definition saveable :: "AppState \<Rightarrow> bool" where
  "saveable st \<longleftrightarrow> JobIndex_inv (jobIndex st) \<and> length (outboxIndex st) \<le> kMaxOutboxEntries \<and>
     TaskIndex_inv (plannerTaskIndex st) \<and> list_all TaskEntry_ok (plannerTaskIndex st)"

lemma goToSleep_loads:
  assumes sd: "sd_laws sd" and J: "json_laws J" and works: "saves_work sd" and st: "saveable st"
    and s: "goToSleep sd J s st n = (s', timer)"
  shows "loadJobIndex sd J s' = (True, jobs_readable (jobIndex st))" "loadApprovalOutbox sd J s' = (True, outbox_readable (outboxIndex st))"
    "loadPlannerIndex sd J s' = (True, plannerTaskIndex st)"
    "loadPomodoroSession sd J s' p = (True, session_readable (pomodoroSession st))"
proof -
  define s1 where "s1 = snd (saveJobIndex sd J s (jobIndex st))"
  define s2 where "s2 = snd (saveApprovalOutbox sd J s1 (outboxIndex st))"
  define s3 where "s3 = snd (savePlannerIndex sd J s2 (plannerTaskIndex st))"
  have s': "s' = snd (savePomodoroSession sd J s3 (pomodoroSession st))"
    using s by (simp add: goToSleep_def Let_def s1_def s2_def s3_def)
  note done_ = saves_done [OF works, where J = J]
  note frame = saves_frame [OF sd] saved_paths_differ and same = load_same_file [OF sd]
  have f: "sd_files sd s' kJobIndexPath = sd_files sd s1 kJobIndexPath" "sd_files sd s' kOutboxPath = sd_files sd s2 kOutboxPath"
    "sd_files sd s' kPlannerIndexPath = sd_files sd s3 kPlannerIndexPath"
    by (simp_all add: s' s2_def s3_def frame)
  show "loadJobIndex sd J s' = (True, jobs_readable (jobIndex st))"
    using same(1) [OF f(1), of J] save_load_jobs [OF sd J _ done_(1)] st by (simp add: s1_def saveable_def)
  show "loadApprovalOutbox sd J s' = (True, outbox_readable (outboxIndex st))"
    using same(2) [OF f(2), of J] save_load_outbox [OF sd J _ done_(2)] st by (simp add: s2_def saveable_def)
  show "loadPlannerIndex sd J s' = (True, plannerTaskIndex st)"
    using same(3) [OF f(3), of J] save_load_tasks [OF sd J _ _ done_(3)] st by (simp add: s3_def saveable_def)
  show "loadPomodoroSession sd J s' p = (True, session_readable (pomodoroSession st))"
    using save_load_pomodoro [OF sd J done_(4)] by (simp add: s')
qed

lemma goToSleep_keeps:
  assumes "card_keeps sd g" shows "g (fst (goToSleep sd J s st n)) = g s"
  using assms card_keeps_writeFileAtomic [OF assms]
  by (simp add: goToSleep_def Let_def save_defs card_keeps_def)

lemma goToSleep_timer: "snd (goToSleep sd J s st n) = sleepUntilNextEvent n"
  by (simp add: goToSleep_def Let_def)

text \<open>What the timer is armed with: at most an hour, or nothing when a checkpoint is due at once.\<close>

definition sleep_timer_ok :: "AppState \<Rightarrow> int \<Rightarrow> u64 option \<Rightarrow> bool" where
  "sleep_timer_ok st t2 timer \<longleftrightarrow>
     (\<forall>us. timer = Some us \<longrightarrow> 0 < uint us \<and> uint us \<le> 3600 * 1000000) \<and>
     (timer = None \<longleftrightarrow> secondsUntilNextCheckpoint (pomodoroSession st) t2 = Some 0) \<and>
     (phaseStart (pomodoroSession st) \<le> t2 \<and> phaseEnd (pomodoroSession st) - t2 < 2 ^ 32 \<longrightarrow>
       (timer = None \<longleftrightarrow> isActive (pomodoroSession st) \<and> phaseEnd (pomodoroSession st) \<le> t2))"

lemma sleep_timer: "sleep_timer_ok st t2 (sleepUntilNextEvent (nextWakeIntervalSeconds st t1 t2))"
proof -
  let ?n = "nextWakeIntervalSeconds st t1 t2" and ?c = "secondsUntilNextCheckpoint (pomodoroSession st) t2"
  have none: "sleepUntilNextEvent ?n = None \<longleftrightarrow> ?n = 0" by (simp add: sleepUntilNextEvent_def u32_pos_iff)
  have zero: "?n = 0 \<longleftrightarrow> ?c = Some 0"
  proof
    assume "?n = 0"
    then show "?c = Some 0" using nextWake_pos [of st t2 t1] by (force simp: u32_pos_iff)
  qed (simp add: nextWakeIntervalSeconds_def Let_def split_def min_def)
  have le: "uint ?n \<le> 3600" using nextWake_le [of st t1 t2] by (simp add: kWakeTimerIntervalSeconds_def word_le_def)
  have us: "0 < uint us \<and> uint us \<le> 3600 * 1000000" if "sleepUntilNextEvent ?n = Some us" for us
  proof -
    have pos: "0 < ?n" using that by (simp add: sleepUntilNextEvent_def split: if_splits)
    then have "0 < uint ?n" by (simp add: word_less_def)
    with sleepUntilNextEvent_exact [OF pos that] le show ?thesis by simp
  qed
  have active: "sleepUntilNextEvent ?n = None \<longleftrightarrow> isActive (pomodoroSession st) \<and> phaseEnd (pomodoroSession st) \<le> t2"
    if "phaseStart (pomodoroSession st) \<le> t2" "phaseEnd (pomodoroSession st) - t2 < 2 ^ 32"
    using sleep_interval_zero_iff [OF that, of t1] by blast
  show ?thesis
    unfolding sleep_timer_ok_def by (intro conjI allI impI us) (simp_all add: none zero active [unfolded none zero])
qed

section \<open>The whole way\<close>

lemma device_app_wired: "core_inv napt (dvUi d) \<Longrightarrow> \<exists>st. device_app d = Some st"
  by (auto simp: core_inv_def wired_def ui_inv_def stores_ok_def device_app_def Let_def)

lemma device_app_jobs: "device_app d = Some st \<Longrightarrow> wJobs (uWeb (dvUi d)) = Some (jobIndex st)"
  by (auto simp: device_app_def Let_def split: option.splits)

text \<open>Whatever the device was doing, its stores can be saved.\<close>

lemma device_app_saveable:
  assumes "core_inv napt (dvUi d)" and "device_app d = Some st" shows "saveable st"
proof -
  have "wJobs (uWeb (dvUi d)) = Some (jobIndex st)" "wOutbox (uWeb (dvUi d)) = Some (outboxIndex st)"
    "wTasks (uWeb (dvUi d)) = Some (plannerTaskIndex st)"
    using assms(2) by (auto simp: device_app_def Let_def split: option.splits)
  with assms(1) show ?thesis
    by (auto simp: saveable_def core_inv_def ui_inv_def stores_ok_def queue_inv_parts outbox_shape_def wired_def)
qed

lemma radio_off:
  assumes L: "napt_laws (weRadio E) (weSd E) napt" and d: "dev_inv napt d"
  defines "web \<equiv> (if webMode (uWeb (dvUi d)) \<noteq> Off then web_stop E (uWeb (dvUi d)) else uWeb (dvUi d))"
  shows "webMode web = Off" "napt (wWorld web) = {}"
proof -
  have r: "web_radio_inv napt (uWeb (dvUi d))" using d by (simp add: dev_inv_def core_inv_def ui_inv_def)
  show "webMode web = Off" using web_stop_off(1) [OF L r] by (simp add: web_def)
  show "napt (wWorld web) = {}"
    using web_stop_off(3) [OF L r] r by (auto simp: web_def web_radio_inv_def nat_inv_def)
qed

text \<open>A timer wake ends in the same sleep.\<close>

lemma setup_timer_sleeps:
  assumes sd: "card_keeps sd g" and r: "setup_timer sd J sync st0 tDecide tCheck t1 t2 = (frame, st', w', timer)"
  shows "\<exists>w ev. goToSleep sd J w st' (nextWakeIntervalSeconds st' t1 t2) = (w', timer) \<and> g w = g (snd (sync st0)) \<and>
    st' = fst (sync st0)\<lparr>nextEvent := ev\<rparr>"
proof -
  have c: "g (snd (CalendarCache_save sd J w ev)) = g w" for w ev
    using sd card_keeps_writeFileAtomic [OF sd] by (simp add: CalendarCache_save_def)
  show ?thesis
    using r c by (auto 0 3 simp: setup_timer_def Let_def split_def prod_eq_iff split: if_splits)
qed

end
