(* ===== verification/Web_Properties.thy ===== *)
theory Web_Properties
  imports Web_Outcomes
begin

text \<open>
  The properties of the web server (src/firmware/src/ui/WebUiServer.cpp), with the concrete server and requests
  their witnesses run.
\<close>

section \<open>A server for the witnesses\<close>

text \<open>A card that never fails, a radio that joins, and a JSON text that asks to print job \<open>J1\<close>.\<close>

type_synonym toy_world = "(string \<rightharpoonup> u8 list) \<times> u32 set"

definition web_json :: "(u8 list, json_out) json_lib" where
  "web_json = \<lparr>j_serialize = (\<lambda>_. [1]),
     j_deserialize = (\<lambda>_. Some (JObj [(''job_id'', JStr ''J1''), (''action'', JStr ''print'')])),
     j_isEmpty = (\<lambda>c. c = []), j_get = j_get plain_json, j_array = j_array plain_json, j_str = j_str plain_json,
     j_int = j_int plain_json, j_bool = j_bool plain_json, j_val = (\<lambda>d. d)\<rparr>"

definition toy_env :: "(toy_world, u8 list, json_out, u8 list) web_env" where
  "toy_env = \<lparr>weSd = sd_with mem_card, weJson = web_json, weB64 = plain_b64, weMac = [0, 0, 0, 0, 0, 0],
     weRadio = toy_radio toy_nets, weFiles = (\<lambda>w. plain_file (fst w)), weBytes = (\<lambda>bs. bs),
     weRandom = word_of_nat, weAsset = (\<lambda>_. [])\<rparr>"

definition toy_web :: "toy_world web_state" where
  "toy_web = \<lparr>wWorld = (Map.empty, {}), wJobs = Some [JobEntry_init\<lparr>jobId := ''J1''\<rparr>], wOutbox = Some [], wConfig = None,
     wTasks = Some [], wEvent = NextEventInfo_init, wWifi = \<lparr>creds = [], lastSsid = []\<rparr>, panelWidth = 800, panelHeight = 480,
     wakeMillis = 0, natBridge = NatBridge_init, webMode = Station, activityFlag = False, routesRegistered = True,
     webSsid = ''Home'', webPassword = [], webPin = ''123456'', sessionToken = ''T'', upXtc = upload_init,
     upOriginal = upload_init, rngPos = 0\<rparr>"

definition toy_request :: "http_verb \<Rightarrow> string \<Rightarrow> string option \<Rightarrow> upload_event list \<Rightarrow> u8 list web_request" where
  "toy_request verb uri cookie evs = \<lparr>wqVerb = verb, wqUri = uri, wqCookie = cookie, wqArg = (\<lambda>_. []), wqPlain = [],
     wqUploads = evs, wqAborted = False, wqTime = 1700000000, wqDiag = \<lparr>dgMillis = 0, dgSdTotal = 0, dgSdUsed = 0,
     dgPercent = None, dgMillivolts = None, dgHeap = 0\<rparr>\<rparr>"

lemma toy_sd: "sd_laws (weSd toy_env)" "sd_works (weSd toy_env)"
proof -
  show "sd_laws (weSd toy_env)" by (simp add: toy_env_def sd_with_laws mem_card_laws)
  show "sd_works (weSd toy_env)" by (simp add: toy_env_def sd_works_def sd_with_def mem_card_def split: prod.split)
qed

lemma toy_read: "read_laws toy_env"
  by (simp add: read_laws_def toy_env_def plain_file_def Let_def)

lemma toy_session: "requestHasValidSession toy_web (toy_request verb uri (Some ''session=T'') evs)"
  by (simp add: requestHasValidSession_def toy_web_def toy_request_def)

lemma toy_jobs_inv: "JobIndex_inv [JobEntry_init\<lparr>jobId := ''J1''\<rparr>]"
  by (simp add: JobIndex_inv_def ix_inv_def ix_keys_def kMaxInboxJobs_def)

lemma toy_web_inv: "web_inv toy_web"
  by (simp add: web_inv_def toy_web_def toy_jobs_inv upload_ok_def upload_init_def)

text \<open>An XTC file of one page without metadata: only its header is read when a job is accepted.\<close>

definition toy_xtc :: "u8 list" where
  "toy_xtc = [0x58, 0x54, 0x43, 0, 0, 1, 1, 0] @ replicate 48 0"

lemma toy_xtc_pages: "reader_page_count (plain_file [p \<mapsto> toy_xtc]) p = 1"
proof -
  have "reader_page_count (plain_file [p \<mapsto> toy_xtc]) p = reader_page_count (plain_file [''a'' \<mapsto> toy_xtc]) ''a''"
    by (simp add: reader_page_count_def XtcReader_open_def plain_file_def readAt_def cong: option.case_cong if_cong)
  also have "\<dots> = 1" by code_simp
  finally show ?thesis .
qed

section \<open>The server as a whole\<close>



text \<open>C17: Every sequence of requests, authorised or not and with any bodies, is served to its end: no null
  job index is used and no read overruns the stream buffer; the job index keeps its invariant and the
  uploads stay within 512 KiB and 20 MiB.\<close>

theorem web_requests_are_safe:
  assumes "web_inv st" and "read_laws E" and "\<forall>rq \<in> set rqs. small_chunks rq"
  shows "\<exists>rps st'. serve E rqs st = Some (rps, st') \<and> length rps = length rqs \<and> web_inv st'"
  using assms by (rule web_inv_serve)

lemma web_requests_are_safe_witness:
  "\<exists>rps st'. serve toy_env [toy_request HTTP_GET ''/api/jobs/xtc'' (Some ''session=T'') [],
      toy_request HTTP_POST ''/api/upload/original'' None [UPLOAD_FILE_WRITE [1]]] toy_web = Some (rps, st') \<and> length rps = 2"
  using web_requests_are_safe [OF toy_web_inv toy_read, of "[toy_request HTTP_GET ''/api/jobs/xtc'' (Some ''session=T'') [],
      toy_request HTTP_POST ''/api/upload/original'' None [UPLOAD_FILE_WRITE [1]]]"]
  by (auto simp: small_chunks_def toy_request_def)

section \<open>Single requests\<close>

text \<open>C18: On a card that does not fail, an authorised upload of 1 byte to 512 KiB puts exactly the bytes of its
  chunks in the new job's file; if that is an XTC file with a page the job is in the index and on the card with
  those bytes' length, the file's page count and the status New, otherwise the file is removed again.\<close>

theorem upload_outcome:
  assumes "sd_laws (weSd E)" "sd_works (weSd E)"
    and "requestHasValidSession st rq" "wJobs st = Some jobs" "JobIndex_inv jobs" "\<not> JobIndex_full jobs"
      "webMode st \<noteq> Off" "routesRegistered st"
    and "upload_of chunks rq" "concat chunks \<noteq> []" "length (concat chunks) \<le> unat kMaxXtcUploadBytes"
    and "jid = fst (randomHex E kJobIdLen st)" "path = ''/inbox/'' @ jid @ ''.xtc''"
  shows "\<exists>w st'. sd_files (weSd E) w = (sd_files (weSd E) (wWorld st))(path \<mapsto> weBytes E (concat chunks)) \<and>
    (let pages = reader_page_count (weFiles E w) path;
         entry = expected_entry jid path (length (concat chunks)) pages rq
     in if pages = 0
        then handleClient E rq st = Some (Some (error_text 400 ''invalid_xtc''), st') \<and> wJobs st' = Some jobs \<and>
          wWorld st' = snd (sd_remove (weSd E) w path)
        else handleClient E rq st = Some (Some (send_json 200 (JObj [(''job_id'', JStr jid)])), st') \<and>
          wJobs st' = Some (snd (JobIndex_upsert jobs entry)) \<and> JobIndex_entry (snd (JobIndex_upsert jobs entry)) jid = Some entry \<and>
          wWorld st' = snd (saveJobIndex (weSd E) (weJson E) w (snd (JobIndex_upsert jobs entry))))"
proof -
  have e: "JobIndex_entry (snd (JobIndex_upsert jobs (expected_entry jid path n pages rq))) jid = Some (expected_entry jid path n pages rq)" for n pages
  proof -
    have "fst (JobIndex_upsert jobs (expected_entry jid path n pages rq))"
      using assms(6) by (auto simp: JobIndex_upsert_def split: option.split)
    from jobs.ups_fnd [OF assms(5) _ this] show ?thesis by (simp add: expected_entry_def)
  qed
  show ?thesis
    using upload_xtc_outcome [OF assms] by (simp only: e Let_def simp_thms)
qed

lemma upload_outcome_witness:
  "\<exists>st' jobs'. handleClient toy_env (toy_request HTTP_POST ''/api/upload/xtc'' (Some ''session=T'')
      [UPLOAD_FILE_START, UPLOAD_FILE_WRITE toy_xtc, UPLOAD_FILE_END]) toy_web =
    Some (Some (send_json 200 (JObj [(''job_id'', JStr (fst (randomHex toy_env kJobIdLen toy_web)))])), st') \<and>
    wJobs st' = Some jobs' \<and> map_option pageCount (JobIndex_entry jobs' (fst (randomHex toy_env kJobIdLen toy_web))) = Some 1"
proof -
  let ?rq = "toy_request HTTP_POST ''/api/upload/xtc'' (Some ''session=T'') [UPLOAD_FILE_START, UPLOAD_FILE_WRITE toy_xtc, UPLOAD_FILE_END]"
  define jid where "jid = fst (randomHex toy_env kJobIdLen toy_web)"
  define path where "path = ''/inbox/'' @ jid @ ''.xtc''"
  have jobs: "wJobs toy_web = Some [JobEntry_init\<lparr>jobId := ''J1''\<rparr>]" "\<not> JobIndex_full [JobEntry_init\<lparr>jobId := ''J1''\<rparr>]"
    "webMode toy_web \<noteq> Off" "routesRegistered toy_web"
    by (simp_all add: toy_web_def JobIndex_full_def JobIndex_count_def kMaxInboxJobs_def)
  have rq: "upload_of [toy_xtc] ?rq" "concat [toy_xtc] \<noteq> []" "length (concat [toy_xtc]) \<le> unat kMaxXtcUploadBytes"
    by (simp_all add: upload_of_def toy_request_def kMaxXtcUploadBytes_def toy_xtc_def)
  obtain w st' where w: "sd_files (weSd toy_env) w = (sd_files (weSd toy_env) (wWorld toy_web))(path \<mapsto> weBytes toy_env (concat [toy_xtc]))"
    and r: "let pages = reader_page_count (weFiles toy_env w) path; entry = expected_entry jid path (length (concat [toy_xtc])) pages ?rq;
        jobs = [JobEntry_init\<lparr>jobId := ''J1''\<rparr>] in pages \<noteq> 0 \<longrightarrow>
      handleClient toy_env ?rq toy_web = Some (Some (send_json 200 (JObj [(''job_id'', JStr jid)])), st') \<and>
      wJobs st' = Some (snd (JobIndex_upsert jobs entry)) \<and> JobIndex_entry (snd (JobIndex_upsert jobs entry)) jid = Some entry"
    using upload_outcome [OF toy_sd toy_session jobs(1) toy_jobs_inv jobs(2-4) rq jid_def path_def] by (auto simp: Let_def split: if_splits)
  have "fst w = [path \<mapsto> toy_xtc]"
    using w by (cases w) (simp add: toy_env_def sd_with_def mem_card_def toy_web_def)
  then have "reader_page_count (weFiles toy_env w) path = 1"
    by (simp add: toy_env_def toy_xtc_pages)
  with r show ?thesis unfolding jid_def [symmetric] by (simp add: Let_def expected_entry_def)
qed

text \<open>C19: Approving over the web is \<open>enqueueApproval\<close>: an unknown job answers 404, a job with a pending
  approval or a full outbox 409, and both leave jobs, outbox and card alone; otherwise the answer is 200, the
  approval is appended, the job has its status and both files are saved. The invariant of the outbox is kept.\<close>

theorem web_approval_outcome:
  assumes "posts_approval E jid act rq" "requestHasValidSession st rq" "webMode st \<noteq> Off" "routesRegistered st"
    and jobs: "wJobs st = Some jobs" "wOutbox st = Some ob" and inv: "outbox_inv (jobs, ob)"
  shows "\<exists>rp st' jobs' ob'. handleClient E rq st = Some (Some rp, st') \<and> wJobs st' = Some jobs' \<and> wOutbox st' = Some ob' \<and>
    outbox_inv (jobs', ob') \<and>
    (if JobIndex_entry jobs jid = None then rpCode rp = 404 \<and> jobs' = jobs \<and> ob' = ob \<and> wWorld st' = wWorld st
     else if hasPendingForJob ob jid \<or> kMaxOutboxEntries \<le> length ob
     then rpCode rp = 409 \<and> jobs' = jobs \<and> ob' = ob \<and> wWorld st' = wWorld st
     else rpCode rp = 200 \<and> map_option status (JobIndex_entry jobs' jid) = Some (approvedStatus act) \<and>
       ob' = ob @ [\<lparr>approvalId = fst (randomHex E kApprovalIdLen st), apJobId = strncpy kJobIdLen jid, action = act,
         apCreatedAt = to_u32 (wqTime rq), synced = False\<rparr>] \<and>
       wWorld st' = snd (saveJobIndex (weSd E) (weJson E) (snd (saveApprovalOutbox (weSd E) (weJson E) (wWorld st) ob')) jobs'))"
proof -
  let ?aid = "fst (randomHex E kApprovalIdLen st)"
  obtain r jobs' ob' where e: "enqueueApproval jobs ob jid act ?aid (to_u32 (wqTime rq)) = (r, jobs', ob')"
    using prod_cases3 by blast
  have ji: "JobIndex_inv jobs" using inv by (simp add: outbox_inv_def)
  have keep: "outbox_inv (jobs', ob')"
    using outbox_inv_enqueue [OF inv, of jid act ?aid "to_u32 (wqTime rq)"] e by simp
  have aid: "strncpy kApprovalIdLen ?aid = ?aid" by (simp add: strncpy_id)
  note h = posts_approval_handled [OF assms(1-4) jobs e]
  show ?thesis
    using h keep e aid JobIndex_setStatus_entry [OF ji, of jid "approvedStatus act" jid]
    by (cases rule: enqueueApproval_cases [of jobs jid ob act ?aid "to_u32 (wqTime rq)"]) auto
qed

lemma web_approval_outcome_witness:
  "\<exists>rp st'. handleClient toy_env (toy_request HTTP_POST ''/api/jobs'' (Some ''session=T'') []) toy_web = Some (Some rp, st') \<and>
    rpCode rp = 200 \<and> (\<exists>ob. wOutbox st' = Some ob \<and> length ob = 1)"
proof -
  have p: "posts_approval toy_env ''J1'' Print (toy_request HTTP_POST ''/api/jobs'' (Some ''session=T'') [])"
    by (simp add: posts_approval_def toy_request_def toy_env_def web_json_def json_or_str_def plain_json_def plain_get_def
        parseApprovalAction_def)
  have st: "webMode toy_web \<noteq> Off" "routesRegistered toy_web" "wJobs toy_web = Some [JobEntry_init\<lparr>jobId := ''J1''\<rparr>]" "wOutbox toy_web = Some []"
    by (simp_all add: toy_web_def)
  have j: "JobIndex_entry [JobEntry_init\<lparr>jobId := ''J1''\<rparr>] ''J1'' \<noteq> None"
    by (simp add: JobIndex_entry_def JobIndex_find_def jobIdEquals_def strncmp_eq_0)
  from web_approval_outcome [OF p toy_session st outbox_inv_init [OF toy_jobs_inv]] j show ?thesis
    by (auto simp: kMaxOutboxEntries_def)
qed

text \<open>Asking for a job's file sends the file from its start, as many bytes as the index says the job has,
  and announces that length.\<close>

theorem job_file_is_streamed:
  assumes "requestHasValidSession st rq" and "wJobs st = Some jobs" and "JobIndex_entry jobs (c_str (wqArg rq ''job_id'')) = Some e"
    and "f_open (weFiles E (wWorld st)) (xtcPath e) = Some f" and "file_content (weFiles E (wWorld st)) f c" and "length c < 2 ^ 32"
  shows "\<exists>rp. handleApiJobXtc E rq st = Some rp \<and> rpCode rp = 200 \<and> rpLength rp = Some (unat (xtcBytes e)) \<and>
    rpBody rp = Bytes (take (unat (xtcBytes e)) c)"
  using assms stream_loop_content [OF assms(5,6), of 0 "unat (xtcBytes e)" "[]"]
  by (simp add: handleApiJobXtc_def Let_def)

lemma job_file_is_streamed_witness:
  "\<exists>rp. handleApiJobXtc toy_env (toy_request HTTP_GET ''/api/jobs/xtc'' (Some ''session=T'') [])
      (toy_web\<lparr>wWorld := ([''/a'' \<mapsto> [1, 2, 3]], {}), wJobs := Some [JobEntry_init\<lparr>xtcPath := ''/a'', xtcBytes := 2\<rparr>]\<rparr>) = Some rp \<and>
    rpBody rp = Bytes [1, 2]"
proof -
  let ?st = "toy_web\<lparr>wWorld := ([''/a'' \<mapsto> [1, 2, 3]], {}), wJobs := Some [JobEntry_init\<lparr>xtcPath := ''/a'', xtcBytes := 2\<rparr>]\<rparr>"
  let ?rq = "toy_request HTTP_GET ''/api/jobs/xtc'' (Some ''session=T'') []"
  let ?e = "JobEntry_init\<lparr>xtcPath := ''/a'', xtcBytes := 2\<rparr>"
  have v: "requestHasValidSession ?st ?rq"
    using toy_session valid_session_token [of ?st toy_web ?rq] by simp
  have e: "wJobs ?st = Some [?e]" "JobIndex_entry [?e] (c_str (wqArg ?rq ''job_id'')) = Some ?e"
    by (simp_all add: JobIndex_entry_def JobIndex_find_def jobIdEquals_def strncmp_eq_0 toy_request_def JobEntry_init_def c_str_def)
  have f: "f_open (weFiles toy_env (wWorld ?st)) (xtcPath ?e) = Some [1, 2, 3]"
    by (simp add: toy_env_def plain_file_def)
  have c: "file_content (weFiles toy_env (wWorld ?st)) [1, 2, 3] [1, 2, 3]"
    by (simp add: toy_env_def plain_file_laws)
  from job_file_is_streamed [OF v e f c] show ?thesis by auto
qed

text \<open>C20: Starting in either mode draws a PIN of six digits and a session token of 32 hexadecimal digits (and a
  hotspot password of 15 characters); stopping leaves the server off and deaf to requests, with address translation off,
  and, if it was running, with its PIN, session token, network name and hotspot password erased, so that no session is valid
  any more. Address translation is never on outside hotspot mode.\<close>

theorem web_sessions_and_radio:
  assumes "napt_laws (weRadio E) (weSd E) napt" and "web_radio_inv napt st"
  shows "(startStation E timeoutMs st = Some (up, st') \<longrightarrow>
      web_radio_inv napt st' \<and> (if up then webMode st' = Station \<and> secrets_ok st' else webMode st' = Off)) \<and>
    (startHotspot E natWanted st = Some (up, st') \<longrightarrow>
      web_radio_inv napt st' \<and>
      (if up then webMode st' = Hotspot \<and> secrets_ok st' \<and> length (webPassword st') = 15 else webMode st' = Off)) \<and>
    webMode (web_stop E st) = Off \<and> napt (wWorld (web_stop E st)) = {} \<and>
    (webMode st \<noteq> Off \<longrightarrow> webPin (web_stop E st) = [] \<and> sessionToken (web_stop E st) = [] \<and>
      webPassword (web_stop E st) = [] \<and> webSsid (web_stop E st) = [] \<and>
      (\<forall>rq. \<not> requestHasValidSession (web_stop E st) (rq :: 'c web_request))) \<and>
    (\<forall>rq :: 'd web_request. handleClient E' rq (web_stop E st) = Some (None, web_stop E st))"
proof -
  note erased = web_stop_secrets [of st E]
  moreover have "\<not> requestHasValidSession (web_stop E st) rq" if "webMode st \<noteq> Off" for rq :: "'c web_request"
    using erased that by (simp add: requestHasValidSession_def)
  moreover have "handleClient E' rq (web_stop E st) = Some (None, web_stop E st)" for rq :: "'d web_request"
    using web_stop_off(1) [OF assms] by (simp add: handleClient_def)
  ultimately show ?thesis
    using startStation_inv [OF assms] startHotspot_inv [OF assms] web_stop_off(1,3) [OF assms] by blast
qed

lemma web_sessions_and_radio_witness:
  "\<exists>st'. startHotspot toy_env False toy_web = Some (True, st') \<and> webMode st' = Hotspot \<and> secrets_ok st' \<and>
    \<not> requestHasValidSession (web_stop toy_env toy_web) (toy_request HTTP_GET ''/'' (Some ''session=T'') [])"
proof -
  have L: "napt_laws (weRadio toy_env) (weSd toy_env) snd" by (simp add: toy_env_def toy_napt_laws)
  have i: "web_radio_inv snd toy_web"
    by (simp add: web_radio_inv_def nat_inv_def toy_web_def NatBridge_init_def)
  obtain st' where s: "startHotspot toy_env False toy_web = Some (True, st')"
    by (simp add: startHotspot_def Let_def startAccessPoint_def toy_env_def toy_radio_def)
  have "webMode toy_web \<noteq> Off" by (simp add: toy_web_def)
  with s web_sessions_and_radio [where 'c = "u8 list" and 'd = "u8 list" and natWanted = False and up = True and st' = st'
    and timeoutMs = 0 and E' = toy_env, OF L i]
  show ?thesis by simp
qed

text \<open>C21: A POST to the upload route that brings no file is taken for the previous upload: it is stored a second
  time and its job is New again, which breaks the outbox's invariant when an approval of that job is
  pending.\<close>

theorem empty_upload_replays_last:
  assumes s: "requestHasValidSession st rq" "webMode st \<noteq> Off" "routesRegistered st"
    and rq: "wqVerb rq = HTTP_POST" "wqUri rq = ''/api/upload/xtc''" "wqUploads rq = []" "\<not> wqAborted rq"
    and up: "upAuthorized (upXtc st)" "\<not> upTooLarge (upXtc st)" "upBytes (upXtc st) \<noteq> 0"
      "reader_page_count (weFiles E (wWorld st)) (upPath (upXtc st)) \<noteq> 0"
    and jobs: "wJobs st = Some jobs" "JobIndex_inv jobs" "JobIndex_entry jobs (upJobId (upXtc st)) \<noteq> None"
    and pending: "wOutbox st = Some ob" "hasPendingForJob ob (upJobId (upXtc st))"
  shows "\<exists>rp st' jobs'. handleClient E rq st = Some (Some rp, st') \<and> rpCode rp = 200 \<and> wJobs st' = Some jobs' \<and>
    map_option status (JobIndex_entry jobs' (upJobId (upXtc st))) = Some Downloaded \<and>
    wOutbox st' = Some ob \<and> \<not> outbox_inv (jobs', ob)"
proof -
  let ?st = "markActivity st" and ?id = "upJobId (upXtc st)"
  have v: "requestHasValidSession ?st rq" "wJobs ?st = Some jobs" "wOutbox ?st = Some ob" "wWorld ?st = wWorld st" "upXtc ?st = upXtc st"
    using s(1) jobs pending(1) valid_session_token [of ?st st rq] by (simp_all add: markActivity_def)
  have route: "find_route st rq = Some RUploadXtc"
    using rq s(3) by (simp add: find_route_def web_routes_def)
  define entry where "entry = uploaded_entry (upXtc st) (reader_page_count (weFiles E (wWorld st)) (upPath (upXtc st))) rq"
  have id: "take kJobIdLen (jobId entry) = take kJobIdLen ?id" "status entry = Downloaded" "jobId entry = strncpy kJobIdLen ?id"
    by (simp_all add: entry_def uploaded_entry_def strncpy_def Let_def)
  have "JobIndex_entry jobs (jobId entry) \<noteq> None"
    using jobs(3) jobs.fnd_take [of jobs ?id] id(3) by (simp add: strncpy_def)
  then have st: "fst (JobIndex_upsert jobs entry)"
    using jobs.ups_ok [OF jobs(2), of entry] by simp
  let ?jobs = "snd (JobIndex_upsert jobs entry)"
  have new: "JobIndex_entry ?jobs k = Some entry" if "take kJobIdLen k = take kJobIdLen ?id" for k
    using jobs.ups_fnd [OF jobs(2) _ st, of k] that id(1) by simp
  have h: "handleUploadXtcComplete E rq ?st = Some (send_json 200 (JObj [(''job_id'', JStr (jobId entry))]),
      ?st\<lparr>wJobs := Some ?jobs, wWorld := snd (saveJobIndex (weSd E) (weJson E) (wWorld st) ?jobs)\<rparr>)"
    using v up st
    by (simp add: handleUploadXtcComplete_def Let_def split_def entry_def [symmetric])
  have broken: "\<not> outbox_inv (?jobs, ob)"
  proof
    assume i: "outbox_inv (?jobs, ob)"
    obtain e where e: "e \<in> set ob" "\<not> synced e" "take kJobIdLen (apJobId e) = take kJobIdLen ?id"
      using pending(2) by (auto simp: hasPendingForJob_iff)
    then have "map_option status (JobIndex_entry ?jobs (apJobId e)) = Some (approvedStatus (action e))"
      using i by (auto simp: outbox_inv_def)
    with new [OF e(3)] id(2) show False by (cases "action e") simp_all
  qed
  have "handleClient E rq st = Some (Some (send_json 200 (JObj [(''job_id'', JStr (jobId entry))])),
      ?st\<lparr>wJobs := Some ?jobs, wWorld := snd (saveJobIndex (weSd E) (weJson E) (wWorld st) ?jobs)\<rparr>)"
    using rq(3,4) s(2) by (simp add: handleClient_def route upload_events_def run_route_def h)
  with new [of ?id] id(2) v(3) broken show ?thesis
    by (simp add: send_json_def)
qed

lemma empty_upload_replays_last_witness:
  "\<exists>rp st' jobs'. handleClient toy_env (toy_request HTTP_POST ''/api/upload/xtc'' (Some ''session=T'') [])
      (toy_web\<lparr>wWorld := ([''/inbox/J1.xtc'' \<mapsto> toy_xtc], {}),
        upXtc := upload_init\<lparr>upAuthorized := True, upBytes := 56, upJobId := ''J1'', upPath := ''/inbox/J1.xtc''\<rparr>,
        wJobs := Some [JobEntry_init\<lparr>jobId := ''J1'', status := ApprovedPrint\<rparr>],
        wOutbox := Some [\<lparr>approvalId = ''A'', apJobId = ''J1'', action = Print, apCreatedAt = 0, synced = False\<rparr>]\<rparr>) =
    Some (Some rp, st') \<and> wJobs st' = Some jobs' \<and> map_option status (JobIndex_entry jobs' ''J1'') = Some Downloaded"
proof -
  let ?jobs = "[JobEntry_init\<lparr>jobId := ''J1'', status := ApprovedPrint\<rparr>]"
  let ?ob = "[\<lparr>approvalId = ''A'', apJobId = ''J1'', action = Print, apCreatedAt = 0, synced = False\<rparr>]"
  let ?up = "upload_init\<lparr>upAuthorized := True, upBytes := 56, upJobId := ''J1'', upPath := ''/inbox/J1.xtc''\<rparr>"
  let ?st = "toy_web\<lparr>wWorld := ([''/inbox/J1.xtc'' \<mapsto> toy_xtc], {}), upXtc := ?up, wJobs := Some ?jobs, wOutbox := Some ?ob\<rparr>"
  let ?rq = "toy_request HTTP_POST ''/api/upload/xtc'' (Some ''session=T'') []"
  have v: "requestHasValidSession ?st ?rq"
    using toy_session valid_session_token [of ?st toy_web ?rq] by simp
  have st: "webMode ?st \<noteq> Off" "routesRegistered ?st" by (simp_all add: toy_web_def)
  have rq: "wqVerb ?rq = HTTP_POST" "wqUri ?rq = ''/api/upload/xtc''" "wqUploads ?rq = []" "\<not> wqAborted ?rq"
    by (simp_all add: toy_request_def)
  have up: "upAuthorized (upXtc ?st)" "\<not> upTooLarge (upXtc ?st)" "upBytes (upXtc ?st) \<noteq> 0"
    "reader_page_count (weFiles toy_env (wWorld ?st)) (upPath (upXtc ?st)) \<noteq> 0"
    using toy_xtc_pages by (simp_all add: upload_init_def toy_env_def)
  have jobs: "wJobs ?st = Some ?jobs" "JobIndex_inv ?jobs" "JobIndex_entry ?jobs (upJobId (upXtc ?st)) \<noteq> None"
    by (simp_all add: JobIndex_inv_def ix_inv_def ix_keys_def kMaxInboxJobs_def JobIndex_entry_def JobIndex_find_def
        jobIdEquals_def strncmp_eq_0)
  have ob: "wOutbox ?st = Some ?ob" "hasPendingForJob ?ob (upJobId (upXtc ?st))"
    by (simp_all add: strncmp_eq_0)
  from empty_upload_replays_last [OF v st rq up jobs ob] show ?thesis by auto
qed

end
