(* ===== verification/Ui_Properties.thy ===== *)
theory Ui_Properties
  imports Ui_Invariant Web_Properties
begin

text \<open>
  The properties of the interface on the device (src/firmware/src/ui/InboxUI.cpp, PlannerUI.cpp, PomodoroUI.cpp), with
  the concrete state their witnesses run.
\<close>

section \<open>A state for the witnesses\<close>

definition toy_ui :: "(toy_world, u8 list) ui_state" where
  "toy_ui = \<lparr>uWeb = toy_web\<lparr>webMode := Off, wWifi := toy_store\<rparr>, uMode = Inbox, uSettings = Some AppSettingsData_init,
     uPomodoro = None, webUiStartError = None, selectedJobIndex = -1, uPage = 0,
     uReader = \<lparr>rdFile = None, rdOpen = False, rdHeader = XtcHeader_init, rdTitle = [], rdAuthor = []\<rparr>,
     readerOpenForSelected = False, landscapeView = False, lastSyncSummary = SyncSummary_init, hasSyncedOnce = False,
     settingsTab = TabWifi, settingsWifiRemoveIndex = -1, reminderAtEnd = False, uFramebuffer = None,
     uFramebufferSize = 0, uPanelWidth = 800, uPanelHeight = 480, uRequestSyncNow = False\<rparr>"

definition toy_frame :: ui_frame where
  "toy_frame = \<lparr>fnWidth = 800, fnEmpty = False, fnNow = 1700000000, fnDiag = \<lparr>dgMillis = 0, dgSdTotal = 0, dgSdUsed = 0,
     dgPercent = None, dgMillivolts = None, dgHeap = 0\<rparr>, fnFooterValue = 0\<rparr>"

lemma toy_frame_ok: "frame_ok toy_frame"
  by (simp add: frame_ok_def toy_frame_def kMaxInboxJobs_def)

lemma toy_wifi_inv: "wifi_inv (creds toy_store)"
  by (simp add: wifi_inv_def ix_inv_def ix_keys_def toy_store_def kMaxSsidLen_def kMaxWifiNetworks_def cred_ok_def)

lemma toy_ui_inv: "ui_inv outbox_inv snd toy_ui"
  using toy_jobs_inv toy_wifi_inv outbox_inv_init
  by (simp add: ui_inv_defs toy_ui_def stores_ok_def toy_web_def web_radio_inv_def nat_inv_def NatBridge_init_def kMaxInboxJobs_def)

lemma toy_env_laws: "napt_laws (weRadio toy_env) (weSd toy_env) snd" "file_laws (weFiles toy_env w)"
  by (simp_all add: toy_env_def toy_napt_laws plain_file_laws)

lemma toy_radio_clock: "clock_passes (toy_radio nets) 15000"
proof -
  have "(15000 :: u32) < word_of_nat (100 * 151)" by simp
  then have "\<exists>n. (15000 :: u32) < word_of_nat (100 * n)" by (rule exI)
  then show ?thesis by (simp add: clock_passes_def toy_radio_def)
qed

lemma toy_clocks: "clock_passes (weRadio toy_env) kStationTimeoutMs" "clock_passes (weRadio toy_env) kNatTimeoutMs"
  by (simp_all add: toy_env_def kStationTimeoutMs_def kNatTimeoutMs_def toy_radio_clock)

section \<open>The list of documents\<close>

definition shown_jobs :: "JobIndex \<Rightarrow> JobEntry list" where
  "shown_jobs jobs = filter (\<lambda>e. status e \<in> {Downloaded, ApprovedPrint, ApprovedKeep}) jobs"

lemma length_section_hits: "length (section_hits jobs w) = length (filter (\<lambda>e. status e = w) jobs)"
proof -
  have "filter (\<lambda>e. status e = w) jobs = map (\<lambda>i. jobs ! i) (section_hits jobs w)"
    using filter_map [of "\<lambda>e. status e = w" "(!) jobs" "[0..<length jobs]"]
    by (simp add: section_hits_def map_nth comp_def)
  then show ?thesis by simp
qed

lemma section_hits_Nil: "section_hits jobs w = [] \<longleftrightarrow> w \<notin> status ` set jobs"
proof -
  have "section_hits jobs w = [] \<longleftrightarrow> filter (\<lambda>e. status e = w) jobs = []"
    using length_section_hits [of jobs w] by (metis length_0_conv)
  then show ?thesis by (auto simp: filter_empty_conv)
qed

lemma length_section_block:
  "length (section_block jobs sec) =
    length (filter (\<lambda>e. status e = snd sec) jobs) + (if snd sec \<in> status ` set jobs then 1 else 0)"
proof (cases "snd sec \<in> status ` set jobs")
  case True
  then have "section_hits jobs (snd sec) \<noteq> []" by (simp add: section_hits_Nil)
  with True show ?thesis by (simp add: section_block_def Let_def length_section_hits)
next
  case False
  then have n: "section_hits jobs (snd sec) = []" by (simp add: section_hits_Nil)
  with length_section_hits [of jobs "snd sec"] have "length (filter (\<lambda>e. status e = snd sec) jobs) = 0" by simp
  with False n show ?thesis by (simp add: section_block_def)
qed

lemma length_shown_jobs:
  "length (shown_jobs jobs) = length (filter (\<lambda>e. status e = Downloaded) jobs) +
     length (filter (\<lambda>e. status e = ApprovedPrint) jobs) + length (filter (\<lambda>e. status e = ApprovedKeep) jobs)"
  by (induction jobs) (auto simp: shown_jobs_def)

lemma length_inbox_rows:
  "length (inbox_rows jobs) = length (shown_jobs jobs) + card ({Downloaded, ApprovedPrint, ApprovedKeep} \<inter> status ` set jobs)"
proof -
  let ?S = "status ` set jobs"
  have "card ({Downloaded, ApprovedPrint, ApprovedKeep} \<inter> ?S) =
    (if Downloaded \<in> ?S then 1 else 0) + (if ApprovedPrint \<in> ?S then 1 else 0) + (if ApprovedKeep \<in> ?S then 1 else 0)"
    by (simp add: Int_insert_left)
  then show ?thesis
    by (simp add: inbox_rows_def kJobSections_def length_section_block length_shown_jobs)
qed

text \<open>C22: the home screen writes past its label buffers exactly when the listed documents and the headers of their sections
  are more than 65 rows together, which an index of 64 documents allows; otherwise it can be drawn.
\<close>

theorem home_screen_overflows:
  assumes "wJobs (uWeb st) = Some jobs" and "length jobs \<le> kMaxInboxJobs"
  shows "homeScreen st = None \<longleftrightarrow>
    65 < length (shown_jobs jobs) + card ({Downloaded, ApprovedPrint, ApprovedKeep} \<inter> status ` set jobs)"
proof -
  have "homeScreen st = None \<longleftrightarrow> buildInboxListItems kMaxInboxJobs jobs kMaxInboxJobs = None"
    using assms(1) by (auto simp: homeScreen_def Let_def split: option.split prod.split)
  also have "\<dots> \<longleftrightarrow> 65 < length (inbox_rows jobs)"
    using assms(2) by (simp add: buildInboxListItems_spec kMaxInboxJobs_def not_le)
  finally show ?thesis by (simp only: length_inbox_rows)
qed

definition full_inbox :: JobIndex where
  "full_inbox = replicate 61 JobEntry_init @ [JobEntry_init\<lparr>status := ApprovedPrint\<rparr>, JobEntry_init\<lparr>status := ApprovedKeep\<rparr>]"

lemma home_screen_overflows_witness:
  "homeScreen (toy_ui\<lparr>uWeb := (uWeb toy_ui)\<lparr>wJobs := Some full_inbox\<rparr>\<rparr>) = None"
proof -
  let ?st = "toy_ui\<lparr>uWeb := (uWeb toy_ui)\<lparr>wJobs := Some full_inbox\<rparr>\<rparr>"
  have jobs: "wJobs (uWeb ?st) = Some full_inbox" by simp
  have len: "length full_inbox \<le> kMaxInboxJobs" by (simp add: full_inbox_def kMaxInboxJobs_def)
  have shown: "length (shown_jobs full_inbox) = 63" by (simp add: shown_jobs_def full_inbox_def JobEntry_init_def)
  have st: "status ` set full_inbox = {Downloaded, ApprovedPrint, ApprovedKeep}"
    by (auto simp: full_inbox_def JobEntry_init_def)
  show ?thesis
    unfolding home_screen_overflows [OF jobs len] shown st by simp
qed

text \<open>C26: when the home screen is drawn with documents to show, it is one list whose choosable rows are the new, the
  to-print and the kept documents, each in index order and none twice or left out; the cursor is on one of them, never on a
  header, and is the selected document's row; the selection only moves when the selected document is not listed.
\<close>

theorem home_screen_lists_jobs:
  assumes h: "homeScreen st = Some (sc, st')" and jobs: "wJobs (uWeb st) = Some jobs" "length jobs \<le> kMaxInboxJobs"
    and some: "shown_jobs jobs \<noteq> []"
  shows "\<exists>rows row. scBody sc = [RowList rows row (InboxAction ActionOpenJob)] \<and>
    map actionValue (filter (\<lambda>r. \<not> isHeader r) rows) =
      map int (concat (map (\<lambda>w. filter (\<lambda>i. status (jobs ! i) = w) [0..<length jobs]) [Downloaded, ApprovedPrint, ApprovedKeep])) \<and>
    0 \<le> row \<and> nat row < length rows \<and> \<not> isHeader (rows ! nat row) \<and> actionValue (rows ! nat row) = selectedJobIndex st' \<and>
    (selectedJobIndex st \<in> actionValue ` set (filter (\<lambda>r. \<not> isHeader r) rows) \<longrightarrow> st' = st)"
proof -
  let ?rows = "inbox_rows jobs"
  have b: "buildInboxListItems kMaxInboxJobs jobs kMaxInboxJobs = Some ?rows"
    using h jobs by (auto simp: homeScreen_def buildInboxListItems_spec kMaxInboxJobs_def split: option.splits if_splits)
  obtain row first found where f: "find_selected ?rows 0 (selectedJobIndex st) (- 1) = (row, first, found)"
    by (cases "find_selected ?rows 0 (selectedJobIndex st) (- 1)") auto
  have vals: "map actionValue (filter (\<lambda>r. \<not> isHeader r) ?rows) =
      map int (concat (map (\<lambda>w. filter (\<lambda>i. status (jobs ! i) = w) [0..<length jobs]) [Downloaded, ApprovedPrint, ApprovedKeep]))"
    using inbox_rows_jobs [of jobs] by (simp add: section_hits_def)
  have "\<exists>r \<in> set ?rows. \<not> isHeader r"
  proof (rule ccontr)
    assume "\<not> (\<exists>r \<in> set ?rows. \<not> isHeader r)"
    then have "filter (\<lambda>r. \<not> isHeader r) ?rows = []" by (simp add: filter_empty_conv)
    with inbox_rows_jobs [of jobs] have "section_hits jobs Downloaded = []" "section_hits jobs ApprovedPrint = []"
      "section_hits jobs ApprovedKeep = []" by simp_all
    then have "status e \<notin> {Downloaded, ApprovedPrint, ApprovedKeep}" if "e \<in> set jobs" for e
      using imageI [OF that, of status] unfolding section_hits_Nil by auto
    with some show False by (simp add: shown_jobs_def filter_empty_conv)
  qed
  moreover have small: "to_i16 (actionValue r) = actionValue r" if "r \<in> set ?rows" "\<not> isHeader r" for r
    using inbox_rows_range [OF that] jobs(2) by (auto simp: to_i16_small kMaxInboxJobs_def)
  moreover from h jobs b f have
    "scBody sc = [if ?rows = [] then Popup (idleScreenMessage st')
       else RowList ?rows (if \<not> found \<and> 0 \<le> first then first else row) (InboxAction ActionOpenJob)]"
    "st' = (if \<not> found \<and> 0 \<le> first then st\<lparr>selectedJobIndex := to_i16 (actionValue (?rows ! nat first))\<rparr> else st)"
    by (auto simp: homeScreen_def Let_def)
  ultimately show ?thesis
    using find_selected_spec [OF f] vals by (cases found) (auto 0 3 simp: small)
qed

lemma home_screen_lists_jobs_witness:
  "\<exists>sc st'. homeScreen toy_ui = Some (sc, st') \<and> selectedJobIndex st' = 0"
proof -
  let ?jobs = "[JobEntry_init\<lparr>jobId := ''J1''\<rparr>]"
  have jobs: "wJobs (uWeb toy_ui) = Some ?jobs" "length ?jobs \<le> kMaxInboxJobs"
    by (simp_all add: toy_ui_def toy_web_def kMaxInboxJobs_def)
  have s: "status (JobEntry_init\<lparr>jobId := x\<rparr>) = Downloaded" for x by (simp add: JobEntry_init_def)
  then have some: "shown_jobs ?jobs \<noteq> []" by (simp add: shown_jobs_def)
  have "uMode toy_ui \<in> {Inbox, Status} \<longrightarrow> length (inbox_rows ?jobs) \<le> kMaxInboxJobs + 1"
    by (simp add: length_inbox_rows shown_jobs_def s kMaxInboxJobs_def card_insert_if)
  then obtain sc st' where h: "homeScreen toy_ui = Some (sc, st')"
    using ui_outbox.screenRouter_draws [OF toy_ui_inv toy_env_laws(2), of toy_frame] jobs
    by (auto simp: screenRouter_def toy_ui_def)
  let ?hits = "concat (map (\<lambda>w. filter (\<lambda>i. status (?jobs ! i) = w) [0..<length ?jobs]) [Downloaded, ApprovedPrint, ApprovedKeep])"
  from home_screen_lists_jobs [OF h jobs some] obtain rows :: "ui_row list" and row where
    r: "map actionValue (filter (\<lambda>r. \<not> isHeader r) rows) = map int ?hits" "nat row < length rows"
      "\<not> isHeader (rows ! nat row)" "actionValue (rows ! nat row) = selectedJobIndex st'"
    by blast
  have hits: "?hits = [0]" by (simp add: JobEntry_init_def)
  from r(2,3) have "actionValue (rows ! nat row) \<in> set (map actionValue (filter (\<lambda>r. \<not> isHeader r) rows))" by simp
  also have "\<dots> = {0}" unfolding r(1) hits by simp
  finally show ?thesis using r(4) h by simp
qed

section \<open>Frames and presses\<close>

text \<open>C23: whatever frames are drawn and whichever of the offered rows, options and buttons are chosen, in any number and order:
  the index and the outbox keep their invariant, the known networks theirs, the selection stays inside the index array, the
  page inside the open document, a running web server and the web UI screen go together, and address translation is on only
  for the hotspot's bridge. So the next frame is drawn inside its buffers, except for a list of documents that is too long,
  and whatever is pressed then is handled: no handler leaves an array, and none waits for the radio for ever.
\<close>

theorem ui_keeps_invariant:
  assumes "napt_laws (weRadio E) (weSd E) napt" and "\<And>w. file_laws (weFiles E w)"
    and "clock_passes (weRadio E) kStationTimeoutMs" and "clock_passes (weRadio E) kNatTimeoutMs"
    and "ui_inv outbox_inv napt st" and "(ui_step E)\<^sup>*\<^sup>* st st'"
  shows "ui_inv outbox_inv napt st' \<and> ui_handler E a v now st' \<noteq> None \<and>
    ((uMode st' \<in> {Inbox, Status} \<longrightarrow> (\<forall>jobs. wJobs (uWeb st') = Some jobs \<longrightarrow> length (inbox_rows jobs) \<le> kMaxInboxJobs + 1)) \<longrightarrow>
     screenRouter E fe st' \<noteq> None)"
  using ui_outbox.ui_run_kept [OF assms(1,2,6,5)] ui_outbox.screenRouter_draws [OF _ assms(2), of napt st' fe]
    ui_outbox.ui_handler_defined [OF _ assms(3,4), of napt st' a v now] by blast

lemma press_footer:
  assumes "screenRouter E fe st = Some (sc, st1)" and "frame_ok fe" and "(l, a) \<in> set (scFooter sc)"
    and "ui_handler E a (fnFooterValue fe) now st1 = Some st2"
  shows "ui_step E st st2"
proof (rule ui_step.Press)
  show "(a, fnFooterValue fe) \<in> set (offers fe sc)" using assms(3) by (force simp: offers_def)
qed (use assms in \<open>auto simp: frame_ok_def\<close>)

lemma ui_keeps_invariant_witness:
  "\<exists>st'. (ui_step toy_env)\<^sup>*\<^sup>* (toy_ui\<lparr>uMode := WebUiChoice\<rparr>) st' \<and> uMode st' = Inbox \<and> ui_inv outbox_inv snd st' \<and>
    ui_handler toy_env (InboxAction ActionOpenJob) 0 1700000000 st' \<noteq> None"
proof -
  let ?st = "toy_ui\<lparr>uMode := WebUiChoice\<rparr>"
  have inv: "ui_inv outbox_inv snd ?st" by (rule ui_outbox.ui_inv_mode [OF toy_ui_inv]) (simp_all add: toy_ui_def)
  obtain sc st1 where r: "screenRouter toy_env toy_frame ?st = Some (sc, st1)"
    "scFooter sc = [(''Cancel'', InboxAction ActionCancelWebUiChoice)]"
    by (simp add: screenRouter_def webUiChoiceScreen_def)
  have "ui_step toy_env ?st (st1\<lparr>uMode := Inbox\<rparr>)"
    by (rule press_footer [OF r(1) toy_frame_ok, where l = "''Cancel''" and a = "InboxAction ActionCancelWebUiChoice" and now = 0])
      (simp_all add: r(2) ui_handler_def inbox_handler_def)
  then have s: "(ui_step toy_env)\<^sup>*\<^sup>* ?st (st1\<lparr>uMode := Inbox\<rparr>)" by (rule r_into_rtranclp)
  from ui_keeps_invariant [OF toy_env_laws(1) toy_env_laws(2) toy_clocks inv s] s show ?thesis by auto
qed

section \<open>There is a way back\<close>

lemma reader_way_back:
  assumes F: "\<And>w. file_laws (weFiles E w)" and st: "ui_inv outbox_inv napt st" and fe: "frame_ok fe" and m: "uMode st = Reader"
  shows "\<exists>st'. ui_step E st st' \<and> uMode st' = Inbox"
proof -
  obtain sc st1 where r: "readerScreen E st = Some (sc, st1)" "if selectedJobIndex st < 0 then uMode st1 = Inbox
      else scFooter sc = reader_footer st1"
    using ui_outbox.readerScreen_kept [OF st m F, where fv = 0] by (auto split: if_splits)
  then have route: "screenRouter E fe st = Some (sc, st1)" by (simp add: screenRouter_def m)
  show ?thesis
  proof (cases "selectedJobIndex st < 0")
    case True
    with r route fe show ?thesis by (auto simp: frame_ok_def intro: ui_step.Redraw)
  next
    case False
    have "ui_step E st (reader_back st1)"
      by (rule press_footer [OF route fe, where l = "''Back''" and a = "InboxAction ActionBack" and now = 0])
        (use r(2) False in \<open>simp_all add: reader_footer_def Let_def ui_handler_def inbox_handler_def\<close>)
    then show ?thesis by (auto simp: reader_back_def)
  qed
qed

lemma timeline_way_back:
  assumes "frame_ok fe" and m: "uMode st = ScreenMode.Timeline"
  shows "\<exists>st'. ui_step E st st' \<and> uMode st' = Inbox"
proof -
  have route: "screenRouter E fe st = Some (timelineScreen (fnWidth fe) (fnEmpty fe) st, st)" by (simp add: screenRouter_def m)
  have "ui_step E st (st\<lparr>uMode := Inbox\<rparr>)"
    by (rule press_footer [OF route assms(1), where l = "''Back''" and a = "PlannerAction kActionTimelineBack" and now = 0])
      (simp_all add: timelineScreen_def Let_def ui_handler_def planner_handler_def)
  then show ?thesis by auto
qed

lemma within_two:
  "\<exists>n\<le>2. (R ^^ n) x x" "R x y \<Longrightarrow> \<exists>n\<le>2. (R ^^ n) x y" "R x y \<Longrightarrow> R y z \<Longrightarrow> \<exists>n\<le>2. (R ^^ n) x z"
proof -
  show "\<exists>n\<le>2. (R ^^ n) x x" by (rule exI [of _ 0]) simp
  show "\<exists>n\<le>2. (R ^^ n) x y" if "R x y" by (rule exI [of _ "Suc 0"]) (use that in auto)
  show "\<exists>n\<le>2. (R ^^ n) x z" if "R x y" "R y z"
    by (rule exI [of _ 2]) (use that in \<open>auto simp: numeral_2_eq_2 intro: relpowp_Suc_I\<close>)
qed

text \<open>C24: from every screen of the interface but the reminder, which the device only shows on its way to sleep, there is a way
  back of at most two frames, on each of which at most one offered action is chosen: it leads to the list of documents, and
  the web server is then off. (From the list itself the way is empty.)
\<close>

theorem every_screen_has_a_way_back:
  assumes F: "\<And>w. file_laws (weFiles E w)" and L: "napt_laws (weRadio E) (weSd E) napt" and st: "ui_inv outbox_inv napt st"
    and fe: "frame_ok fe" and m: "uMode st \<noteq> CalendarReminder"
  shows "\<exists>st'. (\<exists>n\<le>2. (ui_step E ^^ n) st st') \<and> uMode st' \<in> {Inbox, Status} \<and> webMode (uWeb st') = Off"
proof -
  have off: "webMode (uWeb st') = Off" if "\<exists>n\<le>2. (ui_step E ^^ n) st st'" "uMode st' \<in> {Inbox, Status}" for st'
  proof -
    have "(ui_step E)\<^sup>*\<^sup>* st st'" using that(1) by (auto dest: relpowp_imp_rtranclp)
    from ui_outbox.ui_run_kept [OF L F this st] that(2) show ?thesis by (auto simp: ui_inv_def web_mode_ok_def)
  qed
  note press = press_footer [OF _ fe, where now = 0] and two = within_two [where R = "ui_step E"]
  have "\<exists>st'. (\<exists>n\<le>2. (ui_step E ^^ n) st st') \<and> uMode st' \<in> {Inbox, Status}"
  proof (cases "uMode st")
    case Reader
    from reader_way_back [OF F st fe Reader] show ?thesis by (blast dest: two(2))
  next
    case ActionMenu
    obtain sc where r: "screenRouter E fe st = Some (sc, st)" "(''Cancel'', InboxAction ActionCancelMenu) \<in> set (scFooter sc)"
      using ui_outbox.stores_ok_job_at [OF st]
      by (cases "selectedJobIndex st < 0") (auto simp: screenRouter_def actionMenuScreen_def Let_def ActionMenu)
    have step: "ui_step E st (st\<lparr>uMode := Reader\<rparr>)"
      by (rule press [OF r(1,2)]) (simp add: ui_handler_def inbox_handler_def)
    have "ui_inv outbox_inv napt (st\<lparr>uMode := Reader\<rparr>)" by (rule ui_outbox.ui_inv_mode [OF st]) (simp_all add: ActionMenu)
    from reader_way_back [OF F this fe] obtain st' where "ui_step E (st\<lparr>uMode := Reader\<rparr>) st'" "uMode st' = Inbox" by auto
    with two(3) [OF step] show ?thesis by blast
  next
    case WebUiChoice
    then have "ui_step E st (snd (webUiChoiceScreen st)\<lparr>uMode := Inbox\<rparr>)"
      by (intro press [where sc = "fst (webUiChoiceScreen st)" and l = "''Cancel''" and a = "InboxAction ActionCancelWebUiChoice"])
        (simp_all add: screenRouter_def webUiChoiceScreen_def ui_handler_def inbox_handler_def)
    with two(2) show ?thesis by force
  next
    case WebUi
    then have "ui_step E st (st\<lparr>uWeb := web_stop E (uWeb st), uMode := Inbox\<rparr>)"
      by (intro press [where sc = "webUiScreen E st" and l = "''Stop''" and a = "InboxAction ActionWebUiStop"])
        (simp_all add: screenRouter_def webUiScreen_def Let_def ui_handler_def inbox_handler_def)
    with two(2) show ?thesis by force
  next
    case Settings
    then have "ui_step E st (st\<lparr>settingsWifiRemoveIndex := -1, uMode := Inbox\<rparr>)"
      by (intro press [where sc = "settingsScreen fe st" and l = "''Back''" and a = "InboxAction ActionSettingsBack"])
        (simp_all add: screenRouter_def settingsScreen_def settings_footer_def ui_handler_def inbox_handler_def)
    with two(2) show ?thesis by force
  next
    case Timeline
    from timeline_way_back [OF fe Timeline, of E] show ?thesis by (blast dest: two(2))
  next
    case PomodoroScreen
    then have step: "ui_step E st (st\<lparr>uMode := ScreenMode.Timeline\<rparr>)"
      by (intro press [where sc = "pomodoroScreen (fnNow fe) st" and l = "''Back''" and a = "PomodoroAction kActionPomodoroBack"])
        (simp_all add: screenRouter_def pomodoroScreen_def Let_def ui_handler_def pomodoro_handler_def)
    from timeline_way_back [OF fe, of "st\<lparr>uMode := ScreenMode.Timeline\<rparr>" E] obtain st'
      where "ui_step E (st\<lparr>uMode := ScreenMode.Timeline\<rparr>) st'" "uMode st' = Inbox" by auto
    with two(3) [OF step] show ?thesis by blast
  qed (use m two(1) in blast)+
  with off show ?thesis by blast
qed

lemma every_screen_has_a_way_back_witness:
  "\<exists>st'. (\<exists>n\<le>2. (ui_step toy_env ^^ n) (toy_ui\<lparr>uMode := PomodoroScreen\<rparr>) st') \<and> uMode st' \<in> {Inbox, Status}"
proof -
  have inv: "ui_inv outbox_inv snd (toy_ui\<lparr>uMode := PomodoroScreen\<rparr>)"
    by (rule ui_outbox.ui_inv_mode [OF toy_ui_inv]) (simp_all add: toy_ui_def)
  from every_screen_has_a_way_back [OF toy_env_laws(2) toy_env_laws(1) inv toy_frame_ok] show ?thesis by auto
qed

section \<open>Approving and forgetting\<close>

text \<open>C25: approving on the device and approving over the web are the same operation: for the same document, action, time and
  state of the random generator both leave the same index, the same outbox and the same card, and the device goes back to
  the list of documents exactly when the web answers with success.
\<close>

theorem device_and_web_approve_alike:
  assumes sel: "selectedJobIndex st = int i" "i < length jobs" and len: "length jobs \<le> kMaxInboxJobs"
    and jobs: "wJobs (uWeb st) = Some jobs" "wOutbox (uWeb st) = Some ob"
    and rq: "posts_approval E (jobId (jobs ! i)) act rq" "requestHasValidSession (uWeb st) rq" "webMode (uWeb st) \<noteq> Off"
      "routesRegistered (uWeb st)" and m: "uMode st \<noteq> Inbox"
  shows "\<exists>st' rp web'. ui_enqueue E act (wqTime rq) st = Some st' \<and> handleClient E rq (uWeb st) = Some (Some rp, web') \<and>
    wJobs (uWeb st') = wJobs web' \<and> wOutbox (uWeb st') = wOutbox web' \<and> wWorld (uWeb st') = wWorld web' \<and>
    (uMode st' = Inbox \<longleftrightarrow> rpCode rp = 200)"
proof -
  define aid where "aid = fst (randomHex E kApprovalIdLen (uWeb st))"
  obtain r jobs' ob' where e: "enqueueApproval jobs ob (jobId (jobs ! i)) act aid (to_u32 (wqTime rq)) = (r, jobs', ob')"
    using prod_cases3 by blast
  obtain rp web' where h: "handleClient E rq (uWeb st) = Some (Some rp, web')" "wJobs web' = Some jobs'" "wOutbox web' = Some ob'"
    "rpCode rp = (case r of Ok \<Rightarrow> 200 | UnknownJob \<Rightarrow> 404 | _ \<Rightarrow> 409)"
    "wWorld web' = (if r = Ok then snd (saveJobIndex (weSd E) (weJson E)
      (snd (saveApprovalOutbox (weSd E) (weJson E) (wWorld (uWeb st)) ob')) jobs') else wWorld (uWeb st))"
    using posts_approval_handled [OF rq jobs e [unfolded aid_def]] by blast
  have job: "job_at jobs (selectedJobIndex st) = Some (jobs ! i)" using sel len by (simp add: job_at_def)
  have rh: "randomHex E kApprovalIdLen (uWeb st) = (aid, (uWeb st)\<lparr>rngPos := rngPos (uWeb st) + kApprovalIdLen\<rparr>)"
    by (simp add: prod_eq_iff aid_def)
  have u: "ui_enqueue E act (wqTime rq) st = Some (let web = (uWeb st)\<lparr>rngPos := rngPos (uWeb st) + kApprovalIdLen, wJobs := Some jobs', wOutbox := Some ob'\<rparr>
      in if r \<noteq> Ok then st\<lparr>uWeb := web\<rparr>
         else st\<lparr>uWeb := web\<lparr>wWorld := snd (saveJobIndex (weSd E) (weJson E) (snd (saveApprovalOutbox (weSd E) (weJson E) (wWorld web) ob')) jobs')\<rparr>,
                uMode := Inbox\<rparr>)"
    unfolding ui_enqueue_def rh using sel job jobs e by (simp add: Let_def)
  show ?thesis
    unfolding u using h m by (cases r) (simp_all add: Let_def)
qed

lemma device_and_web_approve_alike_witness:
  "\<exists>st'. ui_enqueue toy_env Print 1700000000 (toy_ui\<lparr>uWeb := toy_web, selectedJobIndex := 0, uMode := ActionMenu\<rparr>) = Some st' \<and>
    (\<exists>web'. handleClient toy_env (toy_request HTTP_POST ''/api/jobs'' (Some ''session=T'') []) toy_web = Some web' \<and>
      wOutbox (uWeb st') = wOutbox (snd web'))"
proof -
  let ?st = "toy_ui\<lparr>uWeb := toy_web, selectedJobIndex := 0, uMode := ActionMenu\<rparr>"
  let ?rq = "toy_request HTTP_POST ''/api/jobs'' (Some ''session=T'') []"
  let ?jobs = "[JobEntry_init\<lparr>jobId := ''J1''\<rparr>]"
  have p: "posts_approval toy_env (jobId (?jobs ! 0)) Print ?rq"
    by (simp add: posts_approval_def toy_request_def toy_env_def web_json_def json_or_str_def plain_json_def plain_get_def
        parseApprovalAction_def)
  have st: "selectedJobIndex ?st = int 0" "0 < length ?jobs" "length ?jobs \<le> kMaxInboxJobs"
    "wJobs (uWeb ?st) = Some ?jobs" "wOutbox (uWeb ?st) = Some []" "webMode (uWeb ?st) \<noteq> Off" "routesRegistered (uWeb ?st)"
    "uMode ?st \<noteq> Inbox"
    by (simp_all add: toy_web_def kMaxInboxJobs_def)
  have v: "requestHasValidSession (uWeb ?st) ?rq" using toy_session by simp
  from device_and_web_approve_alike [OF st(1-5) p v st(6-8)] show ?thesis
    by (auto simp: toy_request_def)
qed

text \<open>confirming the removal of a network forgets the network the dialog names and no other, saves the list, and closes the
  dialog.
\<close>

theorem removed_network_is_the_one_shown:
  assumes inv: "wifi_inv (creds (wWifi (uWeb st)))" and shown: "Dialog t name options \<in> set (settingsWifiTab st)"
  shows "\<exists>st' ok. wifi_confirm_remove E st = Some st' \<and> settingsWifiRemoveIndex st' = -1 \<and>
    wifi_find (creds (wWifi (uWeb st))) name \<noteq> None \<and>
    (\<forall>n. wifi_find (creds (wWifi (uWeb st'))) n =
      (if take kMaxSsidLen n = take kMaxSsidLen name then None else wifi_find (creds (wWifi (uWeb st))) n)) \<and>
    WifiStore_save (weSd E) (weJson E) (weB64 E) (weMac E) (wWorld (uWeb st)) (wWifi (uWeb st')) = Some (ok, wWorld (uWeb st'))"
proof -
  let ?store = "wWifi (uWeb st)" and ?i = "nat (settingsWifiRemoveIndex st)"
  have open_: "0 \<le> settingsWifiRemoveIndex st" "settingsWifiRemoveIndex st < to_i16 (int (length (creds ?store)))"
    "name = ssid (creds ?store ! ?i)"
    using shown by (auto simp: settingsWifiTab_def Let_def split: if_splits)
  have n: "length (creds ?store) \<le> kMaxWifiNetworks" using inv by (rule wifi.inv_length)
  with open_ have i: "?i < length (creds ?store)" by (simp add: to_i16_small kMaxWifiNetworks_def)
  with inv have ok: "cred_ok (creds ?store ! ?i)" by (simp add: wifi_inv_def list_all_length)
  then have name: "snprintf (kMaxSsidLen + 1) (ssid (creds ?store ! ?i)) = name"
    by (simp add: open_(3) snprintf_def cred_ok_def)
  let ?store' = "?store\<lparr>creds := snd (wifi_remove (creds ?store) name)\<rparr>"
  have "\<forall>c \<in> set (creds ?store'). cred_ok c"
    using wifi.rem_inv [OF inv, of name] by (simp add: wifi_inv_def list_all_iff)
  from WifiStore_save_Some [OF this, of "weSd E" "weJson E" "weB64 E" "weMac E" "wWorld (uWeb st)"]
  obtain b w where save: "WifiStore_save (weSd E) (weJson E) (weB64 E) (weMac E) (wWorld (uWeb st)) ?store' = Some (b, w)" by auto
  have "wifi_find (creds ?store) name \<noteq> None"
  proof -
    have "ssid_pos (creds ?store) name \<noteq> None"
      using i open_(3) by (auto simp: ssid_pos_def first_index_None strncmp_eq_0)
    then show ?thesis by (auto simp: wifi_find_def)
  qed
  then show ?thesis
    using open_(1,2) name save wifi.rem_fnd [OF inv] by (simp add: wifi_confirm_remove_def Let_def)
qed

lemma removed_network_is_the_one_shown_witness:
  "\<exists>st'. wifi_confirm_remove toy_env (toy_ui\<lparr>settingsWifiRemoveIndex := 1\<rparr>) = Some st' \<and>
    wifi_find (creds (wWifi (uWeb st'))) ''Home'' = None"
proof -
  let ?st = "toy_ui\<lparr>settingsWifiRemoveIndex := 1\<rparr>"
  have inv: "wifi_inv (creds (wWifi (uWeb ?st)))" using toy_wifi_inv by (simp add: toy_ui_def)
  have "\<exists>t options. Dialog t ''Home'' options \<in> set (settingsWifiTab ?st)"
    by (auto simp: settingsWifiTab_def toy_ui_def toy_store_def to_i16_small)
  then obtain t options where d: "Dialog t ''Home'' options \<in> set (settingsWifiTab ?st)" by blast
  from removed_network_is_the_one_shown [OF inv d, of toy_env] show ?thesis by auto
qed

end
