(* ===== verification/Device_Properties.thy ===== *)
theory Device_Properties
  imports Device_Sleep Ui_Properties
begin

text \<open>
  The properties of the whole device (src/firmware/src/main.cpp): from waking up, through any number of passes of its loop,
  to going to sleep and waking up again.
\<close>

section \<open>A device for the witnesses\<close>

text \<open>A network without servers, and calendar servers that send nothing.\<close>

definition toy_network :: "'c \<Rightarrow> ('s, 'c) network" where
  "toy_network c = \<lparr>
     nwHttp = \<lparr>h_begin = (\<lambda>w url. False),
       h_send = (\<lambda>rq w. (\<lparr>rsCode = 0, rsSize = 0, rsText = c, rsStart = 0, rsPolls = []\<rparr>, w))\<rparr>,
     nwSha = \<lparr>of_bytes = (\<lambda>bs. c), sha256 = (\<lambda>bs. [])\<rparr>,
     nwIcs = \<lparr>ic_begin = (\<lambda>w url. True), ic_get = (\<lambda>url w. ((200, 0, []), w))\<rparr>,
     nwMktime = no_clock,
     nwNtp = \<lparr>nt_config = (\<lambda>w. w), nt_start = (\<lambda>w. 0), nt_time = (\<lambda>w i. 1700000000), nt_millis = (\<lambda>w i. 0), nt_after = (\<lambda>w n. w)\<rparr>,
     nwTime = (\<lambda>w. 1700000000)\<rparr>"

definition toy_hw :: boot_hw where
  "toy_hw = \<lparr>hwFramebuffer = replicate 48000 0, hwSize = 48000, hwWidth = 800, hwHeight = 480, hwWake = 0\<rparr>"

lemma toy_network_ok:
  assumes "clock_passes (weRadio E) kStationTimeoutMs" shows "network_ok E (toy_network c) napt"
proof -
  have "fits_buffers []" "list_all line_ok (logical_lines [])" by code_simp+
  with assms show ?thesis
    by (simp add: network_ok_def network_keeps_def toy_network_def feeds_readable_def ntp_ends_def kConnectTimeoutMs_def kStationTimeoutMs_def)
qed

lemma toy_net: "network_ok toy_env (toy_network []) snd"
  by (rule toy_network_ok) (rule toy_clocks)

lemma toy_hw_ok: "hw_ok toy_hw"
  by (simp add: hw_ok_def toy_hw_def rowBytesOf_def)

lemma toy_card_in_shape: "card_in_shape toy_env (Map.empty, {})"
  by (simp add: card_in_shape_def toy_env_def WifiStore_load_def load_doc_def loadApprovalOutbox_def sd_with_def mem_card_def
      wifi_inv_def ix_inv_def ix_keys_def pendingJobs_def)

section \<open>While it is awake\<close>

text \<open>C4: from any card that holds no two networks of one name and no two pending approvals of one job, the device wakes up and
  every pass of its loop runs to its end, whatever the clock, the buttons, the servers and a phone do, as long as the
  calendars are text the parser gets through: the next frame can be drawn unless its list of documents is too long for its
  buffers, whatever is chosen on it is handled, nothing else leaves an array, no null pointer is followed and nothing waits
  for ever. At the end of each pass the invariants of all its parts hold together: the index holds each document once, the
  outbox at most one pending approval of each, the networks have different names, the uploads are within their caps, the web
  server runs exactly on its screen, and address translation is on only for the hotspot's bridge.
\<close>

theorem device_runs:
  assumes L: "napt_laws (weRadio E) (weSd E) napt" and F: "\<And>w. file_laws (weFiles E w)" and read: "read_laws E"
    and clock: "clock_passes (weRadio E) kStationTimeoutMs" "clock_passes (weRadio E) kNatTimeoutMs"
    and N: "network_ok E N napt" and w: "card_in_shape E w" "hw_ok hw" "napt w = {}"
  shows "\<exists>d0. device_setup E N hw w now0 m0 = Some d0 \<and>
    (\<forall>d. (loop_step E N)\<^sup>*\<^sup>* d0 d \<longrightarrow> dev_inv napt d \<and>
      ((uMode (dvUi d) \<in> {Inbox, ScreenMode.Status} \<longrightarrow>
         (\<forall>jobs. wJobs (uWeb (dvUi d)) = Some jobs \<longrightarrow> length (inbox_rows jobs) \<le> kMaxInboxJobs + 1)) \<longrightarrow>
       (\<exists>u. ui_render E (dvUi (pass_advance now d)) u)) \<and>
      (\<forall>sc u. screenRouter E fe (dvUi (pass_advance now d)) = Some (sc, u) \<longrightarrow> ui_handler E a v t u \<noteq> None) \<and>
      (\<forall>u. ui_render E (dvUi (pass_advance now d)) u \<longrightarrow> pred_option small_chunks waiting \<longrightarrow>
        (\<exists>d2 d'. pass_sync E N mSync (pass_input anyInput mInput ((pass_advance now d)\<lparr>dvUi := u\<rparr>)) = Some d2 \<and>
          pass_web E waiting mWeb d2 = Some d')))"
proof -
  obtain d0 where d0: "device_setup E N hw w now0 m0 = Some d0" "dev_inv napt d0"
    using setup_kept [where now = now0 and m = m0, OF L N w] by blast
  then have d: "dev_inv napt d" if "(loop_step E N)\<^sup>*\<^sup>* d0 d" for d using that loop_run_kept [OF L F read N _ d0(2)] by blast
  show ?thesis
  proof (rule exI [of _ d0], intro conjI allI impI)
    fix d assume "(loop_step E N)\<^sup>*\<^sup>* d0 d"
    note i = d [OF this]
    then show "dev_inv napt d" .
    show "\<exists>u. ui_render E (dvUi (pass_advance now d)) u" if "uMode (dvUi d) \<in> {Inbox, ScreenMode.Status} \<longrightarrow>
        (\<forall>jobs. wJobs (uWeb (dvUi d)) = Some jobs \<longrightarrow> length (inbox_rows jobs) \<le> kMaxInboxJobs + 1)"
      by (rule loop_step_draws [OF F i that])
    show "ui_handler E a v t u \<noteq> None" if "screenRouter E fe (dvUi (pass_advance now d)) = Some (sc, u)" for sc u
      by (rule loop_step_handles [OF F i clock that])
    show "\<exists>d2 d'. pass_sync E N mSync (pass_input anyInput mInput ((pass_advance now d)\<lparr>dvUi := u\<rparr>)) = Some d2 \<and>
        pass_web E waiting mWeb d2 = Some d'" if "ui_render E (dvUi (pass_advance now d)) u" "pred_option small_chunks waiting" for u
      using loop_step_parts(2) [OF L F read N i that] by blast
  qed (rule d0)
qed

lemma device_runs_witness:
  "\<exists>d0. device_setup toy_env (toy_network []) toy_hw (Map.empty, {}) 1700000000 0 = Some d0 \<and> dev_inv snd d0"
proof -
  note runs = device_runs [where now = 0 and waiting = None and mSync = 0 and anyInput = False and mInput = 0 and mWeb = 0 and
      fe = toy_frame and a = "InboxAction ActionSyncNow" and v = 0 and t = 0,
      OF toy_env_laws toy_read toy_clocks toy_net toy_card_in_shape toy_hw_ok snd_conv, of 1700000000 0]
  obtain d0 where d0: "device_setup toy_env (toy_network []) toy_hw (Map.empty, {}) 1700000000 0 = Some d0"
    and inv: "\<And>d. (loop_step toy_env (toy_network []))\<^sup>*\<^sup>* d0 d \<Longrightarrow> dev_inv snd d"
    using runs by (elim exE conjE) (rule that, assumption, blast)
  from inv [OF rtranclp.rtrancl_refl] d0 show ?thesis by blast
qed

text \<open>C6: a sync never takes the radio away from a phone: in every pass that syncs, the web server is off when the sync starts
  and when the pass ends, because only the list of documents offers to sync and there it never runs.
\<close>

theorem syncs_spare_the_web_server:
  assumes L: "napt_laws (weRadio E) (weSd E) napt" and F: "\<And>w. file_laws (weFiles E w)" and read: "read_laws E"
    and N: "network_ok E N napt" and w: "card_in_shape E w" "hw_ok hw" "napt w = {}"
    and d0: "device_setup E N hw w now0 m0 = Some d0" and run: "(loop_step E N)\<^sup>*\<^sup>* d0 d"
    and u: "ui_render E (dvUi (pass_advance now d)) u" "uRequestSyncNow u"
    and s: "pass_sync E N mSync (pass_input anyInput mInput ((pass_advance now d)\<lparr>dvUi := u\<rparr>)) = Some d2"
  shows "webMode (uWeb u) = Off \<and> pass_web E waiting mWeb d2 = Some d2 \<and> webMode (uWeb (dvUi d2)) = Off \<and>
    dvActivity d2 = mSync"
proof -
  have "dev_inv napt d0" using setup_kept [where now = now0 and m = m0, OF L N w] d0 by simp
  then have d: "dev_inv napt d" by (rule loop_run_kept [OF L F read N run])
  have off: "webMode (uWeb u) = Off" using loop_step_parts(1) [OF L F read N d u(1), of None] u(2) by simp
  with s u(2) show ?thesis
    by (auto simp: pass_sync_def pass_input_def runSyncPass_def pass_web_def Let_def split: if_splits option.splits)
qed

lemma toy_boot:
  "\<exists>d0. device_setup toy_env (toy_network []) toy_hw (Map.empty, {}) now 0 = Some d0 \<and> wJobs (uWeb (dvUi d0)) = Some [] \<and>
    uMode (dvUi d0) = Inbox"
  by (simp add: device_setup_def runSyncPass_def device_wire_def Let_def boot_load_def initApp_def attach_def InboxUiState_init_def
      WebUiServer_init_def runFullSync_def DeviceConfig_load_def load_doc_def loadJobIndex_def toy_env_def sd_with_def mem_card_def
      DeviceConfigData_init_def)

lemma syncs_spare_the_web_server_witness:
  "\<exists>d0 u d2. device_setup toy_env (toy_network []) toy_hw (Map.empty, {}) 1700000000 0 = Some d0 \<and>
    ui_render toy_env (dvUi (pass_advance 1700000060 d0)) u \<and>
    pass_sync toy_env (toy_network []) 60 (pass_input True 0 ((pass_advance 1700000060 d0)\<lparr>dvUi := u\<rparr>)) = Some d2 \<and> dvActivity d2 = 60"
proof -
  obtain d0 where d0: "device_setup toy_env (toy_network []) toy_hw (Map.empty, {}) 1700000000 0 = Some d0"
    "wJobs (uWeb (dvUi d0)) = Some []" "uMode (dvUi d0) = Inbox"
    using toy_boot by blast
  have inv: "dev_inv snd d0"
    using setup_kept [OF toy_env_laws(1) toy_net toy_card_in_shape toy_hw_ok, of 1700000000 0] d0(1) by simp
  let ?u = "dvUi (pass_advance 1700000060 d0)"
  have home: "wJobs (uWeb ?u) = Some []" "uMode ?u = Inbox" using d0 by (simp_all add: pass_advance_def Let_def)
  obtain sc u1 where r: "screenRouter toy_env toy_frame ?u = Some (sc, u1)" "scFooter sc = home_footer"
    by (simp add: screenRouter_def homeScreen_def home buildInboxListItems_def kJobSections_def Let_def)
  have "ui_step toy_env ?u (u1\<lparr>uRequestSyncNow := True\<rparr>)"
    by (rule press_footer [OF r(1) toy_frame_ok, where l = "''Sync Now''" and a = "InboxAction ActionSyncNow" and now = 0])
      (simp_all add: r(2) home_footer_def ui_handler_def inbox_handler_def)
  then have u: "ui_render toy_env ?u (u1\<lparr>uRequestSyncNow := True\<rparr>)" by (rule ui_render.once)
  from loop_step_parts(2) [OF toy_env_laws toy_read toy_net inv u, of None 60 True 0 0]
  obtain d2 where s: "pass_sync toy_env (toy_network []) 60 (pass_input True 0 ((pass_advance 1700000060 d0)\<lparr>dvUi := u1\<lparr>uRequestSyncNow := True\<rparr>\<rparr>)) = Some d2"
    by auto
  from syncs_spare_the_web_server [OF toy_env_laws toy_read toy_net toy_card_in_shape toy_hw_ok _ d0(1) _ u _ s]
  show ?thesis using d0(1) u s by auto
qed

lemma elapsed_u32:
  "0 \<le> d \<Longrightarrow> d < 2 ^ 32 \<Longrightarrow> uint (m0 + word_of_int d - m0 :: u32) = d"
  by (simp add: uint_word_of_int)

text \<open>The idle timer survives the wrap-around of the 32-bit millisecond counter: after input, a pass ends in sleep exactly when
  more than 90 seconds have gone by since, wherever the counter stood, unless the pass synced or served the web.
\<close>

theorem idle_timeout_wraps:
  assumes "0 \<le> t" and "t < 2 ^ 32" and "\<not> uRequestSyncNow (dvUi d)" and "\<not> (uMode (dvUi d) = WebUi \<and> webMode (uWeb (dvUi d)) \<noteq> Off)"
    and "pass_sync E N mSync (pass_input True mInput d) = Some d2" and "pass_web E waiting mWeb d2 = Some d'"
  shows "idle (mInput + word_of_int t) d' \<longleftrightarrow> 90000 < t"
proof -
  have "dvActivity d' = mInput" using assms(3-) by (auto simp: pass_sync_def pass_input_def pass_web_def Let_def)
  then show ?thesis
    using elapsed_u32 [OF assms(1,2), of mInput] by (simp add: idle_def kIdleSleepTimeoutMs_def word_less_def)
qed

section \<open>Asleep and awake again\<close>

text \<open>C5: whenever the invariant of the device holds (C4), it can go to sleep: with the web server and address translation off,
  and a timer of at most an hour, which is not armed exactly when a checkpoint of the Pomodoro session is due at once, that is,
  for a sane clock, when its phase is over (then only the button wakes the device). On a card whose writes succeed the next wake
  finds the tasks as they were; the documents and approvals but for what the files do not carry: an entry
  without an id, a number from \<open>2 ^ 31\<close> on (a time from 2038 on, which comes back as 0) and what exceeds a buffer, so
  that documents which have an id, fit and have small numbers come back unchanged; and the Pomodoro session, its times read the
  same way, caught up to the time of the wake.
\<close>

theorem sleep_and_wake:
  assumes L: "napt_laws (weRadio E) (weSd E) napt" and sd: "sd_laws (weSd E)" and J: "json_laws (weJson E)"
    and works: "saves_work (weSd E)" and d: "dev_inv napt d"
  shows "\<exists>st web w timer. device_app d = Some st \<and> device_sleep E t1 t2 d = Some (web, w, timer) \<and>
    webMode web = Off \<and> napt w = {} \<and>
    timer = sleepUntilNextEvent (nextWakeIntervalSeconds st t1 t2) \<and> sleep_timer_ok st t2 timer \<and>
    jobIndex (boot_load (weSd E) (weJson E) (weB64 E) (weMac E) w now) = jobs_readable (jobIndex st) \<and>
    (list_all JobEntry_ok (jobIndex st) \<longrightarrow> jobs_readable (jobIndex st) = jobIndex st) \<and>
    outboxIndex (boot_load (weSd E) (weJson E) (weB64 E) (weMac E) w now) = outbox_readable (outboxIndex st) \<and>
    plannerTaskIndex (boot_load (weSd E) (weJson E) (weB64 E) (weMac E) w now) = plannerTaskIndex st \<and>
    pomodoroSession (boot_load (weSd E) (weJson E) (weB64 E) (weMac E) w now) =
      snd (advance (session_readable (pomodoroSession st)) now)"
proof -
  have core: "core_inv napt (dvUi d)" using d by (simp add: dev_inv_def)
  then obtain st where app: "device_app d = Some st" using device_app_wired by blast
  define web where "web = (if webMode (uWeb (dvUi d)) \<noteq> Off then web_stop E (uWeb (dvUi d)) else uWeb (dvUi d))"
  note off = radio_off [OF L d, folded web_def]
  obtain w timer where s: "goToSleep (weSd E) (weJson E) (wWorld web) st (nextWakeIntervalSeconds st t1 t2) = (w, timer)"
    by (rule prod.exhaust)
  have "napt w = {}" "timer = sleepUntilNextEvent (nextWakeIntervalSeconds st t1 t2)"
    using goToSleep_keeps [OF card_keeps_napt [OF L], of "weJson E" "wWorld web" st] goToSleep_timer off(2) s
    by (metis fst_conv, metis snd_conv)
  moreover have "device_sleep E t1 t2 d = Some (web, w, timer)" by (simp add: device_sleep_def app web_def [symmetric] s Let_def)
  ultimately show ?thesis
    using app off(1) goToSleep_loads [OF sd J works device_app_saveable [OF core app] s] sleep_timer [of st t2 t1]
    by (simp add: boot_load_def jobs_readable_ok)
qed

definition json_env :: "((string \<rightharpoonup> json_out) \<times> u32 set, json_out, json_out, u8 list) web_env" where
  "json_env = \<lparr>weSd = sd_with mem_card, weJson = plain_json, weB64 = plain_b64, weMac = [0, 0, 0, 0, 0, 0],
     weRadio = toy_radio toy_nets, weFiles = (\<lambda>w. plain_file Map.empty), weBytes = (\<lambda>bs. JArr []),
     weRandom = word_of_nat, weAsset = (\<lambda>_. [])\<rparr>"

definition json_card :: "(string \<rightharpoonup> json_out) \<times> u32 set" where
  "json_card = ([kJobIndexPath \<mapsto> j_serialize plain_json (jobs_doc [ex_job])], {})"

lemma json_env_laws:
  "napt_laws (weRadio json_env) (weSd json_env) snd" "sd_laws (weSd json_env)" "json_laws (weJson json_env)" "saves_work (weSd json_env)"
proof -
  show "napt_laws (weRadio json_env) (weSd json_env) snd" by (simp add: json_env_def toy_napt_laws)
  show "sd_laws (weSd json_env)" by (simp add: json_env_def sd_with_laws mem_card_laws)
  show "json_laws (weJson json_env)" by (simp add: json_env_def plain_json_laws)
  show "saves_work (weSd json_env)"
    by (auto simp: saves_work_def json_env_def writeFileAtomic_def sd_with_def mem_card_def Let_def split_def)
qed

lemma json_net: "network_ok json_env (toy_network (JArr [])) snd"
  by (rule toy_network_ok) (simp add: json_env_def kStationTimeoutMs_def toy_radio_clock)

lemma sleep_and_wake_witness:
  "\<exists>d st web w timer. device_setup json_env (toy_network (JArr [])) toy_hw json_card 1700000000 0 = Some d \<and> device_app d = Some st \<and>
    device_sleep json_env 1700000090 1700000090 d = Some (web, w, timer) \<and>
    jobIndex (boot_load (weSd json_env) (weJson json_env) (weB64 json_env) (weMac json_env) w 1700003690) = [ex_job]"
proof -
  have files: "sd_files (weSd json_env) json_card p = (if p = kJobIndexPath then Some (j_serialize plain_json (jobs_doc [ex_job])) else None)" for p
    by (simp add: json_env_def json_card_def sd_with_def mem_card_def)
  have "loadJobIndex (weSd json_env) (weJson json_env) json_card = (True, [ex_job])"
    using loadJobIndex_of_file [OF json_env_laws(2,3), of json_card "[ex_job]"] ex_job_ok files
    by (simp add: jobs_readable_ok) (simp add: json_env_def)
  note loads = this
  let ?card = "weSd json_env" and ?p = "snd (advance PomodoroState_init 1700000000)"
  have none: "\<not> sd_exists ?card json_card p" if "p \<noteq> kJobIndexPath" for p
    using files [of p] that sd_existsD [OF json_env_laws(2)] by simp
  have paths: "kOutboxPath \<noteq> kJobIndexPath" "kPlannerIndexPath \<noteq> kJobIndexPath" "kPomodoroStatePath \<noteq> kJobIndexPath"
    "kDeviceConfigPath \<noteq> kJobIndexPath" "kWifiStorePath \<noteq> kJobIndexPath"
    by (simp_all add: kOutboxPath_def kJobIndexPath_def kPlannerIndexPath_def kPomodoroStatePath_def kDeviceConfigPath_def kWifiStorePath_def)
  have "\<exists>d st. device_setup json_env (toy_network (JArr [])) toy_hw json_card 1700000000 0 = Some d \<and> device_app d = Some st \<and>
      jobIndex st = [ex_job] \<and> outboxIndex st = [] \<and> plannerTaskIndex st = [] \<and> pomodoroSession st = ?p"
    by (simp add: device_setup_def runSyncPass_def device_wire_def Let_def boot_load_def initApp_def attach_def InboxUiState_init_def
      WebUiServer_init_def runFullSync_def DeviceConfig_load_def load_doc_def loadApprovalOutbox_def loadPlannerIndex_def
      loadPomodoroSession_def loads none paths DeviceConfigData_init_def device_app_def)
  then obtain d st where d: "device_setup json_env (toy_network (JArr [])) toy_hw json_card 1700000000 0 = Some d" "device_app d = Some st"
    "jobIndex st = [ex_job]" "outboxIndex st = []" "plannerTaskIndex st = []" "pomodoroSession st = ?p" by blast
  have shape: "card_in_shape json_env json_card"
    by (simp add: card_in_shape_def WifiStore_load_def load_doc_def loadApprovalOutbox_def none paths wifi_inv_def ix_inv_def
      ix_keys_def pendingJobs_def)
  have inv: "dev_inv snd d"
    using setup_kept [OF json_env_laws(1) json_net shape toy_hw_ok, of 1700000000 0] d(1) by (simp add: json_card_def)
  from sleep_and_wake [OF json_env_laws inv, of 1700000090 1700000090 1700003690] d ex_job_ok(2) show ?thesis by auto
qed

text \<open>C7: a wake by the timer always ends in sleep again: it loads, syncs, draws at most one frame and saves, with address
  translation off. The timer it arms then is of at most an hour; it arms none exactly when a checkpoint of the Pomodoro session is
  due at once, that is, for a sane clock, when a phase is over by then, and that sleep lasts until a button. On a
  card whose writes succeed, whoever wakes next loads the tasks it left, and the documents and approvals it left as far as the
  files carry them (C5).
\<close>

theorem timer_wake_sleeps_again:
  fixes E :: "('s, 'c, 'v, 'f) web_env"
  assumes L: "napt_laws (weRadio E) (weSd E) napt" and N: "network_ok E N napt"
    and w: "card_in_shape E w" "hw_ok hw" "napt w = {}"
    and sd: "sd_laws (weSd E)" and J: "json_laws (weJson E)" and works: "saves_work (weSd E)"
  shows "\<exists>frame st' w' timer. device_timer E N hw w now tDecide tCheck t1 t2 = Some (frame, st', w', timer) \<and>
    timer = sleepUntilNextEvent (nextWakeIntervalSeconds st' t1 t2) \<and> sleep_timer_ok st' t2 timer \<and> napt w' = {} \<and>
    JobIndex_inv (jobIndex st') \<and> loadJobIndex (weSd E) (weJson E) w' = (True, jobs_readable (jobIndex st')) \<and>
    loadApprovalOutbox (weSd E) (weJson E) w' = (True, outbox_readable (outboxIndex st')) \<and>
    loadPlannerIndex (weSd E) (weJson E) w' = (True, plannerTaskIndex st')"
proof -
  let ?d = "device_wire hw (boot_load (weSd E) (weJson E) (weB64 E) (weMac E) w now) w :: ('s, 'f) device"
  have wire: "dev_inv napt ?d" using w by (rule wire_core)
  then have "core_inv napt (dvUi ?d)" by (simp add: dev_inv_def)
  moreover have "wWorld (uWeb (dvUi ?d)) = w"
    by (simp add: device_wire_def Let_def initApp_def attach_def InboxUiState_init_def WebUiServer_init_def)
  ultimately obtain d where d: "runSyncPass E N ?d = Some d" "core_inv napt (dvUi d)" "napt (wWorld (uWeb (dvUi d))) = {}"
    using core_sync [OF L N, of ?d] w(3) by auto
  then obtain st where st: "device_app d = Some st" using device_app_wired by blast
  obtain frame st' w' timer where
    r: "setup_timer (weSd E) (weJson E) (\<lambda>sw. sw) (st, wWorld (uWeb (dvUi d))) tDecide tCheck t1 t2 = (frame, st', w', timer)"
    by (rule prod_cases4)
  note card = card_keeps_napt [OF L]
  from setup_timer_sleeps [OF card r] obtain w1 ev where
    s: "goToSleep (weSd E) (weJson E) w1 st' (nextWakeIntervalSeconds st' t1 t2) = (w', timer)"
    and n: "napt w1 = {}" and st': "st' = st\<lparr>nextEvent := ev\<rparr>" using d(3) by auto
  have ok: "saveable st'" using device_app_saveable [OF d(2) st] by (simp add: st' saveable_def)
  moreover have "napt w' = {}" "timer = sleepUntilNextEvent (nextWakeIntervalSeconds st' t1 t2)"
    using goToSleep_keeps [OF card, of "weJson E" w1 st'] goToSleep_timer n s by (metis fst_conv, metis snd_conv)
  moreover have "device_timer E N hw w now tDecide tCheck t1 t2 = Some (frame, st', w', timer)"
    by (simp add: device_timer_def d(1) st r)
  moreover have "sleep_timer_ok st' t2 timer" using calculation(3) sleep_timer by simp
  moreover have "JobIndex_inv (jobIndex st')" using ok by (simp add: saveable_def)
  moreover note goToSleep_loads(1-3) [OF sd J works ok s]
  ultimately show ?thesis by (intro exI conjI)
qed

lemma timer_wake_sleeps_again_witness:
  "\<exists>frame st' w' timer. device_timer json_env (toy_network (JArr [])) toy_hw (Map.empty, {}) 1700000000 1700000000 1700000000 1700000000 1700000000 =
    Some (frame, st', w', timer) \<and> (\<forall>us. timer = Some us \<longrightarrow> 0 < uint us \<and> uint us \<le> 3600 * 1000000)"
proof -
  have "card_in_shape json_env (Map.empty, {})"
    by (simp add: card_in_shape_def json_env_def WifiStore_load_def load_doc_def loadApprovalOutbox_def sd_with_def mem_card_def
      wifi_inv_def ix_inv_def ix_keys_def pendingJobs_def)
  note wake = timer_wake_sleeps_again [OF json_env_laws(1) json_net this toy_hw_ok snd_conv json_env_laws(2-4)]
  from wake [of 1700000000 1700000000 1700000000 1700000000 1700000000] show ?thesis
    unfolding sleep_timer_ok_def by (elim exE conjE) (intro exI conjI, assumption+)
qed

end
