(* ===== verification/Spec2Isabelle.thy ===== *)
theory Spec2Isabelle
  imports Device_Properties Main_Loop Sync_Client Calendar_Sync Planner_Store
begin

text \<open>
  Focusink, the firmware of an e-paper print inbox, planner and Pomodoro timer (src/firmware/src), and the two WebAssembly
  modules its web pages use (src/tools/xtc-wasm). A computer on the network prints to a small server, the Pi; the device
  wakes, fetches the printed documents as page bitmaps, shows them, lets its user decide what to print, keep or delete, sends
  the decisions back, and sleeps. Next to that it shows the next calendar event and the day's tasks, runs a Pomodoro timer,
  and can serve its inbox to a phone.

  The parts, how they interact, and where they are.

  \<^item> Libraries. Prelude: C strings, words and lists. Platform: the SD card and the JSON library, whose documented behaviour
    are the predicates \<open>sd_laws\<close> and \<open>json_laws\<close>. Atomic_File: store/AtomicJsonFile.cpp, the write every store uses, as a
    function and as the calls it makes one at a time, so that a power loss can fall between any two.

  \<^item> Stores. Bounded_Index: the locale of a bounded array looked up by key, with its abstract specification, a finite map of
    bounded size; Job_Store (store/JobStore), Planner_Store (store/PlannerStore) and Wifi_Store (config/WifiStore) interpret
    it. Approval_Outbox (store/ApprovalOutbox): the decisions that wait to be sent. Config_Stores: the four settings files
    (config/AppSettings, CalendarCache, CalendarConfig, DeviceConfig). Pomodoro (pomodoro/PomodoroSession): the phases of a
    session and how it catches up with the clock.

  \<^item> Documents. Xtc_Format (xtc/XtcFormat.h, xtc_decoder.cpp, xtc_encoder.cpp): headers, the dithering encoder and the
    decoder; Xtc_Reader (xtc/XtcReader): drawing a page from the card into the framebuffer.

  \<^item> Synchronisation. Sync_Manager (sync/SyncManager): a pass over an abstract client; Sync_Trace: the log of its calls and
    the protocol they obey, draining as a filter, downloads as a batch; Sync_Client (net/SyncClient): the client itself, from
    the trust of TLS to the verified download; Sync_Keeps: what a pass keeps, whatever is answered. Wifi_Radio
    (net/WifiManager, net/NatBridge): joining a network, the hotspot, address translation.

  \<^item> Calendars. Civil_Date (calendar/TimeUtil.h), Ics_Text and Ics_Parser (calendar/IcsParser): the feed parser, fed in
    chunks; Ics_Lines: line assembly is unfolding; Ics_Safety: what every run keeps; Ics_Total: which feeds are parsed to
    their end; Ics_Expand: recurrence against the days a rule denotes; Calendar_Sync (net/IcsFetch, calendar/CalendarSync):
    from the feeds to the next event. Wake_Schedule (calendar/WakeSchedule, power/SleepManager): reminders, the reason of a
    wake, the timer. Timeline (ui/TimelineMerge.h, ui/CategoryStyle): tasks and event in one list.

  \<^item> The web server on the device (ui/WebUiServer, util/Random.h). Web_Session: state, starting, stopping, sessions; Web_Api:
    the JSON routes; Web_Upload: the streamed uploads; Web_Server: dispatch, and what a stranger sees; Web_Safety: the
    invariant under any requests; Web_Outcomes: what one operation achieves; Web_Properties.

  \<^item> The interface (ui/InboxUI, ui/PlannerUI, ui/PomodoroUI). Ui_State: the state; Planner_Ui and Inbox_Ui: each screen as
    what it asks FreeInkUI to draw and the state it leaves; Ui_Actions: each handler, and frames and presses as the step
    relation \<open>ui_step\<close>; Ui_Lists: the rows of the home screen; Ui_Invariant: what every step keeps, proved in the locale
    \<open>approval_queue\<close> over the contract the interface has with index and outbox; Ui_Properties.

  \<^item> The whole device (main.cpp). Main_Loop: loading, how long to sleep, the wake by the timer. Device: the wiring of all the
    parts, the wake by a button, one pass of \<^verbatim>\<open>loop()\<close> as the step relation \<open>loop_step\<close>, going to sleep; a sync of the
    device runs the pass of Sync_Manager on the client of Sync_Client, the radio of Wifi_Radio and the calendars of
    Calendar_Sync. Device_Network and Device_Frame: what the network and the other parts leave alone; Device_Invariant: the
    invariants of all parts hold together after every pass; Device_Sleep: what is saved and loaded again; Device_Properties.

  State and operations are named as in the code. A class or a struct is a record, an object and its members a value that
  the operations take and return; the index, the outbox, the tasks and the settings that main.cpp shares through pointers
  are members of one record (\<open>web_state\<close> inside \<open>ui_state\<close> inside \<open>device\<close>), each an option while its pointer may be
  null. Integers of a fixed width are words; a \<^verbatim>\<open>time_t\<close> is an integer. A refusal or an error of the code is a value of its
  result; an access outside an array, a use of a null pointer and a wait that does not end are the result \<open>None\<close>, so that
  "the result is not \<open>None\<close>" is a theorem to prove.

  What the lemmas show. Refinement: the stores are bounded maps under any sequence of operations, draining the outbox is a
  filter, saving and loading are inverse up to the numbers JSON does not carry, also across sleep. Safety: an approval is
  never lost, not in memory, not by a power loss during a write; only verified documents enter the index and are
  acknowledged; the pass obeys its protocol; strangers neither change nor learn anything; rendering and streaming stay in
  their buffers; reminders fire once; a sync never runs while the web server does. Equivalence: catching up equals stepping,
  the decoder and the reader agree on what the encoder wrote, recurrence equals the set of days, the timeline is a stable
  sort, the device and the web approve alike. Termination and liveness: parsing, syncing, requests, every pass of the loop and
  every wake by the timer end, and from every screen two frames lead back. Errors: which feeds, requests and inboxes break the
  code.

  Loops and their bounds. Every bounded loop of the code keeps its bound and its fuel is that bound: 1000 transitions of
  \<^verbatim>\<open>advance()\<close>, 40000 days, 1200 months and 100 years of \<^verbatim>\<open>expandRecurrence()\<close>; the lemmas say what the bound cuts off. The
  reads of a connection recurse over the list of what each turn finds, which ends when the connection does. Waiting for the
  radio or for NTP has no such list: it is a partial function, and it ends if \<^verbatim>\<open>millis()\<close> passes the time-out
  (\<open>clock_passes\<close>, \<open>ntp_ends\<close>).

  Parameters, with what is assumed of them as named hypotheses: the card (\<open>sd_laws\<close>; \<open>sd_works\<close> and \<open>saves_work\<close> when it must
  not fail), JSON (\<open>json_laws\<close>), base64 (\<open>b64_laws\<close>), files (\<open>file_laws\<close>, \<open>read_laws\<close>, and \<open>file_content\<close> for one whose bytes
  are known, within its length), the radio and address translation (\<open>napt_laws\<close>), HTTP and TLS (\<open>http_frame\<close>: they touch no file)
  and SHA-256, the value FreeInkUI gives with a footer button (\<open>frame_ok\<close> and the rules of \<open>ui_step\<close>: a number of 0 to 63, as
  a row's is), \<^verbatim>\<open>mktime\<close>, the random numbers, \<^verbatim>\<open>float\<close> arithmetic of the encoder, and
  every reading of a clock, a button or a sensor. Each has a concrete instance on which the properties are applied.

  Not modelled. The generated byte arrays ui/PagesData.h, XtcDecoderWasmData.h and XtcEncoderWasmData.h, which the server
  sends as they are (\<open>weAsset\<close>). What FreeInkUI does with a screen: its layout and painting, and how buttons move the focus; of
  a frame the model has the rows, buttons, dialogs and texts, and any of the offered actions may be chosen. Starting the
  peripherals and the serial log. The
  programs in Python (src/pi-server, src/relay), the host tests and the build files. In the model the pointer to the next
  event is never null, as \<^verbatim>\<open>setup()\<close> always sets it, and an interrupted program is modelled for the atomic write only.
\<close>

end
